(* ===== verification/Prelude.thy ===== *)
theory Prelude
  imports Complex_Main
begin

text \<open>
  Shared vocabulary of the development: the exceptions a Python expression of the
  modelled code can raise, the sequencing of computations that may raise, negative
  slices, and the fact collections the component theories extend.

  A Python \<open>float\<close> that carries a time, a rate or a confidence is an exact rational
  (\<open>rat\<close>): the rounding of IEEE doubles is not modelled.
\<close>

section \<open>Fact collections\<close>

named_theorems py_simps \<open>evaluation of the Python primitives\<close>
named_theorems op_defs \<open>definitions of the components' operations\<close>

section \<open>Results of code that may raise\<close>

datatype py_exc =
    TypeError
  | ValueError
  | KeyError
  | IndexError
  | AttributeError
  | TimeoutError

type_synonym 'a res = "py_exc + 'a"

definition ebind :: "'a res \<Rightarrow> ('a \<Rightarrow> 'b res) \<Rightarrow> 'b res" where
  "ebind r f = (case r of Inl e \<Rightarrow> Inl e | Inr x \<Rightarrow> f x)"

lemma ebind_simps [simp, py_simps]:
  "ebind (Inl e) f = Inl e"
  "ebind (Inr x) f = f x"
  by (simp_all add: ebind_def)

lemma ebind_assoc: "ebind (ebind r f) g = ebind r (\<lambda>x. ebind (f x) g)"
  by (simp add: ebind_def split: sum.splits)

lemma ebind_Inr_iff: "ebind r f = Inr y \<longleftrightarrow> (\<exists>x. r = Inr x \<and> f x = Inr y)"
  by (cases r) auto

text \<open>\<open>try: ... except E: default\<close> around a computation that may raise.\<close>

definition or_else :: "'a res \<Rightarrow> 'a \<Rightarrow> 'a" where
  "or_else r d = (case r of Inl _ \<Rightarrow> d | Inr x \<Rightarrow> x)"

lemma or_else_simps [simp, py_simps]:
  "or_else (Inl e) d = d"
  "or_else (Inr x) d = x"
  by (simp_all add: or_else_def)

text \<open>What a \<^verbatim>\<open>git\<close> command answered: it timed out, it failed, or it ended well with an
  output.\<close>

datatype git_answer = Git_timeout | Git_failed | Git_out "char list"

section \<open>Lists\<close>

text \<open>The slice \<open>xs[-n:]\<close> for a positive \<open>n\<close>.\<close>

definition last_n :: "nat \<Rightarrow> 'a list \<Rightarrow> 'a list" where
  "last_n n xs = drop (length xs - n) xs"

text \<open>The slice \<open>xs[i:]\<close>: a negative index counts from the end.\<close>

definition slice_from :: "int \<Rightarrow> 'a list \<Rightarrow> 'a list" where
  "slice_from i xs = (if i < 0 then last_n (nat (- i)) xs else drop (nat i) xs)"

lemma length_last_n [simp]: "length (last_n n xs) = min n (length xs)"
  by (simp add: last_n_def)

lemma last_n_id: "length xs \<le> n \<Longrightarrow> last_n n xs = xs"
  by (simp add: last_n_def)

lemma set_last_n: "set (last_n n xs) \<subseteq> set xs"
  by (simp add: last_n_def set_drop_subset)

lemma last_n_snoc: "0 < n \<Longrightarrow> last_n n (xs @ [x]) = last_n (n - 1) xs @ [x]"
  by (cases n) (auto simp: last_n_def Suc_diff_le not_le)

text \<open>A bounded \<open>collections.deque(maxlen=n)\<close> append: the oldest entry falls out.\<close>

definition deque_append :: "nat \<Rightarrow> 'a list \<Rightarrow> 'a \<Rightarrow> 'a list" where
  "deque_append n xs x = last_n n (xs @ [x])"

lemma length_deque_append: "length (deque_append n xs x) = min n (Suc (length xs))"
  by (simp add: deque_append_def)

text \<open>A list in two phases, one entry longer.\<close>

lemma two_phase_snoc:
  "(replicate (min n k) a @ replicate (n - k) b) @ [if k \<le> n then b else a] =
     replicate (min (Suc n) k) a @ replicate (Suc n - k) b"
proof (cases "k \<le> n")
  case True
  then show ?thesis by (simp add: Suc_diff_le replicate_append_same)
next
  case False
  then have "min (Suc n) k = Suc n" "min n k = n" "n - k = 0" "Suc n - k = 0" by auto
  then show ?thesis using False by (simp add: replicate_append_same)
qed

section \<open>Runs\<close>

text \<open>A machine that answers each event with a value and a new state, run over a list of
  events: the answers in order, and the last state.\<close>

fun run_with :: "('t \<Rightarrow> 'e \<Rightarrow> 'v \<times> 't) \<Rightarrow> 't \<Rightarrow> 'e list \<Rightarrow> 'v list \<times> 't" where
  "run_with step t [] = ([], t)"
| "run_with step t (e # es) =
     (fst (step t e) # fst (run_with step (snd (step t e)) es),
      snd (run_with step (snd (step t e)) es))"

lemma run_with_append:
  "run_with step t (es @ fs) =
     (fst (run_with step t es) @ fst (run_with step (snd (run_with step t es)) fs),
      snd (run_with step (snd (run_with step t es)) fs))"
  by (induction es arbitrary: t) auto

lemma length_run_with [simp]: "length (fst (run_with step t es)) = length es"
  by (induction es arbitrary: t) auto

lemma run_with_invariant:
  assumes "\<And>t e. P t \<Longrightarrow> P (snd (step t e))" and "P t"
  shows "P (snd (run_with step t es))"
  using assms(2) by (induction es arbitrary: t) (auto simp: assms(1))

end
