(* ===== verification/Py_Strings.thy ===== *)
theory Py_Strings
  imports Prelude
begin

text \<open>
  The string primitives of Python the modelled code uses, on \<open>string = char list\<close>.
  A \<open>char\<close> is a byte: a text is its UTF-8 encoding, case folding and white space are
  those of ASCII, and slices count bytes.
\<close>

section \<open>Characters\<close>

definition is_space :: "char \<Rightarrow> bool" where
  "is_space c = (let n = (of_char c :: nat) in (9 \<le> n \<and> n \<le> 13) \<or> (28 \<le> n \<and> n \<le> 32))"

definition is_digit :: "char \<Rightarrow> bool" where
  "is_digit c = (let n = (of_char c :: nat) in 48 \<le> n \<and> n \<le> 57)"

definition digit_val :: "char \<Rightarrow> int" where
  "digit_val c = int (of_char c) - 48"

definition lower_char :: "char \<Rightarrow> char" where
  "lower_char c = (let n = (of_char c :: nat) in if 65 \<le> n \<and> n \<le> 90 then char_of (n + 32) else c)"

definition is_word :: "char \<Rightarrow> bool" where
  "is_word c = (let n = (of_char c :: nat) in
     (48 \<le> n \<and> n \<le> 57) \<or> (65 \<le> n \<and> n \<le> 90) \<or> n = 95 \<or> (97 \<le> n \<and> n \<le> 122))"

section \<open>Methods of \<open>str\<close>\<close>

definition lower :: "string \<Rightarrow> string" where
  "lower s = map lower_char s"

definition upper_char :: "char \<Rightarrow> char" where
  "upper_char c = (let n = (of_char c :: nat) in if 97 \<le> n \<and> n \<le> 122 then char_of (n - 32) else c)"

definition upper :: "string \<Rightarrow> string" where
  "upper s = map upper_char s"

definition strip_by :: "(char \<Rightarrow> bool) \<Rightarrow> string \<Rightarrow> string" where
  "strip_by p s = rev (dropWhile p (rev (dropWhile p s)))"

definition strip :: "string \<Rightarrow> string" where
  "strip s = strip_by is_space s"

definition strip_chars :: "string \<Rightarrow> string \<Rightarrow> string" where
  "strip_chars cs s = strip_by (\<lambda>c. c \<in> set cs) s"

definition rstrip_chars :: "string \<Rightarrow> string \<Rightarrow> string" where
  "rstrip_chars cs s = rev (dropWhile (\<lambda>c. c \<in> set cs) (rev s))"

definition starts_with :: "string \<Rightarrow> string \<Rightarrow> bool" where
  "starts_with p s = (take (length p) s = p)"

definition ends_with :: "string \<Rightarrow> string \<Rightarrow> bool" where
  "ends_with p s \<longleftrightarrow> starts_with (rev p) (rev s)"

fun contains :: "string \<Rightarrow> string \<Rightarrow> bool" where
  "contains p [] = (p = [])"
| "contains p (c # s) = (starts_with p (c # s) \<or> contains p s)"

text \<open>\<open>text.find(c)\<close> for one character, as an option, and \<open>text.rfind(c)\<close>.\<close>

fun find_char :: "char \<Rightarrow> string \<Rightarrow> nat option" where
  "find_char c [] = None"
| "find_char c (x # s) = (if x = c then Some 0 else map_option Suc (find_char c s))"

definition rfind_char :: "char \<Rightarrow> string \<Rightarrow> nat option" where
  "rfind_char c s = map_option (\<lambda>i. length s - 1 - i) (find_char c (rev s))"

text \<open>\<open>sep.join(xs)\<close>.\<close>

fun join :: "string \<Rightarrow> string list \<Rightarrow> string" where
  "join sep [] = []"
| "join sep [x] = x"
| "join sep (x # y # xs) = x @ sep @ join sep (y # xs)"

text \<open>\<open>s.split()\<close>: the maximal runs of characters that are not white space.\<close>

fun split_ws_aux :: "string \<Rightarrow> string \<Rightarrow> string list" where
  "split_ws_aux acc [] = (if acc = [] then [] else [rev acc])"
| "split_ws_aux acc (c # s) =
     (if is_space c then (if acc = [] then split_ws_aux [] s else rev acc # split_ws_aux [] s)
      else split_ws_aux (c # acc) s)"

definition split_ws :: "string \<Rightarrow> string list" where
  "split_ws s = split_ws_aux [] s"

text \<open>\<open>s.split(c)\<close> for one character.\<close>

fun split_char_aux :: "char \<Rightarrow> string \<Rightarrow> string \<Rightarrow> string list" where
  "split_char_aux d acc [] = [rev acc]"
| "split_char_aux d acc (c # s) =
     (if c = d then rev acc # split_char_aux d [] s else split_char_aux d (c # acc) s)"

definition split_char :: "char \<Rightarrow> string \<Rightarrow> string list" where
  "split_char d s = split_char_aux d [] s"

text \<open>\<open>s.splitlines()\<close>: \<open>\r\n\<close> is one boundary, and a final boundary opens no line.\<close>

definition is_eol :: "char \<Rightarrow> bool" where
  "is_eol c = (let n = (of_char c :: nat) in (10 \<le> n \<and> n \<le> 13) \<or> (28 \<le> n \<and> n \<le> 30))"

fun splitlines_aux :: "string \<Rightarrow> string \<Rightarrow> string list" where
  "splitlines_aux acc [] = (if acc = [] then [] else [rev acc])"
| "splitlines_aux acc [c] = (if is_eol c then [rev acc] else [rev (c # acc)])"
| "splitlines_aux acc (c # d # s) =
     (if c = CHR 0x0D \<and> d = CHR 0x0A then rev acc # splitlines_aux [] s
      else if is_eol c then rev acc # splitlines_aux [] (d # s)
      else splitlines_aux (c # acc) (d # s))"

definition splitlines :: "string \<Rightarrow> string list" where
  "splitlines s = splitlines_aux [] s"

text \<open>\<open>re.search\<close> of a literal between word boundaries, \<open>\b w \b\<close> with \<open>w\<close> a word.\<close>

fun word_in :: "bool \<Rightarrow> string \<Rightarrow> string \<Rightarrow> bool" where
  "word_in prev w [] = False"
| "word_in prev w (c # s) =
     ((\<not> prev \<and> starts_with w (c # s)
       \<and> (case drop (length w) (c # s) of [] \<Rightarrow> True | d # _ \<Rightarrow> \<not> is_word d))
      \<or> word_in (is_word c) w s)"

section \<open>Numbers and text\<close>

text \<open>\<open>str(n)\<close> for an \<open>int\<close>.\<close>

fun nat_digits :: "nat \<Rightarrow> string" where
  "nat_digits n = (if n < 10 then [char_of (48 + n)] else nat_digits (n div 10) @ [char_of (48 + n mod 10)])"

declare nat_digits.simps [simp del]

definition str_of_int :: "int \<Rightarrow> string" where
  "str_of_int i = (if i < 0 then ''-'' @ nat_digits (nat (- i)) else nat_digits (nat i))"

text \<open>\<open>int(s)\<close>: optional sign, digits with single underscores between them.\<close>

fun int_digits :: "bool \<Rightarrow> int \<Rightarrow> string \<Rightarrow> int option" where
  "int_digits ok acc [] = (if ok then Some acc else None)"
| "int_digits ok acc (c # s) =
     (if is_digit c then int_digits True (10 * acc + digit_val c) s
      else if c = CHR ''_'' \<and> ok then int_digits False acc s
      else None)"

definition int_of_str :: "string \<Rightarrow> int option" where
  "int_of_str s =
     (case strip s of
        [] \<Rightarrow> None
      | c # t \<Rightarrow> (if c = CHR ''-'' then map_option uminus (int_digits False 0 t)
                  else if c = CHR ''+'' then int_digits False 0 t
                  else int_digits False 0 (c # t)))"

text \<open>
  \<open>float(s)\<close> on decimal notation: sign, digits, optional fraction, optional exponent.
  \<open>inf\<close>, \<open>nan\<close> and digit separators are not modelled: they read as a \<open>ValueError\<close>.
\<close>

fun take_digits :: "string \<Rightarrow> string \<times> string" where
  "take_digits [] = ([], [])"
| "take_digits (c # s) = (if is_digit c then (let (d, r) = take_digits s in (c # d, r)) else ([], c # s))"

definition digits_val :: "string \<Rightarrow> int" where
  "digits_val ds = foldl (\<lambda>a c. 10 * a + digit_val c) 0 ds"

definition exp_part :: "string \<Rightarrow> rat option" where
  "exp_part r =
     (case r of [] \<Rightarrow> Some 1
      | e # t \<Rightarrow> if e \<noteq> CHR ''e'' \<and> e \<noteq> CHR ''E'' then None else
          (let (neg, u) = (case t of c # v \<Rightarrow> (if c = CHR ''-'' then (True, v)
                                              else if c = CHR ''+'' then (False, v) else (False, t))
                           | [] \<Rightarrow> (False, t));
               (d, w) = take_digits u
           in if d = [] \<or> w \<noteq> [] then None
              else Some (if neg then 1 / 10 ^ nat (digits_val d) else 10 ^ nat (digits_val d))))"

definition unsigned_float :: "string \<Rightarrow> rat option" where
  "unsigned_float s =
     (let (ip, r) = take_digits s;
          (fp, r') = (case r of c # t \<Rightarrow> (if c = CHR ''.'' then take_digits t else ([], r)) | [] \<Rightarrow> ([], []))
      in if ip = [] \<and> fp = [] then None
         else map_option (\<lambda>e. (of_int (digits_val (ip @ fp)) / 10 ^ length fp) * e) (exp_part r'))"

definition float_of_str :: "string \<Rightarrow> rat option" where
  "float_of_str s =
     (case strip s of
        [] \<Rightarrow> None
      | c # t \<Rightarrow> (if c = CHR ''-'' then map_option uminus (unsigned_float t)
                  else if c = CHR ''+'' then unsigned_float t
                  else unsigned_float (c # t)))"

text \<open>The process environment, and a value spelled as one of a set of words.\<close>

type_synonym env = "string \<Rightarrow> string option"

definition env_get :: "env \<Rightarrow> string \<Rightarrow> string \<Rightarrow> string" where
  "env_get e k d = (case e k of None \<Rightarrow> d | Some v \<Rightarrow> v)"

definition env_yes :: "env \<Rightarrow> string \<Rightarrow> bool" where
  "env_yes e k \<longleftrightarrow> lower (strip (env_get e k [])) \<in> {''1'', ''true'', ''yes'', ''on''}"

text \<open>The em dash of the messages, in UTF-8.\<close>

definition em_dash :: string where
  "em_dash = [CHR 0xE2, CHR 0x80, CHR 0x94]"

text \<open>A slice and a length count characters: the bytes \<open>0x80\<close> to \<open>0xBF\<close> go on with the one before.\<close>

definition goes_on :: "char \<Rightarrow> bool" where
  "goes_on c = (let n = (of_char c :: nat) in 128 \<le> n \<and> n < 192)"

fun take_chars :: "nat \<Rightarrow> string \<Rightarrow> string" where
  "take_chars n [] = []"
| "take_chars n (c # s) =
     (if goes_on c then c # take_chars n s
      else case n of 0 \<Rightarrow> [] | Suc m \<Rightarrow> c # take_chars m s)"

definition num_chars :: "string \<Rightarrow> nat" where
  "num_chars s = length (filter (\<lambda>c. \<not> goes_on c) s)"

definition lstrip_chars :: "string \<Rightarrow> string \<Rightarrow> string" where
  "lstrip_chars cs s = dropWhile (\<lambda>c. c \<in> set cs) s"

section \<open>Facts\<close>

lemma take_chars_all: "num_chars s \<le> n \<Longrightarrow> take_chars n s = s"
  by (induction n s rule: take_chars.induct) (auto simp: num_chars_def split: nat.split if_splits)

lemma num_take_chars: "num_chars (take_chars n s) \<le> n"
  by (induction n s rule: take_chars.induct) (auto simp: num_chars_def split: nat.split)

lemma strip_Nil [simp]: "strip [] = []"
  by (simp add: strip_def strip_by_def)

lemma strip_keeps_head:
  assumes "\<not> is_space a" and "\<not> is_space b"
  shows "\<exists>v. strip (a # w @ b # u) = a # w @ b # v"
proof -
  have "dropWhile is_space (rev u @ b # rev (a # w)) =
      (if \<forall>x \<in> set (rev u). is_space x then [] else dropWhile is_space (rev u)) @ b # rev (a # w)"
    using assms(2) by (simp add: dropWhile_append)
  then have "rev (dropWhile is_space (rev u @ b # rev (a # w))) =
      a # w @ b # rev (if \<forall>x \<in> set (rev u). is_space x then [] else dropWhile is_space (rev u))"
    by simp
  then show ?thesis using assms(1) by (simp add: strip_def strip_by_def)
qed

lemma lower_Nil [simp]: "lower [] = []"
  by (simp add: lower_def)

lemma contains_Nil [simp]: "contains [] s"
  by (cases s) (simp_all add: starts_with_def)

lemma starts_with_append [simp]: "starts_with p (p @ s)"
  by (simp add: starts_with_def)

lemma contains_append: "contains p s \<Longrightarrow> contains p (r @ s)"
proof (induction r)
  case (Cons c r)
  then show ?case by simp
qed simp

lemma contains_prefix: "contains p (p @ s)"
  by (cases p) (simp_all add: starts_with_def)

lemma contains_infix [simp]: "contains p (r @ p @ s)"
  by (rule contains_append) (rule contains_prefix)

lemma nat_digits_not_Nil [simp]: "nat_digits n \<noteq> []"
  by (subst nat_digits.simps) simp

lemma nat_digits_split:
  "nat_digits n = (if n < 10 then [] else nat_digits (n div 10)) @ [char_of (48 + n mod 10)]"
  by (subst nat_digits.simps) simp

lemma nat_digits_inject [simp]: "nat_digits m = nat_digits n \<longleftrightarrow> m = n"
proof (induction m arbitrary: n rule: less_induct)
  case (less m)
  have low: "i = j" if "char_of (48 + i mod 10) = (char_of (48 + j mod 10) :: char)" "i div 10 = j div 10" for i j :: nat
  proof -
    have "48 + i mod 10 = 48 + j mod 10"
      using arg_cong [OF that(1), of "of_char :: char \<Rightarrow> nat"] by simp
    then show ?thesis using that(2) by (metis add_left_cancel div_mult_mod_eq)
  qed
  show ?case
  proof
    assume eq: "nat_digits m = nat_digits n"
    have last: "char_of (48 + m mod 10) = (char_of (48 + n mod 10) :: char)"
      and front: "(if m < 10 then [] else nat_digits (m div 10)) = (if n < 10 then [] else nat_digits (n div 10))"
      using eq by (simp_all add: nat_digits_split [of m] nat_digits_split [of n])
    have "m div 10 = n div 10"
      using front less.IH [of "m div 10" "n div 10"] nat_digits_not_Nil [of "n div 10"]
        nat_digits_not_Nil [of "m div 10"]
      by (auto split: if_splits simp del: nat_digits_not_Nil)
    then show "m = n" using low last by blast
  qed simp
qed

lemma nat_digits_no_sign: "c \<in> set (nat_digits n) \<Longrightarrow> c \<noteq> CHR ''-''"
proof (induction n rule: less_induct)
  case (less n)
  have "char_of (48 + n mod 10) \<noteq> CHR ''-''"
  proof
    assume "char_of (48 + n mod 10) = CHR ''-''"
    then have "of_char (char_of (48 + n mod 10)) = (of_char (CHR ''-'') :: nat)" by (rule arg_cong)
    then show False by simp
  qed
  moreover have "c \<in> set (if n < 10 then [] else nat_digits (n div 10)) \<Longrightarrow> c \<noteq> CHR ''-''"
    using less.IH [of "n div 10"] by (auto split: if_splits)
  ultimately show ?case
    using less.prems by (subst (asm) nat_digits_split) auto
qed

lemma str_of_int_inject [simp]: "str_of_int i = str_of_int j \<longleftrightarrow> i = j"
proof -
  have "''-'' @ nat_digits m \<noteq> nat_digits n" for m n
    using nat_digits_no_sign [of "CHR ''-''" n] by (metis append_Cons list.set_intros(1))
  then show ?thesis
    by (auto simp: str_of_int_def split: if_splits) (metis append_Cons append_Nil)+
qed

lemma str_of_int_not_Nil [simp]: "str_of_int i \<noteq> []"
  by (simp add: str_of_int_def)

lemma strip_str_chars: "strip s = s' \<Longrightarrow> set s' \<subseteq> set s"
proof -
  have "set (dropWhile p t) \<subseteq> set t" for p and t :: string
    by (induction t) auto
  then show "strip s = s' \<Longrightarrow> set s' \<subseteq> set s"
    by (auto simp: strip_def strip_by_def) (metis set_rev subsetD)
qed

end
