(* ===== verification/Ordered_Table.thy ===== *)
theory Ordered_Table
  imports Prelude
begin

text \<open>
  Bounded tables of recent entries. The guards keep an \<^verbatim>\<open>OrderedDict\<close> (or a plain
  dictionary, which is ordered too) whose newest entry is last and drop the oldest entry
  when the table outgrows its bound: \<^verbatim>\<open>_remember\<close> of
  \<^verbatim>\<open>chat_agent/_turn/_progress.py\<close>, \<^verbatim>\<open>note_new\<close> of \<^verbatim>\<open>no_progress.py\<close>
  and the signature table of \<^verbatim>\<open>same_failure.py\<close>. A table is an association list,
  oldest entry first.

  The locale \<open>bounded_table\<close> is what the guards rely on: the entry just written is
  found, nothing is invented, nothing is forgotten while there is room, and the bound
  holds.
\<close>

section \<open>The interface\<close>

locale bounded_table =
  fixes lookup :: "'t \<Rightarrow> 'k \<Rightarrow> 'v option"
    and put :: "'t \<Rightarrow> 'k \<Rightarrow> 'v \<Rightarrow> 't"
    and size_of :: "'t \<Rightarrow> nat"
    and invar :: "'t \<Rightarrow> bool"
    and bound :: nat
  assumes lookup_put_same: "invar t \<Longrightarrow> lookup (put t k v) k = Some v"
    and lookup_put_other: "invar t \<Longrightarrow> j \<noteq> k \<Longrightarrow> lookup (put t k v) j = Some w \<Longrightarrow> lookup t j = Some w"
    and lookup_put_room: "invar t \<Longrightarrow> size_of t < bound \<Longrightarrow> j \<noteq> k \<Longrightarrow> lookup (put t k v) j = lookup t j"
    and size_put: "invar t \<Longrightarrow> size_of (put t k v) \<le> min bound (Suc (size_of t))"
    and invar_put: "invar t \<Longrightarrow> invar (put t k v)"
begin

definition puts :: "'t \<Rightarrow> ('k \<times> 'v) list \<Rightarrow> 't" where
  "puts t ps = foldl (\<lambda>t (k, v). put t k v) t ps"

lemma puts_Nil [simp]: "puts t [] = t"
  by (simp add: puts_def)

lemma puts_snoc [simp]: "puts t (ps @ [(k, v)]) = put (puts t ps) k v"
  by (simp add: puts_def)

lemma invar_puts: "invar t \<Longrightarrow> invar (puts t ps)"
  by (induction ps rule: rev_induct) (auto simp: puts_def invar_put)

lemma size_puts: "invar t \<Longrightarrow> ps \<noteq> [] \<Longrightarrow> size_of (puts t ps) \<le> bound"
  by (induction ps rule: rev_induct)
    (auto simp: puts_def split: prod.splits intro: order.trans [OF size_put] dest: invar_puts [unfolded puts_def])

lemma size_puts_growth: "invar t \<Longrightarrow> size_of (puts t ps) \<le> size_of t + length ps"
proof (induction ps rule: rev_induct)
  case (snoc p ps)
  obtain k v where "p = (k, v)" by (cases p)
  then show ?case
    using snoc size_put [OF invar_puts [OF snoc.prems, of ps], of k v] by simp
qed simp

text \<open>The last write to a key is what a lookup returns, as long as the table has room.\<close>

lemma lookup_puts_last:
  assumes "invar t" and "size_of t + length ps + length qs < bound"
    and "k \<notin> fst ` set qs"
  shows "lookup (puts t (ps @ (k, v) # qs)) k = Some v"
  using assms
proof (induction qs rule: rev_induct)
  case Nil
  then show ?case by (simp add: lookup_put_same invar_puts)
next
  case (snoc q qs)
  obtain j w where q: "q = (j, w)" by (cases q)
  let ?t = "puts t (ps @ (k, v) # qs)"
  have "size_of ?t < bound"
    using size_puts_growth [OF snoc.prems(1), of "ps @ (k, v) # qs"] snoc.prems(2) by simp
  moreover have "k \<noteq> j" using snoc.prems(3) q by auto
  ultimately have "lookup (put ?t j w) k = lookup ?t k"
    by (simp add: lookup_put_room invar_puts snoc.prems(1))
  moreover have "lookup ?t k = Some v"
    using snoc by simp
  moreover have "puts t (ps @ (k, v) # qs @ [q]) = put ?t j w"
    using puts_snoc [of t "ps @ (k, v) # qs" j w] q by simp
  ultimately show ?case by simp
qed

end

section \<open>The tables of the code\<close>

type_synonym ('k, 'v) table = "('k \<times> 'v) list"

fun evict :: "nat \<Rightarrow> ('k, 'v) table \<Rightarrow> ('k, 'v) table" where
  "evict n [] = []"
| "evict n (p # t) = (if n < length (p # t) then evict n t else p # t)"

definition drop_key :: "'k \<Rightarrow> ('k, 'v) table \<Rightarrow> ('k, 'v) table" where
  "drop_key k t = filter (\<lambda>p. fst p \<noteq> k) t"

text \<open>\<open>table[key] = value; table.move_to_end(key)\<close>, then the oldest entries go.\<close>

definition remember :: "nat \<Rightarrow> ('k, 'v) table \<Rightarrow> 'k \<Rightarrow> 'v \<Rightarrow> ('k, 'v) table" where
  "remember n t k v = evict n (drop_key k t @ [(k, v)])"

definition get_or :: "('k, 'v) table \<Rightarrow> 'k \<Rightarrow> 'v \<Rightarrow> 'v" where
  "get_or t k d = (case map_of t k of None \<Rightarrow> d | Some v \<Rightarrow> v)"

text \<open>\<open>table[key] = value\<close> alone: an existing key keeps its place.\<close>

fun set_at :: "('k, 'v) table \<Rightarrow> 'k \<Rightarrow> 'v \<Rightarrow> ('k, 'v) table" where
  "set_at [] k v = [(k, v)]"
| "set_at ((j, w) # t) k v = (if j = k then (k, v) # t else (j, w) # set_at t k v)"

abbreviation keys :: "('k, 'v) table \<Rightarrow> 'k list" where
  "keys t \<equiv> map fst t"

lemma evict_last_n: "evict n t = last_n n t"
  by (induction t) (auto simp: last_n_def Suc_diff_le)

lemma keys_drop_key: "keys (drop_key k t) = filter (\<lambda>j. j \<noteq> k) (keys t)"
  by (induction t) (auto simp: drop_key_def)

lemma map_of_drop_key: "map_of (drop_key k t) j = (if j = k then None else map_of t j)"
  by (induction t) (auto simp: drop_key_def)

lemma length_drop_key: "length (drop_key k t) \<le> length t"
  by (simp add: drop_key_def)

lemma distinct_keys_drop: "distinct (keys t) \<Longrightarrow> distinct (keys (drop n t))"
  by (simp add: distinct_drop flip: drop_map)

lemma map_of_drop_distinct:
  assumes "distinct (keys t)" and "map_of (drop n t) j = Some w"
  shows "map_of t j = Some w"
  using assms(1) map_of_SomeD [OF assms(2)] by (auto dest: in_set_dropD intro: map_of_is_SomeI)

lemma distinct_keys_snoc: "distinct (keys t) \<Longrightarrow> distinct (keys (drop_key k t @ [(k, v)]))"
  by (auto simp: keys_drop_key drop_key_def distinct_map_filter)

lemma distinct_remember: "distinct (keys t) \<Longrightarrow> distinct (keys (remember n t k v))"
  unfolding remember_def evict_last_n last_n_def
  by (rule distinct_keys_drop) (rule distinct_keys_snoc)

lemma map_of_snoc_drop:
  "j \<noteq> k \<Longrightarrow> map_of (drop_key k t @ [(k, v)]) j = map_of t j"
  by (simp add: map_add_def map_of_drop_key split: option.splits)

lemma remember_same:
  assumes "0 < n" and "distinct (keys t)"
  shows "map_of (remember n t k v) k = Some v"
proof -
  have "(k, v) \<in> set (remember n t k v)"
    using assms(1) by (simp add: remember_def evict_last_n last_n_snoc)
  with distinct_remember [OF assms(2)] show ?thesis by (simp add: map_of_is_SomeI)
qed

lemma remember_length: "length (remember n t k v) \<le> min n (Suc (length t))"
  using length_drop_key [of k t] by (simp add: remember_def evict_last_n)

lemma remember_other:
  assumes "distinct (keys t)" and "j \<noteq> k" and "map_of (remember n t k v) j = Some w"
  shows "map_of t j = Some w"
  using map_of_drop_distinct [OF distinct_keys_snoc [OF assms(1)]] assms(3)
  unfolding remember_def evict_last_n last_n_def
  by (metis assms(2) map_of_snoc_drop)

lemma remember_room:
  assumes "length t < n" and "j \<noteq> k"
  shows "map_of (remember n t k v) j = map_of t j"
proof -
  have "length (drop_key k t @ [(k, v)]) \<le> n"
    using assms(1) length_drop_key [of k t] by simp
  then show ?thesis
    unfolding remember_def evict_last_n by (simp only: last_n_id map_of_snoc_drop [OF assms(2)])
qed

text \<open>The two bounds of the code: \<^verbatim>\<open>_MAX_TRACKED = _MAX_SEEN = 20_000\<close> and
  \<^verbatim>\<open>_MAX_SIGS = 64\<close>.\<close>

definition max_tracked :: nat where
  "max_tracked = 20000"

definition max_sigs :: nat where
  "max_sigs = 64"

lemma remember_table:
  "0 < n \<Longrightarrow> bounded_table map_of (remember n) length (\<lambda>t. distinct (keys t)) n"
  by (unfold_locales;
      (rule remember_same remember_room remember_length distinct_remember
       | erule (2) remember_other); assumption)

interpretation tracked: bounded_table map_of "remember max_tracked" length "\<lambda>t. distinct (keys t)" max_tracked
  by (rule remember_table) (simp add: max_tracked_def)

interpretation sigs: bounded_table map_of "remember max_sigs" length "\<lambda>t. distinct (keys t)" max_sigs
  by (rule remember_table) (simp add: max_sigs_def)

section \<open>Updates that keep the order\<close>

lemma map_of_set_at [simp]: "map_of (set_at t k v) j = (if j = k then Some v else map_of t j)"
  by (induction t k v rule: set_at.induct) auto

lemma keys_set_at: "keys (set_at t k v) = (if k \<in> set (keys t) then keys t else keys t @ [k])"
  by (induction t k v rule: set_at.induct) auto

lemma distinct_set_at: "distinct (keys t) \<Longrightarrow> distinct (keys (set_at t k v))"
  by (simp add: keys_set_at)

lemma length_set_at: "k \<in> set (keys t) \<Longrightarrow> length (set_at t k v) = length t"
  using keys_set_at [of t k v] by (metis length_map)

lemma get_or_remember [simp]:
  "0 < n \<Longrightarrow> distinct (keys t) \<Longrightarrow> get_or (remember n t k v) k d = v"
  by (simp add: get_or_def remember_same)

section \<open>Predicates on every entry\<close>

definition all_entries :: "('v \<Rightarrow> bool) \<Rightarrow> ('k, 'v) table \<Rightarrow> bool" where
  "all_entries P t \<longleftrightarrow> (\<forall>k v. map_of t k = Some v \<longrightarrow> P v)"

lemma all_entries_Nil [simp]: "all_entries P []"
  by (simp add: all_entries_def)

lemma all_entriesD: "all_entries P t \<Longrightarrow> map_of t k = Some v \<Longrightarrow> P v"
  unfolding all_entries_def by blast

lemma all_entries_remember:
  assumes "all_entries P t" and "distinct (keys t)" and "0 < n" and "P v"
  shows "all_entries P (remember n t k v)"
  unfolding all_entries_def
  by (metis assms all_entriesD option.inject remember_other remember_same)

lemma all_entries_set_at: "all_entries P t \<Longrightarrow> P v \<Longrightarrow> all_entries P (set_at t k v)"
  by (auto simp: all_entries_def)

lemma all_entries_reset:
  assumes "all_entries P t" and "distinct (keys t)" and "P w"
  shows "all_entries P (set_at (remember n t k v) k w)"
  unfolding all_entries_def
  by (metis assms all_entriesD map_of_set_at option.inject remember_other)

section \<open>First sightings\<close>

text \<open>\<^verbatim>\<open>note_new\<close>: was \<open>key\<close> new, and the table with it.\<close>

definition note_new :: "('k, bool) table \<Rightarrow> 'k \<Rightarrow> bool \<times> ('k, bool) table" where
  "note_new seen key =
     (if map_of seen key \<noteq> None then (False, seen)
      else (True, evict max_tracked (seen @ [(key, True)])))"

lemma drop_key_absent: "map_of t k = None \<Longrightarrow> drop_key k t = t"
  by (simp add: drop_key_def map_of_eq_None_iff) (metis (mono_tags, lifting) filter_True image_eqI)

lemma note_new_remember:
  "note_new seen key = (if map_of seen key \<noteq> None then (False, seen)
                        else (True, remember max_tracked seen key True))"
  by (simp add: note_new_def remember_def drop_key_absent)

end
