(* ===== verification/Py_Values.thy ===== *)
theory Py_Values
  imports Py_Strings Ordered_Table
begin

text \<open>
  Dynamically typed Python values, for the places where the modelled code handles what a
  model, a configuration file or a peer handed it: session state, parsed JSON, manifests.
\<close>

datatype pyval =
    PNone
  | PBool bool
  | PInt int
  | PFloat rat
  | PStr string
  | PList "pyval list"
  | PDict "(string \<times> pyval) list"

section \<open>Truth, \<open>or\<close>, and the accessors\<close>

text \<open>\<open>bool(v)\<close>.\<close>

fun truthy :: "pyval \<Rightarrow> bool" where
  "truthy PNone = False"
| "truthy (PBool b) = b"
| "truthy (PInt i) = (i \<noteq> 0)"
| "truthy (PFloat r) = (r \<noteq> 0)"
| "truthy (PStr s) = (s \<noteq> [])"
| "truthy (PList xs) = (xs \<noteq> [])"
| "truthy (PDict d) = (d \<noteq> [])"

text \<open>\<open>a or b\<close>.\<close>

definition por :: "pyval \<Rightarrow> pyval \<Rightarrow> pyval" where
  "por a b = (if truthy a then a else b)"

text \<open>A dictionary keeps its keys in insertion order; \<open>d.get(k)\<close> of an absent key is \<open>None\<close>.\<close>

definition dget :: "(string \<times> pyval) list \<Rightarrow> string \<Rightarrow> pyval" where
  "dget d k = (case map_of d k of None \<Rightarrow> PNone | Some v \<Rightarrow> v)"

definition dget_or :: "(string \<times> pyval) list \<Rightarrow> string \<Rightarrow> pyval \<Rightarrow> pyval" where
  "dget_or d k v0 = (case map_of d k of None \<Rightarrow> v0 | Some v \<Rightarrow> v)"

definition has_key :: "(string \<times> pyval) list \<Rightarrow> string \<Rightarrow> bool" where
  "has_key d k = (map_of d k \<noteq> None)"

text \<open>The \<open>isinstance\<close> tests. A \<open>bool\<close> is an \<open>int\<close> in Python.\<close>

fun is_dict :: "pyval \<Rightarrow> bool" where
  "is_dict (PDict d) = True"
| "is_dict _ = False"

fun is_list :: "pyval \<Rightarrow> bool" where
  "is_list (PList xs) = True"
| "is_list _ = False"

fun is_str :: "pyval \<Rightarrow> bool" where
  "is_str (PStr s) = True"
| "is_str _ = False"

fun int_value :: "pyval \<Rightarrow> int option" where
  "int_value (PInt i) = Some i"
| "int_value (PBool b) = Some (if b then 1 else 0)"
| "int_value _ = None"

fun list_of :: "pyval \<Rightarrow> pyval list" where
  "list_of (PList xs) = xs"
| "list_of _ = []"

section \<open>Conversions\<close>

text \<open>\<open>int(v)\<close>: truncation of a float, a parse of a string, and \<open>TypeError\<close> otherwise.\<close>

fun py_int :: "pyval \<Rightarrow> int res" where
  "py_int (PInt i) = Inr i"
| "py_int (PBool b) = Inr (if b then 1 else 0)"
| "py_int (PFloat r) = Inr (if r < 0 then - \<lfloor>- r\<rfloor> else \<lfloor>r\<rfloor>)"
| "py_int (PStr s) = (case int_of_str s of None \<Rightarrow> Inl ValueError | Some i \<Rightarrow> Inr i)"
| "py_int _ = Inl TypeError"

text \<open>\<open>float(v)\<close>.\<close>

fun py_float :: "pyval \<Rightarrow> rat res" where
  "py_float (PFloat r) = Inr r"
| "py_float (PInt i) = Inr (of_int i)"
| "py_float (PBool b) = Inr (if b then 1 else 0)"
| "py_float (PStr s) = (case float_of_str s of None \<Rightarrow> Inl ValueError | Some r \<Rightarrow> Inr r)"
| "py_float _ = Inl TypeError"

text \<open>
  \<open>str(v)\<close>. The text Python gives a float, a list or a dictionary is an argument,
  \<open>rep\<close>: no modelled decision reads it.
\<close>

fun py_str :: "(pyval \<Rightarrow> string) \<Rightarrow> pyval \<Rightarrow> string" where
  "py_str rep PNone = ''None''"
| "py_str rep (PBool b) = (if b then ''True'' else ''False'')"
| "py_str rep (PInt i) = str_of_int i"
| "py_str rep (PStr s) = s"
| "py_str rep v = rep v"

text \<open>\<open>int(v or 0)\<close>, the idiom of every counter kept in session state.\<close>

definition int_or0 :: "pyval \<Rightarrow> int res" where
  "int_or0 v = py_int (por v (PInt 0))"

section \<open>Facts\<close>

lemma por_falsy [simp]: "\<not> truthy a \<Longrightarrow> por a b = b"
  by (simp add: por_def)

lemma por_truthy [simp]: "truthy a \<Longrightarrow> por a b = a"
  by (simp add: por_def)

lemma int_or0_PNone [simp]: "int_or0 PNone = Inr 0"
  by (simp add: int_or0_def)

lemma int_or0_PInt [simp]: "int_or0 (PInt n) = Inr n"
  by (cases "n = 0") (simp_all add: int_or0_def)

lemma dget_Nil [simp]: "dget [] k = PNone"
  by (simp add: dget_def)

lemma dget_Cons [simp]: "dget ((a, v) # d) k = (if k = a then v else dget d k)"
  by (simp add: dget_def)

lemma dget_set_at [simp]: "dget (set_at d k v) j = (if j = k then v else dget d j)"
  by (simp add: dget_def)

lemma dget_drop_key [simp]: "dget (drop_key k d) j = (if j = k then PNone else dget d j)"
  by (simp add: dget_def map_of_drop_key)

end
