(* ===== verification/Stuck_Policy.thy ===== *)
theory Stuck_Policy
  imports Py_Values
begin

text \<open>
  \<^verbatim>\<open>aiforge_core/runtime/stuck_policy.py\<close>: every stuck, loop and recovery knob, read
  from the environment in one place. A knob is a constructor of \<open>knob\<close>, \<open>env_name\<close> is
  the table \<^verbatim>\<open>ENV\<close>, and \<open>load\<close> is \<^verbatim>\<open>Policy.load\<close>. No alias is declared in
  the source, so \<open>raw\<close> looks one name up.
\<close>

section \<open>The knobs\<close>

datatype knob =
    Backstop | Max_recoveries | Stuck_recoveries | Identical_repeats | Monologue_repeats
  | Monologue_similarity | Pause_on_stuck | Stuck_escalations | Stuck_restart
  | Context_error_restart | Goal_loop | No_progress_steps | Same_failure_limit | Reason_steps
  | Tool_repeat_limit | Plateau_replans | No_edit_iters | Loop_max_wall_s

fun env_name :: "knob \<Rightarrow> string" where
  "env_name Backstop = ''AIFORGE_CHAT_LOOP_BACKSTOP''"
| "env_name Max_recoveries = ''AIFORGE_CHAT_MAX_RECOVERIES''"
| "env_name Stuck_recoveries = ''AIFORGE_CHAT_STUCK_RECOVERIES''"
| "env_name Identical_repeats = ''AIFORGE_CHAT_IDENTICAL_REPEATS''"
| "env_name Monologue_repeats = ''AIFORGE_CHAT_MONOLOGUE_REPEATS''"
| "env_name Monologue_similarity = ''AIFORGE_CHAT_MONOLOGUE_SIMILARITY''"
| "env_name Pause_on_stuck = ''AIFORGE_CHAT_PAUSE_ON_STUCK''"
| "env_name Stuck_escalations = ''AIFORGE_CHAT_STUCK_ESCALATIONS''"
| "env_name Stuck_restart = ''AIFORGE_CHAT_STUCK_RESTART''"
| "env_name Context_error_restart = ''AIFORGE_CHAT_CONTEXT_ERROR_RESTART''"
| "env_name Goal_loop = ''AIFORGE_CHAT_GOAL_LOOP''"
| "env_name No_progress_steps = ''AIFORGE_NO_PROGRESS_STEPS''"
| "env_name Same_failure_limit = ''AIFORGE_SAME_FAILURE_LIMIT''"
| "env_name Reason_steps = ''AIFORGE_STUCK_REASON_STEPS''"
| "env_name Tool_repeat_limit = ''AIFORGE_TOOL_REPEAT_LIMIT''"
| "env_name Plateau_replans = ''AIFORGE_PLATEAU_REPLANS''"
| "env_name No_edit_iters = ''AIFORGE_NO_EDIT_ITERS''"
| "env_name Loop_max_wall_s = ''AIFORGE_LOOP_MAX_WALL_S''"

definition off_words :: "string list" where
  "off_words = [''0'', ''false'', ''no'', ''off'']"

definition on_words :: "string list" where
  "on_words = [''1'', ''true'', ''yes'', ''on'']"

definition raw :: "env \<Rightarrow> knob \<Rightarrow> string option" where
  "raw e k = e (env_name k)"

definition int_knob :: "env \<Rightarrow> knob \<Rightarrow> int \<Rightarrow> int option \<Rightarrow> bool \<Rightarrow> int" where
  "int_knob e k dflt flr positive =
     (case (case raw e k of None \<Rightarrow> Some dflt | Some s \<Rightarrow> int_of_str s) of
        None \<Rightarrow> dflt
      | Some val \<Rightarrow>
          if positive \<and> val \<le> 0 then dflt
          else (case flr of None \<Rightarrow> val | Some f \<Rightarrow> max f val))"

definition pipeline_int :: "env \<Rightarrow> knob \<Rightarrow> int \<Rightarrow> int" where
  "pipeline_int e k dflt =
     (case raw e k of None \<Rightarrow> dflt
      | Some s \<Rightarrow> if s = [] then dflt
                  else (case int_of_str s of None \<Rightarrow> dflt | Some v \<Rightarrow> v))"

definition flag :: "env \<Rightarrow> knob \<Rightarrow> bool \<Rightarrow> bool" where
  "flag e k dflt =
     (case raw e k of None \<Rightarrow> dflt
      | Some s \<Rightarrow> (let w = lower (strip s) in
                   if dflt then w \<notin> set off_words else w \<in> set on_words))"

definition similarity_knob :: "env \<Rightarrow> rat" where
  "similarity_knob e =
     (let sim = (case raw e Monologue_similarity of None \<Rightarrow> 85 / 100
                 | Some s \<Rightarrow> if s = [] then 85 / 100
                             else (case float_of_str s of None \<Rightarrow> 85 / 100 | Some x \<Rightarrow> x))
      in min 1 (max (1 / 2) sim))"

section \<open>The policy\<close>

record policy =
  p_backstop :: int
  p_max_recoveries :: int
  p_stuck_recoveries :: int
  p_identical_repeats :: int
  p_monologue_repeats :: int
  p_monologue_similarity :: rat
  p_pause_on_stuck :: bool
  p_stuck_escalations :: int
  p_stuck_restart :: bool
  p_context_error_restart :: bool
  p_goal_loop :: bool
  p_no_progress_steps :: int
  p_same_failure_limit :: int
  p_reason_steps :: int
  p_tool_repeat_limit :: int
  p_plateau_replans :: int
  p_no_edit_iters :: int
  p_loop_max_wall_s :: int

text \<open>The field defaults of the dataclass.\<close>

definition default_policy :: policy where
  "default_policy =
     \<lparr> p_backstop = 30, p_max_recoveries = 30, p_stuck_recoveries = 3,
       p_identical_repeats = 5, p_monologue_repeats = 3, p_monologue_similarity = 85 / 100,
       p_pause_on_stuck = False, p_stuck_escalations = 20, p_stuck_restart = True,
       p_context_error_restart = True, p_goal_loop = True, p_no_progress_steps = 25,
       p_same_failure_limit = 3, p_reason_steps = 6, p_tool_repeat_limit = 4,
       p_plateau_replans = 2, p_no_edit_iters = 2, p_loop_max_wall_s = 0 \<rparr>"

definition load :: "env \<Rightarrow> policy" where
  "load e =
     \<lparr> p_backstop = int_knob e Backstop 30 None True,
       p_max_recoveries = int_knob e Max_recoveries 30 None True,
       p_stuck_recoveries = int_knob e Stuck_recoveries 3 (Some 0) False,
       p_identical_repeats = int_knob e Identical_repeats 5 None True,
       p_monologue_repeats = int_knob e Monologue_repeats 3 (Some 0) False,
       p_monologue_similarity = similarity_knob e,
       p_pause_on_stuck = flag e Pause_on_stuck False,
       p_stuck_escalations = int_knob e Stuck_escalations 20 (Some 0) False,
       p_stuck_restart = flag e Stuck_restart True,
       p_context_error_restart = flag e Context_error_restart True,
       p_goal_loop = flag e Goal_loop True,
       p_no_progress_steps = int_knob e No_progress_steps 25 (Some 8) False,
       p_same_failure_limit = int_knob e Same_failure_limit 3 (Some 2) False,
       p_reason_steps = int_knob e Reason_steps 6 (Some 0) False,
       p_tool_repeat_limit = int_knob e Tool_repeat_limit 4 None False,
       p_plateau_replans = pipeline_int e Plateau_replans 2,
       p_no_edit_iters = pipeline_int e No_edit_iters 2,
       p_loop_max_wall_s = pipeline_int e Loop_max_wall_s 0 \<rparr>"

section \<open>What every load guarantees\<close>

text \<open>The ranges of the knobs that are clamped. Not among them are the repeat limit and the three
  knobs of the pipeline: they are whatever integer the environment holds.\<close>

definition policy_ok :: "policy \<Rightarrow> bool" where
  "policy_ok p \<longleftrightarrow>
     1 \<le> p_backstop p \<and> 1 \<le> p_max_recoveries p \<and> 0 \<le> p_stuck_recoveries p \<and>
     1 \<le> p_identical_repeats p \<and> 0 \<le> p_monologue_repeats p \<and>
     1 / 2 \<le> p_monologue_similarity p \<and> p_monologue_similarity p \<le> 1 \<and>
     0 \<le> p_stuck_escalations p \<and> 8 \<le> p_no_progress_steps p \<and>
     2 \<le> p_same_failure_limit p \<and> 0 \<le> p_reason_steps p"

lemma int_knob_positive: "1 \<le> d \<Longrightarrow> 1 \<le> int_knob e k d None True"
  by (auto simp: int_knob_def split: option.splits)

lemma int_knob_floor: "f \<le> d \<Longrightarrow> f \<le> int_knob e k d (Some f) pos"
  by (auto simp: int_knob_def split: option.splits)

lemma int_knob_default: "raw e k = None \<Longrightarrow> \<not> (pos \<and> d \<le> 0) \<Longrightarrow>
    (\<forall>f. fl = Some f \<longrightarrow> f \<le> d) \<Longrightarrow> int_knob e k d fl pos = d"
  by (auto simp: int_knob_def split: option.splits)

lemma similarity_range: "1 / 2 \<le> similarity_knob e" "similarity_knob e \<le> 1"
  by (simp_all add: similarity_knob_def Let_def)

text \<open>C24. Whatever the environment holds (missing, empty, negative, garbage or huge values), the
  ten clamped knobs of a loaded policy are in range: the strike backstop, the recovery ceiling
  and the identical repeats at least 1; the recoveries of a stall, the monologue repeats, the
  escalations and the reason steps not negative; the idle steps at least 8, the same-failure
  limit at least 2, the similarity between one half and 1. (The other four numbers,
  \<open>tool_repeat_limit\<close>, \<open>plateau_replans\<close>, \<open>no_edit_iters\<close> and \<open>loop_max_wall_s\<close>, are not
  clamped.)\<close>

theorem load_policy_ok: "policy_ok (load e)"
  using similarity_range [of e]
  by (simp add: policy_ok_def load_def int_knob_positive int_knob_floor)

text \<open>A knob of the pipeline is passed on as it was read, negative or not.\<close>

lemma no_edit_iters_unclamped:
  "raw e No_edit_iters = Some s \<Longrightarrow> s \<noteq> [] \<Longrightarrow> int_of_str s = Some n \<Longrightarrow> p_no_edit_iters (load e) = n"
  by (simp add: load_def pipeline_int_def)

lemma raw_empty [simp]: "raw Map.empty k = None"
  by (simp add: raw_def)

lemma load_default: "load Map.empty = default_policy"
  by (simp add: load_def default_policy_def int_knob_default similarity_knob_def flag_def
      pipeline_int_def)

end
