(* ===== verification/Trip_Guard.thy ===== *)
theory Trip_Guard
  imports Prelude
begin

text \<open>
  The contract of a loop guard with one warning to spend: an event is fine and leaves the
  trip count alone, or it trips, and the answer is a nudge exactly when it is the first
  trip of the tracker. The chat loop and the pipeline rely on no more than this, whichever
  rule (\<^verbatim>\<open>same_failure\<close>, \<^verbatim>\<open>no_progress\<close>) looks at the event.
\<close>

datatype verdict = Fine | Nudge | Stop

locale trip_guard =
  fixes step :: "'t \<Rightarrow> 'e \<Rightarrow> verdict \<times> 't"
    and trips :: "'t \<Rightarrow> int"
  assumes fine_trips: "fst (step t e) = Fine \<Longrightarrow> trips (snd (step t e)) = trips t"
    and trip_counts: "fst (step t e) \<noteq> Fine \<Longrightarrow> trips (snd (step t e)) = trips t + 1"
    and trip_verdict: "fst (step t e) \<noteq> Fine \<Longrightarrow> fst (step t e) = (if trips t = 0 then Nudge else Stop)"
begin

text \<open>The answers of a run that are not fine.\<close>

definition alarms :: "'t \<Rightarrow> 'e list \<Rightarrow> verdict list" where
  "alarms t es = filter (\<lambda>v. v \<noteq> Fine) (fst (run_with step t es))"

lemma alarms_Nil [simp]: "alarms t [] = []"
  by (simp add: alarms_def)

lemma alarms_Cons:
  "alarms t (e # es) = (if fst (step t e) = Fine then [] else [fst (step t e)]) @ alarms (snd (step t e)) es"
  by (simp add: alarms_def)

lemma trips_run: "trips (snd (run_with step t es)) = trips t + int (length (alarms t es))"
proof (induction es arbitrary: t)
  case (Cons e es)
  then show ?case
    using fine_trips [of t e] trip_counts [of t e]
    by (cases "fst (step t e) = Fine") (auto simp: alarms_Cons)
qed simp

text \<open>Once the warning is spent every alarm stops.\<close>

lemma alarms_spent: "0 < trips t \<Longrightarrow> alarms t es = replicate (length (alarms t es)) Stop"
proof (induction es arbitrary: t)
  case (Cons e es)
  then show ?case
    using fine_trips [of t e] trip_counts [of t e] trip_verdict [of t e]
    by (cases "fst (step t e) = Fine") (auto simp: alarms_Cons)
qed simp

text \<open>From a fresh tracker: one nudge, then stops.\<close>

lemma alarms_fresh:
  "trips t = 0 \<Longrightarrow> alarms t es = (case length (alarms t es) of 0 \<Rightarrow> [] | Suc n \<Rightarrow> Nudge # replicate n Stop)"
proof (induction es arbitrary: t)
  case (Cons e es)
  show ?case
  proof (cases "fst (step t e) = Fine")
    case True
    then have "alarms t (e # es) = alarms (snd (step t e)) es" by (simp add: alarms_Cons)
    with Cons.IH [of "snd (step t e)"] True Cons.prems fine_trips [of t e] show ?thesis by simp
  next
    case False
    then have "alarms t (e # es) = Nudge # alarms (snd (step t e)) es"
      using trip_verdict [OF False] Cons.prems by (simp add: alarms_Cons)
    moreover have "0 < trips (snd (step t e))" using trip_counts [OF False] Cons.prems by simp
    ultimately show ?thesis using alarms_spent [of "snd (step t e)" es] by simp
  qed
qed simp

end

end
