(* ===== verification/Loop_Guards.thy ===== *)
theory Loop_Guards
  imports Stuck_Policy Ordered_Table Trip_Guard
begin

text \<open>
  The two loop rules every repair loop shares: \<^verbatim>\<open>aiforge_core/runtime/same_failure.py\<close>
  (one failure that survives fix after fix) and
  \<^verbatim>\<open>aiforge_core/runtime/no_progress.py\<close> (varied steps that change nothing). Both
  write one tracker, a dictionary in the source and the record \<open>track\<close> here, and spend
  one nudge between them: the first trip of either rule nudges, every later one stops.

  Not modelled: \<^verbatim>\<open>command_template\<close>, \<^verbatim>\<open>output_class\<close> and
  \<^verbatim>\<open>shell_read_paths\<close>, which turn a tool call into the two class names a step carries
  here, and \<^verbatim>\<open>fails_moved\<close>.
\<close>

section \<open>The tracker\<close>

record failure =
  f_signature :: string
  f_count :: int
  f_headline :: string

record sig_entry =
  e_states :: "string list"
  e_seen :: int
  e_best :: int

record track =
  t_sigs :: "(string, sig_entry) table"
  t_window :: "(string \<times> string) list"
  t_idle :: int
  t_trips :: int
  t_last :: string

definition new_track :: track where
  "new_track = \<lparr> t_sigs = [], t_window = [], t_idle = 0, t_trips = 0, t_last = [] \<rparr>"

section \<open>The same failure\<close>

definition same_failure_limit :: "env \<Rightarrow> int" where
  "same_failure_limit e = p_same_failure_limit (load e)"

definition failure_what :: "failure \<Rightarrow> string" where
  "failure_what f = (if f_headline f \<noteq> [] then f_headline f else take 200 (f_signature f))"

text \<open>The entry a sighting starts from: a new signature, or a count lower than the best
  seen, starts over.\<close>

definition entry_for :: "track \<Rightarrow> failure \<Rightarrow> sig_entry" where
  "entry_for t f =
     (case map_of (t_sigs t) (f_signature f) of
        None \<Rightarrow> \<lparr> e_states = [], e_seen = 0, e_best = f_count f \<rparr>
      | Some en \<Rightarrow> if f_count f < e_best en
                   then \<lparr> e_states = [], e_seen = 0, e_best = f_count f \<rparr> else en)"

definition sighted :: "int \<Rightarrow> sig_entry \<Rightarrow> string \<Rightarrow> sig_entry" where
  "sighted limit en key =
     en\<lparr> e_states := (if key \<in> set (e_states en) then e_states en
                      else slice_from (- (2 * limit)) (e_states en @ [key])),
         e_seen := e_seen en + 1 \<rparr>"

definition same_failure_observe :: "int \<Rightarrow> track \<Rightarrow> failure option \<Rightarrow> string \<Rightarrow> verdict \<times> track" where
  "same_failure_observe limit t fail key =
     (case fail of None \<Rightarrow> (Fine, t)
      | Some f \<Rightarrow>
          if f_signature f = [] then (Fine, t)
          else
            (let en = sighted limit (entry_for t f) key;
                 t1 = t\<lparr> t_sigs := remember max_sigs (t_sigs t) (f_signature f) en \<rparr>
             in if int (length (e_states en)) < limit \<and> e_seen en < 2 * limit then (Fine, t1)
                else
                  (let t2 = t1\<lparr> t_sigs := set_at (t_sigs t1) (f_signature f)
                                            (en\<lparr> e_states := [], e_seen := 0 \<rparr>),
                                t_trips := t_trips t + 1,
                                t_last := failure_what f \<rparr>
                   in (if t_trips t2 = 1 then Nudge else Stop, t2))))"

definition same_failure_nudge :: "int \<Rightarrow> failure \<Rightarrow> string" where
  "same_failure_nudge n f =
     ''[loop guard '' @ em_dash @ '' not the user] The SAME failure survived '' @ str_of_int n @
     '' different fixes: '' @ failure_what f @ ''. Your fixes are missing its cause. '' @
     ''Before touching code again: say in one or two sentences WHY the '' @
     ''last fixes did not change this failure (re-read the failing '' @
     ''test and the code it calls, not your own patch). Then change '' @
     ''approach '' @ em_dash @ '' or, if you cannot tell what the failure needs, stop '' @
     ''and ask the user.''"

definition same_failure_stop_text :: "failure \<Rightarrow> string" where
  "same_failure_stop_text f =
     (let what = failure_what f in
      ''I keep hitting the same failure after several different fixes'' @
      (if what \<noteq> [] then '' ('' @ what @ '')'' else []) @
      ''. I've paused rather than keep trying '' @ em_dash @ '' could you take a look '' @
      ''or tell me how you'd like me to proceed?'')"

text \<open>\<^verbatim>\<open>judge\<close>: the verdict with its text.\<close>

definition judge :: "int \<Rightarrow> track \<Rightarrow> failure \<Rightarrow> string \<Rightarrow> (verdict \<times> string) option \<times> track" where
  "judge limit t f key =
     (case same_failure_observe limit t (Some f) key of
        (Nudge, t') \<Rightarrow> (Some (Nudge, same_failure_nudge limit f), t')
      | (Stop, t') \<Rightarrow> (Some (Stop, same_failure_stop_text f), t')
      | (Fine, t') \<Rightarrow> (None, t'))"

section \<open>No progress\<close>

definition window_size :: nat where
  "window_size = 8"

definition streak :: nat where
  "streak = 6"

definition no_progress_steps :: "env \<Rightarrow> int" where
  "no_progress_steps e = p_no_progress_steps (load e)"

text \<open>\<open>Counter(xs).most_common(1)\<close>: the most frequent element, the first seen on a tie.\<close>

definition most_common1 :: "'a list \<Rightarrow> ('a \<times> nat) option" where
  "most_common1 xs =
     foldl (\<lambda>best x. let n = count_list xs x in
              (case best of None \<Rightarrow> Some (x, n)
               | Some (y, m) \<Rightarrow> if m < n then Some (x, n) else best))
           None (rev (remdups (rev xs)))"

definition streak_of :: "string \<Rightarrow> string list \<Rightarrow> string" where
  "streak_of what cls =
     (case most_common1 (filter (\<lambda>c. c \<noteq> []) cls) of
        None \<Rightarrow> []
      | Some (c, n) \<Rightarrow>
          if streak \<le> n then str_of_int (int n) @ '' similar steps ('' @ what @ '': '' @ take 80 c @ '')''
          else [])"

definition reason_of :: "int \<Rightarrow> (string \<times> string) list \<Rightarrow> int \<Rightarrow> string" where
  "reason_of steps window idle =
     (if steps \<le> idle then str_of_int idle @ '' steps without progress''
      else if length window < streak then []
      else (let r = streak_of ''command'' (map fst window)
            in if r \<noteq> [] then r else streak_of ''output'' (map snd window)))"

definition no_progress_observe ::
    "int \<Rightarrow> track \<Rightarrow> string \<Rightarrow> string \<Rightarrow> bool \<Rightarrow> verdict \<times> track" where
  "no_progress_observe steps t template out progress =
     (if progress then (Fine, t\<lparr> t_window := [], t_idle := 0 \<rparr>)
      else
        (let w = last_n window_size (t_window t @ [(template, out)]);
             i = t_idle t + 1;
             reason = reason_of steps w i
         in if reason = [] then (Fine, t\<lparr> t_window := w, t_idle := i \<rparr>)
            else
              (let t2 = t\<lparr> t_window := [], t_idle := 0, t_trips := t_trips t + 1,
                           t_last := reason \<rparr>
               in (if t_trips t2 = 1 then Nudge else Stop, t2))))"

definition would_trip :: "int \<Rightarrow> track \<Rightarrow> string \<Rightarrow> string \<Rightarrow> bool" where
  "would_trip steps t template out =
     (reason_of steps (last_n window_size (t_window t @ [(template, out)])) (t_idle t + 1) \<noteq> [])"

definition no_progress_nudge :: "string \<Rightarrow> string" where
  "no_progress_nudge reason =
     ''[loop guard '' @ em_dash @ '' not the user] You have taken many steps that make '' @
     ''no progress'' @ (if reason \<noteq> [] then '' ('' @ reason @ '')'' else []) @ '': nothing '' @
     ''changed in the workspace, nothing new was read, no test moved, no '' @
     ''command ended differently. Say, in two or three sentences, what '' @
     ''you have tried and why it is not converging. Then change approach '' @
     ''and carry on. Only if the goal is impossible as stated (e.g. '' @
     ''guessing a value only a hash knows), say so plainly.''"

definition no_progress_stop_text :: "string \<Rightarrow> string" where
  "no_progress_stop_text reason =
     ''I've been trying variations without getting any closer'' @
     (if reason \<noteq> [] then '' ('' @ reason @ '')'' else []) @
     ''. I've paused rather than keep going '' @ em_dash @ '' could you check whether '' @
     ''the goal is reachable, or tell me how you'd like me to proceed?''"

section \<open>The shared machine\<close>

text \<open>What one run feeds its tracker, in the order it happens.\<close>

datatype guard_event =
    Saw_failure "failure option" string
  | Took_step string string bool

fun guard_step :: "int \<Rightarrow> int \<Rightarrow> track \<Rightarrow> guard_event \<Rightarrow> verdict \<times> track" where
  "guard_step limit steps t (Saw_failure f key) = same_failure_observe limit t f key"
| "guard_step limit steps t (Took_step template out progress) =
     no_progress_observe steps t template out progress"

section \<open>The contract\<close>

lemmas guard_defs =
  same_failure_observe_def no_progress_observe_def Let_def

lemma guard_step_fine: "fst (guard_step limit steps t e) = Fine \<Longrightarrow>
    t_trips (snd (guard_step limit steps t e)) = t_trips t"
  by (cases e) (auto simp: guard_defs split: option.splits if_splits)

lemma guard_step_trip: "fst (guard_step limit steps t e) \<noteq> Fine \<Longrightarrow>
    t_trips (snd (guard_step limit steps t e)) = t_trips t + 1"
  by (cases e) (auto simp: guard_defs split: option.splits if_splits)

lemma guard_step_verdict: "fst (guard_step limit steps t e) \<noteq> Fine \<Longrightarrow>
    fst (guard_step limit steps t e) = (if t_trips t = 0 then Nudge else Stop)"
  by (cases e) (auto simp: guard_defs split: option.splits if_splits)

interpretation guard: trip_guard "guard_step limit steps" t_trips for limit steps
  by unfold_locales (fact guard_step_fine guard_step_trip guard_step_verdict)+

section \<open>The tracker's invariant\<close>

text \<open>Between steps no signature is at its limit, the tables are bounded, and the idle
  count is below the no-progress limit.\<close>

definition entry_ok :: "int \<Rightarrow> sig_entry \<Rightarrow> bool" where
  "entry_ok limit en \<longleftrightarrow> distinct (e_states en) \<and> int (length (e_states en)) < limit \<and>
     0 \<le> e_seen en \<and> e_seen en < 2 * limit"

definition track_ok :: "int \<Rightarrow> int \<Rightarrow> track \<Rightarrow> bool" where
  "track_ok limit steps t \<longleftrightarrow>
     distinct (keys (t_sigs t)) \<and> length (t_sigs t) \<le> max_sigs \<and>
     all_entries (entry_ok limit) (t_sigs t) \<and>
     length (t_window t) \<le> window_size \<and> 0 \<le> t_idle t \<and> t_idle t < steps \<and> 0 \<le> t_trips t"

lemma track_ok_new: "1 \<le> limit \<Longrightarrow> 1 \<le> steps \<Longrightarrow> track_ok limit steps new_track"
  by (simp add: track_ok_def new_track_def)

lemma slice_short: "int (length xs) \<le> n \<Longrightarrow> slice_from (- n) xs = xs"
  by (cases "n = 0") (auto simp: slice_from_def last_n_id)

lemma entry_for_ok: "track_ok limit steps t \<Longrightarrow> 1 \<le> limit \<Longrightarrow> entry_ok limit (entry_for t f)"
  using all_entriesD [of "entry_ok limit" "t_sigs t" "f_signature f"]
  by (auto simp: entry_for_def track_ok_def split: option.splits) (simp_all add: entry_ok_def)

lemma sighted_simps:
  assumes "entry_ok limit en"
  shows "e_states (sighted limit en key) = (if key \<in> set (e_states en) then e_states en else e_states en @ [key])"
    and "e_seen (sighted limit en key) = e_seen en + 1"
    and "e_best (sighted limit en key) = e_best en"
  using assms by (auto simp: sighted_def entry_ok_def slice_short)

lemma same_failure_track_ok:
  assumes ok: "track_ok limit steps t" and lim: "1 \<le> limit"
  shows "track_ok limit steps (snd (same_failure_observe limit t fail key))"
proof (cases "\<exists>f. fail = Some f \<and> f_signature f \<noteq> []")
  case False
  with ok show ?thesis by (auto simp: same_failure_observe_def split: option.splits)
next
  case True
  then obtain f where f: "fail = Some f" "f_signature f \<noteq> []" by auto
  let ?en = "sighted limit (entry_for t f) key"
  let ?s = "remember max_sigs (t_sigs t) (f_signature f) ?en"
  have en: "entry_ok limit (entry_for t f)" using ok lim by (rule entry_for_ok)
  have tab: "distinct (keys (t_sigs t))" "all_entries (entry_ok limit) (t_sigs t)"
    using ok by (simp_all add: track_ok_def)
  have d: "distinct (keys ?s)" using tab(1) by (rule sigs.invar_put)
  have len: "length ?s \<le> max_sigs" using sigs.size_put [OF tab(1)] by simp
  have same: "map_of ?s (f_signature f) = Some ?en" using tab(1) by (rule sigs.lookup_put_same)
  then have mem: "f_signature f \<in> set (keys ?s)"
    by (metis map_of_eq_None_iff option.distinct(1) list.set_map)
  have go_on: "all_entries (entry_ok limit) ?s"
    if "int (length (e_states ?en)) < limit" "e_seen ?en < 2 * limit"
    using that en by (intro all_entries_remember tab)
      (auto simp: entry_ok_def sighted_simps max_sigs_def split: if_splits)
  have reset: "all_entries (entry_ok limit) (set_at ?s (f_signature f) (?en\<lparr>e_states := [], e_seen := 0\<rparr>))"
    using lim by (intro all_entries_reset tab) (simp add: entry_ok_def)
  show ?thesis
    using ok d len f mem go_on reset
    by (auto simp: same_failure_observe_def track_ok_def Let_def distinct_set_at length_set_at)
qed

lemma reason_idle: "steps \<le> idle \<Longrightarrow> reason_of steps w idle \<noteq> []"
  by (simp add: reason_of_def)

lemma no_progress_track_ok:
  assumes "track_ok limit steps t" and "1 \<le> steps"
  shows "track_ok limit steps (snd (no_progress_observe steps t template out progress))"
  using assms reason_idle [of steps "t_idle t + 1"]
  by (force simp: no_progress_observe_def track_ok_def Let_def)

lemma guard_step_track_ok:
  "track_ok limit steps t \<Longrightarrow> 1 \<le> limit \<Longrightarrow> 1 \<le> steps \<Longrightarrow> track_ok limit steps (snd (guard_step limit steps t e))"
  by (cases e) (simp_all add: same_failure_track_ok no_progress_track_ok)

section \<open>Properties\<close>

text \<open>The two rules share one warning. Over any interleaving of failing runs and steps,
  from a tracker that has not tripped, the answers that are not fine are one nudge followed
  only by stops, as many as the tracker counts.\<close>

theorem one_nudge_per_run:
  assumes "t_trips t = 0"
  shows "filter (\<lambda>v. v \<noteq> Fine) (fst (run_with (guard_step limit steps) t es)) =
    (case nat (t_trips (snd (run_with (guard_step limit steps) t es))) of
       0 \<Rightarrow> [] | Suc n \<Rightarrow> Nudge # replicate n Stop)"
  using guard.alarms_fresh [OF assms, of limit steps es] guard.trips_run [of limit steps t es] assms
  by (simp add: guard.alarms_def)

theorem one_nudge_per_run_witness:
  "t_trips new_track = 0 \<and>
   filter (\<lambda>v. v \<noteq> Fine) (fst (run_with (guard_step 2 8) new_track
     [Saw_failure (Some \<lparr>f_signature = ''s'', f_count = 1, f_headline = []\<rparr>) ''a'',
      Saw_failure (Some \<lparr>f_signature = ''s'', f_count = 1, f_headline = []\<rparr>) ''b''])) =
   (case nat (t_trips (snd (run_with (guard_step 2 8) new_track
     [Saw_failure (Some \<lparr>f_signature = ''s'', f_count = 1, f_headline = []\<rparr>) ''a'',
      Saw_failure (Some \<lparr>f_signature = ''s'', f_count = 1, f_headline = []\<rparr>) ''b'']))) of
       0 \<Rightarrow> [] | Suc n \<Rightarrow> Nudge # replicate n Stop)"
proof -
  have h: "t_trips new_track = 0" by (simp add: new_track_def)
  show ?thesis using h one_nudge_per_run [OF h] by blast
qed

text \<open>Every step of either rule, on any input, keeps the tracker within its bounds: at
  most 64 signatures, fewer states and sightings per signature than would trip, a window of
  at most 8 steps and an idle count below the limit.\<close>

theorem guard_run_track_ok:
  assumes "track_ok limit steps t" and "1 \<le> limit" and "1 \<le> steps"
  shows "track_ok limit steps (snd (run_with (guard_step limit steps) t es))"
  using run_with_invariant [where P = "track_ok limit steps" and step = "guard_step limit steps"] assms
  by (simp add: guard_step_track_ok)

theorem guard_run_track_ok_witness:
  "track_ok 3 25 new_track \<and>
   track_ok 3 25 (snd (run_with (guard_step 3 25) new_track [Took_step ''a'' ''b'' False]))"
proof -
  have h: "track_ok 3 25 new_track" by (simp add: track_ok_new)
  show ?thesis using h guard_run_track_ok [OF h, of "[Took_step ''a'' ''b'' False]"] by simp
qed

text \<open>The run of one failure over a list of workspace states, below the limits.\<close>

abbreviation fail_run :: "int \<Rightarrow> track \<Rightarrow> failure \<Rightarrow> string list \<Rightarrow> verdict list \<times> track" where
  "fail_run limit t f ks \<equiv> run_with (\<lambda>t k. same_failure_observe limit t (Some f) k) t ks"

lemma fail_run_below:
  assumes ok: "track_ok limit steps t" and lim: "1 \<le> limit" and sig: "f_signature f \<noteq> []"
    and new: "map_of (t_sigs t) (f_signature f) = None"
    and "int (card (set ks)) < limit" and "int (length ks) < 2 * limit"
  shows "(\<forall>v \<in> set (fst (fail_run limit t f ks)). v = Fine) \<and>
    track_ok limit steps (snd (fail_run limit t f ks)) \<and>
    set (e_states (entry_for (snd (fail_run limit t f ks)) f)) = set ks \<and>
    e_seen (entry_for (snd (fail_run limit t f ks)) f) = int (length ks) \<and>
    e_best (entry_for (snd (fail_run limit t f ks)) f) = f_count f"
  using assms(5,6)
proof (induction ks rule: rev_induct)
  case Nil
  then show ?case using ok new by (simp add: entry_for_def)
next
  case (snoc k ks)
  let ?t = "snd (fail_run limit t f ks)"
  have "card (set ks) \<le> card (set (ks @ [k]))" by (rule card_mono) auto
  then have IH: "(\<forall>v \<in> set (fst (fail_run limit t f ks)). v = Fine)" "track_ok limit steps ?t"
      "set (e_states (entry_for ?t f)) = set ks" "e_seen (entry_for ?t f) = int (length ks)"
      "e_best (entry_for ?t f) = f_count f"
    using snoc.IH snoc.prems by auto
  have en: "entry_ok limit (entry_for ?t f)" using IH(2) lim by (rule entry_for_ok)
  let ?en = "sighted limit (entry_for ?t f) k"
  have states: "set (e_states ?en) = set (ks @ [k])" "distinct (e_states ?en)"
      and seen: "e_seen ?en = int (length (ks @ [k]))" and best: "e_best ?en = f_count f"
    using IH en by (auto simp: sighted_simps entry_ok_def)
  have "int (length (e_states ?en)) < limit"
    using states snoc.prems(1) by (metis distinct_card)
  moreover have "e_seen ?en < 2 * limit" using seen snoc.prems(2) by simp
  ultimately have step: "same_failure_observe limit ?t (Some f) k =
      (Fine, ?t\<lparr>t_sigs := remember max_sigs (t_sigs ?t) (f_signature f) ?en\<rparr>)"
    using sig by (simp add: same_failure_observe_def Let_def)
  have "entry_for (?t\<lparr>t_sigs := remember max_sigs (t_sigs ?t) (f_signature f) ?en\<rparr>) f = ?en"
    using IH(2) best by (simp add: entry_for_def track_ok_def sigs.lookup_put_same)
  then show ?case
    using IH(1) step states seen best same_failure_track_ok [OF IH(2) lim, of "Some f" k]
    by (simp add: run_with_append)
qed

lemma fail_run_trips:
  assumes "track_ok limit steps t" and "1 \<le> limit" and "f_signature f \<noteq> []"
    and "map_of (t_sigs t) (f_signature f) = None"
    and below: "int (card (set ks)) < limit" "int (length ks) < 2 * limit"
    and at: "limit \<le> int (card (set (ks @ [k]))) \<or> 2 * limit \<le> int (length (ks @ [k]))"
  shows "fst (same_failure_observe limit (snd (fail_run limit t f ks)) (Some f) k) \<noteq> Fine"
proof -
  let ?t = "snd (fail_run limit t f ks)" and ?en = "sighted limit (entry_for (snd (fail_run limit t f ks)) f) k"
  note IH = fail_run_below [OF assms(1-4) below]
  have en: "entry_ok limit (entry_for ?t f)" using IH assms(2) by (blast intro: entry_for_ok)
  have "set (e_states ?en) = set (ks @ [k])" "distinct (e_states ?en)" "e_seen ?en = int (length (ks @ [k]))"
    using IH en by (auto simp: sighted_simps entry_ok_def)
  then have "length (e_states ?en) = card (set (ks @ [k]))" by (metis distinct_card)
  then have "\<not> (int (length (e_states ?en)) < limit \<and> e_seen ?en < 2 * limit)"
    using at \<open>e_seen ?en = _\<close> by auto
  then show ?thesis
    using assms(3) by (auto simp: same_failure_observe_def Let_def)
qed

text \<open>The same-failure rule, exactly: a failure not seen before, met again and again with
  the same count, raises an alarm if and only if it survived \<open>limit\<close> distinct workspace
  states or was seen twice that often.\<close>

theorem same_failure_exact:
  assumes "track_ok limit steps t" and "1 \<le> limit" and "f_signature f \<noteq> []"
    and "map_of (t_sigs t) (f_signature f) = None"
  shows "(\<exists>v \<in> set (fst (fail_run limit t f ks)). v \<noteq> Fine) \<longleftrightarrow>
    limit \<le> int (card (set ks)) \<or> 2 * limit \<le> int (length ks)"
proof (induction ks rule: rev_induct)
  case Nil
  then show ?case using assms(2) by auto
next
  case (snoc k ks)
  have mono: "card (set ks) \<le> card (set (ks @ [k]))" by (rule card_mono) auto
  show ?case
  proof (cases "limit \<le> int (card (set ks)) \<or> 2 * limit \<le> int (length ks)")
    case True
    then have "limit \<le> int (card (set (ks @ [k]))) \<or> 2 * limit \<le> int (length (ks @ [k]))"
      using mono by (elim disjE) auto
    with True snoc.IH show ?thesis by (auto simp: run_with_append)
  next
    case False
    then have below: "int (card (set ks)) < limit" "int (length ks) < 2 * limit" by auto
    show ?thesis
    proof (cases "limit \<le> int (card (set (ks @ [k]))) \<or> 2 * limit \<le> int (length (ks @ [k]))")
      case True
      then show ?thesis using fail_run_trips [OF assms below True] by (simp add: run_with_append)
    next
      case False
      then show ?thesis using fail_run_below [OF assms, of "ks @ [k]"] by (auto simp: not_le)
    qed
  qed
qed

theorem same_failure_exact_witness:
  "track_ok 3 25 new_track \<and>
   ((\<exists>v \<in> set (fst (fail_run 3 new_track \<lparr>f_signature = ''s'', f_count = 1, f_headline = []\<rparr>
        [''a'', ''b'', ''c''])). v \<noteq> Fine) \<longleftrightarrow>
    (3::int) \<le> int (card (set [''a'', ''b'', ''c''])) \<or> 2 * 3 \<le> int (length [''a'', ''b'', ''c'']))"
proof -
  have h: "track_ok 3 25 new_track" by (simp add: track_ok_new)
  show ?thesis
    using h same_failure_exact [OF h, of "\<lparr>f_signature = ''s'', f_count = 1, f_headline = []\<rparr>"
        "[''a'', ''b'', ''c'']"]
    by (simp add: new_track_def)
qed

text \<open>The run of idle steps.\<close>

abbreviation idle_run :: "int \<Rightarrow> track \<Rightarrow> (string \<times> string) list \<Rightarrow> verdict list \<times> track" where
  "idle_run steps t ss \<equiv> run_with (\<lambda>t (a, b). no_progress_observe steps t a b False) t ss"

lemma reason_short: "idle < steps \<Longrightarrow> length w < streak \<Longrightarrow> reason_of steps w idle = []"
  by (simp add: reason_of_def)

lemma idle_run_short:
  assumes "8 \<le> steps"
    and "0 \<le> t_idle t" "t_idle t \<le> int (length (t_window t))"
    and "length (t_window t) + length ss < streak"
  shows "\<forall>v \<in> set (fst (idle_run steps t ss)). v = Fine"
  using assms(2-)
proof (induction ss arbitrary: t)
  case (Cons s ss)
  obtain a b where s: "s = (a, b)" by (cases s)
  let ?w = "t_window t @ [(a, b)]"
  have w: "last_n window_size ?w = ?w"
    using Cons.prems(3) by (simp add: last_n_id window_size_def streak_def)
  have "reason_of steps ?w (t_idle t + 1) = []"
    using Cons.prems assms(1) by (intro reason_short) (auto simp: streak_def)
  with w have step: "no_progress_observe steps t a b False =
      (Fine, t\<lparr>t_window := ?w, t_idle := t_idle t + 1\<rparr>)"
    by (simp add: no_progress_observe_def Let_def)
  show ?case using Cons.IH [of "t\<lparr>t_window := ?w, t_idle := t_idle t + 1\<rparr>"] Cons.prems s step by simp
qed simp

lemma idle_run_counts:
  "\<forall>v \<in> set (fst (idle_run steps t ss)). v = Fine \<Longrightarrow>
   t_idle (snd (idle_run steps t ss)) = t_idle t + int (length ss)"
proof (induction ss arbitrary: t)
  case (Cons s ss)
  obtain a b where s: "s = (a, b)" by (cases s)
  have "fst (no_progress_observe steps t a b False) = Fine" using Cons.prems s by simp
  then have "t_idle (snd (no_progress_observe steps t a b False)) = t_idle t + 1"
    by (auto simp: no_progress_observe_def Let_def split: if_splits)
  then show ?case using Cons s by simp
qed simp

lemma idle_run_track_ok:
  "track_ok limit steps t \<Longrightarrow> 1 \<le> steps \<Longrightarrow> track_ok limit steps (snd (idle_run steps t ss))"
  using run_with_invariant [where P = "track_ok limit steps" and
      step = "\<lambda>t (a, b). no_progress_observe steps t a b False"]
  by (auto simp: no_progress_track_ok)

lemma idle_run_trips:
  assumes "track_ok limit steps t" and "1 \<le> steps" and "steps \<le> int (length rs)"
  shows "\<exists>v \<in> set (fst (idle_run steps t rs)). v \<noteq> Fine"
proof (rule ccontr)
  assume "\<not> ?thesis"
  then have "t_idle (snd (idle_run steps t rs)) = t_idle t + int (length rs)"
    using idle_run_counts by blast
  moreover have "track_ok limit steps (snd (idle_run steps t rs))"
    using assms(1,2) by (rule idle_run_track_ok)
  ultimately show False using assms by (simp add: track_ok_def)
qed

text \<open>The no-progress rule neither cries wolf nor sleeps: right after any progress the next
  five steps are fine whatever they are, and \<open>steps\<close> idle steps in a row always raise an
  alarm, whatever they are and whatever came before.\<close>

theorem no_progress_window:
  assumes "track_ok limit steps t" and "8 \<le> steps"
  shows "(length ss \<le> 5 \<longrightarrow>
      (\<forall>v \<in> set (fst (idle_run steps (snd (no_progress_observe steps t a b True)) ss)). v = Fine)) \<and>
    (steps \<le> int (length rs) \<longrightarrow> (\<exists>v \<in> set (fst (idle_run steps t rs)). v \<noteq> Fine))"
proof (intro conjI impI)
  assume "length ss \<le> 5"
  then show "\<forall>v \<in> set (fst (idle_run steps (snd (no_progress_observe steps t a b True)) ss)). v = Fine"
    using assms(2) by (intro idle_run_short) (auto simp: no_progress_observe_def streak_def)
next
  assume "steps \<le> int (length rs)"
  then show "\<exists>v \<in> set (fst (idle_run steps t rs)). v \<noteq> Fine"
    using assms by (intro idle_run_trips) auto
qed

theorem no_progress_window_witness:
  "track_ok 3 25 new_track \<and>
   list_all (\<lambda>v. v = Fine) (fst (idle_run 25 (snd (no_progress_observe 25 new_track [] [] True)) [(''x'', ''y'')])) \<and>
   (\<exists>v \<in> set (fst (idle_run 25 new_track (replicate 25 (''x'', ''y'')))). v \<noteq> Fine)"
proof -
  have h: "track_ok 3 25 new_track" by (simp add: track_ok_new)
  show ?thesis
    using h no_progress_window [OF h, of "[(''x'', ''y'')]" "[]" "[]" "replicate 25 (''x'', ''y'')"]
    by (simp add: list_all_iff)
qed

text \<open>Asking first is the same as doing: \<open>would_trip\<close> says yes exactly when the step,
  taken without progress, would not be answered with fine.\<close>

theorem would_trip_iff:
  "would_trip steps t a b \<longleftrightarrow> fst (no_progress_observe steps t a b False) \<noteq> Fine"
  by (simp add: would_trip_def no_progress_observe_def Let_def)

end
