(* ===== verification/Stuck_Detect.thy ===== *)
theory Stuck_Detect
  imports Loop_Guards "HOL-Library.Multiset"
begin

text \<open>
  The detectors of the chat loop and the counters they keep:
  \<^verbatim>\<open>aiforge_core/runtime/stuck_signal.py\<close> and, under
  \<^verbatim>\<open>runtime/chat_agent/_turn/_stuck/\<close>, \<^verbatim>\<open>state.py\<close> and \<^verbatim>\<open>detect.py\<close>. The record
  \<open>stuck_state\<close> is \<^verbatim>\<open>StuckState\<close>; a detector takes it and returns its answer with the
  state updated.

  Arguments of the model: \<open>short\<close> is \<^verbatim>\<open>short_key\<close> (SHA-1 of a call signature) and
  \<open>hash\<close> the SHA-1 of the JSON text of a result. \<^verbatim>\<open>difflib.SequenceMatcher\<close> is written
  out.
\<close>

section \<open>Signals\<close>

datatype kind =
    Same_action | Identical_result | Ping_pong | Same_output | Idle_reply | Monologue
  | Narration | Same_failure | No_progress

record signal =
  g_kind :: kind
  g_key :: string
  g_detail :: string

section \<open>The counters\<close>

record stuck_state =
  s_strikes :: "(string, int) table"
  s_backstop :: "(string, int) table"
  s_lifetime :: "(string, int) table"
  s_lifetime_forgiven :: "(string, bool) table"
  s_action_counts :: "(string, int) table"
  s_recent_calls :: "(string \<times> string) list"
  s_identical_run :: "(string \<times> string \<times> int) option"
  s_recent_outputs :: "string list"
  s_monologue :: "string list option"
  s_idle_replies :: int
  s_idle_trips :: int
  s_continue_nudges :: int
  s_stuck_recoveries :: int
  s_recoveries_total :: int
  s_recovery_mark :: "(int \<times> int) option"
  s_recoveries_closed_mark :: "int option"
  s_stuck_escalations :: int
  s_restarts :: int
  s_reason_boost :: int
  s_failed_approaches :: "string list"
  s_same_fail :: track
  s_np_mark :: "int list"
  s_np_seen :: "(string, bool) table"
  s_np_fails :: "int option"

definition new_stuck :: stuck_state where
  "new_stuck =
     \<lparr> s_strikes = [], s_backstop = [], s_lifetime = [], s_lifetime_forgiven = [],
       s_action_counts = [], s_recent_calls = [], s_identical_run = None,
       s_recent_outputs = [], s_monologue = None, s_idle_replies = 0, s_idle_trips = 0,
       s_continue_nudges = 0, s_stuck_recoveries = 0, s_recoveries_total = 0,
       s_recovery_mark = None, s_recoveries_closed_mark = None, s_stuck_escalations = 0,
       s_restarts = 0, s_reason_boost = 0, s_failed_approaches = [], s_same_fail = new_track,
       s_np_mark = [0, 0, 0, 0, 0], s_np_seen = [], s_np_fails = None \<rparr>"

datatype scope = Scope_action | Scope_recovery | Scope_escalation | Scope_restart

fun reset :: "'a stuck_state_scheme \<Rightarrow> scope \<Rightarrow> 'a stuck_state_scheme" where
  "reset st Scope_action =
     st\<lparr> s_continue_nudges := 0, s_idle_replies := 0, s_idle_trips := 0,
         s_monologue := map_option (\<lambda>_. []) (s_monologue st) \<rparr>"
| "reset st Scope_recovery = st\<lparr> s_recent_calls := [] \<rparr>"
| "reset st Scope_escalation = st\<lparr> s_recent_calls := [] \<rparr>"
| "reset st Scope_restart =
     st\<lparr> s_recent_calls := [], s_recent_outputs := [], s_identical_run := None \<rparr>"

section \<open>Calls in a row\<close>

definition result_keys :: "string list" where
  "result_keys = [''ok'', ''code'', ''exit_code'', ''stdout'', ''stderr'', ''error'',
                  ''content'', ''text'', ''output'']"

fun result_body :: "pyval \<Rightarrow> pyval" where
  "result_body (PDict d) = PDict (map (\<lambda>k. (k, dget d k)) (filter (has_key d) result_keys))"
| "result_body v = v"

definition result_hash :: "(pyval \<Rightarrow> string) \<Rightarrow> pyval \<Rightarrow> string" where
  "result_hash hash result = hash (result_body result)"

definition recent_max :: nat where
  "recent_max = 6"

definition note_identical ::
    "(string \<Rightarrow> string) \<Rightarrow> (pyval \<Rightarrow> string) \<Rightarrow> 'a stuck_state_scheme \<Rightarrow> string \<Rightarrow> pyval
     \<Rightarrow> 'a stuck_state_scheme" where
  "note_identical short hash st sig result =
     (let key = short sig; rh = result_hash hash result;
          n = (case s_identical_run st of
                 None \<Rightarrow> 1
               | Some (k, h, m) \<Rightarrow> if k = key \<and> h = rh then m + 1 else 1)
      in st\<lparr> s_recent_calls := deque_append recent_max (s_recent_calls st) (key, rh),
             s_identical_run := Some (key, rh, n) \<rparr>)"

definition identical_repeats :: "(string \<Rightarrow> string) \<Rightarrow> 'a stuck_state_scheme \<Rightarrow> string \<Rightarrow> int" where
  "identical_repeats short st sig =
     (case s_identical_run st of
        None \<Rightarrow> 0
      | Some (k, h, n) \<Rightarrow> if k = short sig then n else 0)"

definition bump_identical ::
    "(string \<Rightarrow> string) \<Rightarrow> 'a stuck_state_scheme \<Rightarrow> string \<Rightarrow> 'a stuck_state_scheme" where
  "bump_identical short st sig =
     (case s_identical_run st of
        None \<Rightarrow> st
      | Some (k, h, n) \<Rightarrow> if k = short sig then st\<lparr> s_identical_run := Some (k, h, n + 1) \<rparr> else st)"

definition ping_pong :: "(string \<Rightarrow> string) \<Rightarrow> 'a stuck_state_scheme \<Rightarrow> string option \<Rightarrow> bool" where
  "ping_pong short st sig =
     (let r = s_recent_calls st in
      if length r < 6 then False
      else (let a = r ! 0; b = r ! 1 in
            if \<not> (fst a \<noteq> fst b \<and> r ! 2 = a \<and> r ! 4 = a \<and> r ! 3 = b \<and> r ! 5 = b) then False
            else (case sig of None \<Rightarrow> True | Some s \<Rightarrow> short s = fst a \<or> short s = fst b)))"

section \<open>Replies that say the same thing\<close>

text \<open>\<open>re.sub(r"[^a-z\s]+", " ", s)\<close>: a maximal run of other characters becomes one space.\<close>

definition kept_char :: "char \<Rightarrow> bool" where
  "kept_char c = (is_space c \<or> (let n = (of_char c :: nat) in 97 \<le> n \<and> n \<le> 122))"

fun sub_runs :: "bool \<Rightarrow> string \<Rightarrow> string" where
  "sub_runs inside [] = []"
| "sub_runs inside (c # s) =
     (if kept_char c then c # sub_runs False s
      else if inside then sub_runs True s
      else CHR '' '' # sub_runs True s)"

definition normalised :: "string \<Rightarrow> string" where
  "normalised text = take 800 (join '' '' (split_ws (sub_runs False (lower text))))"

text \<open>\<^verbatim>\<open>difflib.SequenceMatcher(None, a, b, autojunk=False)\<close>: the longest common block that
  starts earliest in \<open>a\<close>, then earliest in \<open>b\<close>, and the blocks left and right of it.\<close>

fun common_prefix :: "'a list \<Rightarrow> 'a list \<Rightarrow> nat" where
  "common_prefix (x # xs) (y # ys) = (if x = y then Suc (common_prefix xs ys) else 0)"
| "common_prefix _ _ = 0"

definition longest_match :: "'a list \<Rightarrow> 'a list \<Rightarrow> nat \<times> nat \<times> nat" where
  "longest_match a b =
     foldl (\<lambda>best c. if snd (snd best) < snd (snd c) then c else best) (0, 0, 0)
       (concat (map (\<lambda>i. map (\<lambda>j. (i, j, common_prefix (drop i a) (drop j b))) [0..<length b])
                 [0..<length a]))"

lemma common_prefix_le: "common_prefix xs ys \<le> length xs" "common_prefix xs ys \<le> length ys"
  by (induction xs ys rule: common_prefix.induct) auto

lemma common_prefix_take: "n \<le> common_prefix xs ys \<Longrightarrow> take n xs = take n ys"
  by (induction xs ys arbitrary: n rule: common_prefix.induct)
    (auto split: if_splits simp: take_Cons split: nat.splits)

lemma foldl_pick: "foldl (\<lambda>best c. if P best c then c else best) z cs \<in> insert z (set cs)"
proof (induction cs arbitrary: z)
  case (Cons c cs)
  then show ?case using Cons.IH [of "if P z c then c else z"] by (auto split: if_splits)
qed simp

lemma longest_match_sound:
  assumes "longest_match a b = (i, j, k)"
  shows "i + k \<le> length a" "j + k \<le> length b" "take k (drop i a) = take k (drop j b)"
proof -
  have "(i, j, k) \<in> insert (0, 0, 0) (set (concat (map (\<lambda>i. map (\<lambda>j.
      (i, j, common_prefix (drop i a) (drop j b))) [0..<length b]) [0..<length a])))"
    unfolding assms [symmetric] longest_match_def by (rule foldl_pick)
  then have "(i, j, k) = (0, 0, 0) \<or>
      (i < length a \<and> j < length b \<and> k = common_prefix (drop i a) (drop j b))"
    by auto
  then show "i + k \<le> length a" "j + k \<le> length b" "take k (drop i a) = take k (drop j b)"
    using common_prefix_le [of "drop i a" "drop j b"] common_prefix_take [of k "drop i a" "drop j b"]
    by auto
qed

function matching :: "'a list \<Rightarrow> 'a list \<Rightarrow> nat" where
  "matching a b =
     (case longest_match a b of (i, j, k) \<Rightarrow>
        if k = 0 then 0
        else k + matching (take i a) (take j b) + matching (drop (i + k) a) (drop (j + k) b))"
  by pat_completeness auto
termination
proof (relation "measure (\<lambda>(a, b). length a)")
  fix a b :: "'a list" and i j k and q
  assume "(i, q) = longest_match a b" "(j, k) = q" "k \<noteq> 0"
  then have "longest_match a b = (i, j, k)" "k \<noteq> 0" by auto
  then show "((take i a, take j b), a, b) \<in> measure (\<lambda>(a, b). length a)"
    "((drop (i + k) a, drop (j + k) b), a, b) \<in> measure (\<lambda>(a, b). length a)"
    using longest_match_sound(1) [of a b i j k] by auto
qed auto
declare matching.simps [simp del]

definition ratio_of :: "nat \<Rightarrow> nat \<Rightarrow> rat" where
  "ratio_of m n = (if n = 0 then 1 else 2 * of_nat m / of_nat n)"

definition seq_ratio :: "'a list \<Rightarrow> 'a list \<Rightarrow> rat" where
  "seq_ratio a b = ratio_of (matching a b) (length a + length b)"

fun common_count :: "'a list \<Rightarrow> 'a list \<Rightarrow> nat" where
  "common_count [] b = 0"
| "common_count (x # a) b = (if x \<in> set b then Suc (common_count a (remove1 x b)) else common_count a b)"

definition quick_ratio :: "'a list \<Rightarrow> 'a list \<Rightarrow> rat" where
  "quick_ratio a b = ratio_of (common_count a b) (length a + length b)"

definition real_quick_ratio :: "'a list \<Rightarrow> 'a list \<Rightarrow> rat" where
  "real_quick_ratio a b = ratio_of (min (length a) (length b)) (length a + length b)"

definition similar_text :: "env \<Rightarrow> string \<Rightarrow> string \<Rightarrow> bool" where
  "similar_text e a b =
     (if a = [] \<or> b = [] then False
      else if a = b then True
      else (let flr = p_monologue_similarity (load e) in
            flr \<le> real_quick_ratio a b \<and> flr \<le> quick_ratio a b \<and> flr \<le> seq_ratio a b))"

definition note_monologue :: "env \<Rightarrow> 'a stuck_state_scheme \<Rightarrow> string \<Rightarrow> bool \<times> 'a stuck_state_scheme" where
  "note_monologue e st text =
     (let n = p_monologue_repeats (load e) in
      if n \<le> 0 then (False, st)
      else
        (let recent = (case s_monologue st of None \<Rightarrow> [] | Some r \<Rightarrow> last_n (nat n) r);
             norm = normalised text
         in if norm = [] then (False, st\<lparr> s_monologue := Some recent \<rparr>)
            else
              (let items = deque_append (nat n) recent norm;
                   st' = st\<lparr> s_monologue := Some items \<rparr>
               in if int (length items) < n then (False, st')
                  else (list_all (\<lambda>i. similar_text e (items ! i) (items ! Suc i)) [0..<nat n - 1], st'))))"

definition reset_monologue :: "'a stuck_state_scheme \<Rightarrow> 'a stuck_state_scheme" where
  "reset_monologue st = st\<lparr> s_monologue := map_option (\<lambda>_. []) (s_monologue st) \<rparr>"

section \<open>The detectors a guard calls\<close>

definition output_repeat :: nat where
  "output_repeat = 3"

definition idle_replies_max :: int where
  "idle_replies_max = 8"

definition same_output :: "'a stuck_state_scheme \<Rightarrow> string \<Rightarrow> signal option \<times> 'a stuck_state_scheme" where
  "same_output st out =
     (let rs = deque_append output_repeat (s_recent_outputs st) (strip out);
          st' = st\<lparr> s_recent_outputs := rs \<rparr>
      in if length rs = output_repeat \<and> length (remdups rs) = 1
         then (Some \<lparr> g_kind = Same_output, g_key = strip out, g_detail = [] \<rparr>, st')
         else (None, st'))"

definition idle_reply :: "env \<Rightarrow> 'a stuck_state_scheme \<Rightarrow> string \<Rightarrow> signal option \<times> 'a stuck_state_scheme" where
  "idle_reply e st text =
     (let st1 = st\<lparr> s_idle_replies := s_idle_replies st + 1 \<rparr>;
          (mono, st2) = (if \<not> p_pause_on_stuck (load e) then note_monologue e st1 text
                         else (False, st1))
      in if mono
         then (Some \<lparr> g_kind = Monologue, g_key = text, g_detail = [] \<rparr>,
               reset_monologue (st2\<lparr> s_idle_replies := 0 \<rparr>))
         else if s_idle_replies st2 < idle_replies_max then (None, st2)
         else
           (let st3 = st2\<lparr> s_idle_replies := 0, s_idle_trips := s_idle_trips st2 + 1 \<rparr>
            in (Some \<lparr> g_kind = Idle_reply, g_key = [],
                       g_detail = (if s_idle_trips st3 = 1 then ''nudge'' else ''stop'') \<rparr>, st3)))"

definition narration :: "'a stuck_state_scheme \<Rightarrow> signal option \<times> 'a stuck_state_scheme" where
  "narration st =
     (let st' = st\<lparr> s_continue_nudges := s_continue_nudges st + 1 \<rparr>
      in (if 2 < s_continue_nudges st'
          then Some \<lparr> g_kind = Narration, g_key = [], g_detail = str_of_int (s_continue_nudges st') \<rparr>
          else None, st'))"

definition action :: "env \<Rightarrow> (string \<Rightarrow> string) \<Rightarrow> 'a stuck_state_scheme \<Rightarrow> string \<Rightarrow> string \<Rightarrow> bool
    \<Rightarrow> signal option" where
  "action e short st sig looping duplicate =
     (if looping \<noteq> [] then Some \<lparr> g_kind = Same_action, g_key = sig, g_detail = looping \<rparr>
      else if duplicate then None
      else if p_identical_repeats (load e) \<le> identical_repeats short st sig
      then Some \<lparr> g_kind = Identical_result, g_key = sig, g_detail = ''same'' \<rparr>
      else if ping_pong short st (Some sig)
      then Some \<lparr> g_kind = Ping_pong, g_key = sig, g_detail = ''same'' \<rparr>
      else None)"

text \<open>\<^verbatim>\<open>DETECTORS\<close> and \<^verbatim>\<open>detect\<close>: a phase's event selects its detector.\<close>

datatype phase_event =
    On_output string
  | On_reply string
  | On_narration
  | On_action string string bool

fun detect :: "env \<Rightarrow> (string \<Rightarrow> string) \<Rightarrow> 'a stuck_state_scheme \<Rightarrow> phase_event
    \<Rightarrow> signal option \<times> 'a stuck_state_scheme" where
  "detect e short st (On_output out) = same_output st out"
| "detect e short st (On_reply text) = idle_reply e st text"
| "detect e short st On_narration = narration st"
| "detect e short st (On_action sig looping duplicate) = (action e short st sig looping duplicate, st)"

section \<open>The similarity test\<close>

text \<open>The two cheap ratios bound the exact one from above: matched characters are common
  characters, and there are at most as many of them as the shorter text has.\<close>

lemma common_count_mset: "common_count a b = size (mset a \<inter># mset b)"
proof (induction a b rule: common_count.induct)
  case (2 x a b)
  show ?case
  proof (cases "x \<in> set b")
    case True
    then have "mset b = add_mset x (mset (remove1 x b))" by simp
    moreover have "add_mset x (mset a) \<inter># add_mset x (mset (remove1 x b)) =
        add_mset x (mset a \<inter># mset (remove1 x b))"
      by (metis add_mset_inter_add_mset)
    ultimately show ?thesis using 2(1) [OF True] True by simp
  next
    case False
    then have "add_mset x (mset a) \<inter># mset b = mset a \<inter># mset b" by (simp add: inter_add_left1)
    then show ?thesis using 2(2) [OF False] False by simp
  qed
qed simp

lemma inter_split: "size (X \<inter># Y) + size M + size (Z \<inter># W) \<le> size ((X + M + Z) \<inter># (Y + M + W))"
proof -
  have "(X \<inter># Y) + M + (Z \<inter># W) \<subseteq># (X + M + Z) \<inter># (Y + M + W)"
    by (intro subset_mset.inf.boundedI subset_mset.add_mono subset_mset.order_refl
        subset_mset.inf.cobounded1 subset_mset.inf.cobounded2)
  then show ?thesis by (metis size_mset_mono size_union)
qed

lemma split_block: "xs = take i xs @ take k (drop i xs) @ drop (i + k) xs"
  by (metis add.commute append_take_drop_id drop_drop)

lemma matching_le_common: "matching a b \<le> size (mset a \<inter># mset b)"
proof (induction a b rule: matching.induct)
  case (1 a b)
  obtain i j k where m: "longest_match a b = (i, j, k)" by (metis prod_cases3)
  show ?case
  proof (cases "k = 0")
    case True
    then show ?thesis using m by (subst matching.simps) simp
  next
    case False
    let ?m = "mset (take k (drop i a))"
    have a: "mset a = mset (take i a) + ?m + mset (drop (i + k) a)"
      using arg_cong [OF split_block [of a i k], of mset] by simp
    have b: "mset b = mset (take j b) + ?m + mset (drop (j + k) b)"
      using arg_cong [OF split_block [of b j k], of mset] longest_match_sound(3) [OF m] by simp
    have k: "size ?m = k" using longest_match_sound(1) [OF m] by simp
    have "matching a b = k + matching (take i a) (take j b) + matching (drop (i + k) a) (drop (j + k) b)"
      using m False by (subst matching.simps) simp
    also have "\<dots> \<le> size (mset (take i a) \<inter># mset (take j b)) + size ?m +
        size (mset (drop (i + k) a) \<inter># mset (drop (j + k) b))"
      using "1" [OF m [symmetric] refl False] k by simp
    also have "\<dots> \<le> size (mset a \<inter># mset b)"
      unfolding a b by (rule inter_split)
    finally show ?thesis .
  qed
qed

lemma ratio_mono: "m \<le> n \<Longrightarrow> ratio_of m t \<le> ratio_of n t"
  by (simp add: ratio_of_def divide_right_mono)

lemma quick_bounds: "seq_ratio a b \<le> quick_ratio a b" "quick_ratio a b \<le> real_quick_ratio a b"
proof -
  have "common_count a b \<le> min (length a) (length b)"
    using size_mset_mono [of "mset a \<inter># mset b" "mset a"] size_mset_mono [of "mset a \<inter># mset b" "mset b"]
    by (simp add: common_count_mset)
  then show "quick_ratio a b \<le> real_quick_ratio a b"
    unfolding quick_ratio_def real_quick_ratio_def by (rule ratio_mono)
  show "seq_ratio a b \<le> quick_ratio a b"
    unfolding quick_ratio_def seq_ratio_def common_count_mset by (rule ratio_mono) (rule matching_le_common)
qed

section \<open>The idle-reply contract\<close>

fun verdict_of :: "signal option \<Rightarrow> verdict" where
  "verdict_of None = Fine"
| "verdict_of (Some g) =
     (if g_kind g = Monologue then Fine else if g_detail g = ''nudge'' then Nudge else Stop)"

definition idle_step :: "env \<Rightarrow> stuck_state \<Rightarrow> string \<Rightarrow> verdict \<times> stuck_state" where
  "idle_step e st text = (verdict_of (fst (idle_reply e st text)), snd (idle_reply e st text))"

lemma note_monologue_keeps [simp]:
  "s_idle_replies (snd (note_monologue e st t)) = s_idle_replies st"
  "s_idle_trips (snd (note_monologue e st t)) = s_idle_trips st"
  by (auto simp: note_monologue_def Let_def)

text \<open>What one reply can do: a monologue, a count, or a trip.\<close>

lemma idle_reply_outcomes:
  obtains (mono) g st' where "idle_reply e st t = (Some g, st')" "g_kind g = Monologue"
      "s_idle_replies st' = 0" "s_idle_trips st' = s_idle_trips st"
  | (count) st' where "idle_reply e st t = (None, st')" "s_idle_replies st + 1 < idle_replies_max"
      "s_idle_replies st' = s_idle_replies st + 1" "s_idle_trips st' = s_idle_trips st"
  | (trip) g st' where "idle_reply e st t = (Some g, st')" "idle_replies_max \<le> s_idle_replies st + 1"
      "g_kind g = Idle_reply" "g_detail g = (if s_idle_trips st = 0 then ''nudge'' else ''stop'')"
      "s_idle_replies st' = 0" "s_idle_trips st' = s_idle_trips st + 1"
proof -
  let ?st1 = "st\<lparr> s_idle_replies := s_idle_replies st + 1 \<rparr>"
  obtain m st2 where p: "(if \<not> p_pause_on_stuck (load e) then note_monologue e ?st1 t else (False, ?st1)) = (m, st2)"
    by fastforce
  have st2: "s_idle_replies st2 = s_idle_replies st + 1" "s_idle_trips st2 = s_idle_trips st"
    using arg_cong [OF p, of "\<lambda>p. s_idle_replies (snd p)"] arg_cong [OF p, of "\<lambda>p. s_idle_trips (snd p)"]
    by (simp_all split: if_splits)
  have r: "idle_reply e st t =
     (if m then (Some \<lparr> g_kind = Monologue, g_key = t, g_detail = [] \<rparr>, reset_monologue (st2\<lparr> s_idle_replies := 0 \<rparr>))
      else if s_idle_replies st2 < idle_replies_max then (None, st2)
      else (Some \<lparr> g_kind = Idle_reply, g_key = [],
                   g_detail = (if s_idle_trips st2 = 0 then ''nudge'' else ''stop'') \<rparr>,
            st2\<lparr> s_idle_replies := 0, s_idle_trips := s_idle_trips st2 + 1 \<rparr>))"
    unfolding idle_reply_def Let_def p by simp
  consider "m" | "\<not> m" "s_idle_replies st2 < idle_replies_max" | "\<not> m" "idle_replies_max \<le> s_idle_replies st2"
    by linarith
  then show thesis
  proof cases
    case 1
    with r have "idle_reply e st t = (Some \<lparr> g_kind = Monologue, g_key = t, g_detail = [] \<rparr>,
        reset_monologue (st2\<lparr> s_idle_replies := 0 \<rparr>))" by simp
    then show thesis by (rule mono) (simp_all add: reset_monologue_def st2)
  next
    case 2
    with r have "idle_reply e st t = (None, st2)" by simp
    then show thesis by (rule count) (use 2 st2 in simp_all)
  next
    case 3
    with r have "idle_reply e st t = (Some \<lparr> g_kind = Idle_reply, g_key = [],
        g_detail = (if s_idle_trips st2 = 0 then ''nudge'' else ''stop'') \<rparr>,
        st2\<lparr> s_idle_replies := 0, s_idle_trips := s_idle_trips st2 + 1 \<rparr>)" by simp
    then show thesis by (rule trip) (use 3 st2 in simp_all)
  qed
qed

lemma idle_step_fine: "fst (idle_step e st t) = Fine \<Longrightarrow> s_idle_trips (snd (idle_step e st t)) = s_idle_trips st"
  by (rule idle_reply_outcomes [of e st t]) (auto simp: idle_step_def split: if_splits)

lemma idle_step_trip: "fst (idle_step e st t) \<noteq> Fine \<Longrightarrow> s_idle_trips (snd (idle_step e st t)) = s_idle_trips st + 1"
  by (rule idle_reply_outcomes [of e st t]) (auto simp: idle_step_def)

lemma idle_step_verdict: "fst (idle_step e st t) \<noteq> Fine \<Longrightarrow>
    fst (idle_step e st t) = (if s_idle_trips st = 0 then Nudge else Stop)"
  by (rule idle_reply_outcomes [of e st t]) (auto simp: idle_step_def)

interpretation idle: trip_guard "idle_step e" s_idle_trips for e
  by unfold_locales (fact idle_step_fine idle_step_trip idle_step_verdict)+

text \<open>A quiet run of replies is short.\<close>

lemma idle_quiet:
  assumes "0 \<le> s_idle_replies st" and "s_idle_replies st < idle_replies_max"
    and "\<forall>r \<in> set (fst (run_with (idle_reply e) st ts)). r = None"
  shows "s_idle_replies st + int (length ts) < idle_replies_max"
  using assms
proof (induction ts arbitrary: st)
  case (Cons t ts)
  from Cons.prems(3) have q: "fst (idle_reply e st t) = None" by simp
  show ?case
  proof (rule idle_reply_outcomes [of e st t])
    fix st' assume "idle_reply e st t = (None, st')" "s_idle_replies st + 1 < idle_replies_max"
      "s_idle_replies st' = s_idle_replies st + 1"
    then show ?case using Cons.IH [of st'] Cons.prems by simp
  qed (use q in auto)
qed simp

section \<open>Properties\<close>

text \<open>Calls in a row are counted exactly: after any sequence of calls from a new turn, the
  count for a call is the length of the longest suffix of calls with that call's signature
  and the last result.\<close>

theorem identical_repeats_exact:
  "identical_repeats short (foldl (\<lambda>st (s, r). note_identical short hash st s r) new_stuck calls) sig =
     (let ks = rev (map (\<lambda>(s, r). (short s, result_hash hash r)) calls)
      in if ks \<noteq> [] \<and> fst (hd ks) = short sig then int (length (takeWhile (\<lambda>k. k = hd ks) ks)) else 0)"
proof -
  let ?st = "\<lambda>calls. foldl (\<lambda>st (s, r). note_identical short hash st s r) new_stuck calls"
  let ?ks = "\<lambda>calls. rev (map (\<lambda>(s, r). (short s, result_hash hash r)) calls)"
  have "s_identical_run (?st calls) =
     (case ?ks calls of [] \<Rightarrow> None
      | k # _ \<Rightarrow> Some (fst k, snd k, int (length (takeWhile (\<lambda>j. j = k) (?ks calls)))))"
  proof (induction calls rule: rev_induct)
    case Nil
    then show ?case by (simp add: new_stuck_def)
  next
    case (snoc c calls)
    obtain s r where c: "c = (s, r)" by (cases c)
    show ?case
    proof (cases "?ks calls")
      case Nil
      then show ?thesis using snoc c by (simp add: note_identical_def Let_def)
    next
      case (Cons k ks)
      then show ?thesis using snoc c by (cases k) (auto simp: note_identical_def Let_def)
    qed
  qed
  then show ?thesis
    by (simp add: identical_repeats_def Let_def split: list.split)
qed

text \<open>The similarity test may try the two cheap ratios first: whatever the texts and the
  policy, it answers as the exact ratio alone would.\<close>

theorem similar_text_exact:
  "similar_text e a b \<longleftrightarrow> a \<noteq> [] \<and> b \<noteq> [] \<and> (a = b \<or> p_monologue_similarity (load e) \<le> seq_ratio a b)"
  using quick_bounds [of a b] by (auto simp: similar_text_def Let_def)

text \<open>Replies that run no tool cannot go on quietly: eight in a row always raise a signal,
  and the idle-reply signals of a turn are one nudge followed only by stops.\<close>

theorem idle_replies_trip:
  assumes "s_idle_trips st = 0" and "0 \<le> s_idle_replies st" and "s_idle_replies st < idle_replies_max"
  shows "(8 \<le> length ts \<longrightarrow> (\<exists>r \<in> set (fst (run_with (idle_reply e) st ts)). r \<noteq> None)) \<and>
    filter (\<lambda>v. v \<noteq> Fine) (fst (run_with (idle_step e) st ts)) =
      (case nat (s_idle_trips (snd (run_with (idle_step e) st ts))) of
         0 \<Rightarrow> [] | Suc n \<Rightarrow> Nudge # replicate n Stop)"
proof (intro conjI impI)
  assume "8 \<le> length ts"
  then show "\<exists>r \<in> set (fst (run_with (idle_reply e) st ts)). r \<noteq> None"
    using idle_quiet [OF assms(2,3), of e ts] assms(2) by (fastforce simp: idle_replies_max_def)
next
  show "filter (\<lambda>v. v \<noteq> Fine) (fst (run_with (idle_step e) st ts)) =
      (case nat (s_idle_trips (snd (run_with (idle_step e) st ts))) of
         0 \<Rightarrow> [] | Suc n \<Rightarrow> Nudge # replicate n Stop)"
    using idle.alarms_fresh [OF assms(1), of e ts] idle.trips_run [of e st ts] assms(1)
    by (simp add: idle.alarms_def)
qed

theorem idle_replies_trip_witness:
  "s_idle_trips new_stuck = 0 \<and>
   (\<exists>r \<in> set (fst (run_with (idle_reply Map.empty) new_stuck (replicate 8 ''ok''))). r \<noteq> None)"
proof -
  have h: "s_idle_trips new_stuck = 0" "0 \<le> s_idle_replies new_stuck"
      "s_idle_replies new_stuck < idle_replies_max"
    by (simp_all add: new_stuck_def idle_replies_max_def)
  show ?thesis using h idle_replies_trip [OF h, of "replicate 8 ''ok''" Map.empty] by simp
qed

end
