(* ===== verification/Progress.thy ===== *)
theory Progress
  imports Stuck_Detect "HOL-Library.Char_ord" "HOL-Library.List_Lexorder" "HOL-Library.Product_Lexorder"
begin

text \<open>
  Telling a moving run from one that goes round:
  \<^verbatim>\<open>aiforge_core/runtime/chat_agent/_turn/_progress.py\<close>, with the write-tool table of
  \<^verbatim>\<open>runtime/tools/mutating.py\<close>. The state is \<open>loop_state\<close>, the counters of
  \<open>stuck_state\<close> with the fields \<^verbatim>\<open>progress_fields\<close> adds, the task board, and the
  conversation the response ladder writes.

  The record \<open>world\<close> holds what the code asks the operating system: SHA-1, the content
  digest of a file, \<^verbatim>\<open>stat\<close>, directory entries, path resolution, the JSON text of a
  state, and \<^verbatim>\<open>git\<close>, which may time out or fail.
\<close>

section \<open>The state and the world\<close>

type_synonym message = "(string \<times> pyval) list"

record loop_state = stuck_state +
  l_file_hashes :: "(string, string) table"
  l_state_fp :: string
  l_states_seen :: "(string, bool) table"
  l_paths_read :: "(string, bool) table"
  l_tree_pending :: bool
  l_tree_cwd :: "string option"
  l_cwd :: string
  l_tree_hashes :: "(string, string) table"
  l_tree_cache :: "(string, (int \<times> int) \<times> string) table"
  l_unknown_edits :: int
  l_git_root :: "string option"
  l_git_off :: bool
  l_new_states :: int
  l_new_files :: int
  l_board :: "(string, (string \<times> pyval) list) table"
  l_convo :: "message list"
  l_wrapping_up :: bool

definition new_loop :: "string \<Rightarrow> loop_state" where
  "new_loop cwd = stuck_state.extend new_stuck
     \<lparr> l_file_hashes = [], l_state_fp = [], l_states_seen = [([], True)], l_paths_read = [],
       l_tree_pending = False, l_tree_cwd = None, l_cwd = cwd, l_tree_hashes = [],
       l_tree_cache = [], l_unknown_edits = 0, l_git_root = None, l_git_off = False,
       l_new_states = 0, l_new_files = 0, l_board = [], l_convo = [], l_wrapping_up = False \<rparr>"

record world =
  w_sha1 :: "string \<Rightarrow> string"
  w_digest :: "string \<Rightarrow> string"
  w_stat :: "string \<Rightarrow> (int \<times> int) option"
  w_entries :: "string \<Rightarrow> (string \<times> int \<times> int) list option"
  w_is_dir :: "string \<Rightarrow> bool"
  w_full :: "string \<Rightarrow> string \<Rightarrow> string"
  w_json :: "(string \<times> string) list \<Rightarrow> (string \<times> string) list \<Rightarrow> int \<Rightarrow> string"
  w_git :: "string \<Rightarrow> string list \<Rightarrow> git_answer"

section \<open>Which calls write\<close>

definition file_write_tools :: "string list" where
  "file_write_tools =
     [''file_write'', ''file_create'', ''file_patch'', ''editor'', ''multi_edit'',
      ''rename_symbol'', ''format'', ''write'', ''write_file'', ''create_file'', ''patch'',
      ''apply_patch'', ''edit'', ''edit_block'', ''str_replace'']"

definition editor_readonly_cmds :: "string list" where
  "editor_readonly_cmds = [''view'', ''read'', ''list'', ''ls'', ''cat'', ''open'']"

definition editor_command :: "(pyval \<Rightarrow> string) \<Rightarrow> (string \<times> pyval) list \<Rightarrow> string" where
  "editor_command rep a =
     lower (strip (py_str rep (por (dget a ''command'') (por (dget a ''sub_command'') (PStr [])))))"

definition writes_files :: "(pyval \<Rightarrow> string) \<Rightarrow> string \<Rightarrow> (string \<times> pyval) list \<Rightarrow> bool" where
  "writes_files rep name a =
     (if name \<notin> set file_write_tools then False
      else if name = ''editor'' then editor_command rep a \<notin> set editor_readonly_cmds
      else True)"

section \<open>Paths a call names\<close>

definition path_keys :: "string list" where
  "path_keys = [''path'', ''file'', ''file_path'', ''target'', ''dest'', ''new_path'']"

definition path_list_keys :: "string list" where
  "path_list_keys = [''paths'', ''files'']"

fun str_value :: "pyval \<Rightarrow> string option" where
  "str_value (PStr s) = Some s"
| "str_value _ = None"

definition strs :: "pyval list \<Rightarrow> string list" where
  "strs vs = List.map_filter str_value vs"

fun edit_path :: "pyval \<Rightarrow> string option" where
  "edit_path (PDict e) = str_value (dget e ''path'')"
| "edit_path _ = None"

fun paths_in :: "pyval \<Rightarrow> string list" where
  "paths_in (PDict src) =
     filter (\<lambda>s. s \<noteq> []) (strs (map (dget src) path_keys)) @
     concat (map (\<lambda>k. filter (\<lambda>s. s \<noteq> []) (strs (list_of (dget src k)))) path_list_keys) @
     List.map_filter edit_path (list_of (dget src ''edits''))"
| "paths_in _ = []"

definition named_paths :: "pyval \<Rightarrow> pyval \<Rightarrow> string list" where
  "named_paths args result = paths_in args @ paths_in result"

section \<open>Workspace states\<close>

definition state_of :: "world \<Rightarrow> 'a loop_state_scheme \<Rightarrow> string" where
  "state_of w st = w_sha1 w (w_json w (sort (l_file_hashes st)) (sort (l_tree_hashes st)) (l_unknown_edits st))"

definition enter_state :: "'a loop_state_scheme \<Rightarrow> string \<Rightarrow> bool \<Rightarrow> 'a loop_state_scheme" where
  "enter_state st fp known =
     (let st1 = st\<lparr> l_state_fp := fp \<rparr>;
          st2 = (if map_of (l_states_seen st1) fp = None
                 then (let st' = st1\<lparr> l_new_states := l_new_states st1 + 1 \<rparr>
                       in if known then st'\<lparr> s_backstop := [] \<rparr> else st')
                 else st1)
      in st2\<lparr> l_states_seen := remember max_tracked (l_states_seen st2) fp True \<rparr>)"

fun failed_result :: "pyval \<Rightarrow> bool" where
  "failed_result (PDict d) = (dget d ''ok'' = PBool False)"
| "failed_result _ = False"

fun as_args :: "pyval \<Rightarrow> (string \<times> pyval) list" where
  "as_args (PDict d) = d"
| "as_args _ = []"

definition note_write :: "world \<Rightarrow> (pyval \<Rightarrow> string) \<Rightarrow> 'a loop_state_scheme \<Rightarrow> string \<Rightarrow> pyval \<Rightarrow> pyval
    \<Rightarrow> string \<Rightarrow> bool \<times> 'a loop_state_scheme" where
  "note_write w rep st name args result cwd =
     (if \<not> writes_files rep name (as_args args) then (False, st)
      else if failed_result result then (False, st)
      else
        (let paths = (let p = named_paths args PNone in if p \<noteq> [] then p else named_paths PNone result);
             files = map (\<lambda>p. w_full w p cwd) paths;
             known = (files \<noteq> [] \<and> \<not> list_ex (w_is_dir w) files);
             st1 = (if known
                    then st\<lparr> l_file_hashes :=
                           foldl (\<lambda>t f. remember max_tracked t f (w_digest w f)) (l_file_hashes st) files \<rparr>
                    else st\<lparr> l_unknown_edits := l_unknown_edits st + 1 \<rparr>)
         in (True, enter_state st1 (state_of w st1) known)))"

section \<open>What the shell changed\<close>

definition max_changed :: nat where
  "max_changed = 500"

definition git :: "world \<Rightarrow> 'a loop_state_scheme \<Rightarrow> string \<Rightarrow> string list
    \<Rightarrow> string option \<times> 'a loop_state_scheme" where
  "git w st cwd argv =
     (case w_git w cwd argv of
        Git_timeout \<Rightarrow> (None, st\<lparr> l_git_off := True \<rparr>)
      | Git_failed \<Rightarrow> (None, st)
      | Git_out out \<Rightarrow> (Some out, st))"

definition no_file :: string where
  "no_file = ''-''"

definition folder_digest :: "world \<Rightarrow> string \<Rightarrow> string" where
  "folder_digest w path =
     (case w_entries w path of
        None \<Rightarrow> no_file
      | Some es \<Rightarrow>
          w_sha1 w (join ''|'' (take max_changed
            (sort (map (\<lambda>(n, size, mtime). n @ '':'' @ str_of_int size @ '':'' @ str_of_int mtime) es)))))"

definition cached_digest :: "world \<Rightarrow> 'a loop_state_scheme \<Rightarrow> string \<Rightarrow> string \<times> 'a loop_state_scheme" where
  "cached_digest w st path =
     (case w_stat w path of
        None \<Rightarrow> (no_file, st)
      | Some key \<Rightarrow>
          (let miss = (w_digest w path,
                       st\<lparr> l_tree_cache := remember max_tracked (l_tree_cache st) path (key, w_digest w path) \<rparr>)
           in case map_of (l_tree_cache st) path of
                None \<Rightarrow> miss
              | Some (k, d) \<Rightarrow> if k = key then (d, st) else miss))"

definition path_join :: "string \<Rightarrow> string \<Rightarrow> string" where
  "path_join a b =
     (if starts_with ''/'' b then b
      else if a = [] \<or> last a = CHR ''/'' then a @ b
      else a @ ''/'' @ b)"

text \<open>The porcelain entries, separated by a zero byte; a rename's old path is an entry of
  its own, and is skipped.\<close>

fun changed_entries :: "world \<Rightarrow> string \<Rightarrow> 'a loop_state_scheme \<Rightarrow> string list \<Rightarrow> (string, string) table
    \<Rightarrow> (string, string) table \<times> 'a loop_state_scheme" where
  "changed_entries w base st [] changed = (changed, st)"
| "changed_entries w base st (entry # entries) changed =
     (if max_changed \<le> length changed then (changed, st)
      else if length entry < 4 then changed_entries w base st entries changed
      else
        (let rest = (if hd entry = CHR ''R'' \<or> hd entry = CHR ''C'' then drop 1 entries else entries);
             path = path_join base (drop 3 entry);
             ds = (if w_is_dir w path then (folder_digest w path, st) else cached_digest w st path)
         in changed_entries w base (snd ds) rest (set_at changed path (fst ds))))"

definition tracked_changes :: "world \<Rightarrow> 'a loop_state_scheme \<Rightarrow> string
    \<Rightarrow> (string, string) table option \<times> 'a loop_state_scheme" where
  "tracked_changes w st cwd =
     (if l_git_off st then (None, st)
      else
        (let (base, st1) =
               (case l_git_root st of
                  Some r \<Rightarrow> (r, st)
                | None \<Rightarrow>
                    (let (top, st') = git w st cwd [''rev-parse'', ''--show-toplevel''];
                         r = (case top of None \<Rightarrow> [] | Some t \<Rightarrow> strip t)
                     in (r, st'\<lparr> l_git_root := Some r \<rparr>)))
         in if base = [] then (None, st1)
            else
              (let (out, st2) = git w st1 cwd [''status'', ''--porcelain'', ''-z'', ''--untracked-files=normal'']
               in case out of
                    None \<Rightarrow> (None, st2)
                  | Some txt \<Rightarrow>
                      (let (c, st3) = changed_entries w base st2 (split_char (CHR 0x00) txt) []
                       in (Some c, st3)))))"

definition shell_tools :: "string list" where
  "shell_tools = [''run_command'', ''bash'', ''shell'', ''run'', ''run_shell'']"

definition note_command :: "'a loop_state_scheme \<Rightarrow> string \<Rightarrow> pyval \<Rightarrow> string \<Rightarrow> 'a loop_state_scheme" where
  "note_command st name result cwd =
     (if name \<in> set shell_tools \<and> is_dict result \<and> truthy (dget (as_args result) ''ok'')
      then st\<lparr> l_tree_pending := True, l_tree_cwd := Some cwd \<rparr> else st)"

definition refresh_tree :: "world \<Rightarrow> 'a loop_state_scheme \<Rightarrow> 'a loop_state_scheme" where
  "refresh_tree w st =
     (let st0 = st\<lparr> l_tree_pending := False \<rparr>;
          cwd = (case l_tree_cwd st0 of None \<Rightarrow> l_cwd st0 | Some c \<Rightarrow> if c = [] then l_cwd st0 else c);
          (changed, st1) = tracked_changes w st0 cwd
      in case changed of
           None \<Rightarrow> st1
         | Some c \<Rightarrow>
             if set c = set (l_tree_hashes st1) then st1
             else (let st2 = st1\<lparr> l_tree_hashes := c \<rparr> in enter_state st2 (state_of w st2) True))"

definition read_one :: "'a loop_state_scheme \<Rightarrow> string \<Rightarrow> 'a loop_state_scheme" where
  "read_one st p =
     (let st' = (if map_of (l_paths_read st) p = None then st\<lparr> l_new_files := l_new_files st + 1 \<rparr> else st)
      in st'\<lparr> l_paths_read := remember max_tracked (l_paths_read st') p True \<rparr>)"

definition note_read :: "world \<Rightarrow> 'a loop_state_scheme \<Rightarrow> pyval \<Rightarrow> pyval \<Rightarrow> string \<Rightarrow> 'a loop_state_scheme" where
  "note_read w st args result cwd =
     (if failed_result result then st
      else foldl read_one st (map (\<lambda>p. w_full w p cwd) (named_paths args PNone)))"

section \<open>Repeats\<close>

definition loop_repeat :: int where
  "loop_repeat = 4"

definition count_key :: "world \<Rightarrow> string \<Rightarrow> string \<Rightarrow> string" where
  "count_key w name sig = name @ ''|'' @ take 16 (w_sha1 w sig)"

definition strike_key :: "'a loop_state_scheme \<Rightarrow> string \<Rightarrow> string" where
  "strike_key st sig = sig @ ''@'' @ l_state_fp st"

definition over :: "env \<Rightarrow> 'a loop_state_scheme \<Rightarrow> string \<Rightarrow> bool \<Rightarrow> int \<Rightarrow> bool" where
  "over e st sig per_state extra =
     (if per_state \<and> loop_repeat \<le> get_or (s_strikes st) (strike_key st sig) 0 + extra then True
      else (let b = p_backstop (load e) in
            b \<le> get_or (s_backstop st) sig 0 \<or> 3 * b \<le> get_or (s_lifetime st) sig 0))"

definition strike :: "world \<Rightarrow> env \<Rightarrow> 'a loop_state_scheme \<Rightarrow> string \<Rightarrow> bool
    \<Rightarrow> string \<times> 'a loop_state_scheme" where
  "strike w e st sig0 per_state =
     (let sig = w_sha1 w sig0;
          st1 = st\<lparr> s_lifetime := remember max_tracked (s_lifetime st) sig (get_or (s_lifetime st) sig 0 + 1) \<rparr>;
          st2 = st1\<lparr> s_backstop := remember max_tracked (s_backstop st1) sig (get_or (s_backstop st1) sig 0 + 1) \<rparr>;
          st3 = (if l_tree_pending st2 \<and> over e st2 sig per_state 1 then refresh_tree w st2 else st2)
      in if per_state
         then (let key = strike_key st3 sig;
                   n = get_or (s_strikes st3) key 0 + 1;
                   st4 = st3\<lparr> s_strikes := remember max_tracked (s_strikes st3) key n \<rparr>
               in if loop_repeat \<le> n then (''same'', st4)
                  else (if over e st4 sig False 0 then ''often'' else [], st4))
         else (if over e st3 sig False 0 then ''often'' else [], st3))"

definition forgive :: "world \<Rightarrow> env \<Rightarrow> 'a loop_state_scheme \<Rightarrow> string \<Rightarrow> 'a loop_state_scheme" where
  "forgive w e st0 sig0 =
     (let st = reset st0 Scope_recovery;
          sig = w_sha1 w sig0;
          b = p_backstop (load e);
          st1 = st\<lparr> s_strikes := set_at (s_strikes st) (strike_key st sig) 0 \<rparr>;
          st2 = (if b \<le> get_or (s_backstop st1) sig 0
                 then st1\<lparr> s_backstop := set_at (s_backstop st1) sig 0 \<rparr> else st1)
      in if 3 * b \<le> get_or (s_lifetime st2) sig 0 \<and> map_of (s_lifetime_forgiven st2) sig = None
         then st2\<lparr> s_lifetime_forgiven := remember max_tracked (s_lifetime_forgiven st2) sig True,
                   s_lifetime := set_at (s_lifetime st2) sig 0 \<rparr>
         else st2)"

section \<open>Recoveries\<close>

definition closed_items :: "'a loop_state_scheme \<Rightarrow> int" where
  "closed_items st = int (length (filter (\<lambda>(_, it). dget it ''status'' = PStr ''done'') (l_board st)))"

text \<open>The refills: the per-stall budget once the workspace or the reading moved since the last
  recovery, the per-run ceiling once more items are done than ever before.\<close>

definition refill :: "'a loop_state_scheme \<Rightarrow> 'a loop_state_scheme" where
  "refill st =
     (let mark = (l_new_states st, l_new_files st); closed = closed_items st
      in st\<lparr> s_stuck_recoveries :=
               (case s_recovery_mark st of None \<Rightarrow> s_stuck_recoveries st
                | Some m \<Rightarrow> if mark \<noteq> m then 0 else s_stuck_recoveries st),
             s_recovery_mark := Some mark,
             s_recoveries_total :=
               (case s_recoveries_closed_mark st of None \<Rightarrow> s_recoveries_total st
                | Some m \<Rightarrow> if m < closed then 0 else s_recoveries_total st),
             s_recoveries_closed_mark :=
               Some (max closed (case s_recoveries_closed_mark st of None \<Rightarrow> 0 | Some m \<Rightarrow> m)) \<rparr>)"

definition may_recover :: "world \<Rightarrow> env \<Rightarrow> 'a loop_state_scheme \<Rightarrow> bool \<times> 'a loop_state_scheme" where
  "may_recover w e st =
     (let st' = refill (if l_tree_pending st then refresh_tree w st else st); pol = load e
      in if p_stuck_recoveries pol \<le> s_stuck_recoveries st' \<or> p_max_recoveries pol \<le> s_recoveries_total st'
         then (False, st')
         else (True, st'\<lparr> s_stuck_recoveries := s_stuck_recoveries st' + 1,
                          s_recoveries_total := s_recoveries_total st' + 1 \<rparr>))"

section \<open>What each operation leaves alone\<close>

text \<open>The counts only strikes, forgiveness and recoveries may write, with the board.\<close>

definition counts :: "'a loop_state_scheme \<Rightarrow> (string, int) table \<times> (string, bool) table \<times> int \<times> int option
    \<times> (string, (string \<times> pyval) list) table" where
  "counts st = (s_lifetime st, s_lifetime_forgiven st, s_recoveries_total st,
                s_recoveries_closed_mark st, l_board st)"

lemma counts_git: "counts (snd (git w st cwd argv)) = counts st"
  by (simp add: git_def counts_def split: git_answer.split)

lemma counts_cached: "counts (snd (cached_digest w st p)) = counts st"
  by (auto simp: cached_digest_def counts_def Let_def split: option.split)

lemma counts_changed: "counts (snd (changed_entries w r st es c)) = counts st"
proof (induction w r st es c rule: changed_entries.induct)
  case (2 w r st entry entries c)
  then show ?case
    using counts_cached [of w st "path_join r (drop 3 entry)"]
    by (simp add: Let_def)
qed simp

lemma counts_tracked: "counts (snd (tracked_changes w st cwd)) = counts st"
proof -
  have root: "counts (st\<lparr> l_git_root := r \<rparr>) = counts st" for st :: "'a loop_state_scheme" and r
    by (simp add: counts_def)
  show ?thesis
    by (auto simp: tracked_changes_def Let_def root split: option.split prod.split)
      (metis counts_changed counts_git root snd_conv)+
qed

lemma counts_enter: "counts (enter_state st fp k) = counts st"
  by (simp add: enter_state_def counts_def Let_def)

lemma counts_refresh: "counts (refresh_tree w st) = counts st"
proof -
  have t: "counts (st\<lparr> l_tree_pending := b \<rparr>) = counts st" "counts (st\<lparr> l_tree_hashes := h \<rparr>) = counts st"
    for st :: "'a loop_state_scheme" and b h
    by (simp_all add: counts_def)
  show ?thesis
    unfolding refresh_tree_def Let_def
    by (auto split: option.split prod.split simp: counts_enter t)
      (metis counts_tracked snd_conv t(1))+
qed

lemma counts_write: "counts (snd (note_write w rep st name args res cwd)) = counts st"
  by (simp add: note_write_def Let_def counts_enter) (simp add: counts_def)

lemma counts_command: "counts (note_command st name res cwd) = counts st"
  by (simp add: note_command_def counts_def)

lemma counts_read: "counts (note_read w st args res cwd) = counts st"
proof -
  have "counts (foldl read_one st ps) = counts st" for ps
    by (induction ps arbitrary: st) (simp_all add: read_one_def counts_def Let_def)
  then show ?thesis by (simp add: note_read_def)
qed

section \<open>A run of the loop\<close>

text \<open>What happens to the state between two model calls, in the order it happens.\<close>

datatype loop_event =
    Ev_strike string bool
  | Ev_forgive string
  | Ev_write string pyval pyval
  | Ev_read pyval pyval
  | Ev_command string pyval
  | Ev_recover
  | Ev_board "(string, (string \<times> pyval) list) table"

datatype loop_answer = Silent | Struck string string | Recovered bool

fun loop_step :: "world \<Rightarrow> env \<Rightarrow> (pyval \<Rightarrow> string) \<Rightarrow> loop_state \<Rightarrow> loop_event \<Rightarrow> loop_answer \<times> loop_state" where
  "loop_step w e rep st (Ev_strike sig per_state) =
     (Struck (w_sha1 w sig) (fst (strike w e st sig per_state)), snd (strike w e st sig per_state))"
| "loop_step w e rep st (Ev_forgive sig) = (Silent, forgive w e st sig)"
| "loop_step w e rep st (Ev_write name args res) = (Silent, snd (note_write w rep st name args res (l_cwd st)))"
| "loop_step w e rep st (Ev_read args res) = (Silent, note_read w st args res (l_cwd st))"
| "loop_step w e rep st (Ev_command name res) = (Silent, note_command st name res (l_cwd st))"
| "loop_step w e rep st Ev_recover = (Recovered (fst (may_recover w e st)), snd (may_recover w e st))"
| "loop_step w e rep st (Ev_board b) = (Silent, st\<lparr> l_board := b \<rparr>)"

lemma counts_eqD:
  assumes "counts st' = counts st"
  shows "s_lifetime st' = s_lifetime st" "s_lifetime_forgiven st' = s_lifetime_forgiven st"
    "s_recoveries_total st' = s_recoveries_total st" "s_recoveries_closed_mark st' = s_recoveries_closed_mark st"
    "l_board st' = l_board st"
  using assms by (simp_all add: counts_def)

section \<open>The lifetime ceiling\<close>

lemma strike_lifetime:
  "s_lifetime (snd (strike w e st sig p)) =
     remember max_tracked (s_lifetime st) (w_sha1 w sig) (get_or (s_lifetime st) (w_sha1 w sig) 0 + 1)"
  "s_lifetime_forgiven (snd (strike w e st sig p)) = s_lifetime_forgiven st"
  by (simp_all add: strike_def Let_def counts_eqD [OF counts_refresh])

lemma strike_quiet:
  assumes "distinct (keys (s_lifetime st))" and "fst (strike w e st sig p) = []"
  shows "get_or (s_lifetime st) (w_sha1 w sig) 0 + 1 < 3 * p_backstop (load e)"
proof -
  have "get_or (s_lifetime (snd (strike w e st sig p))) (w_sha1 w sig) 0 = get_or (s_lifetime st) (w_sha1 w sig) 0 + 1"
    using assms(1) by (simp add: strike_lifetime max_tracked_def)
  moreover have "\<not> over e (snd (strike w e st sig p)) (w_sha1 w sig) False 0"
    using assms(2) by (auto simp: strike_def Let_def split: if_splits)
  ultimately show ?thesis by (simp add: over_def Let_def not_le)
qed

lemma forgive_lifetime:
  "s_lifetime (forgive w e st sig) =
     (if 3 * p_backstop (load e) \<le> get_or (s_lifetime st) (w_sha1 w sig) 0
         \<and> map_of (s_lifetime_forgiven st) (w_sha1 w sig) = None
      then set_at (s_lifetime st) (w_sha1 w sig) 0 else s_lifetime st)"
  "s_lifetime_forgiven (forgive w e st sig) =
     (if 3 * p_backstop (load e) \<le> get_or (s_lifetime st) (w_sha1 w sig) 0
         \<and> map_of (s_lifetime_forgiven st) (w_sha1 w sig) = None
      then remember max_tracked (s_lifetime_forgiven st) (w_sha1 w sig) True else s_lifetime_forgiven st)"
  by (auto simp: forgive_def Let_def)

lemma recover_lifetime:
  "s_lifetime (snd (may_recover w e st)) = s_lifetime st"
  "s_lifetime_forgiven (snd (may_recover w e st)) = s_lifetime_forgiven st"
  by (simp_all add: may_recover_def refill_def Let_def counts_eqD [OF counts_refresh])

text \<open>The quiet strikes an action has left: what is under the ceiling, and one more ceiling
  as long as the action was not forgiven.\<close>

definition strikes_left :: "env \<Rightarrow> loop_state \<Rightarrow> string \<Rightarrow> int" where
  "strikes_left e st h =
     (if map_of (s_lifetime_forgiven st) h = None then 3 * p_backstop (load e) - 1 else 0) +
     max 0 (3 * p_backstop (load e) - 1 - get_or (s_lifetime st) h 0)"

definition roomy :: "loop_state \<Rightarrow> nat \<Rightarrow> bool" where
  "roomy st n \<longleftrightarrow> distinct (keys (s_lifetime st)) \<and> distinct (keys (s_lifetime_forgiven st)) \<and>
     length (s_lifetime st) + n \<le> max_tracked \<and> length (s_lifetime_forgiven st) + n \<le> max_tracked"

lemma backstop_pos: "1 \<le> p_backstop (load e)"
  by (simp add: load_def int_knob_positive)

lemma length_set_at_le: "length (set_at t k v) \<le> Suc (length t)"
  using keys_set_at [of t k v] by (metis length_append_singleton length_map le_Suc_eq order_refl)

lemma remember_grows: "length (remember n t k v) \<le> Suc (length t)"
  using remember_length [of n t k v] by simp

lemma roomy_step: "roomy st (Suc n) \<Longrightarrow> roomy (snd (loop_step w e rep st ev)) n"
  by (cases ev)
    (auto simp: roomy_def strike_lifetime forgive_lifetime recover_lifetime counts_eqD [OF counts_write]
      counts_eqD [OF counts_read] counts_eqD [OF counts_command] distinct_remember distinct_set_at
      intro: order.trans [OF remember_grows] order.trans [OF length_set_at_le]
        order.trans [OF add_right_mono [OF remember_grows]] order.trans [OF add_right_mono [OF length_set_at_le]])

lemma get_or_other: "j \<noteq> k \<Longrightarrow> length t < n \<Longrightarrow> get_or (remember n t k v) j d = get_or t j d"
  by (simp add: get_or_def remember_room)

lemma strikes_left_step:
  assumes "roomy st (Suc n)"
  shows "strikes_left e (snd (loop_step w e rep st ev)) h + of_bool (fst (loop_step w e rep st ev) = Struck h [])
    \<le> strikes_left e st h"
proof (cases ev)
  case (Ev_strike sig p)
  have r: "distinct (keys (s_lifetime st))" "length (s_lifetime st) < max_tracked" "0 < max_tracked"
    using assms by (simp_all add: roomy_def max_tracked_def)
  show ?thesis
  proof (cases "h = w_sha1 w sig")
    case True
    then show ?thesis
      using Ev_strike r strike_quiet [OF r(1), of w e sig p]
      by (auto simp: strikes_left_def strike_lifetime)
  next
    case False
    then show ?thesis using Ev_strike r by (simp add: strikes_left_def strike_lifetime get_or_other)
  qed
next
  case (Ev_forgive sig)
  have r: "distinct (keys (s_lifetime_forgiven st))" "length (s_lifetime_forgiven st) < max_tracked" "0 < max_tracked"
    using assms by (simp_all add: roomy_def max_tracked_def)
  show ?thesis
    using Ev_forgive r backstop_pos [of e]
    by (cases "h = w_sha1 w sig")
      (auto simp: strikes_left_def forgive_lifetime get_or_def remember_same remember_room)
next
  case Ev_recover
  then show ?thesis by (simp add: strikes_left_def recover_lifetime)
qed (simp_all add: strikes_left_def counts_eqD [OF counts_write] counts_eqD [OF counts_read] counts_eqD [OF counts_command])

lemma strikes_left_run:
  assumes "roomy st (length es)"
  shows "strikes_left e (snd (run_with (loop_step w e rep) st es)) h +
    int (length (filter (\<lambda>a. a = Struck h []) (fst (run_with (loop_step w e rep) st es)))) \<le> strikes_left e st h"
  using assms
proof (induction es arbitrary: st)
  case (Cons ev es)
  then have "roomy (snd (loop_step w e rep st ev)) (length es)" by (simp add: roomy_step)
  then show ?case
    using Cons.IH [of "snd (loop_step w e rep st ev)"] strikes_left_step [of st "length es" e w rep ev h] Cons.prems
    by (auto split: if_splits)
qed simp

lemma strikes_left_bounds: "0 \<le> strikes_left e st h"
  using backstop_pos [of e] by (simp add: strikes_left_def)

section \<open>The recovery ceiling\<close>

definition recoveries_kept :: "loop_state \<Rightarrow> int" where
  "recoveries_kept st =
     (case s_recoveries_closed_mark st of
        None \<Rightarrow> s_recoveries_total st
      | Some m \<Rightarrow> if m < closed_items st then 0 else s_recoveries_total st)"

lemma may_recover_counts:
  "s_recoveries_closed_mark (snd (may_recover w e st)) =
     Some (max (closed_items st) (case s_recoveries_closed_mark st of None \<Rightarrow> 0 | Some m \<Rightarrow> m))"
  "s_recoveries_total (snd (may_recover w e st)) =
     recoveries_kept st + of_bool (fst (may_recover w e st))"
  "fst (may_recover w e st) \<Longrightarrow> recoveries_kept st < p_max_recoveries (load e)"
proof -
  define s0 where "s0 = (if l_tree_pending st then refresh_tree w st else st)"
  have "s_recoveries_total s0 = s_recoveries_total st" "l_board s0 = l_board st"
      "s_recoveries_closed_mark s0 = s_recoveries_closed_mark st"
    by (simp_all add: s0_def counts_eqD [OF counts_refresh])
  then have "s_recoveries_closed_mark (refill s0) =
      Some (max (closed_items st) (case s_recoveries_closed_mark st of None \<Rightarrow> 0 | Some m \<Rightarrow> m))"
    "s_recoveries_total (refill s0) = recoveries_kept st"
    by (simp_all add: refill_def Let_def closed_items_def recoveries_kept_def split: option.split)
  moreover have "may_recover w e st =
      (if p_stuck_recoveries (load e) \<le> s_stuck_recoveries (refill s0) \<or>
          p_max_recoveries (load e) \<le> s_recoveries_total (refill s0) then (False, refill s0)
       else (True, (refill s0)\<lparr> s_stuck_recoveries := s_stuck_recoveries (refill s0) + 1,
                               s_recoveries_total := s_recoveries_total (refill s0) + 1 \<rparr>))"
    by (simp add: may_recover_def Let_def s0_def)
  ultimately show "s_recoveries_closed_mark (snd (may_recover w e st)) =
     Some (max (closed_items st) (case s_recoveries_closed_mark st of None \<Rightarrow> 0 | Some m \<Rightarrow> m))"
    "s_recoveries_total (snd (may_recover w e st)) = recoveries_kept st + of_bool (fst (may_recover w e st))"
    "fst (may_recover w e st) \<Longrightarrow> recoveries_kept st < p_max_recoveries (load e)"
    by (simp_all split: if_splits)
qed

text \<open>The board items a run may count as done: the recovery ceiling refills once for each. A loop
  that recovered nothing yet has no mark, which the first recovery reads as zero.\<close>

definition mark_of :: "loop_state \<Rightarrow> int" where
  "mark_of st = (case s_recoveries_closed_mark st of None \<Rightarrow> 0 | Some m \<Rightarrow> m)"

definition recoverable :: "env \<Rightarrow> loop_state \<Rightarrow> int \<Rightarrow> bool" where
  "recoverable e st m \<longleftrightarrow> mark_of st = m \<and> 0 \<le> s_recoveries_total st \<and>
     s_recoveries_total st \<le> p_max_recoveries (load e)"

lemma other_recoveries:
  "s_recoveries_total (snd (strike w e st sig p)) = s_recoveries_total st"
  "s_recoveries_closed_mark (snd (strike w e st sig p)) = s_recoveries_closed_mark st"
  "s_recoveries_total (forgive w e st sig) = s_recoveries_total st"
  "s_recoveries_closed_mark (forgive w e st sig) = s_recoveries_closed_mark st"
  by (simp_all add: strike_def forgive_def Let_def counts_eqD [OF counts_refresh])

lemma recover_keeps_counts:
  assumes "ev \<noteq> Ev_recover"
  shows "s_recoveries_total (snd (loop_step w e rep st ev)) = s_recoveries_total st"
    "s_recoveries_closed_mark (snd (loop_step w e rep st ev)) = s_recoveries_closed_mark st"
  using assms
  by (cases ev; simp add: other_recoveries counts_eqD [OF counts_write] counts_eqD [OF counts_read]
      counts_eqD [OF counts_command])+

lemma recoverable_step:
  assumes "recoverable e st m"
  obtains m' where "m \<le> m'" "recoverable e (snd (loop_step w e rep st ev)) m'"
    "s_recoveries_total st + of_bool (fst (loop_step w e rep st ev) = Recovered True)
      \<le> p_max_recoveries (load e) * (m' - m) + s_recoveries_total (snd (loop_step w e rep st ev))"
proof (cases "ev = Ev_recover")
  case False
  moreover from False have "fst (loop_step w e rep st ev) \<noteq> Recovered True" by (cases ev) auto
  ultimately show thesis
    using that [of m] assms recover_keeps_counts [OF False, of w e rep st]
    by (auto simp: recoverable_def mark_of_def)
next
  case True
  let ?m = "max (closed_items st) m" and ?p = "p_max_recoveries (load e)"
  have pos: "1 \<le> ?p" by (simp add: load_def int_knob_positive)
  have k: "0 \<le> recoveries_kept st" "recoveries_kept st \<le> ?p"
      "m < closed_items st \<or> recoveries_kept st = s_recoveries_total st"
    using assms pos by (auto simp: recoverable_def recoveries_kept_def mark_of_def split: option.splits)
  have "s_recoveries_total st \<le> ?p * (?m - m) + recoveries_kept st"
  proof (cases "m < closed_items st")
    case True
    then have "?p * 1 \<le> ?p * (?m - m)" using pos by (intro mult_left_mono) auto
    then show ?thesis using assms k by (simp add: recoverable_def)
  next
    case False
    then show ?thesis using k by simp
  qed
  then show thesis
    using True assms k may_recover_counts(3) [of w e st]
    by (intro that [of ?m]) (auto simp: recoverable_def may_recover_counts(1,2) mark_of_def)
qed

lemma recoverable_run:
  assumes "recoverable e st m"
  shows "\<exists>m'. m \<le> m' \<and> recoverable e (snd (run_with (loop_step w e rep) st es)) m' \<and>
    s_recoveries_total st + int (length (filter (\<lambda>a. a = Recovered True) (fst (run_with (loop_step w e rep) st es))))
      \<le> p_max_recoveries (load e) * (m' - m) + s_recoveries_total (snd (run_with (loop_step w e rep) st es))"
  using assms
proof (induction es arbitrary: st m)
  case (Cons ev es)
  obtain m1 where m1: "m \<le> m1" "recoverable e (snd (loop_step w e rep st ev)) m1"
    "s_recoveries_total st + of_bool (fst (loop_step w e rep st ev) = Recovered True)
      \<le> p_max_recoveries (load e) * (m1 - m) + s_recoveries_total (snd (loop_step w e rep st ev))"
    using recoverable_step [OF Cons.prems] by blast
  obtain m2 where m2: "m1 \<le> m2" "recoverable e (snd (run_with (loop_step w e rep) (snd (loop_step w e rep st ev)) es)) m2"
    "s_recoveries_total (snd (loop_step w e rep st ev)) +
       int (length (filter (\<lambda>a. a = Recovered True) (fst (run_with (loop_step w e rep) (snd (loop_step w e rep st ev)) es))))
      \<le> p_max_recoveries (load e) * (m2 - m1) +
        s_recoveries_total (snd (run_with (loop_step w e rep) (snd (loop_step w e rep st ev)) es))"
    using Cons.IH [OF m1(2)] by blast
  have "p_max_recoveries (load e) * (m2 - m) =
      p_max_recoveries (load e) * (m2 - m1) + p_max_recoveries (load e) * (m1 - m)"
    by (simp add: algebra_simps)
  then show ?case
    using m1 m2 by (intro exI [of _ m2]) (auto split: if_splits)
qed auto

section \<open>Properties\<close>

text \<open>C18. No action is repeated quietly for ever. Whatever else happens in between (edits,
  reads, commands, recoveries and any number of pardons), one action is answered with no
  alarm fewer than six times the backstop, in any run shorter than the tables.\<close>

theorem quiet_strikes_bounded:
  assumes "roomy st (length es)" and "0 \<le> get_or (s_lifetime st) h 0"
  shows "int (length (filter (\<lambda>a. a = Struck h []) (fst (run_with (loop_step w e rep) st es)))) <
    6 * p_backstop (load e)"
  using strikes_left_run [OF assms(1), of e w rep h] assms(2) strikes_left_bounds [of e "snd (run_with (loop_step w e rep) st es)" h]
    backstop_pos [of e]
  by (simp add: strikes_left_def [of e st] split: if_splits)

definition still_world :: world where
  "still_world = \<lparr> w_sha1 = id, w_digest = id, w_stat = (\<lambda>_. None), w_entries = (\<lambda>_. None),
     w_is_dir = (\<lambda>_. False), w_full = (\<lambda>p _. p), w_json = (\<lambda>_ _ _. []), w_git = (\<lambda>_ _. Git_failed) \<rparr>"

theorem quiet_strikes_bounded_witness:
  "roomy (new_loop ''/w'') (length [Ev_strike ''ls'' True, Ev_forgive ''ls'']) \<and>
   int (length (filter (\<lambda>a. a = Struck ''ls'' [])
     (fst (run_with (loop_step still_world Map.empty (\<lambda>_. [])) (new_loop ''/w'')
        [Ev_strike ''ls'' True, Ev_forgive ''ls''])))) < 6 * p_backstop (load Map.empty)"
proof -
  have h: "roomy (new_loop ''/w'') (length [Ev_strike ''ls'' True, Ev_forgive ''ls''])"
      "0 \<le> get_or (s_lifetime (new_loop ''/w'')) ''ls'' 0"
    by (simp_all add: roomy_def new_loop_def new_stuck_def stuck_state.defs max_tracked_def get_or_def)
  show ?thesis
    by (rule conjI [OF h(1) quiet_strikes_bounded [OF h, where w = still_world and rep = "\<lambda>_. []"]])
qed

lemma strike_run:
  assumes "\<not> l_tree_pending st" and "distinct (keys (s_strikes st))"
  shows "\<not> l_tree_pending (snd (run_with (\<lambda>st _. strike w e st sig True) st us)) \<and>
    distinct (keys (s_strikes (snd (run_with (\<lambda>st _. strike w e st sig True) st us)))) \<and>
    l_state_fp (snd (run_with (\<lambda>st _. strike w e st sig True) st us)) = l_state_fp st \<and>
    get_or (s_strikes (snd (run_with (\<lambda>st _. strike w e st sig True) st us))) (w_sha1 w sig @ ''@'' @ l_state_fp st) 0 =
      get_or (s_strikes st) (w_sha1 w sig @ ''@'' @ l_state_fp st) 0 + int (length (us :: unit list))"
  using assms
proof (induction us arbitrary: st)
  case (Cons u us)
  let ?st = "snd (strike w e st sig True)"
  have "\<not> l_tree_pending ?st" "distinct (keys (s_strikes ?st))" "l_state_fp ?st = l_state_fp st"
    "get_or (s_strikes ?st) (w_sha1 w sig @ ''@'' @ l_state_fp st) 0 =
      get_or (s_strikes st) (w_sha1 w sig @ ''@'' @ l_state_fp st) 0 + 1"
    using Cons.prems by (simp_all add: strike_def Let_def strike_key_def distinct_remember max_tracked_def)
  with Cons.IH [of ?st] show ?case by simp
qed simp

text \<open>An action repeated in an unchanged workspace is noticed at its fourth run: with no
  command pending, every run of it from the fourth in a row is answered with \<open>same\<close>.\<close>

theorem fourth_strike_same:
  assumes "\<not> l_tree_pending st" and "distinct (keys (s_strikes st))"
    and "0 \<le> get_or (s_strikes st) (strike_key st (w_sha1 w sig)) 0" and "3 \<le> length us"
  shows "fst (strike w e (snd (run_with (\<lambda>st _. strike w e st sig True) st (us :: unit list))) sig True) = ''same''"
proof -
  let ?st = "snd (run_with (\<lambda>st _. strike w e st sig True) st us)"
  have "\<not> l_tree_pending ?st" "loop_repeat \<le> get_or (s_strikes ?st) (strike_key ?st (w_sha1 w sig)) 0 + 1"
    using strike_run [OF assms(1,2), of w e sig us] assms(3,4) by (simp_all add: strike_key_def loop_repeat_def)
  then show ?thesis by (simp add: strike_def Let_def strike_key_def)
qed

theorem fourth_strike_same_witness:
  "\<not> l_tree_pending (new_loop ''/w'') \<and>
   fst (strike still_world Map.empty (snd (run_with (\<lambda>st _. strike still_world Map.empty st ''ls'' True)
     (new_loop ''/w'') [(), (), ()])) ''ls'' True) = ''same''"
proof -
  have h: "\<not> l_tree_pending (new_loop ''/w'')" "distinct (keys (s_strikes (new_loop ''/w'')))"
      "0 \<le> get_or (s_strikes (new_loop ''/w'')) (strike_key (new_loop ''/w'') (w_sha1 still_world ''ls'')) 0"
    by (simp_all add: new_loop_def new_stuck_def stuck_state.defs get_or_def)
  show ?thesis using h fourth_strike_same [OF h, of "[(), (), ()]"] by simp
qed

text \<open>C19. Recoveries are rationed by finished work: over any run, from a fresh loop on or from a
  later state, the recoveries granted and those already counted are at most the ceiling once,
  and once more for every board item by which the closed-items mark rose. (A fresh loop has no
  mark; it counts as zero.)\<close>

theorem recoveries_rationed:
  assumes "0 \<le> s_recoveries_total st" and "s_recoveries_total st \<le> p_max_recoveries (load e)"
    and "run_with (loop_step w e rep) st es = (answers, st')"
  shows "mark_of st \<le> mark_of st' \<and>
    s_recoveries_total st + int (length (filter (\<lambda>a. a = Recovered True) answers))
      \<le> p_max_recoveries (load e) * (1 + (mark_of st' - mark_of st))"
proof -
  have "recoverable e st (mark_of st)" using assms by (simp add: recoverable_def)
  from recoverable_run [OF this, of w rep es] obtain m' where "mark_of st \<le> m'" "recoverable e st' m'"
    "s_recoveries_total st + int (length (filter (\<lambda>a. a = Recovered True) answers))
      \<le> p_max_recoveries (load e) * (m' - mark_of st) + s_recoveries_total st'"
    using assms(3) by auto
  moreover have "p_max_recoveries (load e) * (1 + (m' - mark_of st)) =
      p_max_recoveries (load e) * (m' - mark_of st) + p_max_recoveries (load e)"
    by (simp add: algebra_simps)
  ultimately show ?thesis by (auto simp: recoverable_def)
qed

theorem recoveries_rationed_witness:
  "\<exists>answers st'. run_with (loop_step still_world Map.empty (\<lambda>_. [])) (new_loop ''/w'')
        [Ev_recover, Ev_board [(''1'', [(''status'', PStr ''done'')])], Ev_recover] = (answers, st')
     \<and> int (length (filter (\<lambda>a. a = Recovered True) answers)) \<le> p_max_recoveries (load Map.empty) * (1 + mark_of st')"
proof -
  obtain answers st' where r: "run_with (loop_step still_world Map.empty (\<lambda>_. [])) (new_loop ''/w'')
        [Ev_recover, Ev_board [(''1'', [(''status'', PStr ''done'')])], Ev_recover] = (answers, st')"
    by fastforce
  have n: "s_recoveries_total (new_loop ''/w'') = 0" "mark_of (new_loop ''/w'') = 0"
    by (simp_all add: new_loop_def new_stuck_def stuck_state.defs mark_of_def)
  have "0 \<le> p_max_recoveries (load Map.empty)" by (simp add: load_default default_policy_def)
  with recoveries_rationed [OF _ _ r] r n show ?thesis by auto
qed

end
