(* ===== verification/Json.thy ===== *)
theory Json
  imports Py_Values Ordered_Table
begin

text \<open>
  \<^verbatim>\<open>json.loads\<close> on text, as the verdict parsers use it. A failure is \<open>None\<close>: every caller
  catches the exception. A number with a fraction or an exponent is exact; \<open>NaN\<close> and
  \<open>Infinity\<close>, which Python also reads, are failures here.

  The parser recurses with fuel; \<open>jvalue_fuel\<close> shows that any fuel above twice the length of
  the text gives the same answer, and \<open>json_loads\<close> starts with such fuel.
\<close>

section \<open>Tokens\<close>

definition json_space :: "char \<Rightarrow> bool" where
  "json_space c \<longleftrightarrow> c = CHR '' '' \<or> c = CHR 0x09 \<or> c = CHR 0x0A \<or> c = CHR 0x0D"

definition skip_ws :: "string \<Rightarrow> string" where
  "skip_ws s = dropWhile json_space s"

definition hex_val :: "char \<Rightarrow> nat option" where
  "hex_val c = (let n = (of_char c :: nat) in
     if 48 \<le> n \<and> n \<le> 57 then Some (n - 48)
     else if 97 \<le> n \<and> n \<le> 102 then Some (n - 87)
     else if 65 \<le> n \<and> n \<le> 70 then Some (n - 55)
     else None)"

fun hex4 :: "string \<Rightarrow> (nat \<times> string) option" where
  "hex4 (a # b # c # d # t) =
     (case (hex_val a, hex_val b, hex_val c, hex_val d) of
        (Some w, Some x, Some y, Some z) \<Rightarrow> Some (4096 * w + 256 * x + 16 * y + z, t)
      | _ \<Rightarrow> None)"
| "hex4 _ = None"

definition utf8 :: "nat \<Rightarrow> string" where
  "utf8 n =
     (if n < 128 then [char_of n]
      else if n < 2048 then [char_of (192 + n div 64), char_of (128 + n mod 64)]
      else if n < 65536 then [char_of (224 + n div 4096), char_of (128 + n div 64 mod 64),
                              char_of (128 + n mod 64)]
      else [char_of (240 + n div 262144), char_of (128 + n div 4096 mod 64),
            char_of (128 + n div 64 mod 64), char_of (128 + n mod 64)])"

text \<open>What follows a backslash: the text it stands for, and the rest.\<close>

definition escape_u :: "string \<Rightarrow> (string \<times> string) option" where
  "escape_u t =
     (case hex4 t of
        None \<Rightarrow> None
      | Some (n, u) \<Rightarrow>
          if 55296 \<le> n \<and> n \<le> 56319 \<and> take 2 u = [CHR 0x5C, CHR ''u'']
          then (case hex4 (drop 2 u) of
                  None \<Rightarrow> None
                | Some (m, v) \<Rightarrow>
                    if 56320 \<le> m \<and> m \<le> 57343
                    then Some (utf8 (65536 + (n - 55296) * 1024 + (m - 56320)), v)
                    else Some (utf8 n, u))
          else Some (utf8 n, u))"

fun escape :: "string \<Rightarrow> (string \<times> string) option" where
  "escape [] = None"
| "escape (d # t) =
     (if d = CHR 0x22 \<or> d = CHR 0x5C \<or> d = CHR ''/'' then Some ([d], t)
      else if d = CHR ''b'' then Some ([CHR 0x08], t)
      else if d = CHR ''f'' then Some ([CHR 0x0C], t)
      else if d = CHR ''n'' then Some ([CHR 0x0A], t)
      else if d = CHR ''r'' then Some ([CHR 0x0D], t)
      else if d = CHR ''t'' then Some ([CHR 0x09], t)
      else if d = CHR ''u'' then escape_u t
      else None)"

lemma hex4_rest: "hex4 s = Some (n, t) \<Longrightarrow> length t < length s"
  by (induction s rule: hex4.induct) (auto split: option.splits)

lemma escape_u_rest: "escape_u s = Some (r, t) \<Longrightarrow> length t < length s"
proof -
  have drop: "length u < length s" if "hex4 s = Some (n, x)" "hex4 (drop 2 x) = Some (m, u)" for n m x u
    using hex4_rest [OF that(1)] hex4_rest [OF that(2)] by simp
  show "escape_u s = Some (r, t) \<Longrightarrow> length t < length s"
    by (auto simp: escape_u_def split: if_splits option.splits prod.splits dest: hex4_rest intro: drop)
qed

lemma escape_rest: "escape s = Some (r, t) \<Longrightarrow> length t < length s"
  by (cases s) (auto split: if_splits dest: escape_u_rest)

function jstr :: "string \<Rightarrow> string \<Rightarrow> (string \<times> string) option" where
  "jstr acc [] = None"
| "jstr acc (c # s) =
     (if c = CHR 0x22 then Some (acc, s)
      else if c = CHR 0x5C then (case escape s of None \<Rightarrow> None | Some (r, t) \<Rightarrow> jstr (acc @ r) t)
      else if (of_char c :: nat) < 32 then None
      else jstr (acc @ [c]) s)"
  by pat_completeness auto
termination
proof (relation "measure (\<lambda>(acc, s). length s)")
  show "((acc @ r, t), (acc, c # s)) \<in> measure (\<lambda>(acc, s). length s)"
    if "escape s = Some p" "(r, t) = p" for acc c s p r t
    using that escape_rest [of s r t] by auto
qed auto

definition json_sign :: "string \<Rightarrow> bool \<times> string" where
  "json_sign s = (case s of [] \<Rightarrow> (False, []) | c # u \<Rightarrow> if c = CHR ''-'' then (True, u) else (False, s))"

definition json_int :: "string \<Rightarrow> string \<times> string" where
  "json_int s = (case s of [] \<Rightarrow> ([], []) | c # u \<Rightarrow> if c = CHR ''0'' then (''0'', u) else take_digits s)"

definition json_frac :: "string \<Rightarrow> string \<times> string" where
  "json_frac s =
     (case s of [] \<Rightarrow> ([], [])
      | c # u \<Rightarrow> if c = CHR ''.'' \<and> fst (take_digits u) \<noteq> [] then take_digits u else ([], s))"

definition json_exp_sign :: "string \<Rightarrow> bool \<times> string" where
  "json_exp_sign s =
     (case s of [] \<Rightarrow> (False, [])
      | c # u \<Rightarrow> if c = CHR ''-'' then (True, u) else if c = CHR ''+'' then (False, u) else (False, s))"

definition json_exp :: "string \<Rightarrow> int option \<times> string" where
  "json_exp s =
     (case s of [] \<Rightarrow> (None, [])
      | c # u \<Rightarrow>
          if c = CHR ''e'' \<or> c = CHR ''E''
          then (let neg = fst (json_exp_sign u); ds = take_digits (snd (json_exp_sign u))
                in if fst ds = [] then (None, s)
                   else (Some (if neg then - digits_val (fst ds) else digits_val (fst ds)), snd ds))
          else (None, s))"

definition scale10 :: "rat \<Rightarrow> int option \<Rightarrow> rat" where
  "scale10 m ex =
     (case ex of None \<Rightarrow> m | Some k \<Rightarrow> if k < 0 then m / 10 ^ nat (- k) else m * 10 ^ nat k)"

definition jnum :: "string \<Rightarrow> (pyval \<times> string) option" where
  "jnum s =
     (let (neg, t) = json_sign s; (ip, r) = json_int t; (fp, r1) = json_frac r; (ex, r2) = json_exp r1;
          sgn = (if neg then - 1 else 1)
      in if ip = [] then None
         else if fp = [] \<and> ex = None then Some (PInt (sgn * digits_val ip), r2)
         else Some (PFloat (scale10 (of_int (sgn * digits_val (ip @ fp)) / 10 ^ length fp) ex), r2))"

section \<open>Values\<close>

fun jvalue :: "nat \<Rightarrow> string \<Rightarrow> (pyval \<times> string) option"
  and jarr :: "nat \<Rightarrow> pyval list \<Rightarrow> string \<Rightarrow> (pyval \<times> string) option"
  and jobj :: "nat \<Rightarrow> (string \<times> pyval) list \<Rightarrow> string \<Rightarrow> (pyval \<times> string) option" where
  "jvalue 0 s = None"
| "jvalue (Suc n) s =
     (case s of
        [] \<Rightarrow> None
      | c # t \<Rightarrow>
          if c = CHR 0x22 then map_option (\<lambda>(x, r). (PStr x, r)) (jstr [] t)
          else if c = CHR ''{'' then
            (case skip_ws t of
               [] \<Rightarrow> None
             | d # u \<Rightarrow> if d = CHR ''}'' then Some (PDict [], u) else jobj n [] (d # u))
          else if c = CHR ''['' then
            (case skip_ws t of
               [] \<Rightarrow> None
             | d # u \<Rightarrow> if d = CHR '']'' then Some (PList [], u) else jarr n [] (d # u))
          else if starts_with ''null'' s then Some (PNone, drop 4 s)
          else if starts_with ''true'' s then Some (PBool True, drop 4 s)
          else if starts_with ''false'' s then Some (PBool False, drop 5 s)
          else jnum s)"
| "jarr 0 acc s = None"
| "jarr (Suc n) acc s =
     (case jvalue n s of
        None \<Rightarrow> None
      | Some (v, r) \<Rightarrow>
          (case skip_ws r of
             [] \<Rightarrow> None
           | d # u \<Rightarrow>
               if d = CHR '']'' then Some (PList (acc @ [v]), u)
               else if d = CHR '','' then jarr n (acc @ [v]) (skip_ws u)
               else None))"
| "jobj 0 acc s = None"
| "jobj (Suc n) acc s =
     (case s of
        [] \<Rightarrow> None
      | q # t \<Rightarrow>
          if q \<noteq> CHR 0x22 then None
          else
            (case jstr [] t of
               None \<Rightarrow> None
             | Some (k, r) \<Rightarrow>
                 (case skip_ws r of
                    [] \<Rightarrow> None
                  | d # u \<Rightarrow>
                      if d \<noteq> CHR '':'' then None
                      else
                        (case jvalue n (skip_ws u) of
                           None \<Rightarrow> None
                         | Some (v, w) \<Rightarrow>
                             (case skip_ws w of
                                [] \<Rightarrow> None
                              | e # x \<Rightarrow>
                                  if e = CHR ''}'' then Some (PDict (set_at acc k v), x)
                                  else if e = CHR '','' then jobj n (set_at acc k v) (skip_ws x)
                                  else None)))))"

definition json_loads :: "string \<Rightarrow> pyval option" where
  "json_loads s =
     (case jvalue (Suc (2 * length s)) (skip_ws s) of
        None \<Rightarrow> None
      | Some (v, r) \<Rightarrow> if skip_ws r = [] then Some v else None)"

section \<open>The fuel is enough\<close>

lemma skip_ws_le: "length (skip_ws s) \<le> length s"
  by (simp add: skip_ws_def length_dropWhile_le)

lemma jstr_rest: "jstr acc s = Some (x, r) \<Longrightarrow> length r < length s"
proof (induction acc s rule: jstr.induct)
  case (2 acc c s)
  then show ?case
    using escape_rest [of s] by (fastforce split: if_splits option.splits)
qed simp

lemma take_digits_rest: "length (snd (take_digits s)) + length (fst (take_digits s)) = length s"
  by (induction s) (auto split: prod.split)

lemma json_sign_rest: "length (snd (json_sign s)) \<le> length s"
  by (simp add: json_sign_def split: list.split)

lemma take_digits_less: "fst (take_digits s) \<noteq> [] \<Longrightarrow> length (snd (take_digits s)) < length s"
  using take_digits_rest [of s] by (metis less_add_same_cancel1 length_greater_0_conv)

lemma json_int_rest: "fst (json_int s) \<noteq> [] \<Longrightarrow> length (snd (json_int s)) < length s"
  using take_digits_less [of s] unfolding json_int_def
  by (cases s) (auto simp del: take_digits.simps)

lemma json_frac_rest: "length (snd (json_frac s)) \<le> length s"
proof (cases s)
  case (Cons c u)
  then show ?thesis using take_digits_rest [of u] by (simp add: json_frac_def)
qed (simp add: json_frac_def)

lemma json_exp_rest: "length (snd (json_exp s)) \<le> length s"
proof (cases s)
  case (Cons c u)
  have "length (snd (json_exp_sign u)) \<le> length u"
    by (simp add: json_exp_sign_def split: list.split)
  then show ?thesis
    using Cons take_digits_rest [of "snd (json_exp_sign u)"] by (simp add: json_exp_def Let_def)
qed (simp add: json_exp_def)

lemma jnum_rest: "jnum s = Some (v, r) \<Longrightarrow> length r < length s"
proof -
  let ?t = "snd (json_sign s)"
  let ?r = "snd (json_int ?t)"
  assume "jnum s = Some (v, r)"
  then have "fst (json_int ?t) \<noteq> []" "r = snd (json_exp (snd (json_frac ?r)))"
    by (auto simp: jnum_def Let_def split_beta split: if_splits)
  then show ?thesis
    using json_sign_rest [of s] json_int_rest [of ?t] json_frac_rest [of ?r] json_exp_rest [of "snd (json_frac ?r)"]
    by simp
qed

lemma skip_ws_cons: "skip_ws s = c # t \<Longrightarrow> length t < length s"
  using skip_ws_le [of s] by simp

lemma starts_len: "starts_with p s \<Longrightarrow> length p \<le> length s"
  by (auto simp: starts_with_def dest: arg_cong [of _ _ length])

lemma jvalue_rest_step:
  assumes "\<And>vs s v r. jarr n vs s = Some (v, r) \<Longrightarrow> length r < length s"
    and "\<And>kvs s v r. jobj n kvs s = Some (v, r) \<Longrightarrow> length r < length s"
    and "jvalue (Suc n) s = Some (v, r)"
  shows "length r < length s"
proof (cases s)
  case (Cons c t)
  have obj: "length r < Suc (length t)" if "skip_ws t = d # u" "jobj n [] (d # u) = Some (v, r)" for d u
    using assms(2) [OF that(2)] skip_ws_le [of t] that(1) by simp
  have arr: "length r < Suc (length t)" if "skip_ws t = d # u" "jarr n [] (d # u) = Some (v, r)" for d u
    using assms(1) [OF that(2)] skip_ws_le [of t] that(1) by simp
  have str: "length x < length t" if "jstr [] t = Some (y, x)" for y x
    using that by (rule jstr_rest)
  show ?thesis
    using assms(3) jnum_rest [of s v r]
    by (auto simp: Cons split: if_splits list.splits dest: str skip_ws_cons intro: obj arr)
qed (use assms(3) in simp)

lemma jarr_rest_step:
  assumes "\<And>s v r. jvalue n s = Some (v, r) \<Longrightarrow> length r < length s"
    and "\<And>vs s v r. jarr n vs s = Some (v, r) \<Longrightarrow> length r < length s"
    and "jarr (Suc n) vs s = Some (v, r)"
  shows "length r < length s"
proof -
  obtain x y d u where 1: "jvalue n s = Some (x, y)" "skip_ws y = d # u"
      "(if d = CHR '']'' then Some (PList (vs @ [x]), u)
        else if d = CHR '','' then jarr n (vs @ [x]) (skip_ws u) else None) = Some (v, r)"
    using assms(3) by (auto split: option.splits list.splits)
  have "length r \<le> length u"
    using 1(3) assms(2) [of "vs @ [x]" "skip_ws u" v r] skip_ws_le [of u] by (auto split: if_splits)
  then show ?thesis using assms(1) [OF 1(1)] skip_ws_cons [OF 1(2)] by simp
qed

lemma jobj_rest_step:
  assumes "\<And>s v r. jvalue n s = Some (v, r) \<Longrightarrow> length r < length s"
    and "\<And>kvs s v r. jobj n kvs s = Some (v, r) \<Longrightarrow> length r < length s"
    and "jobj (Suc n) kvs s = Some (v, r)"
  shows "length r < length s"
proof -
  obtain q t k a d u x w e y where 1: "s = q # t" "jstr [] t = Some (k, a)" "skip_ws a = d # u"
      "jvalue n (skip_ws u) = Some (x, w)" "skip_ws w = e # y"
      "(if e = CHR ''}'' then Some (PDict (set_at kvs k x), y)
        else if e = CHR '','' then jobj n (set_at kvs k x) (skip_ws y) else None) = Some (v, r)"
    using assms(3) by (auto split: option.splits list.splits if_splits)
  have "length r \<le> length y"
    using 1(6) assms(2) [of "set_at kvs k x" "skip_ws y" v r] skip_ws_le [of y] by (auto split: if_splits)
  then show ?thesis
    using assms(1) [OF 1(4)] skip_ws_cons [OF 1(5)] skip_ws_cons [OF 1(3)] jstr_rest [OF 1(2)] skip_ws_le [of u] 1(1)
    by simp
qed

lemma j_rest:
  "(\<forall>s v r. jvalue n s = Some (v, r) \<longrightarrow> length r < length s) \<and>
   (\<forall>vs s v r. jarr n vs s = Some (v, r) \<longrightarrow> length r < length s) \<and>
   (\<forall>kvs s v r. jobj n kvs s = Some (v, r) \<longrightarrow> length r < length s)"
proof (induction n)
  case (Suc n)
  have "\<And>s v r. jvalue n s = Some (v, r) \<Longrightarrow> length r < length s"
    "\<And>vs s v r. jarr n vs s = Some (v, r) \<Longrightarrow> length r < length s"
    "\<And>kvs s v r. jobj n kvs s = Some (v, r) \<Longrightarrow> length r < length s"
    using Suc by blast+
  note IH = this
  have "length r < length s" if "jvalue (Suc n) s = Some (v, r)" for s v r
    by (rule jvalue_rest_step [OF _ _ that]) (use IH in blast)+
  moreover have "length r < length s" if "jarr (Suc n) vs s = Some (v, r)" for vs s v r
    by (rule jarr_rest_step [OF _ _ that]) (use IH in blast)+
  moreover have "length r < length s" if "jobj (Suc n) kvs s = Some (v, r)" for kvs s v r
    by (rule jobj_rest_step [OF _ _ that]) (use IH in blast)+
  ultimately show ?case by blast
qed simp

lemma jvalue_rest: "jvalue n s = Some (v, r) \<Longrightarrow> length r < length s"
  using j_rest by blast

text \<open>One more unit of fuel changes nothing once there is more than twice the length.\<close>

lemma jvalue_fuel_step:
  assumes "\<And>vs s. Suc (2 * length s) < n \<Longrightarrow> jarr (Suc n) vs s = jarr n vs s"
    and "\<And>kvs s. Suc (2 * length s) < n \<Longrightarrow> jobj (Suc n) kvs s = jobj n kvs s"
    and "2 * length s < Suc n"
  shows "jvalue (Suc (Suc n)) s = jvalue (Suc n) s"
proof (cases s)
  case (Cons c t)
  have "Suc (2 * length (d # u)) < n" if "skip_ws t = d # u" for d u
    using that skip_ws_le [of t] assms(3) Cons by simp
  then have "jarr (Suc n) [] (d # u) = jarr n [] (d # u)" "jobj (Suc n) [] (d # u) = jobj n [] (d # u)"
    if "skip_ws t = d # u" for d u
    using that assms(1,2) by blast+
  then show ?thesis
    unfolding Cons jvalue.simps(2) [of "Suc n"] jvalue.simps(2) [of n]
    by (simp split: list.split del: jarr.simps jobj.simps)
qed simp

lemma jarr_fuel_step:
  assumes "\<And>s. 2 * length s < n \<Longrightarrow> jvalue (Suc n) s = jvalue n s"
    and "\<And>vs s. Suc (2 * length s) < n \<Longrightarrow> jarr (Suc n) vs s = jarr n vs s"
    and "Suc (2 * length s) < Suc n"
  shows "jarr (Suc (Suc n)) vs s = jarr (Suc n) vs s"
proof -
  have v: "jvalue (Suc n) s = jvalue n s" using assms(1,3) by simp
  have "jarr (Suc n) ws (skip_ws u) = jarr n ws (skip_ws u)"
    if "jvalue n s = Some (x, r)" "skip_ws r = d # u" for x r d u ws
    using jvalue_rest [OF that(1)] skip_ws_cons [OF that(2)] skip_ws_le [of u] assms(3)
    by (intro assms(2)) simp
  then show ?thesis
    unfolding jarr.simps(2) [of "Suc n"] jarr.simps(2) [of n] v
    by (simp split: option.split list.split del: jarr.simps)
qed

lemma jobj_fuel_step:
  assumes "\<And>s. 2 * length s < n \<Longrightarrow> jvalue (Suc n) s = jvalue n s"
    and "\<And>kvs s. Suc (2 * length s) < n \<Longrightarrow> jobj (Suc n) kvs s = jobj n kvs s"
    and "Suc (2 * length s) < Suc n"
  shows "jobj (Suc (Suc n)) kvs s = jobj (Suc n) kvs s"
proof (cases s)
  case (Cons q t)
  have short: "length (skip_ws u) < length s" if "jstr [] t = Some (k, r)" "skip_ws r = d # u" for k r d u
    using jstr_rest [OF that(1)] skip_ws_cons [OF that(2)] skip_ws_le [of u] Cons by simp
  have v: "jvalue (Suc n) (skip_ws u) = jvalue n (skip_ws u)"
    if "jstr [] t = Some (k, r)" "skip_ws r = d # u" for k r d u
    using short [OF that] assms(3) by (intro assms(1)) simp
  have "jobj (Suc n) ws (skip_ws y) = jobj n ws (skip_ws y)"
    if "jstr [] t = Some (k, r)" "skip_ws r = d # u" "jvalue n (skip_ws u) = Some (x, a)" "skip_ws a = e # y"
    for k r d u x a e y ws
    using short [OF that(1,2)] jvalue_rest [OF that(3)] skip_ws_cons [OF that(4)] skip_ws_le [of y] assms(3)
    by (intro assms(2)) simp
  note j = this
  note U = jobj.simps(2) [of "Suc n" kvs "q # t"] jobj.simps(2) [of n kvs "q # t"]
  show ?thesis
  proof (cases "jstr [] t")
    case (Some p)
    obtain k r where p: "p = (k, r)" by (cases p)
    note kr = Some [unfolded p]
    show ?thesis
    proof (cases "skip_ws r")
      case du: (Cons d u)
      show ?thesis
      proof (cases "jvalue n (skip_ws u)")
        case xa: (Some q')
        obtain x a where "q' = (x, a)" by (cases q')
        with xa have xa: "jvalue n (skip_ws u) = Some (x, a)" by simp
        then show ?thesis
          by (cases "skip_ws a") (simp_all add: U Cons kr du v [OF kr du] j [OF kr du xa] del: jobj.simps jvalue.simps)
      qed (simp add: U Cons kr du v [OF kr du] del: jobj.simps jvalue.simps)
    qed (simp add: U Cons kr del: jobj.simps jvalue.simps)
  qed (simp add: U Cons del: jobj.simps jvalue.simps)
qed simp

lemma j_fuel:
  "(\<forall>s. 2 * length s < n \<longrightarrow> jvalue (Suc n) s = jvalue n s) \<and>
   (\<forall>vs s. Suc (2 * length s) < n \<longrightarrow> jarr (Suc n) vs s = jarr n vs s) \<and>
   (\<forall>kvs s. Suc (2 * length s) < n \<longrightarrow> jobj (Suc n) kvs s = jobj n kvs s)"
proof (induction n)
  case (Suc n)
  have "\<And>s. 2 * length s < n \<Longrightarrow> jvalue (Suc n) s = jvalue n s"
    "\<And>vs s. Suc (2 * length s) < n \<Longrightarrow> jarr (Suc n) vs s = jarr n vs s"
    "\<And>kvs s. Suc (2 * length s) < n \<Longrightarrow> jobj (Suc n) kvs s = jobj n kvs s"
    using Suc by blast+
  note IH = this
  have "jvalue (Suc (Suc n)) s = jvalue (Suc n) s" if "2 * length s < Suc n" for s
    by (rule jvalue_fuel_step [OF _ _ that]) (use IH in blast)+
  moreover have "jarr (Suc (Suc n)) vs s = jarr (Suc n) vs s" if "Suc (2 * length s) < Suc n" for vs s
    by (rule jarr_fuel_step [OF _ _ that]) (use IH in blast)+
  moreover have "jobj (Suc (Suc n)) kvs s = jobj (Suc n) kvs s" if "Suc (2 * length s) < Suc n" for kvs s
    by (rule jobj_fuel_step [OF _ _ that]) (use IH in blast)+
  ultimately show ?case by blast
qed simp

lemma jvalue_fuel: "2 * length s < n \<Longrightarrow> jvalue n s = jvalue (Suc (2 * length s)) s"
proof (induction n)
  case (Suc n)
  then show ?case
    using j_fuel [of n] by (cases "2 * length s = n") auto
qed simp

end
