(* ===== verification/Session_State.thy ===== *)
theory Session_State
  imports Json
begin

text \<open>
  The session state of a pipeline run: a dictionary from names to values, as the gates,
  the watchdogs and the quality signals read and write it. An absent name and a name bound
  to \<open>None\<close> differ only for a \<open>get\<close> with a default.

  \<^verbatim>\<open>_clear_state\<close> of \<^verbatim>\<open>graph_pipeline/_gates.py\<close> pops a key from a plain dictionary
  and binds it to \<open>None\<close> in the agent framework's own state, which has no \<open>pop\<close>: the
  argument \<open>popping\<close> says which.
\<close>

type_synonym state = "string \<Rightarrow> pyval option"

definition sget :: "state \<Rightarrow> string \<Rightarrow> pyval" where
  "sget st k = (case st k of None \<Rightarrow> PNone | Some v \<Rightarrow> v)"

definition sget_or :: "state \<Rightarrow> string \<Rightarrow> pyval \<Rightarrow> pyval" where
  "sget_or st k d = (case st k of None \<Rightarrow> d | Some v \<Rightarrow> v)"

definition sset :: "state \<Rightarrow> string \<Rightarrow> pyval \<Rightarrow> state" where
  "sset st k v = st(k \<mapsto> v)"

definition clear_state :: "bool \<Rightarrow> state \<Rightarrow> string list \<Rightarrow> state" where
  "clear_state popping st ks = foldl (\<lambda>s k. s(k := (if popping then None else Some PNone))) st ks"

lemma sget_sset [simp]: "sget (sset st k v) j = (if j = k then v else sget st j)"
  by (simp add: sget_def sset_def)

lemma sset_apply: "sset st k v j = (if j = k then Some v else st j)"
  by (simp add: sset_def)

lemma clear_state_apply:
  "clear_state popping st ks j = (if j \<in> set ks then (if popping then None else Some PNone) else st j)"
  unfolding clear_state_def by (induction ks arbitrary: st) auto

lemma sget_clear [simp]: "sget (clear_state popping st ks) j = (if j \<in> set ks then PNone else sget st j)"
  by (simp add: sget_def clear_state_apply)

end
