(* ===== verification/Handoff.thy ===== *)
theory Handoff
  imports Session_State
begin

text \<open>
  The approaches a run tried and gave up, \<^verbatim>\<open>note_failed\<close>, \<^verbatim>\<open>record_failed\<close> and
  \<^verbatim>\<open>render_failed\<close> of \<^verbatim>\<open>aiforge_core/runtime/handoff.py\<close>: newest last, no
  duplicate, at most ten. The argument \<open>scrub\<close> is \<^verbatim>\<open>_data\<close>, which masks credentials
  and harness marks.
\<close>

definition max_failed :: nat where
  "max_failed = 10"

definition note_failed :: "(string \<Rightarrow> string) \<Rightarrow> string list \<Rightarrow> string \<Rightarrow> string list" where
  "note_failed scrub items text0 =
     (let text = take 240 (scrub (join '' '' (split_ws text0)))
      in if text = [] then items else last_n max_failed (remove1 text items @ [text]))"

definition render_failed :: "string list \<Rightarrow> string" where
  "render_failed items = join [CHR 0x0A] (map (\<lambda>t. ''- '' @ t) (last_n max_failed items))"

fun text_value :: "pyval \<Rightarrow> string option" where
  "text_value (PStr s) = Some s"
| "text_value _ = None"

text \<open>A pipeline state is reassigned, and the rendering with it.\<close>

definition record_failed :: "(string \<Rightarrow> string) \<Rightarrow> state \<Rightarrow> string \<Rightarrow> state" where
  "record_failed scrub st text =
     (let items = note_failed scrub
            (List.map_filter text_value (list_of (por (sget st ''failed_approaches'') (PList [])))) text
      in sset (sset st ''failed_approaches'' (PList (map PStr items)))
           ''failed_approaches_md'' (PStr (render_failed items)))"

lemma note_failed_ok:
  assumes "distinct items" and "length items \<le> max_failed"
  shows "distinct (note_failed scrub items t) \<and> length (note_failed scrub items t) \<le> max_failed"
proof -
  have "distinct (last_n n xs)" if "distinct xs" for n and xs :: "string list"
    using that by (simp add: last_n_def)
  then show ?thesis using assms by (auto simp: note_failed_def Let_def distinct_remove1)
qed

end
