(* ===== verification/Escalate.thy ===== *)
theory Escalate
  imports Progress Handoff
begin

text \<open>
  What a stuck run does about it: \<^verbatim>\<open>_turn/_escalate.py\<close> (the tiers, the restart, the
  wrap-up) and \<^verbatim>\<open>_turn/_stuck/ladder.py\<close> (the tail every guard shares). A generator is the list of events it
  yields, with its return value and the state.

  Arguments: \<open>scrub\<close> is \<^verbatim>\<open>handoff._data\<close> (redaction), \<open>attempt\<close> is
  \<^verbatim>\<open>handoff.last_attempt\<close>, \<open>fresh\<close> builds the conversation of a restart, or \<open>None\<close>
  when the transcript cannot be saved, and \<open>condense\<close> is the compacted conversation.
\<close>

datatype chat_event =
    Thought string
  | Message string
  | Asking string
  | Done

datatype outcome = Continue | Return | Wrap_up

record helpers =
  h_scrub :: "string \<Rightarrow> string"
  h_attempt :: "message list \<Rightarrow> string"
  h_fresh :: "loop_state \<Rightarrow> message list option"
  h_condense :: "loop_state \<Rightarrow> message list"

section \<open>The approaches that failed\<close>

definition rstrip_dots :: "string \<Rightarrow> string" where
  "rstrip_dots s = rstrip_chars ''.'' s"

definition remember_failure :: "helpers \<Rightarrow> loop_state \<Rightarrow> string \<Rightarrow> loop_state" where
  "remember_failure h st why =
     (let a = h_attempt h (l_convo st)
      in st\<lparr> s_failed_approaches :=
               note_failed (h_scrub h) (s_failed_approaches st) (if a \<noteq> [] then a else rstrip_dots why) \<rparr>)"

section \<open>The tiers\<close>

definition tiers :: "string list" where
  "tiers =
     [''Step back. In one line say what the last attempts had in common, then '' @
      ''choose an approach you have NOT tried (a different tool, a different '' @
      ''file, a smaller step) and do it now.'',
      ''Make the smallest change that moves the task forward and do it: read '' @
      ''the one file you need, or write the one edit you are sure of. If a tool '' @
      ''keeps failing, use a different tool for the same goal.'',
      ''Take the simplest path to finishing. Do what you can with what you '' @
      ''already know, then verify it. If one part is truly blocked, finish the '' @
      ''rest and say plainly what is blocked and why.'']"

definition wrap_up_text :: string where
  "wrap_up_text =
     ''Stop retrying. Write `FINAL:` now: what is done, what remains, and '' @
     ''what you would do next. Be specific.''"

definition arm_reasoning :: "env \<Rightarrow> loop_state \<Rightarrow> loop_state" where
  "arm_reasoning e st = st\<lparr> s_reason_boost := max (s_reason_boost st) (p_reason_steps (load e)) \<rparr>"

definition pause_on_stuck :: "env \<Rightarrow> bool" where
  "pause_on_stuck e = p_pause_on_stuck (load e)"

definition restart_with_handoff :: "helpers \<Rightarrow> loop_state \<Rightarrow> bool \<times> loop_state" where
  "restart_with_handoff h st =
     (if length (l_convo st) < 3 \<or> dget (hd (l_convo st)) ''role'' \<noteq> PStr ''system'' then (False, st)
      else (case h_fresh h st of
              None \<Rightarrow> (False, st)
            | Some convo \<Rightarrow>
                (True, reset (st\<lparr> l_convo := convo, s_restarts := s_restarts st + 1 \<rparr>) Scope_restart)))"

definition condensed :: "helpers \<Rightarrow> loop_state \<Rightarrow> loop_state" where
  "condensed h st =
     (let new = h_condense h st
      in if length new < length (l_convo st) then st\<lparr> l_convo := new \<rparr> else st)"

text \<open>A user turn with a text.\<close>

definition user_turn :: "message \<Rightarrow> bool" where
  "user_turn m \<longleftrightarrow> dget m ''role'' = PStr ''user'' \<and> is_str (dget m ''content'')"

fun text_of :: "pyval \<Rightarrow> string" where
  "text_of (PStr s) = s"
| "text_of _ = []"

definition user_msg :: "string \<Rightarrow> message" where
  "user_msg t = [(''role'', PStr ''user''), (''content'', PStr t)]"

definition assistant_msg :: "string \<Rightarrow> message" where
  "assistant_msg t = [(''role'', PStr ''assistant''), (''content'', PStr t)]"

definition newline2 :: string where
  "newline2 = [CHR 0x0A, CHR 0x0A]"

definition queue_note :: "message list \<Rightarrow> string \<Rightarrow> message list" where
  "queue_note convo note =
     (if convo \<noteq> [] \<and> user_turn (last convo)
      then butlast convo @
             [set_at (last convo) ''content'' (PStr (text_of (dget (last convo) ''content'') @ newline2 @ note))]
      else convo @ [user_msg note])"

definition try_arrow :: string where
  "try_arrow = [CHR 0xE2, CHR 0x86, CHR 0xBA]"

definition escalate :: "helpers \<Rightarrow> env \<Rightarrow> loop_state \<Rightarrow> string \<Rightarrow> chat_event list \<times> outcome \<times> loop_state" where
  "escalate h e st why =
     (let n = s_stuck_escalations st + 1;
          st1 = arm_reasoning e (st\<lparr> s_stuck_escalations := n \<rparr>);
          limit = p_stuck_escalations (load e);
          wrapping = (limit \<noteq> 0 \<and> limit < n);
          st2 = (if wrapping then st1\<lparr> l_wrapping_up := True \<rparr> else st1);
          st3 = reset (remember_failure h st2 why) Scope_escalation;
          (restarted, st4) = (if n mod 2 = 0 \<and> p_stuck_restart (load e) then restart_with_handoff h st3
                              else (False, condensed h st3));
          text = (if wrapping then wrap_up_text else tiers ! nat (min n 3 - 1));
          note = (if \<not> restarted
                  then ''[loop guard '' @ em_dash @ '' not the user] '' @ why @ '' '' @ text else text)
      in ([Thought (try_arrow @ '' '' @ rstrip_dots why @ '' '' @ em_dash @ '' changing approach (try '' @
                    str_of_int n @ ''), the task continues'')],
          if wrapping \<and> limit + 1 < n then Wrap_up else Continue,
          st4\<lparr> l_convo := queue_note (l_convo st4) note \<rparr>))"

section \<open>The ladder\<close>

definition give_up_message :: string where
  "give_up_message =
     ''(stopped after repeated attempts: I could not move this forward. '' @
     ''Say \"continue\" and I will pick it up from where the work is on '' @
     ''disk, or tell me what to change.)''"

definition say_reply :: "string option \<Rightarrow> loop_state \<Rightarrow> loop_state" where
  "say_reply reply st =
     (case reply of None \<Rightarrow> st | Some r \<Rightarrow> st\<lparr> l_convo := l_convo st @ [assistant_msg r] \<rparr>)"

definition nudge :: "loop_state \<Rightarrow> string \<Rightarrow> string \<Rightarrow> string option \<Rightarrow> chat_event list \<times> loop_state" where
  "nudge st thought text reply =
     ([Thought thought],
      (let st1 = say_reply reply st in st1\<lparr> l_convo := l_convo st1 @ [user_msg text] \<rparr>))"

definition change_approach ::
    "helpers \<Rightarrow> env \<Rightarrow> (loop_state \<Rightarrow> loop_state) \<Rightarrow> string option \<Rightarrow> loop_state \<Rightarrow> string
     \<Rightarrow> (chat_event list \<times> outcome) \<times> loop_state" where
  "change_approach h e prepare reply st why =
     (let (evs, result, st') = escalate h e (say_reply reply (prepare st)) why
      in if result = Continue then ((evs, Continue), st')
         else ((evs @ [Message give_up_message, Done], Return), st'))"

record pause =
  pz_text :: string
  pz_thought :: "string option"

definition pause_and_ask :: "pause \<Rightarrow> chat_event list \<times> outcome" where
  "pause_and_ask p =
     ((case pz_thought p of None \<Rightarrow> [] | Some t \<Rightarrow> if t = [] then [] else [Thought t]) @
      [Asking (pz_text p), Done], Return)"

definition finish_stuck ::
    "helpers \<Rightarrow> env \<Rightarrow> (loop_state \<Rightarrow> loop_state) \<Rightarrow> pause \<Rightarrow> string option \<Rightarrow> loop_state \<Rightarrow> string
     \<Rightarrow> (chat_event list \<times> outcome) \<times> loop_state" where
  "finish_stuck h e prepare p reply st why =
     (if p_pause_on_stuck (load e) then (pause_and_ask p, st)
      else change_approach h e prepare reply st why)"

section \<open>Facts\<close>

lemma remember_failure_fields [simp]:
  "s_stuck_escalations (remember_failure h st why) = s_stuck_escalations st"
  "l_convo (remember_failure h st why) = l_convo st"
  by (simp_all add: remember_failure_def Let_def)

lemma restart_escalations: "s_stuck_escalations (snd (restart_with_handoff h st)) = s_stuck_escalations st"
  by (auto simp: restart_with_handoff_def split: option.split)

lemma condensed_escalations: "s_stuck_escalations (condensed h st) = s_stuck_escalations st"
  by (simp add: condensed_def Let_def)

lemma escalate_counts: "s_stuck_escalations (snd (snd (escalate h e st why))) = s_stuck_escalations st + 1"
proof -
  have c: "s_stuck_escalations (snd (if b then restart_with_handoff h s else (False, condensed h s))) =
      s_stuck_escalations s" for b s
    by (simp add: restart_escalations condensed_escalations)
  show ?thesis
    by (simp add: escalate_def Let_def split_beta c arm_reasoning_def)
qed

lemma escalate_outcome:
  "fst (snd (escalate h e st why)) =
     (if p_stuck_escalations (load e) \<noteq> 0 \<and> p_stuck_escalations (load e) + 1 < s_stuck_escalations st + 1
      then Wrap_up else Continue)"
  by (simp add: escalate_def Let_def split_beta)

lemma say_reply_escalations [simp]: "s_stuck_escalations (say_reply r st) = s_stuck_escalations st"
  by (simp add: say_reply_def split: option.split)

text \<open>No two user turns in a row.\<close>

fun no_user_pair :: "message list \<Rightarrow> bool" where
  "no_user_pair (m # n # ms) = (\<not> (user_turn m \<and> user_turn n) \<and> no_user_pair (n # ms))"
| "no_user_pair _ = True"

lemma no_user_pair_snoc:
  "no_user_pair (ms @ [m]) \<longleftrightarrow> no_user_pair ms \<and> (ms = [] \<or> \<not> (user_turn (last ms) \<and> user_turn m))"
  by (induction ms rule: no_user_pair.induct) auto

lemma queue_note_pairs: "no_user_pair convo \<Longrightarrow> no_user_pair (queue_note convo note)"
proof (cases "convo \<noteq> [] \<and> user_turn (last convo)")
  case True
  assume p: "no_user_pair convo"
  obtain ms m where c: "convo = ms @ [m]" using True by (metis append_butlast_last_id)
  show ?thesis
    using True p by (auto simp: c queue_note_def no_user_pair_snoc user_turn_def)
next
  case False
  assume "no_user_pair convo"
  then show ?thesis using False by (auto simp: queue_note_def no_user_pair_snoc)
qed

section \<open>Properties\<close>

text \<open>The ladder ends, and not early. From a turn that has not escalated, with a limit
  above zero, the changes of approach the ladder grants are exactly one more than the limit
  (the last asks for the wrap-up); every later one ends the turn, whatever the restarts and
  condenses do to the conversation.\<close>

theorem escalations_exact:
  assumes "s_stuck_escalations st = 0" and "0 < p_stuck_escalations (load e)"
    and "\<And>st. s_stuck_escalations (prepare st) = s_stuck_escalations st"
  shows "map snd (fst (run_with (change_approach h e prepare reply) st whys)) =
    replicate (min (length whys) (nat (p_stuck_escalations (load e)) + 1)) Continue @
    replicate (length whys - (nat (p_stuck_escalations (load e)) + 1)) Return"
proof -
  let ?run = "\<lambda>ws. run_with (change_approach h e prepare reply) st ws"
  let ?L = "p_stuck_escalations (load e)"
  have step: "snd (fst (change_approach h e prepare reply s y)) =
      (if ?L + 1 < s_stuck_escalations s + 1 then Return else Continue) \<and>
      s_stuck_escalations (snd (change_approach h e prepare reply s y)) = s_stuck_escalations s + 1" for s y
    using escalate_outcome [of h e "say_reply reply (prepare s)" y]
      escalate_counts [of h e "say_reply reply (prepare s)" y] assms(2,3)
    by (auto simp: change_approach_def Let_def split: prod.splits if_splits)
  have "s_stuck_escalations (snd (?run whys)) = int (length whys) \<and>
    map snd (fst (?run whys)) = replicate (min (length whys) (nat ?L + 1)) Continue @
      replicate (length whys - (nat ?L + 1)) Return"
  proof (induction whys rule: rev_induct)
    case (snoc y ws)
    have "map snd (fst (?run (ws @ [y]))) = map snd (fst (?run ws)) @
        [if ?L + 1 < int (length ws) + 1 then Return else Continue]"
      using snoc step [of "snd (?run ws)" y] by (simp add: run_with_append)
    moreover have "s_stuck_escalations (snd (?run (ws @ [y]))) = int (length (ws @ [y]))"
      using snoc step [of "snd (?run ws)" y] by (simp add: run_with_append)
    moreover have "(?L + 1 < int (length ws) + 1) = (nat ?L + 1 \<le> length ws)"
      using assms(2) by auto
    ultimately show ?case
      using snoc two_phase_snoc [of "length ws" "nat ?L + 1" Continue Return] by simp
  qed (simp add: assms(1))
  then show ?thesis by simp
qed

definition plain_helpers :: helpers where
  "plain_helpers = \<lparr> h_scrub = id, h_attempt = (\<lambda>_. []), h_fresh = (\<lambda>_. None), h_condense = l_convo \<rparr>"

theorem escalations_exact_witness:
  "s_stuck_escalations (new_loop ''/w'') = 0 \<and>
   map snd (fst (run_with (change_approach plain_helpers Map.empty id None) (new_loop ''/w'') (replicate 25 ''x''))) =
     replicate (min (length (replicate 25 ''x'')) (nat (p_stuck_escalations (load Map.empty)) + 1)) Continue @
     replicate (length (replicate 25 ''x'') - (nat (p_stuck_escalations (load Map.empty)) + 1)) Return"
proof -
  have h: "s_stuck_escalations (new_loop ''/w'') = 0" "0 < p_stuck_escalations (load Map.empty)"
      "\<And>st. s_stuck_escalations (id st :: loop_state) = s_stuck_escalations st"
    by (simp_all add: new_loop_def new_stuck_def stuck_state.defs load_default default_policy_def)
  show ?thesis
    by (rule conjI [OF h(1) escalations_exact [where prepare = id, OF h]])
qed

text \<open>A change of approach never leaves two user turns with text in a row, provided the
  conversation had none and the restart and the condense make none: the note rides on the
  last user turn.\<close>

theorem escalate_turns_alternate:
  assumes "no_user_pair (l_convo st)"
    and "\<And>st convo. h_fresh h st = Some convo \<Longrightarrow> no_user_pair convo"
    and "\<And>st. no_user_pair (l_convo st) \<Longrightarrow> no_user_pair (h_condense h st)"
  shows "no_user_pair (l_convo (snd (snd (escalate h e st why))))"
proof -
  have restart: "no_user_pair (l_convo (snd (restart_with_handoff h s)))" if "no_user_pair (l_convo s)" for s
    using that assms(2) by (auto simp: restart_with_handoff_def split: option.split)
  have cond: "no_user_pair (l_convo (condensed h s))" if "no_user_pair (l_convo s)" for s
    using that assms(3) by (simp add: condensed_def Let_def)
  have either: "no_user_pair (l_convo (snd (if b then restart_with_handoff h s else (False, condensed h s))))"
    if "no_user_pair (l_convo s)" for b s
    using restart [OF that] cond [OF that] by simp
  show ?thesis
    by (simp add: escalate_def Let_def split_beta queue_note_pairs either arm_reasoning_def assms(1))
qed

theorem escalate_turns_alternate_witness:
  "no_user_pair (l_convo ((new_loop ''/w'')\<lparr> l_convo := [user_msg ''go''] \<rparr>)) \<and>
   no_user_pair (l_convo (snd (snd (escalate plain_helpers Map.empty
     ((new_loop ''/w'')\<lparr> l_convo := [user_msg ''go''] \<rparr>) ''x''))))"
proof -
  have h: "no_user_pair (l_convo ((new_loop ''/w'')\<lparr> l_convo := [user_msg ''go''] \<rparr>))" by simp
  show ?thesis
    by (rule conjI [OF h escalate_turns_alternate [OF h]]) (simp_all add: plain_helpers_def)
qed

end
