(* ===== verification/Loop_Budget.thy ===== *)
theory Loop_Budget
  imports Session_State Stuck_Policy
begin

text \<open>
  The watchdogs of the pipeline's Doer loop: \<^verbatim>\<open>aiforge_core/runtime/loop_budget.py\<close> (lines
  of code that stop moving) and \<^verbatim>\<open>runtime/repeat_guard.py\<close> (one tool call again and
  again). The clock is the argument \<open>now\<close>; \<open>git\<close> is the answer of
  \<^verbatim>\<open>git diff --numstat HEAD\<close> in the repository \<open>repo\<close>, the empty text when there is none.
  The arguments \<open>sha1\<close>, \<open>dumps\<close> and \<open>suffix\<close> of the repeat guard are SHA-1, the JSON text
  of a call's arguments and the progress key of a waiting call.
\<close>

section \<open>Lines of code\<close>

definition env_int :: "env \<Rightarrow> string \<Rightarrow> int \<Rightarrow> int" where
  "env_int e name dflt =
     (case e name of None \<Rightarrow> dflt
      | Some s \<Rightarrow> if s = [] then dflt else (case int_of_str s of None \<Rightarrow> dflt | Some i \<Rightarrow> i))"

definition env_float :: "env \<Rightarrow> string \<Rightarrow> rat \<Rightarrow> rat" where
  "env_float e name dflt =
     (case e name of None \<Rightarrow> dflt
      | Some s \<Rightarrow> if s = [] then dflt else (case float_of_str s of None \<Rightarrow> dflt | Some r \<Rightarrow> r))"

definition plateau_turns0 :: int where "plateau_turns0 = 3"
definition plateau_delta0 :: int where "plateau_delta0 = 50"
definition min_elapsed0 :: rat where "min_elapsed0 = 600"

fun coerce_doer_outcome :: "pyval \<Rightarrow> (string \<times> pyval) list option" where
  "coerce_doer_outcome (PDict d) = Some d"
| "coerce_doer_outcome (PStr s) =
     (let text = strip s in
      if starts_with ''{'' text
      then (case json_loads text of Some (PDict d) \<Rightarrow> Some d | _ \<Rightarrow> None)
      else None)"
| "coerce_doer_outcome _ = None"

definition is_digits :: "string \<Rightarrow> bool" where
  "is_digits s \<longleftrightarrow> s \<noteq> [] \<and> list_all is_digit s"

definition sum_numstat :: "string \<Rightarrow> int" where
  "sum_numstat text =
     sum_list (map (\<lambda>line. let parts = split_char (CHR 0x09) line in
       if length parts < 2 then 0
       else sum_list (map digits_val (filter is_digits (take 2 parts)))) (splitlines text))"

definition worktree_loc :: "string \<Rightarrow> git_answer \<Rightarrow> int option" where
  "worktree_loc repo git =
     (if repo = [] then None
      else (case git of Git_out out \<Rightarrow> Some (sum_numstat out) | _ \<Rightarrow> None))"

fun entry_loc :: "pyval \<Rightarrow> int" where
  "entry_loc (PDict d) =
     (case int_value (dget d ''loc'') of
        Some loc \<Rightarrow> loc
      | None \<Rightarrow> (case dget d ''content'' of
                   PStr content \<Rightarrow> int (length (filter (\<lambda>c. c = CHR 0x0A) content)) + 1
                 | _ \<Rightarrow> 1))"
| "entry_loc _ = 0"

definition diff_loc_from_model :: "pyval list \<Rightarrow> int" where
  "diff_loc_from_model ds = sum_list (map entry_loc ds)"

fun unmeasured :: "pyval \<Rightarrow> bool" where
  "unmeasured (PDict d) = (int_value (dget d ''loc'') = None \<and> \<not> is_str (dget d ''content''))"
| "unmeasured _ = False"

definition loc_for_turn :: "string \<Rightarrow> git_answer \<Rightarrow> state \<Rightarrow> int option" where
  "loc_for_turn repo git st =
     (case coerce_doer_outcome (sget st ''doer_outcome'') of
        None \<Rightarrow> Some 0
      | Some outcome \<Rightarrow>
          if outcome = [] then Some 0
          else (case por (dget outcome ''file_diffs'') (PList []) of
                  PList ds \<Rightarrow> if list_ex unmeasured ds then worktree_loc repo git
                              else Some (diff_loc_from_model ds)
                | _ \<Rightarrow> Some 0))"

section \<open>The plateau\<close>

definition history_cap :: nat where
  "history_cap = 32"

fun is_number :: "pyval \<Rightarrow> bool" where
  "is_number (PInt _) = True"
| "is_number (PBool _) = True"
| "is_number (PFloat _) = True"
| "is_number _ = False"

definition record_history :: "state \<Rightarrow> int \<Rightarrow> rat \<Rightarrow> state" where
  "record_history st loc now =
     (let history = list_of (sget st ''loc_history'');
          st1 = sset st ''loc_history'' (PList (last_n history_cap (history @ [PInt loc])))
      in if is_number (sget st1 ''loc_first_seen'') then st1
         else sset st1 ''loc_first_seen'' (PFloat now))"

definition history_of :: "state \<Rightarrow> int list" where
  "history_of st = List.map_filter int_value (list_of (sget st ''loc_history''))"

definition plateau_hit :: "int list \<Rightarrow> int \<Rightarrow> int \<Rightarrow> bool" where
  "plateau_hit history turns delta =
     (if turns \<le> 0 \<or> delta < 0 then False
      else if int (length history) < turns + 1 then False
      else (let tail = last_n (nat (turns + 1)) history in
            list_all (\<lambda>(prev, cur). \<not> delta \<le> \<bar>cur - prev\<bar>) (zip tail (tl tail))))"

fun number :: "pyval \<Rightarrow> rat" where
  "number (PFloat r) = r"
| "number (PInt i) = of_int i"
| "number (PBool b) = (if b then 1 else 0)"
| "number _ = 0"

definition evaluate_plateau :: "string \<Rightarrow> git_answer \<Rightarrow> int \<Rightarrow> int \<Rightarrow> rat \<Rightarrow> rat \<Rightarrow> state \<Rightarrow> bool \<times> state" where
  "evaluate_plateau repo git turns delta min_elapsed now st =
     (if truthy (sget st ''loop_budget_kill'') then (False, st)
      else
        (case loc_for_turn repo git st of
           None \<Rightarrow> (False, st)
         | Some loc \<Rightarrow>
             (let st1 = record_history st loc now;
                  elapsed = now - number (sget st1 ''loc_first_seen'')
              in if elapsed < min_elapsed then (False, st1)
                 else if \<not> plateau_hit (history_of st1) turns delta then (False, st1)
                 else (True,
                       sset (sset st1 ''loop_budget_kill'' (PBool True)) ''loop_budget_reason''
                         (PStr (''loc_plateau:'' @ str_of_int turns @ ''x<'' @ str_of_int delta @
                                ''_after_'' @ str_of_int (if elapsed < 0 then - \<lfloor>- elapsed\<rfloor> else \<lfloor>elapsed\<rfloor>) @
                                ''s''))))))"

text \<open>The two callbacks: what the Refiner's does to the state, and the payload fields that end
  the loop when the kill flag is set.\<close>

definition budget_disabled :: "env \<Rightarrow> bool" where
  "budget_disabled e = (env_get e ''AIFORGE_LOOP_BUDGET_DISABLE'' ''0'' \<in> {''1'', ''true''})"

definition after_iteration :: "env \<Rightarrow> string \<Rightarrow> git_answer \<Rightarrow> rat \<Rightarrow> state \<Rightarrow> state" where
  "after_iteration e repo git now st =
     (if budget_disabled e then st
      else snd (evaluate_plateau repo git
             (env_int e ''AIFORGE_LOOP_LOC_PLATEAU_TURNS'' plateau_turns0)
             (env_int e ''AIFORGE_LOOP_LOC_PLATEAU_DELTA'' plateau_delta0)
             (env_float e ''AIFORGE_LOOP_MIN_ELAPSED_S'' min_elapsed0) now st))"

definition before_loop :: "(pyval \<Rightarrow> string) \<Rightarrow> state \<Rightarrow> pyval option \<times> state" where
  "before_loop rep st =
     (if \<not> truthy (sget st ''loop_budget_kill'') then (None, st)
      else
        (let st1 = (if st ''feedback_verdict'' = None
                    then sset st ''feedback_verdict'' (PStr (''partial loop_budget_kill: '' @
                           py_str rep (sget_or st ''loop_budget_reason'' (PStr ''plateau''))))
                    else st)
         in (Some (PDict [(''verdict'', PStr ''partial''),
                          (''reason'', sget_or st1 ''loop_budget_reason'' (PStr ''loc_plateau'')),
                          (''loc_history'', sget_or st1 ''loc_history'' (PList []))]), st1)))"

section \<open>The repeat guard\<close>

definition call_sig :: "(pyval \<Rightarrow> string) \<Rightarrow> (string \<Rightarrow> pyval \<Rightarrow> string) \<Rightarrow> string \<Rightarrow> pyval \<Rightarrow> string" where
  "call_sig dumps suffix name args =
     name @ ''|'' @ take 600 (dumps (por args (PDict []))) @ suffix name args"

fun dict_of :: "pyval \<Rightarrow> (string \<times> pyval) list" where
  "dict_of (PDict d) = d"
| "dict_of _ = []"

definition repeat_hint :: "string \<Rightarrow> int \<Rightarrow> string" where
  "repeat_hint name n =
     ''You have called `'' @ name @ ''` with identical arguments '' @
     str_of_int n @ '' times '' @ em_dash @ '' it is NOT making progress '' @
     ''(the call may be malformed/truncated). STOP '' @
     ''repeating it: fix the arguments, try a different '' @
     ''approach, or finish with what you have.''"

text \<open>A value in the table that is not a count raises, and the call is allowed.\<close>

definition repeat_guard ::
    "env \<Rightarrow> (string \<Rightarrow> string) \<Rightarrow> (pyval \<Rightarrow> string) \<Rightarrow> (string \<Rightarrow> pyval \<Rightarrow> string) \<Rightarrow> string \<Rightarrow> pyval
     \<Rightarrow> state \<Rightarrow> pyval option \<times> state" where
  "repeat_guard e sha1 dumps suffix name args st =
     (let limit = p_tool_repeat_limit (load e) in
      if limit \<le> 0 then (None, st)
      else
        (let key = take 12 (sha1 (call_sig dumps suffix name args));
             counts = dict_of (por (sget st ''_repeat_counts'') (PDict []))
         in (case int_value (dget_or counts key (PInt 0)) of
               None \<Rightarrow> (None, st)
             | Some c \<Rightarrow>
                 (let n = c + 1;
                      st1 = sset st ''_repeat_counts'' (PDict (set_at counts key (PInt n)))
                  in if limit \<le> n
                     then (Some (PDict [(''ok'', PBool False), (''error'', PStr ''repeated_call''),
                                        (''hint'', PStr (repeat_hint name n))]), st1)
                     else (None, st1)))))"

section \<open>Properties\<close>

lemma zip_tl_all: "list_all P (zip xs (tl xs)) \<longleftrightarrow> (\<forall>i. Suc i < length xs \<longrightarrow> P (xs ! i, xs ! Suc i))"
  by (auto simp: list_all_length nth_tl)

text \<open>The plateau watchdog stops a loop only on evidence: the turn was measured, the time is
  past the minimum, and every one of the last \<open>turns\<close> steps of the recorded history moved by
  less than \<open>delta\<close> lines. A turn that cannot be measured changes nothing.\<close>

theorem plateau_kill_sound:
  "(loc_for_turn repo git st = None \<longrightarrow> evaluate_plateau repo git turns delta m now st = (False, st)) \<and>
   (fst (evaluate_plateau repo git turns delta m now st) \<longrightarrow>
     (\<exists>loc tail. loc_for_turn repo git st = Some loc \<and> \<not> truthy (sget st ''loop_budget_kill'') \<and>
        0 < turns \<and> tail = last_n (nat (turns + 1)) (history_of (record_history st loc now)) \<and>
        length tail = nat (turns + 1) \<and> (\<forall>i < nat turns. \<bar>tail ! Suc i - tail ! i\<bar> < delta) \<and>
        m \<le> now - number (sget (record_history st loc now) ''loc_first_seen'')))"
proof (intro conjI impI)
  assume "loc_for_turn repo git st = None"
  then show "evaluate_plateau repo git turns delta m now st = (False, st)"
    by (simp add: evaluate_plateau_def)
next
  assume kill: "fst (evaluate_plateau repo git turns delta m now st)"
  then obtain loc where loc: "loc_for_turn repo git st = Some loc" "\<not> truthy (sget st ''loop_budget_kill'')"
    by (auto simp: evaluate_plateau_def split: option.splits if_splits)
  let ?h = "history_of (record_history st loc now)"
  have hit: "plateau_hit ?h turns delta" "m \<le> now - number (sget (record_history st loc now) ''loc_first_seen'')"
    using kill loc by (auto simp: evaluate_plateau_def Let_def split: if_splits)
  then have "0 < turns" "turns + 1 \<le> int (length ?h)"
      "\<forall>i. Suc i < length (last_n (nat (turns + 1)) ?h) \<longrightarrow>
        \<bar>last_n (nat (turns + 1)) ?h ! Suc i - last_n (nat (turns + 1)) ?h ! i\<bar> < delta"
    by (auto simp: plateau_hit_def Let_def zip_tl_all not_le split: if_splits)
  then show "\<exists>loc tail. loc_for_turn repo git st = Some loc \<and> \<not> truthy (sget st ''loop_budget_kill'') \<and>
        0 < turns \<and> tail = last_n (nat (turns + 1)) (history_of (record_history st loc now)) \<and>
        length tail = nat (turns + 1) \<and> (\<forall>i < nat turns. \<bar>tail ! Suc i - tail ! i\<bar> < delta) \<and>
        m \<le> now - number (sget (record_history st loc now) ''loc_first_seen'')"
    using loc hit(2) by (intro exI [of _ loc]) auto
qed

definition idle_loop :: state where
  "idle_loop = [''loc_history'' \<mapsto> PList [PInt 0], ''loc_first_seen'' \<mapsto> PFloat 0]"

theorem plateau_kill_sound_witness:
  "fst (evaluate_plateau [] Git_failed 1 3 10 100 idle_loop) \<and>
   10 \<le> 100 - number (sget (record_history idle_loop 0 100) ''loc_first_seen'')"
proof -
  have k: "fst (evaluate_plateau [] Git_failed 1 3 10 100 idle_loop)" by code_simp
  have l: "loc_for_turn [] Git_failed idle_loop = Some 0" by code_simp
  from plateau_kill_sound [of "[]" Git_failed idle_loop 1 3 10 100] k l show ?thesis by auto
qed

lemma dget_or_set_at: "dget_or (set_at d k v) j x = (if j = k then v else dget_or d j x)"
  by (simp add: dget_or_def)

definition count_of :: "state \<Rightarrow> string \<Rightarrow> int option" where
  "count_of st key = int_value (dget_or (dict_of (por (sget st ''_repeat_counts'') (PDict []))) key (PInt 0))"

lemma set_at_not_Nil [simp]: "set_at d k v \<noteq> []"
  by (induction d k v rule: set_at.induct) auto

lemma repeat_guard_step:
  assumes "0 < p_tool_repeat_limit (load e)"
    and "count_of st (take 12 (sha1 (call_sig dumps suffix name args))) = Some c"
  shows "count_of (snd (repeat_guard e sha1 dumps suffix name args st))
      (take 12 (sha1 (call_sig dumps suffix name args))) = Some (c + 1)"
    and "(fst (repeat_guard e sha1 dumps suffix name args st) \<noteq> None) = (p_tool_repeat_limit (load e) \<le> c + 1)"
  using assms by (simp_all add: repeat_guard_def count_of_def Let_def dget_or_set_at)

text \<open>The repeat guard, exactly: of any number of identical calls in a fresh iteration, the
  first \<open>limit - 1\<close> run and every later one is refused.\<close>

theorem repeat_guard_exact:
  assumes "0 < p_tool_repeat_limit (load e)" and "sget st ''_repeat_counts'' = PNone"
  shows "map (\<lambda>a. a \<noteq> None) (fst (run_with (\<lambda>st (u :: unit). repeat_guard e sha1 dumps suffix name args st) st us)) =
    replicate (min (length us) (nat (p_tool_repeat_limit (load e)) - 1)) False @
    replicate (length us - (nat (p_tool_repeat_limit (load e)) - 1)) True"
proof -
  let ?L = "nat (p_tool_repeat_limit (load e)) - 1"
  let ?key = "take 12 (sha1 (call_sig dumps suffix name args))"
  let ?run = "\<lambda>us. run_with (\<lambda>st (u :: unit). repeat_guard e sha1 dumps suffix name args st) st us"
  have "count_of (snd (?run us)) ?key = Some (int (length us)) \<and>
    map (\<lambda>a. a \<noteq> None) (fst (?run us)) = replicate (min (length us) ?L) False @ replicate (length us - ?L) True"
  proof (induction us rule: rev_induct)
    case Nil
    then show ?case using assms(2) by (simp add: count_of_def dget_or_def)
  next
    case (snoc u us)
    note step = repeat_guard_step [OF assms(1), of "snd (?run us)" sha1 dumps suffix name args "int (length us)"]
    have "(p_tool_repeat_limit (load e) \<le> int (length us) + 1) = (?L \<le> length us)"
      using assms(1) by auto
    then show ?case
      using snoc step two_phase_snoc [of "length us" ?L False True]
      by (cases "?L \<le> length us") (simp_all add: run_with_append)
  qed
  then show ?thesis by simp
qed

theorem repeat_guard_exact_witness:
  "0 < p_tool_repeat_limit (load Map.empty) \<and>
   map (\<lambda>a. a \<noteq> None) (fst (run_with (\<lambda>st (u :: unit). repeat_guard Map.empty id (\<lambda>_. []) (\<lambda>_ _. []) ''ls'' PNone st)
     Map.empty (replicate 6 ()))) =
   replicate (min (length (replicate 6 ())) (nat (p_tool_repeat_limit (load Map.empty)) - 1)) False @
   replicate (length (replicate 6 ()) - (nat (p_tool_repeat_limit (load Map.empty)) - 1)) True"
proof -
  have h: "0 < p_tool_repeat_limit (load Map.empty)" "sget Map.empty ''_repeat_counts'' = PNone"
    by (simp_all add: load_default default_policy_def sget_def)
  show ?thesis by (rule conjI [OF h(1) repeat_guard_exact [OF h]])
qed

end
