(* ===== verification/Verdicts.thy ===== *)
theory Verdicts
  imports Session_State Stuck_Policy
begin

text \<open>
  How the v6 pipeline reads what its agents said:
  \<^verbatim>\<open>aiforge_core/runtime/graph_pipeline/_config.py\<close> (budgets and vocabularies) and
  \<^verbatim>\<open>_parsers.py\<close> (complexity, verdicts, plan size, iteration ceiling), with the
  brace matcher of \<^verbatim>\<open>rule_capture/_classify.py\<close>.

  Arguments: \<open>e\<close> the environment, \<open>rep\<close> Python's text of a value that is not a string
  or an integer, \<open>subtickets\<close> the structured extractor of
  \<^verbatim>\<open>subtasks_callback._extract_subtickets\<close> (an exception is the empty list).
\<close>

section \<open>Routes, budgets, vocabularies\<close>

datatype route =
    To_trivial | To_small | To_full | To_loop | To_exit | To_replan | To_redo | To_done
  | To_verify_pass | To_verify_replan | To_research_gap | To_research_ok

fun route_name :: "route \<Rightarrow> string" where
  "route_name To_trivial = ''trivial''"
| "route_name To_small = ''small''"
| "route_name To_full = ''full''"
| "route_name To_loop = ''loop''"
| "route_name To_exit = ''exit''"
| "route_name To_replan = ''replan''"
| "route_name To_redo = ''redo''"
| "route_name To_done = ''done''"
| "route_name To_verify_pass = ''verify_pass''"
| "route_name To_verify_replan = ''verify_replan''"
| "route_name To_research_gap = ''research_gap''"
| "route_name To_research_ok = ''research_ok''"

definition int_env :: "env \<Rightarrow> string \<Rightarrow> int \<Rightarrow> int" where
  "int_env e name dflt =
     (case e name of None \<Rightarrow> dflt
      | Some s \<Rightarrow> if s = [] then dflt else (case int_of_str s of None \<Rightarrow> dflt | Some i \<Rightarrow> i))"

definition max_doer_iters :: "env \<Rightarrow> int" where
  "max_doer_iters e = int_env e ''AIFORGE_MAX_DOER_ITERS'' 4"

definition max_doer_iters_moderate :: "env \<Rightarrow> int" where
  "max_doer_iters_moderate e = int_env e ''AIFORGE_MAX_DOER_ITERS_MODERATE'' 20"

definition max_doer_iters_complex :: "env \<Rightarrow> int" where
  "max_doer_iters_complex e = int_env e ''AIFORGE_MAX_DOER_ITERS_COMPLEX'' 40"

definition iters_per_subtask :: "env \<Rightarrow> int" where
  "iters_per_subtask e = int_env e ''AIFORGE_MAX_DOER_ITERS_PER_SUBTASK'' 6"

definition max_doer_iters_cap :: "env \<Rightarrow> int" where
  "max_doer_iters_cap e = int_env e ''AIFORGE_MAX_DOER_ITERS_CAP'' 200"

definition doer_max_wall_s :: "env \<Rightarrow> int" where
  "doer_max_wall_s e = p_loop_max_wall_s (load e)"

definition max_replans :: int where "max_replans = 1"
definition max_verify_replans :: int where "max_verify_replans = 1"
definition max_gap_passes :: int where "max_gap_passes = 1"

definition plateau_replans_max :: "env \<Rightarrow> int" where
  "plateau_replans_max e = p_plateau_replans (load e)"

definition no_edit_iters :: "env \<Rightarrow> int" where
  "no_edit_iters e = (if p_no_edit_iters (load e) \<noteq> 0 then p_no_edit_iters (load e) else 1000000000)"

definition complex_tokens :: "string list" where
  "complex_tokens = [''high'', ''complex'', ''hard'', ''large'', ''difficult'']"

definition moderate_tokens :: "string list" where
  "moderate_tokens = [''moderate'', ''medium'']"

definition trivial_synonyms :: "string list" where
  "trivial_synonyms = [''trivial'', ''simple'', ''low'', ''easy'', ''minor'', ''small'']"

definition known_complexity :: "string list" where
  "known_complexity = trivial_synonyms @ moderate_tokens @ complex_tokens"

definition complexity_strip :: string where
  "complexity_strip = [CHR 0x60, CHR 0x22, CHR 0x27] @ ''*_.,:;!?()[]{}<> '' @ [CHR 0x09, CHR 0x0D, CHR 0x0A]"

definition verdict_negative :: "string list" where
  "verdict_negative = [''request_changes'', ''reject'', ''fail'']"

definition verdict_positive :: "string list" where
  "verdict_positive = [''pass_with_warnings'', ''approve'', ''pass'']"

definition truthy_words :: "string list" where
  "truthy_words = [''1'', ''true'', ''yes'', ''on'']"

definition env_on :: "env \<Rightarrow> string \<Rightarrow> string \<Rightarrow> bool" where
  "env_on e name dflt = (lower (strip (env_get e name dflt)) \<in> set truthy_words)"

section \<open>A JSON object inside prose\<close>

fun next_string_state :: "char \<Rightarrow> bool \<Rightarrow> bool \<times> bool" where
  "next_string_state ch esc =
     (if esc then (True, False)
      else if ch = CHR 0x5C then (True, True)
      else (ch \<noteq> CHR 0x22, False))"

text \<open>The scan of \<^verbatim>\<open>_first_balanced_span\<close>: the number of characters up to and with the
  brace that closes the object.\<close>

fun balanced :: "int \<Rightarrow> bool \<Rightarrow> bool \<Rightarrow> string \<Rightarrow> nat option" where
  "balanced depth in_str esc [] = None"
| "balanced depth in_str esc (ch # s) =
     (if in_str then map_option Suc (balanced depth (fst (next_string_state ch esc)) (snd (next_string_state ch esc)) s)
      else if ch = CHR 0x22 then map_option Suc (balanced depth True esc s)
      else if ch = CHR ''{'' then map_option Suc (balanced (depth + 1) False esc s)
      else if ch = CHR ''}'' then (if depth - 1 = 0 then Some 1
                                  else map_option Suc (balanced (depth - 1) False esc s))
      else map_option Suc (balanced depth False esc s))"

definition first_balanced_span :: "string \<Rightarrow> nat \<Rightarrow> string option" where
  "first_balanced_span text start =
     map_option (\<lambda>n. take n (drop start text)) (balanced 0 False False (drop start text))"

definition extract_json :: "string \<Rightarrow> (string \<times> pyval) list option" where
  "extract_json text =
     (case find_char (CHR ''{'') text of
        None \<Rightarrow> None
      | Some start \<Rightarrow>
          (case first_balanced_span text start of
             None \<Rightarrow> None
           | Some body \<Rightarrow> (case json_loads body of Some (PDict d) \<Rightarrow> Some d | _ \<Rightarrow> None)))"

definition unfence :: "string \<Rightarrow> string" where
  "unfence s =
     (let text = strip_chars [CHR 0x60] (strip s)
      in if lower (take 4 text) = ''json'' then drop 4 text else text)"

definition json_or_embedded :: "string \<Rightarrow> string \<Rightarrow> pyval" where
  "json_or_embedded text src =
     (case json_loads text of
        Some v \<Rightarrow> v
      | None \<Rightarrow> (case extract_json src of Some d \<Rightarrow> PDict d | None \<Rightarrow> PNone))"

section \<open>Complexity\<close>

definition normalize_complexity :: "(pyval \<Rightarrow> string) \<Rightarrow> pyval \<Rightarrow> string" where
  "normalize_complexity rep v = lower (strip_chars complexity_strip (strip (py_str rep v)))"

definition coerce_complexity_token :: "(pyval \<Rightarrow> string) \<Rightarrow> pyval \<Rightarrow> string" where
  "coerce_complexity_token rep v =
     (let norm = normalize_complexity rep v
      in if norm \<in> set known_complexity then norm else ''moderate'')"

definition triage_strict :: "env \<Rightarrow> bool" where
  "triage_strict e = env_on e ''AIFORGE_TRIAGE_STRICT'' []"

definition is_trivial :: "env \<Rightarrow> (pyval \<Rightarrow> string) \<Rightarrow> string \<Rightarrow> bool" where
  "is_trivial e rep complexity =
     (let token = normalize_complexity rep (PStr complexity)
      in if triage_strict e then token = ''trivial'' else token \<in> set trivial_synonyms)"

definition or_moderate :: "string \<Rightarrow> string" where
  "or_moderate s = (if s = [] then ''moderate'' else s)"

definition complexity_from_str :: "(pyval \<Rightarrow> string) \<Rightarrow> string \<Rightarrow> string" where
  "complexity_from_str rep src =
     (case json_or_embedded (unfence src) src of
        PDict d \<Rightarrow> if dget d ''complexity'' \<noteq> PNone
                   then or_moderate (normalize_complexity rep (dget d ''complexity''))
                   else coerce_complexity_token rep (PStr src)
      | _ \<Rightarrow> coerce_complexity_token rep (PStr src))"

definition blank :: "string \<Rightarrow> bool" where
  "blank s = (strip s = [])"

definition read_complexity :: "(pyval \<Rightarrow> string) \<Rightarrow> state \<Rightarrow> string" where
  "read_complexity rep st =
     (let c = sget st ''complexity'' in
      if is_str c \<and> (case c of PStr s \<Rightarrow> \<not> blank s | _ \<Rightarrow> False)
      then or_moderate (normalize_complexity rep c)
      else (case sget st ''triage_verdict'' of
              PDict d \<Rightarrow> or_moderate (normalize_complexity rep (dget_or d ''complexity'' (PStr ''moderate'')))
            | PStr s \<Rightarrow> if \<not> blank s then complexity_from_str rep s else ''moderate''
            | _ \<Rightarrow> ''moderate''))"

section \<open>The size of a change\<close>

definition read_estimated_files :: "state \<Rightarrow> int" where
  "read_estimated_files st =
     (let obj = (case sget st ''triage_verdict'' of
                   PDict d \<Rightarrow> PDict d
                 | PStr s \<Rightarrow> if \<not> blank s then json_or_embedded (unfence s) s else PNone
                 | _ \<Rightarrow> PNone)
      in case obj of
           PDict d \<Rightarrow> (case int_or0 (dget d ''estimated_files'') of Inl _ \<Rightarrow> 0 | Inr n \<Rightarrow> max 0 n)
         | _ \<Rightarrow> 0)"

definition small_max_files :: "env \<Rightarrow> int" where
  "small_max_files e =
     (case int_of_str (env_get e ''AIFORGE_SMALL_MAX_FILES'' ''2'') of None \<Rightarrow> 2 | Some i \<Rightarrow> max 0 i)"

definition is_small :: "env \<Rightarrow> (pyval \<Rightarrow> string) \<Rightarrow> state \<Rightarrow> string \<Rightarrow> bool" where
  "is_small e rep st complexity =
     (if \<not> env_on e ''AIFORGE_SMALL_ROUTE'' ''1'' then False
      else if normalize_complexity rep (PStr complexity) \<in> set complex_tokens then False
      else 0 < read_estimated_files st \<and> read_estimated_files st \<le> small_max_files e)"

definition glob_chars :: string where
  "glob_chars = ''*?[''"

definition plan_is_small :: "env \<Rightarrow> (pyval \<Rightarrow> string) \<Rightarrow> (string \<times> pyval) list \<Rightarrow> bool" where
  "plan_is_small e rep obj =
     (if truthy (dget obj ''subtickets'') \<or> truthy (dget obj ''child_subtickets'') then False
      else
        (let globs = list_of (dget obj ''scope_allowlist_globs'');
             names = remdups (filter (\<lambda>s. s \<noteq> []) (map (\<lambda>g. strip (py_str rep g)) globs))
         in if globs = [] then False
            else if list_ex (list_ex (\<lambda>c. c \<in> set glob_chars)) names then False
            else 0 < length names \<and> int (length names) \<le> small_max_files e))"

definition small_plan_skip :: "env \<Rightarrow> state \<Rightarrow> bool" where
  "small_plan_skip e st = (truthy (sget st ''plan_small'') \<and> env_on e ''AIFORGE_SMALL_PLAN_SKIP'' ''1'')"

section \<open>The iteration ceiling\<close>

definition max_inferred_subtasks :: nat where
  "max_inferred_subtasks = 8"

text \<open>The matches of \<open>^\s*\d+[.)]\s+\S\<close> over the whole text, left to right.\<close>

definition match_numbered :: "string \<Rightarrow> string option" where
  "match_numbered s =
     (let (d, r) = take_digits (dropWhile is_space s) in
      if d = [] then None
      else (case r of
              [] \<Rightarrow> None
            | c # u \<Rightarrow>
                if c \<noteq> CHR ''.'' \<and> c \<noteq> CHR '')'' then None
                else (case dropWhile is_space u of
                        [] \<Rightarrow> None
                      | x # v \<Rightarrow> if is_space (hd u) then Some v else None)))"

lemma match_numbered_rest: "match_numbered s = Some v \<Longrightarrow> length v < length s"
proof -
  have d: "length (dropWhile p t) \<le> length t" for p and t :: string
    by (rule length_dropWhile_le)
  assume "match_numbered s = Some v"
  then obtain a c u x where *: "take_digits (dropWhile is_space s) = (a, c # u)" "dropWhile is_space u = x # v"
    by (auto simp: match_numbered_def split: prod.splits list.splits if_splits)
  have "length (x # v) \<le> length u" using d [of is_space u] *(2) by simp
  moreover have "length (c # u) \<le> length (dropWhile is_space s)"
    using take_digits_rest [of "dropWhile is_space s"] *(1) by simp
  ultimately show ?thesis using d [of is_space s] by simp
qed

function numbered_lines :: "bool \<Rightarrow> string \<Rightarrow> nat" where
  "numbered_lines bol [] = 0"
| "numbered_lines bol (c # s) =
     (case (if bol then match_numbered (c # s) else None) of
        Some rest \<Rightarrow> Suc (numbered_lines False rest)
      | None \<Rightarrow> numbered_lines (c = CHR 0x0A) s)"
  by pat_completeness auto
termination
  by (relation "measure (\<lambda>(b, s). length s)")
    (auto dest!: match_numbered_rest split: if_splits)

definition plan_subtask_count :: "(pyval \<Rightarrow> pyval list) \<Rightarrow> state \<Rightarrow> int" where
  "plan_subtask_count subtickets st =
     (let plan = sget st ''plan_md''; subs = subtickets plan in
      if subs \<noteq> [] then int (length subs)
      else (case plan of
              PStr s \<Rightarrow> if s \<noteq> [] then int (min (numbered_lines True s) max_inferred_subtasks) else 0
            | _ \<Rightarrow> 0))"

definition effective_max_iters ::
    "env \<Rightarrow> (pyval \<Rightarrow> string) \<Rightarrow> (pyval \<Rightarrow> pyval list) \<Rightarrow> state \<Rightarrow> int" where
  "effective_max_iters e rep subtickets st =
     (let c = read_complexity rep st;
          tier = (if c \<in> set complex_tokens then max_doer_iters_complex e
                  else if c \<in> set moderate_tokens then max_doer_iters_moderate e
                  else max_doer_iters e);
          dynamic = plan_subtask_count subtickets st * iters_per_subtask e
      in min (max_doer_iters_cap e) (max (max_doer_iters e) (max tier dynamic)))"

section \<open>Verdicts\<close>

definition dict_verdict :: "(pyval \<Rightarrow> string) \<Rightarrow> (string \<times> pyval) list \<Rightarrow> string option" where
  "dict_verdict rep d =
     (if dget d ''verdict'' = PNone then None else Some (lower (py_str rep (dget d ''verdict''))))"

definition verdict_from_json :: "(pyval \<Rightarrow> string) \<Rightarrow> string \<Rightarrow> string \<Rightarrow> string option" where
  "verdict_from_json rep text src =
     (let embedded = (case extract_json src of None \<Rightarrow> None | Some d \<Rightarrow> dict_verdict rep d)
      in case json_loads text of
           Some (PDict d) \<Rightarrow> (case dict_verdict rep d of Some v \<Rightarrow> Some v | None \<Rightarrow> embedded)
         | _ \<Rightarrow> embedded)"

definition verdict_token_scan :: "string \<Rightarrow> string option" where
  "verdict_token_scan text =
     find (\<lambda>tok. word_in False tok (lower text)) (verdict_negative @ verdict_positive)"

definition parse_verdict :: "(pyval \<Rightarrow> string) \<Rightarrow> pyval \<Rightarrow> string option" where
  "parse_verdict rep v =
     (case v of
        PDict d \<Rightarrow> dict_verdict rep d
      | PStr s \<Rightarrow>
          if blank s then None
          else (let text = unfence s in
                case verdict_from_json rep text s of
                  Some w \<Rightarrow> if w \<noteq> [] then Some w else verdict_token_scan text
                | None \<Rightarrow> verdict_token_scan text)
      | _ \<Rightarrow> None)"

definition validator_failed :: "(pyval \<Rightarrow> string) \<Rightarrow> state \<Rightarrow> bool" where
  "validator_failed rep st =
     (case parse_verdict rep (sget st ''validator_verdict'') of
        None \<Rightarrow> False
      | Some v \<Rightarrow> v \<in> {''request_changes'', ''reject'', ''fail''})"

definition feedback_passed :: "(pyval \<Rightarrow> string) \<Rightarrow> state \<Rightarrow> bool" where
  "feedback_passed rep st =
     (case parse_verdict rep (sget st ''feedback_verdict'') of
        None \<Rightarrow> False
      | Some v \<Rightarrow> v \<in> {''pass'', ''approve'', ''pass_with_warnings''})"

definition gap_object :: "pyval \<Rightarrow> pyval option" where
  "gap_object v = (case v of PStr s \<Rightarrow> if blank s then Some v else json_loads (unfence s) | _ \<Rightarrow> Some v)"

definition gap_sufficient :: "pyval \<Rightarrow> bool" where
  "gap_sufficient v =
     (case gap_object v of
        Some (PDict d) \<Rightarrow> if has_key d ''sufficient'' then truthy (dget d ''sufficient'') else True
      | _ \<Rightarrow> True)"

text \<open>What \<open>for x in v\<close> runs over; \<open>None\<close> when it raises.\<close>

fun iter :: "pyval \<Rightarrow> pyval list option" where
  "iter (PList xs) = Some xs"
| "iter (PStr s) = Some (map (\<lambda>c. PStr [c]) s)"
| "iter (PDict d) = Some (map (\<lambda>p. PStr (fst p)) d)"
| "iter _ = None"

definition wanted :: "(pyval \<Rightarrow> string) \<Rightarrow> pyval \<Rightarrow> string list option" where
  "wanted rep v =
     map_option (\<lambda>xs. map (py_str rep) (filter truthy xs)) (iter (por v (PList [])))"

definition render_gap_brief :: "(pyval \<Rightarrow> string) \<Rightarrow> pyval \<Rightarrow> string" where
  "render_gap_brief rep v =
     (let obj = (case v of PStr s \<Rightarrow> json_loads (unfence s) | _ \<Rightarrow> Some v);
          (missing, queries) =
            (case obj of
               Some (PDict d) \<Rightarrow>
                 (case wanted rep (dget d ''missing'') of
                    None \<Rightarrow> ([], [])
                  | Some ms \<Rightarrow> (ms, case wanted rep (dget d ''queries'') of None \<Rightarrow> [] | Some qs \<Rightarrow> qs))
             | _ \<Rightarrow> ([], []))
      in join [CHR 0x0A]
           ([''A prior research pass was judged INCOMPLETE. Specifically '' @
             ''locate the following before the Planner runs:''] @
            map (\<lambda>m. ''  - MISSING: '' @ m) missing @ map (\<lambda>q. ''  - SEARCH: '' @ q) queries))"

section \<open>Facts\<close>

lemma balanced_append: "balanced d i x s = Some n \<Longrightarrow> balanced d i x (s @ t) = Some n"
  by (induction d i x s arbitrary: n rule: balanced.induct)
    (auto split: if_splits)

lemma find_char_append: "c \<notin> set pre \<Longrightarrow> find_char c (pre @ s) = map_option (\<lambda>i. length pre + i) (find_char c s)"
proof (induction pre)
  case (Cons a pre)
  then show ?case by (auto simp: option.map_comp comp_def)
qed (cases "find_char c s"; simp)

lemma find_head: "s \<noteq> [] \<Longrightarrow> hd s = c \<Longrightarrow> find_char c s = Some 0"
  by (cases s) auto

section \<open>Properties\<close>

text \<open>An object survives the prose around it: if the text before it has no opening brace and
  the object's braces balance at its end, the extractor returns what it returns for the
  object alone.\<close>

theorem extract_json_in_prose:
  assumes "CHR ''{'' \<notin> set pre" and "hd body = CHR ''{''" and "balanced 0 False False body = Some (length body)"
  shows "extract_json (pre @ body @ post) = extract_json body"
proof -
  have "body \<noteq> []" using assms(3) by auto
  then have "find_char (CHR ''{'') body = Some 0" "find_char (CHR ''{'') (body @ post) = Some 0"
    using assms(2) by (simp_all add: find_head)
  moreover from this(2) have "find_char (CHR ''{'') (pre @ body @ post) = Some (length pre)"
    using find_char_append [OF assms(1), of "body @ post"] by simp
  ultimately show ?thesis
    using balanced_append [OF assms(3), of post] assms(3)
    by (simp add: extract_json_def first_balanced_span_def)
qed

theorem extract_json_in_prose_witness:
  "extract_json (''I reject: '' @ ''{\"verdict\": \"a}b\"}'' @ '' ok?'') = extract_json ''{\"verdict\": \"a}b\"}''
   \<and> extract_json ''{\"verdict\": \"a}b\"}'' = Some [(''verdict'', PStr ''a}b'')]"
proof -
  have h: "CHR ''{'' \<notin> set ''I reject: ''" "hd ''{\"verdict\": \"a}b\"}'' = CHR ''{''"
    "balanced 0 False False ''{\"verdict\": \"a}b\"}'' = Some (length ''{\"verdict\": \"a}b\"}'')"
    by (simp, simp, code_simp)
  have "extract_json ''{\"verdict\": \"a}b\"}'' = Some [(''verdict'', PStr ''a}b'')]" by code_simp
  then show ?thesis using extract_json_in_prose [OF h, of "'' ok?''"] by blast
qed

text \<open>The Doer loop is bounded whatever triage and the Planner say: the ceiling never exceeds
  the cap, never falls below the base when the base is within the cap, and with the default
  environment lies between 4 and 200.\<close>

theorem iteration_ceiling_bounds:
  "effective_max_iters e rep subtickets st \<le> max_doer_iters_cap e \<and>
   (max_doer_iters e \<le> max_doer_iters_cap e \<longrightarrow> max_doer_iters e \<le> effective_max_iters e rep subtickets st) \<and>
   4 \<le> effective_max_iters Map.empty rep subtickets st \<and>
   effective_max_iters Map.empty rep subtickets st \<le> 200"
  by (simp add: effective_max_iters_def Let_def max_doer_iters_def max_doer_iters_cap_def int_env_def)

theorem iteration_ceiling_bounds_witness:
  "max_doer_iters Map.empty \<le> max_doer_iters_cap Map.empty \<and>
   max_doer_iters Map.empty \<le> effective_max_iters Map.empty (\<lambda>_. []) list_of Map.empty"
  using iteration_ceiling_bounds [of Map.empty "\<lambda>_. []" list_of Map.empty]
  by (simp add: max_doer_iters_def max_doer_iters_cap_def int_env_def)

text \<open>Verdicts fail safe: prose with no readable JSON verdict that holds a negative word
  anywhere is a rejection and never a pass, whatever positive words surround it; and no verdict
  counts as both.\<close>

lemma find_first: "find P (xs @ ys) = (case find P xs of None \<Rightarrow> find P ys | Some x \<Rightarrow> Some x)"
  by (induction xs) auto

lemma scan_negative:
  assumes "tok \<in> set verdict_negative" and "word_in False tok (lower text)"
  shows "\<exists>v \<in> set verdict_negative. verdict_token_scan text = Some v"
proof (cases "find (\<lambda>tok. word_in False tok (lower text)) verdict_negative")
  case None
  with assms show ?thesis by (auto simp: find_None_iff)
next
  case (Some v)
  then have "v \<in> set verdict_negative" by (auto simp: find_Some_iff)
  with Some show ?thesis by (simp add: verdict_token_scan_def find_first)
qed

theorem negative_word_rejects:
  assumes "sget st ''validator_verdict'' = PStr s" and "sget st ''feedback_verdict'' = PStr s"
    and "\<not> blank s" and "verdict_from_json rep (unfence s) s = None"
    and "tok \<in> set verdict_negative" and "word_in False tok (lower (unfence s))"
  shows "validator_failed rep st \<and> \<not> feedback_passed rep st"
proof -
  obtain v where v: "v \<in> set verdict_negative" "parse_verdict rep (PStr s) = Some v"
    using scan_negative [OF assms(5,6)] assms(3,4) by (auto simp: parse_verdict_def Let_def)
  then show ?thesis
    using assms(1,2) by (auto simp: validator_failed_def feedback_passed_def verdict_negative_def)
qed

theorem negative_word_rejects_witness:
  "sget [''validator_verdict'' \<mapsto> PStr ''I pass on this: reject'', ''feedback_verdict'' \<mapsto> PStr ''I pass on this: reject'']
     ''validator_verdict'' = PStr ''I pass on this: reject'' \<and>
   validator_failed (\<lambda>_. [])
     [''validator_verdict'' \<mapsto> PStr ''I pass on this: reject'', ''feedback_verdict'' \<mapsto> PStr ''I pass on this: reject'']"
proof -
  let ?st = "[''validator_verdict'' \<mapsto> PStr ''I pass on this: reject'', ''feedback_verdict'' \<mapsto> PStr ''I pass on this: reject'']"
  have h: "sget ?st ''validator_verdict'' = PStr ''I pass on this: reject''"
    "sget ?st ''feedback_verdict'' = PStr ''I pass on this: reject''"
    by (simp_all add: sget_def)
  have b: "\<not> blank ''I pass on this: reject''"
    "verdict_from_json (\<lambda>_. []) (unfence ''I pass on this: reject'') ''I pass on this: reject'' = None"
    "word_in False ''reject'' (lower (unfence ''I pass on this: reject''))"
    by code_simp+
  show ?thesis
    using negative_word_rejects [OF h b(1,2) _ b(3)] h(1) by (simp add: verdict_negative_def)
qed

end
