(* ===== verification/Quality_Gate.thy ===== *)
theory Quality_Gate
  imports Session_State
begin

text \<open>
  The deterministic quality gate, \<^verbatim>\<open>aiforge_core/runtime/quality_gate.py\<close>: what a tool's
  result records, how the signals combine, and what they do to the model's verdict. A
  signal is \<open>None\<close> (did not run), or green or red. The failure a test run names
  (\<^verbatim>\<open>test_failure\<close>) and the evidence of \<^verbatim>\<open>gaming_check\<close> are arguments.
\<close>

section \<open>The gate\<close>

definition strict_test_gate :: "env \<Rightarrow> bool" where
  "strict_test_gate e =
     (lower (strip (env_get e ''AIFORGE_STRICT_TEST_GATE'' ''0'')) \<in> {''1'', ''true'', ''yes'', ''on''})"

datatype gate = Gate_pass | Gate_fail

definition evaluate ::
    "env \<Rightarrow> bool option \<Rightarrow> bool option \<Rightarrow> bool option \<Rightarrow> bool option \<Rightarrow> bool option \<Rightarrow> gate \<times> string list" where
  "evaluate e typecheck_ok tests_ok lint_ok doer_incomplete tests_declared =
     (let types_red = (typecheck_ok = Some False);
          tests_red = (tests_ok = Some False);
          incomplete = (doer_incomplete = Some True);
          never_ran = (tests_declared = Some True \<and> tests_ok = None \<and> strict_test_gate e)
      in (if types_red \<or> tests_red \<or> incomplete \<or> never_ran then Gate_fail else Gate_pass,
          (if types_red then [''typecheck failed''] else []) @
          (if tests_red then [''tests failed''] else []) @
          (if incomplete then [''doer stopped incomplete (hit cap/deadline)''] else []) @
          (if never_ran then [''tests declared but never ran (strict gate)''] else []) @
          (if lint_ok = Some False then [''lint failed (warn only)''] else [])))"

definition gate_verdict :: "string \<Rightarrow> gate \<Rightarrow> string" where
  "gate_verdict model_verdict g =
     (let verdict = lower (strip model_verdict) in
      if verdict = ''scope_violation'' then model_verdict
      else if g = Gate_fail \<and> verdict = ''pass'' then ''fail''
      else model_verdict)"

section \<open>The signals\<close>

definition did_not_run :: "string list" where
  "did_not_run = [''no_language'', ''missing_tool'']"

fun tool_signal_key :: "string \<Rightarrow> string option" where
  "tool_signal_key name =
     (if name = ''run_tests'' then Some ''tests_ok''
      else if name = ''typecheck'' then Some ''typecheck_ok''
      else if name = ''format'' then Some ''lint_ok''
      else None)"

text \<open>A \<open>None\<close> error is not in the set; an unhashable one raises, and nothing is recorded.\<close>

definition record_signal :: "(pyval \<Rightarrow> pyval list) \<Rightarrow> string \<Rightarrow> pyval \<Rightarrow> state \<Rightarrow> state" where
  "record_signal test_failure name response st =
     (case (tool_signal_key name, response) of
        (Some key, PDict d) \<Rightarrow>
          if is_list (dget d ''error'') \<or> is_dict (dget d ''error'')
             \<or> (\<exists>x \<in> set did_not_run. dget d ''error'' = PStr x) then st
          else
            (case dget d ''ok'' of
               PBool ok \<Rightarrow>
                 (let st1 = sset st key (PBool ok);
                      fail = (if key = ''tests_ok'' then test_failure response else [])
                  in if fail \<noteq> [] then sset st1 ''_iter_fail'' (PList fail)
                     else if key = ''tests_ok'' \<and> ok \<and> truthy (sget st1 ''_iter_fail'')
                     then sset st1 ''_iter_fail'' (PList [])
                     else st1)
             | _ \<Rightarrow> st)
      | _ \<Rightarrow> st)"

definition mark_test_gaming :: "string \<Rightarrow> string list \<Rightarrow> state \<Rightarrow> bool \<times> state" where
  "mark_test_gaming repo evidence st =
     (if repo = [] then (False, st)
      else if evidence = [] then (False, st)
      else
        (True,
         sset (sset (sset st ''quality_issue'' (PStr ''test_gaming''))
                ''test_gaming_evidence'' (PList (map PStr evidence)))
           ''feedback_verdict''
           (PStr (''partial test_gaming: the tests pass because the code detects the '' @
                  ''test, not because the behaviour was fixed '' @ em_dash @ '' '' @
                  join ''; '' evidence))))"

section \<open>Properties\<close>

text \<open>C21. Red work never passes: a verdict that reads as a pass after the gate was a pass of the
  model on work whose type check and tests were not red and whose Doer finished; and the gate
  changes no verdict in any other case.\<close>

theorem gate_never_ships_red:
  "(lower (strip (gate_verdict v (fst (evaluate e typecheck_ok tests_ok lint_ok incomplete declared)))) = ''pass'' \<longrightarrow>
      typecheck_ok \<noteq> Some False \<and> tests_ok \<noteq> Some False \<and> incomplete \<noteq> Some True \<and> lower (strip v) = ''pass'') \<and>
   (gate_verdict v (fst (evaluate e typecheck_ok tests_ok lint_ok incomplete declared)) \<noteq> v \<longrightarrow>
      lower (strip v) = ''pass'' \<and>
      (typecheck_ok = Some False \<or> tests_ok = Some False \<or> incomplete = Some True \<or>
       (declared = Some True \<and> tests_ok = None \<and> strict_test_gate e)))"
proof -
  have f: "lower (strip ''fail'') \<noteq> ''pass''" by code_simp
  show ?thesis
    using f by (auto simp: gate_verdict_def evaluate_def Let_def split: if_splits)
qed

theorem gate_never_ships_red_witness:
  "lower (strip (gate_verdict ''Pass'' (fst (evaluate (\<lambda>_. None) (Some True) (Some False) None None None)))) \<noteq> ''pass''"
  using gate_never_ships_red [of "''Pass''" "\<lambda>_. None" "Some True" "Some False" None None None] by auto

end
