(* ===== verification/Gates.thy ===== *)
theory Gates
  imports Verdicts Quality_Gate Loop_Guards Handoff
begin

text \<open>
  The deterministic gates of the v6 pipeline,
  \<^verbatim>\<open>aiforge_core/runtime/graph_pipeline/_gates.py\<close>: each reads the session, writes it and
  picks a route. A session is the state with the run-scoped tracker of the loop rules
  (\<^verbatim>\<open>_same_failure\<close>). A gate that raises is \<open>Inl\<close>.

  The record \<open>gate_world\<close> holds the environment and what the gates ask other code: the
  clock, the text and the JSON text of a value, the subtickets of a plan, the run's
  repository and the evidence of test gaming in it, whether globs match a file there, the
  scoped rules, and the scrubbing of notes. \<^verbatim>\<open>_trace\<close> and the saved ticket are output
  only.
\<close>

record session =
  ss_vars :: state
  ss_track :: track

record gate_world =
  gw_env :: env
  gw_now :: rat
  gw_rep :: "pyval \<Rightarrow> string"
  gw_dumps :: "pyval \<Rightarrow> string"
  gw_subtickets :: "pyval \<Rightarrow> pyval list"
  gw_popping :: bool
  gw_repo :: string
  gw_evidence :: "string list"
  gw_globs_match :: "pyval list \<Rightarrow> bool"
  gw_rules :: "pyval list \<Rightarrow> string"
  gw_scrub :: "string \<Rightarrow> string"

section \<open>Loop-scoped keys\<close>

datatype moment = On_iter | On_replan | On_verify

definition loop_scoped_keys :: "(string \<times> moment list) list" where
  "loop_scoped_keys =
     [(''tests_ok'', [On_iter, On_replan]),
      (''typecheck_ok'', [On_iter, On_replan]),
      (''lint_ok'', [On_iter, On_replan]),
      (''doer_incomplete'', [On_iter, On_replan]),
      (''_repeat_counts'', [On_iter, On_replan]),
      (''_iter_fail'', [On_iter]),
      (''feedback_verdict'', [On_replan]),
      (''loop_budget_kill'', [On_replan]),
      (''loop_budget_reason'', [On_replan]),
      (''doer_loop_started_at'', [On_replan]),
      (''_idle_iters'', [On_replan]),
      (''loc_history'', [On_replan]),
      (''loc_first_seen'', [On_replan]),
      (''doer_outcome'', [On_replan]),
      (''verifier_verdict'', [On_replan, On_verify]),
      (''verify_correctness'', [On_replan, On_verify]),
      (''verify_scope'', [On_replan, On_verify]),
      (''verify_risk'', [On_replan, On_verify]),
      (''verify_replan_count'', [On_replan]),
      (''scope_allowlist_globs'', [On_replan, On_verify]),
      (''plan_small'', [On_replan, On_verify])]"

definition scoped :: "moment \<Rightarrow> string list" where
  "scoped m = map fst (filter (\<lambda>(k, ms). m \<in> set ms) loop_scoped_keys)"

definition per_iter_keys :: "string list" where
  "per_iter_keys = scoped On_iter"

section \<open>Triage\<close>

definition force_full_pipeline :: "env \<Rightarrow> bool" where
  "force_full_pipeline e = env_on e ''AIFORGE_FORCE_FULL_PIPELINE'' []"

definition triage_gate :: "gate_world \<Rightarrow> session \<Rightarrow> (route \<times> session) res" where
  "triage_gate w s =
     (let complexity = read_complexity (gw_rep w) (ss_vars s);
          r = (if force_full_pipeline (gw_env w) then To_full
               else if is_trivial (gw_env w) (gw_rep w) complexity then To_trivial
               else if is_small (gw_env w) (gw_rep w) (ss_vars s) complexity then To_small
               else To_full)
      in Inr (r, s\<lparr> ss_vars := sset (ss_vars s) ''graph_route''
                   (PDict [(''complexity'', PStr complexity), (''route'', PStr (route_name r))]) \<rparr>))"

section \<open>The Doer loop\<close>

definition wall_clock_kill :: "gate_world \<Rightarrow> state \<Rightarrow> (bool \<times> state) res" where
  "wall_clock_kill w st =
     (if doer_max_wall_s (gw_env w) \<le> 0 then Inr (False, st)
      else
        (let start = sget st ''doer_loop_started_at'' in
         if \<not> truthy start then Inr (False, sset st ''doer_loop_started_at'' (PFloat (gw_now w)))
         else ebind (py_float start) (\<lambda>t. Inr (of_int (doer_max_wall_s (gw_env w)) < gw_now w - t, st))))"

definition exhaustion_reason :: "gate_world \<Rightarrow> bool \<Rightarrow> bool \<Rightarrow> int \<Rightarrow> state \<Rightarrow> string" where
  "exhaustion_reason w wall_kill cap_out max_iters st =
     (if wall_kill then ''wall-clock budget''
      else if cap_out then ''iteration ceiling ('' @ str_of_int max_iters @ '')''
      else py_str (gw_rep w) (sget_or st ''loop_budget_reason'' (PStr ''loc plateau'')))"

definition note_failed_approach :: "gate_world \<Rightarrow> state \<Rightarrow> string \<Rightarrow> state" where
  "note_failed_approach w st text = record_failed (gw_scrub w) st text"

definition str_or :: "gate_world \<Rightarrow> pyval \<Rightarrow> string" where
  "str_or w v = py_str (gw_rep w) (por v (PStr []))"

text \<open>What the tracker's verdict does to the state, and whether the loop stops.\<close>

fun heed :: "(verdict \<times> string) option \<Rightarrow> state \<Rightarrow> bool \<times> state" where
  "heed (Some (Nudge, txt)) st = (False, sset st ''replan_note'' (PStr txt))"
| "heed (Some (Stop, txt)) st =
     (True, sset (sset st ''loop_budget_kill'' (PBool True)) ''loop_budget_reason'' (PStr ''same_failure''))"
| "heed (Some (Fine, txt)) st = (False, st)"
| "heed None st = (False, st)"

definition same_failure_stop :: "gate_world \<Rightarrow> session \<Rightarrow> (bool \<times> session) res" where
  "same_failure_stop w s =
     (case sget (ss_vars s) ''_iter_fail'' of
        PList [a, b, c] \<Rightarrow>
          ebind (int_or0 b) (\<lambda>n.
            let f = \<lparr> f_signature = str_or w a, f_count = n, f_headline = str_or w c \<rparr>;
                st = ss_vars s;
                attempt = py_str (gw_rep w) (por (sget st ''replan_count'') (PInt 0)) @ '':'' @
                          py_str (gw_rep w) (por (sget st ''doer_iters'') (PInt 0));
                (verdict, track) = judge (same_failure_limit (gw_env w)) (ss_track s) f attempt;
                st1 = note_failed_approach w st (''pass '' @ attempt @ '': the tests failed '' @ em_dash @ '' '' @
                                                take 140 (f_headline f));
                (stop, st2) = heed verdict st1
            in Inr (stop, \<lparr> ss_vars = st2, ss_track = track \<rparr>))
      | _ \<Rightarrow> Inr (False, s))"

definition no_edit_stop :: "gate_world \<Rightarrow> state \<Rightarrow> state res" where
  "no_edit_stop w st =
     (let edits = sget st ''_iter_edits'' in
      if edits = PNone then Inr st
      else
        ebind (if truthy edits then Inr 0 else ebind (int_or0 (sget st ''_idle_iters'')) (\<lambda>n. Inr (n + 1)))
          (\<lambda>idle.
             let st1 = sset st ''_idle_iters'' (PInt idle);
                 st2 = (if truthy edits then st1
                        else note_failed_approach w st1
                               (''a pass that changed no file (it only read '' @
                                ''or talked) '' @ em_dash @ '' make an edit this time''))
             in Inr (if no_edit_iters (gw_env w) \<le> idle \<and> \<not> truthy (sget st2 ''loop_budget_kill'')
                     then sset (sset st2 ''loop_budget_kill'' (PBool True))
                            ''loop_budget_reason'' (PStr ''no_edits'')
                     else st2)))"

text \<open>A negative limit, which nothing clamps, stalls the loop on a pass that did edit files.\<close>

lemma negative_limit_stops_edits:
  assumes "raw (gw_env w) No_edit_iters = Some s" and "s \<noteq> []" and "int_of_str s = Some n" and "n < 0"
    and "truthy (sget st ''_iter_edits'')" and "\<not> truthy (sget st ''loop_budget_kill'')"
  shows "\<exists>st'. no_edit_stop w st = Inr st' \<and> sget st' ''loop_budget_kill'' = PBool True
    \<and> sget st' ''loop_budget_reason'' = PStr ''no_edits''"
proof -
  have "no_edit_iters (gw_env w) = n"
    using no_edit_iters_unclamped [OF assms(1-3)] assms(4) by (simp add: no_edit_iters_def)
  moreover have "sget st ''_iter_edits'' \<noteq> PNone" using assms(5) by auto
  ultimately show ?thesis using assms(4-6) by (simp add: no_edit_stop_def Let_def)
qed

text \<open>The stop rules of a pass that Feedback did not accept, in order.\<close>

definition stop_rules :: "gate_world \<Rightarrow> session \<Rightarrow> session res" where
  "stop_rules w s =
     ebind (same_failure_stop w s) (\<lambda>(_, s1).
       ebind (no_edit_stop w (ss_vars s1)) (\<lambda>st. Inr (s1\<lparr> ss_vars := st \<rparr>)))"

definition loop_decision :: "gate_world \<Rightarrow> bool \<Rightarrow> int \<Rightarrow> session \<Rightarrow> (route \<times> session) res" where
  "loop_decision w passed iters s =
     (let kill = truthy (sget (ss_vars s) ''loop_budget_kill'') in
      ebind (wall_clock_kill w (ss_vars s)) (\<lambda>(wall_kill, st).
        let max_iters = effective_max_iters (gw_env w) (gw_rep w) (gw_subtickets w) st;
            cap_out = (max_iters \<le> iters)
        in if \<not> (passed \<or> kill \<or> wall_kill \<or> cap_out)
           then Inr (To_loop, s\<lparr> ss_vars := clear_state (gw_popping w) st per_iter_keys \<rparr>)
           else Inr (To_exit,
                  s\<lparr> ss_vars :=
                       (if passed then st
                        else sset st ''feedback_verdict''
                               (PStr (''partial loop_budget_kill: '' @
                                      exhaustion_reason w wall_kill cap_out max_iters st))) \<rparr>)))"

definition loop_gate :: "gate_world \<Rightarrow> session \<Rightarrow> (route \<times> session) res" where
  "loop_gate w s0 =
     ebind (int_or0 (sget (ss_vars s0) ''doer_iters'')) (\<lambda>n.
       let iters = n + 1;
           s = s0\<lparr> ss_vars := sset (ss_vars s0) ''doer_iters'' (PInt iters) \<rparr>;
           passed = feedback_passed (gw_rep w) (ss_vars s)
       in if \<not> passed then ebind (stop_rules w s) (loop_decision w passed iters)
          else
            (let (gaming, st) = mark_test_gaming (gw_repo w) (gw_evidence w) (ss_vars s)
             in if gaming then Inr (To_exit, s\<lparr> ss_vars := st \<rparr>)
                else loop_decision w passed iters (s\<lparr> ss_vars := st \<rparr>)))"

section \<open>The Validator\<close>

definition reset_for_replan :: "bool \<Rightarrow> state \<Rightarrow> state" where
  "reset_for_replan popping st = clear_state popping (sset st ''doer_iters'' (PInt 0)) (scoped On_replan)"

text \<open>\<^verbatim>\<open>text.find("{")\<close> to \<^verbatim>\<open>text.rfind("}")\<close>.\<close>

definition outer_braces :: "string \<Rightarrow> string option" where
  "outer_braces text =
     (case (find_char (CHR ''{'') text, rfind_char (CHR ''}'') text) of
        (Some i, Some j) \<Rightarrow> if j \<le> i then None else Some (take (j + 1 - i) (drop i text))
      | _ \<Rightarrow> None)"

definition plan_object :: "pyval \<Rightarrow> (string \<times> pyval) list option" where
  "plan_object v =
     (case v of
        PStr s \<Rightarrow>
          if blank s then None
          else
            (let t = strip s;
                 text = (if starts_with [CHR 0x60, CHR 0x60, CHR 0x60] t
                         then (let u = strip_chars [CHR 0x60] t
                               in if lower (take 4 u) = ''json'' then drop 4 u else u)
                         else t);
                 obj = (case json_loads text of
                          Some x \<Rightarrow> Some x
                        | None \<Rightarrow> (case outer_braces text of None \<Rightarrow> None | Some b \<Rightarrow> json_loads b))
             in case obj of Some (PDict d) \<Rightarrow> Some d | _ \<Rightarrow> None)
      | _ \<Rightarrow> None)"

definition validator_rationale :: "gate_world \<Rightarrow> state \<Rightarrow> string" where
  "validator_rationale w st =
     (let v = sget st ''validator_verdict'';
          obj = (case v of PDict d \<Rightarrow> Some d | _ \<Rightarrow> plan_object v);
          said = (case obj of Some d \<Rightarrow> dget d ''rationale'' | None \<Rightarrow> PNone);
          text = strip (py_str (gw_rep w) (por said (por v (PStr []))));
          shown = (if take 600 text = [] then ''no reason given'' else take 600 text)
      in rstrip_chars ''.'' shown @ ''.'')"

definition redo_by_doer :: "gate_world \<Rightarrow> state \<Rightarrow> bool" where
  "redo_by_doer w st =
     (if lower (strip (env_get (gw_env w) ''AIFORGE_SMALL_REDO'' ''1'')) \<in> {''0'', ''false'', ''no'', ''off''} then False
      else if truthy (sget st ''plan_small'') then True
      else (case sget st ''graph_route'' of
              PDict d \<Rightarrow> dget d ''route'' = PStr ''trivial'' \<and> \<not> truthy (sget st ''plan_md'')
            | _ \<Rightarrow> False))"

definition plateau_note :: "string \<Rightarrow> string" where
  "plateau_note why =
     ''The previous approach stalled ('' @ why @ ''). Re-plan a DIFFERENT '' @
     ''approach: do not repeat the steps that did not work, split the '' @
     ''task into smaller independent steps, and start with the one most '' @
     ''likely to succeed.''"

definition redo_note :: "string \<Rightarrow> string" where
  "redo_note why =
     ''The Validator asked for changes: '' @ why @ '' The work so far is '' @
     ''on disk. Fix exactly what it names, re-run the checks, and '' @
     ''finish.''"

definition replan_note :: "int \<Rightarrow> string" where
  "replan_note n =
     ''Validator requested changes (replan '' @ str_of_int n @ ''). The prior '' @
     ''plan did not land cleanly '' @ em_dash @ '' re-plan SMALLER: split the failing '' @
     ''subticket, tighten scope, add the missing test.''"

definition validator_gate :: "gate_world \<Rightarrow> session \<Rightarrow> (route \<times> session) res" where
  "validator_gate w s =
     (let st = ss_vars s in
      ebind (int_or0 (sget st ''replan_count'')) (\<lambda>replans.
        let fv = str_or w (sget st ''feedback_verdict'');
            killed = contains ''loop_budget_kill'' fv;
            gamed = (sget st ''quality_issue'' = PStr ''test_gaming'')
        in ebind (int_or0 (sget st ''plateau_replan_count'')) (\<lambda>plateaus.
             if killed \<and> \<not> gamed \<and> plateaus < plateau_replans_max (gw_env w) then
               (let st1 = sset st ''plateau_replan_count'' (PInt (plateaus + 1));
                    why = take 200 (py_str (gw_rep w) (por (sget st1 ''loop_budget_reason'') (PStr fv)));
                    st2 = note_failed_approach w st1 (''the previous plan stalled ('' @ take 100 why @ '')'');
                    st3 = reset_for_replan (gw_popping w) st2
                in Inr (To_replan, s\<lparr> ss_vars := sset st3 ''replan_note'' (PStr (plateau_note why)) \<rparr>))
             else if killed \<or> gamed then
               Inr (To_done, s\<lparr> ss_vars := sset st ''_no_replan_reason'' (PStr ''doer_plateau'') \<rparr>)
             else if validator_failed (gw_rep w) st \<and> replans < max_replans then
               (let st1 = sset st ''replan_count'' (PInt (replans + 1));
                    why = validator_rationale w st1;
                    redo = redo_by_doer w st1;
                    st2 = reset_for_replan (gw_popping w) st1
                in if redo then Inr (To_redo, s\<lparr> ss_vars := sset st2 ''replan_note'' (PStr (redo_note why)) \<rparr>)
                   else Inr (To_replan, s\<lparr> ss_vars := sset st2 ''replan_note'' (PStr (replan_note (replans + 1))) \<rparr>))
             else Inr (To_done, s))))"

section \<open>The verifier and the research gap\<close>

definition verifier_gate :: "gate_world \<Rightarrow> session \<Rightarrow> (route \<times> session) res" where
  "verifier_gate w s =
     (let st = ss_vars s; verdict = parse_verdict (gw_rep w) (sget st ''verifier_verdict'') in
      ebind (int_or0 (sget st ''verify_replan_count'')) (\<lambda>n.
        if verdict \<in> Some ` set verdict_negative \<and> n < max_verify_replans then
          (let st1 = sset st ''verify_replan_count'' (PInt (n + 1));
               why = (case por (sget st1 ''verifier_verdict'') (PDict []) of
                        PDict d \<Rightarrow> py_str (gw_rep w) (dget_or d ''rationale'' (PStr ''verifier rejected the plan''))
                      | _ \<Rightarrow> ''verifier rejected the plan'');
               st2 = sset st1 ''replan_note'' (PStr (''Verifier rejected the plan ('' @ why @ ''). Re-plan addressing the '' @
                                                    ''rejection before any code is written.''))
           in Inr (To_verify_replan, s\<lparr> ss_vars := clear_state (gw_popping w) st2 (scoped On_verify) \<rparr>))
        else Inr (To_verify_pass, s)))"

definition gap_gate :: "gate_world \<Rightarrow> session \<Rightarrow> (route \<times> session) res" where
  "gap_gate w s =
     (let st = ss_vars s in
      ebind (int_or0 (sget st ''gap_pass_count'')) (\<lambda>n.
        if \<not> gap_sufficient (sget st ''gap_verdict'') \<and> n < max_gap_passes then
          Inr (To_research_gap,
               s\<lparr> ss_vars := sset (sset st ''gap_pass_count'' (PInt (n + 1))) ''research_gap_brief_md''
                              (PStr (render_gap_brief (gw_rep w) (sget st ''gap_verdict''))) \<rparr>)
        else Inr (To_research_ok, s)))"

section \<open>Promoting the plan\<close>

definition iter_or_raise :: "pyval \<Rightarrow> pyval list res" where
  "iter_or_raise v = (case iter (por v (PList [])) of None \<Rightarrow> Inl TypeError | Some xs \<Rightarrow> Inr xs)"

definition tests_declared :: "gate_world \<Rightarrow> (string \<times> pyval) list \<Rightarrow> bool res" where
  "tests_declared w obj =
     (let declared = dget obj ''tests_declared'' in
      if declared \<noteq> PNone then Inr (truthy declared)
      else if contains ''test'' (lower (gw_dumps w (por (dget obj ''acceptance'')
                (por (dget obj ''acceptance_criteria'') (PStr []))))) then Inr True
      else
        ebind (iter_or_raise (dget obj ''subtickets'')) (\<lambda>sts.
          Inr (list_ex (\<lambda>x. case x of
                 PDict d \<Rightarrow> contains ''test'' (lower (py_str (gw_rep w) (dget_or d ''acceptance'' (PStr []))))
               | _ \<Rightarrow> False) sts)))"

definition glob_texts :: "gate_world \<Rightarrow> pyval list \<Rightarrow> pyval list" where
  "glob_texts w gs = map (\<lambda>g. PStr (py_str (gw_rep w) g)) (filter truthy gs)"

definition plan_globs :: "gate_world \<Rightarrow> (string \<times> pyval) list \<Rightarrow> pyval list res" where
  "plan_globs w obj =
     ebind (iter_or_raise (dget obj ''subtickets'')) (\<lambda>sts.
       Inr (glob_texts w (list_of (dget obj ''scope_allowlist_globs'')) @
            concat (map (\<lambda>x. case x of
                           PDict d \<Rightarrow> glob_texts w (list_of (dget d ''scope_allowlist_globs''))
                         | _ \<Rightarrow> []) sts)))"

definition first_seen :: "'a list \<Rightarrow> 'a list" where
  "first_seen xs = rev (remdups (rev xs))"

definition merge_seeded :: "state \<Rightarrow> pyval list \<Rightarrow> pyval list" where
  "merge_seeded st globs =
     (let seeded = (case sget st ''scope_allowlist_globs_seeded'' of
                      PList xs \<Rightarrow> PList xs
                    | _ \<Rightarrow> sget st ''scope_allowlist_globs'')
      in first_seen (case seeded of
                       PList xs \<Rightarrow> xs @ filter (\<lambda>g. g \<notin> set xs) globs
                     | _ \<Rightarrow> globs))"

definition usable_scope :: "gate_world \<Rightarrow> pyval list \<Rightarrow> pyval list" where
  "usable_scope w merged = (if merged \<noteq> [] \<and> \<not> gw_globs_match w merged then [] else merged)"

definition refresh_scoped_rules :: "gate_world \<Rightarrow> state \<Rightarrow> pyval list \<Rightarrow> state" where
  "refresh_scoped_rules w st merged =
     (if gw_rules w merged \<noteq> [] then sset st ''rules_md'' (PStr (gw_rules w merged)) else st)"

definition plan_promote :: "gate_world \<Rightarrow> session \<Rightarrow> session res" where
  "plan_promote w s =
     (let st = ss_vars s in
      case plan_object (sget st ''plan_md'') of
        None \<Rightarrow> Inr s
      | Some obj \<Rightarrow>
          (let st1 = (case tests_declared w obj of
                        Inl _ \<Rightarrow> st
                      | Inr b \<Rightarrow> sset st ''tests_declared'' (PBool b));
               st2 = sset st1 ''plan_small''
                       (PBool (plan_is_small (gw_env w) (gw_rep w) obj \<and> \<not> truthy (sget st1 ''replan_note'')))
           in ebind (plan_globs w obj) (\<lambda>globs.
                let merged = usable_scope w (merge_seeded st2 globs)
                in Inr (if merged \<noteq> []
                        then s\<lparr> ss_vars := refresh_scoped_rules w
                                            (sset st2 ''scope_allowlist_globs'' (PList merged)) merged \<rparr>
                        else s\<lparr> ss_vars := st2 \<rparr>))))"

section \<open>What the gates keep\<close>

lemma scoped_keys:
  "scoped On_iter = [''tests_ok'', ''typecheck_ok'', ''lint_ok'', ''doer_incomplete'', ''_repeat_counts'', ''_iter_fail'']"
  "scoped On_replan = [''tests_ok'', ''typecheck_ok'', ''lint_ok'', ''doer_incomplete'', ''_repeat_counts'',
     ''feedback_verdict'', ''loop_budget_kill'', ''loop_budget_reason'', ''doer_loop_started_at'', ''_idle_iters'',
     ''loc_history'', ''loc_first_seen'', ''doer_outcome'', ''verifier_verdict'', ''verify_correctness'',
     ''verify_scope'', ''verify_risk'', ''verify_replan_count'', ''scope_allowlist_globs'', ''plan_small'']"
  "scoped On_verify = [''verifier_verdict'', ''verify_correctness'', ''verify_scope'', ''verify_risk'',
     ''scope_allowlist_globs'', ''plan_small'']"
  by (simp_all add: scoped_def loop_scoped_keys_def)

text \<open>The counters only the gates write.\<close>

definition owned_keys :: "string list" where
  "owned_keys = [''doer_iters'', ''replan_count'', ''plateau_replan_count'', ''verify_replan_count'', ''gap_pass_count'']"

definition same_counters :: "state \<Rightarrow> state \<Rightarrow> bool" where
  "same_counters st st' \<longleftrightarrow> (\<forall>k \<in> set owned_keys. sget st' k = sget st k)"

lemma same_counters_refl [simp]: "same_counters st st"
  by (simp add: same_counters_def)

lemma same_counters_trans: "same_counters a b \<Longrightarrow> same_counters b c \<Longrightarrow> same_counters a c"
  by (simp add: same_counters_def)

lemma same_counters_sset [simp]: "k \<notin> set owned_keys \<Longrightarrow> same_counters a (sset b k v) = same_counters a b"
  by (auto simp: same_counters_def)

lemma same_counters_record [simp]: "same_counters a (record_failed scrub b t) = same_counters a b"
  by (simp add: record_failed_def Let_def owned_keys_def)

lemma heed_counters: "same_counters a b \<Longrightarrow> same_counters a (snd (heed v b))"
  by (induction v b rule: heed.induct) (simp_all add: owned_keys_def)

lemma same_failure_stop_counters:
  "same_failure_stop w s = Inr (b, s') \<Longrightarrow> same_counters (ss_vars s) (ss_vars s')"
  by (auto simp: same_failure_stop_def note_failed_approach_def Let_def ebind_Inr_iff split_beta heed_counters
      split: pyval.splits list.splits)

lemma no_edit_stop_counters: "no_edit_stop w st = Inr st' \<Longrightarrow> same_counters st st'"
  by (auto simp: no_edit_stop_def note_failed_approach_def Let_def owned_keys_def ebind_Inr_iff split: if_splits)

lemma stop_rules_counters:
  assumes "stop_rules w s = Inr s'"
  shows "same_counters (ss_vars s) (ss_vars s')"
proof -
  obtain b s1 st where "same_failure_stop w s = Inr (b, s1)" "no_edit_stop w (ss_vars s1) = Inr st"
    "s' = s1\<lparr> ss_vars := st \<rparr>"
    using assms by (auto simp: stop_rules_def ebind_Inr_iff)
  then show ?thesis
    using same_failure_stop_counters no_edit_stop_counters same_counters_trans by fastforce
qed

lemma wall_clock_counters: "wall_clock_kill w st = Inr (b, st') \<Longrightarrow> same_counters st st'"
  by (auto simp: wall_clock_kill_def Let_def owned_keys_def ebind_Inr_iff split: if_splits)

lemma effective_cap: "effective_max_iters e rep sub st \<le> max_doer_iters_cap e"
  by (simp add: effective_max_iters_def Let_def)

lemma loop_decision_result:
  assumes "loop_decision w passed iters s = Inr (r, s')"
  shows "same_counters (ss_vars s) (ss_vars s')" "r = To_loop \<or> r = To_exit"
    "r = To_loop \<Longrightarrow> iters < max_doer_iters_cap (gw_env w) \<and> \<not> passed"
    "r = To_exit \<Longrightarrow> \<not> passed \<Longrightarrow>
       \<exists>why. sget (ss_vars s') ''feedback_verdict'' = PStr (''partial loop_budget_kill: '' @ why)"
    "passed \<Longrightarrow> sget (ss_vars s') ''feedback_verdict'' = sget (ss_vars s) ''feedback_verdict''"
proof -
  obtain k st where k: "wall_clock_kill w (ss_vars s) = Inr (k, st)"
    using assms by (auto simp: loop_decision_def Let_def ebind_Inr_iff)
  have c: "same_counters (ss_vars s) (clear_state p st per_iter_keys)" for p
    using wall_clock_counters [OF k]
    by (simp add: same_counters_def per_iter_keys_def scoped_keys owned_keys_def)
  have v: "sget st ''feedback_verdict'' = sget (ss_vars s) ''feedback_verdict''"
    using k by (auto simp: wall_clock_kill_def Let_def ebind_Inr_iff split: if_splits)
  note d = assms [unfolded loop_decision_def k ebind_simps Let_def prod.case]
  show "same_counters (ss_vars s) (ss_vars s')" "r = To_loop \<or> r = To_exit"
    using d c wall_clock_counters [OF k] by (auto simp: owned_keys_def split: if_splits)
  show "r = To_loop \<Longrightarrow> iters < max_doer_iters_cap (gw_env w) \<and> \<not> passed"
    using d effective_cap [of "gw_env w" "gw_rep w" "gw_subtickets w" st] by (auto split: if_splits)
  show "r = To_exit \<Longrightarrow> \<not> passed \<Longrightarrow>
       \<exists>why. sget (ss_vars s') ''feedback_verdict'' = PStr (''partial loop_budget_kill: '' @ why)"
    using d by (auto split: if_splits)
  show "passed \<Longrightarrow> sget (ss_vars s') ''feedback_verdict'' = sget (ss_vars s) ''feedback_verdict''"
    using d v by (auto split: if_splits)
qed

lemma iters_key [simp]: "''doer_iters'' \<notin> set (scoped On_replan)"
  by (simp add: scoped_keys)

lemma reset_for_replan_get:
  "sget (reset_for_replan p st) k =
     (if k \<in> set (scoped On_replan) then PNone else if k = ''doer_iters'' then PInt 0 else sget st k)"
  by (simp add: reset_for_replan_def)

lemma note_texts: "plateau_note why \<noteq> []" "redo_note why \<noteq> []" "replan_note n \<noteq> []"
  by (simp_all add: plateau_note_def redo_note_def replan_note_def)

lemma validator_gate_replans:
  assumes "validator_gate w s = Inr (r, s')" and "r \<noteq> To_done"
  obtains st msg where "ss_vars s' = sset (reset_for_replan (gw_popping w) st) ''replan_note'' (PStr msg)"
    "msg \<noteq> []" "r = To_replan \<or> r = To_redo"
  using assms
  by (auto simp: validator_gate_def Let_def ebind_Inr_iff note_texts split: if_splits)

lemma not_passed_none: "sget st ''feedback_verdict'' = PNone \<Longrightarrow> \<not> feedback_passed rep st"
  by (simp add: feedback_passed_def parse_verdict_def)

section \<open>Properties\<close>

text \<open>A new attempt starts clean. Whenever the Validator's gate sends the run back, to the
  Planner or to the Doer, every key scoped to the plan is gone, the iteration count is zero, a
  note says why, and the next loop gate can read neither an old pass nor an old kill flag.\<close>

theorem replan_starts_clean:
  assumes "validator_gate w s = Inr (r, s')" and "r \<noteq> To_done"
  shows "(\<forall>k \<in> set (scoped On_replan). sget (ss_vars s') k = PNone) \<and>
    sget (ss_vars s') ''doer_iters'' = PInt 0 \<and> truthy (sget (ss_vars s') ''replan_note'') \<and>
    \<not> feedback_passed (gw_rep w) (ss_vars s') \<and> \<not> truthy (sget (ss_vars s') ''loop_budget_kill'')"
proof -
  obtain st msg where v: "ss_vars s' = sset (reset_for_replan (gw_popping w) st) ''replan_note'' (PStr msg)" "msg \<noteq> []"
    using validator_gate_replans [OF assms] by metis
  have "''replan_note'' \<notin> set (scoped On_replan)" by (simp add: scoped_keys)
  then have "sget (ss_vars s') k = PNone" if "k \<in> set (scoped On_replan)" for k
    using that v by (auto simp: reset_for_replan_get)
  moreover from this have "sget (ss_vars s') ''feedback_verdict'' = PNone" "sget (ss_vars s') ''loop_budget_kill'' = PNone"
    by (simp_all add: scoped_keys)
  ultimately show ?thesis
    using v by (simp add: reset_for_replan_get not_passed_none)
qed

definition plain_world :: gate_world where
  "plain_world = \<lparr> gw_env = Map.empty, gw_now = 0, gw_rep = (\<lambda>_. []), gw_dumps = (\<lambda>_. []),
     gw_subtickets = (\<lambda>_. []), gw_popping = False, gw_repo = [], gw_evidence = [],
     gw_globs_match = (\<lambda>_. True), gw_rules = (\<lambda>_. []), gw_scrub = id \<rparr>"

definition stalled_session :: session where
  "stalled_session = \<lparr> ss_vars = [''feedback_verdict'' \<mapsto> PStr ''partial loop_budget_kill: loc plateau''],
     ss_track = new_track \<rparr>"

lemma stalled_replans: "\<exists>s'. validator_gate plain_world stalled_session = Inr (To_replan, s')"
proof -
  have "contains ''loop_budget_kill'' ''partial loop_budget_kill: loc plateau''" by code_simp
  then show ?thesis
    by (simp add: validator_gate_def plain_world_def stalled_session_def sget_def str_or_def Let_def
        plateau_replans_max_def load_default default_policy_def)
qed

theorem replan_starts_clean_witness:
  "\<exists>s'. validator_gate plain_world stalled_session = Inr (To_replan, s') \<and>
     sget (ss_vars s') ''doer_iters'' = PInt 0 \<and> \<not> feedback_passed (gw_rep plain_world) (ss_vars s')"
  using stalled_replans replan_starts_clean [of plain_world stalled_session To_replan] by auto

lemma no_gaming: "repo = [] \<or> evidence = [] \<Longrightarrow> mark_test_gaming repo evidence st = (False, st)"
  by (auto simp: mark_test_gaming_def)

lemma exit_honest:
  assumes "loop_gate w s = Inr (To_exit, s')"
  shows "(feedback_passed (gw_rep w) (ss_vars s) \<and> (gw_repo w = [] \<or> gw_evidence w = []) \<and>
      sget (ss_vars s') ''feedback_verdict'' = sget (ss_vars s) ''feedback_verdict'') \<or>
    (\<exists>why. sget (ss_vars s') ''feedback_verdict'' = PStr (''partial loop_budget_kill: '' @ why)) \<or>
    (\<exists>why. sget (ss_vars s') ''feedback_verdict'' = PStr (''partial test_gaming: '' @ why))"
proof -
  obtain n where n: "int_or0 (sget (ss_vars s) ''doer_iters'') = Inr n"
    using assms by (auto simp: loop_gate_def ebind_Inr_iff)
  let ?s = "s\<lparr> ss_vars := sset (ss_vars s) ''doer_iters'' (PInt (n + 1)) \<rparr>"
  have fp: "feedback_passed rep (ss_vars ?s) = feedback_passed rep (ss_vars s)" for rep
    by (simp add: feedback_passed_def)
  show ?thesis
  proof (cases "feedback_passed (gw_rep w) (ss_vars s)")
    case False
    then obtain s1 where "loop_decision w False (n + 1) s1 = Inr (To_exit, s')"
      using assms fp [of "gw_rep w"] by (auto simp: loop_gate_def n Let_def ebind_Inr_iff)
    from loop_decision_result(4) [OF this] show ?thesis by simp
  next
    case True
    show ?thesis
    proof (cases "gw_repo w = [] \<or> gw_evidence w = []")
      case clean: True
      then have "loop_decision w True (n + 1) ?s = Inr (To_exit, s')"
        using assms True fp [of "gw_rep w"] by (simp add: loop_gate_def n Let_def no_gaming)
      from loop_decision_result(5) [OF this] show ?thesis using True clean by simp
    next
      case False
      then show ?thesis
        using assms True fp [of "gw_rep w"] by (auto simp: loop_gate_def n Let_def mark_test_gaming_def)
    qed
  qed
qed

text \<open>C4. The loop's exit is honest. When the loop gate lets the run out, either the Feedback verdict
  was a pass, is unchanged, and no test gaming was found, or the verdict on the state is a
  \<open>partial\<close> one that names the reason.\<close>

theorem exit_is_honest:
  assumes "loop_gate w s = Inr (To_exit, s')"
  shows "(feedback_passed (gw_rep w) (ss_vars s) \<and> (gw_repo w = [] \<or> gw_evidence w = []) \<and>
      sget (ss_vars s') ''feedback_verdict'' = sget (ss_vars s) ''feedback_verdict'') \<or>
    (\<exists>why. sget (ss_vars s') ''feedback_verdict'' = PStr (''partial loop_budget_kill: '' @ why)) \<or>
    (\<exists>why. sget (ss_vars s') ''feedback_verdict'' = PStr (''partial test_gaming: '' @ why))"
  using assms by (rule exit_honest)

lemma passing_exits:
  "\<exists>s'. loop_gate plain_world \<lparr> ss_vars = [''feedback_verdict'' \<mapsto> PStr ''pass''], ss_track = new_track \<rparr> = Inr (To_exit, s')"
proof -
  have "feedback_passed (\<lambda>_. []) [''feedback_verdict'' \<mapsto> PStr ''pass'', ''doer_iters'' \<mapsto> PInt 1]" by code_simp
  then show ?thesis
    by (simp add: loop_gate_def plain_world_def sset_def sget_def Let_def mark_test_gaming_def loop_decision_def
        wall_clock_kill_def doer_max_wall_s_def load_default default_policy_def fun_upd_twist)
qed

theorem exit_is_honest_witness:
  "\<exists>s'. loop_gate plain_world \<lparr> ss_vars = [''feedback_verdict'' \<mapsto> PStr ''pass''], ss_track = new_track \<rparr> = Inr (To_exit, s') \<and>
    (feedback_passed (gw_rep plain_world) [''feedback_verdict'' \<mapsto> PStr ''pass''] \<and>
      sget (ss_vars s') ''feedback_verdict'' = PStr ''pass'' \<or>
     (\<exists>why. sget (ss_vars s') ''feedback_verdict'' = PStr (''partial loop_budget_kill: '' @ why)) \<or>
     (\<exists>why. sget (ss_vars s') ''feedback_verdict'' = PStr (''partial test_gaming: '' @ why)))"
proof -
  obtain s' where s': "loop_gate plain_world \<lparr> ss_vars = [''feedback_verdict'' \<mapsto> PStr ''pass''], ss_track = new_track \<rparr> = Inr (To_exit, s')"
    using passing_exits by blast
  show ?thesis using s' exit_is_honest [OF s'] by (auto simp: sget_def)
qed

text \<open>Promoting a plan keeps the operator's scope: the merged allowlist holds every seeded glob
  first, adds exactly the plan's other globs, and repeats nothing.\<close>

lemma set_first_seen [simp]: "set (first_seen xs) = set xs" "distinct (first_seen xs)"
  by (simp_all add: first_seen_def)

theorem merge_seeded_scope:
  "set (merge_seeded st globs) =
     set (list_of (case sget st ''scope_allowlist_globs_seeded'' of
                     PList xs \<Rightarrow> PList xs | _ \<Rightarrow> sget st ''scope_allowlist_globs'')) \<union> set globs \<and>
   distinct (merge_seeded st globs)"
  by (auto simp: merge_seeded_def Let_def split: pyval.split)

section \<open>A plan whose subtickets are a number\<close>

text \<open>Promotion means to be soft on a plan it cannot read, and it is on one that does not parse;
  a plan that parses with \<open>subtickets\<close> bound to a number makes it raise.\<close>

lemma plan_promote_raises:
  assumes "sget (ss_vars s) ''plan_md'' = PStr ''{\"subtickets\": 3}''"
  shows "plan_promote w s = Inl TypeError"
proof -
  have "plan_object (PStr ''{\"subtickets\": 3}'') = Some [(''subtickets'', PInt 3)]" by code_simp
  then show ?thesis
    using assms by (simp add: plan_promote_def plan_globs_def iter_or_raise_def Let_def split: sum.split)
qed

end
