(* ===== verification/Pipeline_Graph.thy ===== *)
theory Pipeline_Graph
  imports Gates
begin

text \<open>
  The wiring of the v6 pipeline, \<^verbatim>\<open>aiforge_core/runtime/_pipeline_graph.py\<close>
  (\<^verbatim>\<open>_entry_edges\<close>, \<^verbatim>\<open>_context_edges\<close>, \<^verbatim>\<open>_plan_edges\<close>, \<^verbatim>\<open>_loop_edges\<close>), and the run of
  a ticket over it as a step relation. An agent node may write anything to the session
  except the five counters the gates own; a gate runs its function and follows the edge of
  its route.

  A run is one path through the graph: the context branches, which the engine runs side by
  side and joins, are followed one at a time. Each gate execution of a real run lies on such
  a path.
\<close>

section \<open>Nodes and edges\<close>

datatype node =
    Start | Triage | Triage_gate | Enhancer | Research_entry | Branch string | Context_join
  | Merge_context | Gap_eval | Gap_gate | Planner | Plan_promote | Verifier | Verifier_gate
  | Doer | Refiner | Feedback | Loop_gate | Validator | Validator_gate | Learner

type_synonym edge = "node \<times> route option \<times> node"

record shape =
  sh_branches :: "string list"
  sh_gap :: bool

definition entry_edges :: "edge list" where
  "entry_edges =
     [(Start, None, Triage),
      (Triage, None, Triage_gate),
      (Triage_gate, Some To_trivial, Doer),
      (Triage_gate, Some To_small, Planner),
      (Triage_gate, Some To_full, Enhancer)]"

definition context_edges :: "shape \<Rightarrow> edge list" where
  "context_edges sh =
     [(Enhancer, None, Research_entry)] @
     (if sh_branches sh = [] then [(Research_entry, None, Planner)]
      else
        concat (map (\<lambda>b. [(Research_entry, None, Branch b), (Branch b, None, Context_join)]) (sh_branches sh)) @
        [(Context_join, None, Merge_context)] @
        (if \<not> sh_gap sh then [(Merge_context, None, Planner)]
         else [(Merge_context, None, Gap_eval),
               (Gap_eval, None, Gap_gate),
               (Gap_gate, Some To_research_ok, Planner),
               (Gap_gate, Some To_research_gap, Research_entry)]))"

definition plan_edges :: "edge list" where
  "plan_edges =
     [(Planner, None, Plan_promote),
      (Plan_promote, None, Verifier),
      (Verifier, None, Verifier_gate),
      (Verifier_gate, Some To_verify_pass, Doer),
      (Verifier_gate, Some To_verify_replan, Planner)]"

definition loop_edges :: "edge list" where
  "loop_edges =
     [(Doer, None, Refiner),
      (Refiner, None, Feedback),
      (Feedback, None, Loop_gate),
      (Loop_gate, Some To_loop, Doer),
      (Loop_gate, Some To_exit, Validator),
      (Validator, None, Validator_gate),
      (Validator_gate, Some To_replan, Planner),
      (Validator_gate, Some To_redo, Doer),
      (Validator_gate, Some To_done, Learner)]"

definition edges :: "shape \<Rightarrow> edge list" where
  "edges sh = entry_edges @ context_edges sh @ plan_edges @ loop_edges"

section \<open>Steps\<close>

fun gate_of :: "gate_world \<Rightarrow> node \<Rightarrow> (session \<Rightarrow> (route \<times> session) res) option" where
  "gate_of w Triage_gate = Some (triage_gate w)"
| "gate_of w Gap_gate = Some (gap_gate w)"
| "gate_of w Verifier_gate = Some (verifier_gate w)"
| "gate_of w Loop_gate = Some (loop_gate w)"
| "gate_of w Validator_gate = Some (validator_gate w)"
| "gate_of w n = None"

definition is_gate :: "node \<Rightarrow> bool" where
  "is_gate n \<longleftrightarrow> n \<in> {Triage_gate, Gap_gate, Verifier_gate, Loop_gate, Validator_gate}"

inductive pstep :: "env \<Rightarrow> shape \<Rightarrow> node \<times> session \<Rightarrow> node \<times> session \<Rightarrow> bool" for e sh where
  gate: "gw_env w = e \<Longrightarrow> gate_of w n = Some g \<Longrightarrow> g s = Inr (r, s') \<Longrightarrow>
      (n, Some r, m) \<in> set (edges sh) \<Longrightarrow> pstep e sh (n, s) (m, s')"
| promote: "gw_env w = e \<Longrightarrow> plan_promote w s = Inr s' \<Longrightarrow> (Plan_promote, None, m) \<in> set (edges sh) \<Longrightarrow>
      pstep e sh (Plan_promote, s) (m, s')"
| agent: "\<not> is_gate n \<Longrightarrow> n \<noteq> Plan_promote \<Longrightarrow> same_counters (ss_vars s) (ss_vars s') \<Longrightarrow>
      (n, None, m) \<in> set (edges sh) \<Longrightarrow> pstep e sh (n, s) (m, s')"

inductive_cases pstep_cases: "pstep e sh (n, s) (m, s')"

section \<open>What a gate does to the counters\<close>

definition cnt :: "session \<Rightarrow> string \<Rightarrow> int" where
  "cnt s k = or_else (int_or0 (sget (ss_vars s) k)) 0"

lemma cnt_same: "same_counters (ss_vars s) (ss_vars s') \<Longrightarrow> k \<in> set owned_keys \<Longrightarrow> cnt s' k = cnt s k"
  by (simp add: cnt_def same_counters_def)

lemma cnt_Inr: "int_or0 (sget (ss_vars s) k) = Inr n \<Longrightarrow> cnt s k = n"
  by (simp add: cnt_def)

lemma triage_gate_counters: "triage_gate w s = Inr (r, s') \<Longrightarrow> same_counters (ss_vars s) (ss_vars s')"
  by (auto simp: triage_gate_def Let_def owned_keys_def)

lemma plan_promote_counters: "plan_promote w s = Inr s' \<Longrightarrow> same_counters (ss_vars s) (ss_vars s')"
  by (auto simp: plan_promote_def Let_def ebind_Inr_iff refresh_scoped_rules_def owned_keys_def
      split: option.splits sum.splits if_splits)

definition others :: "string \<Rightarrow> session \<Rightarrow> session \<Rightarrow> bool" where
  "others k s s' \<longleftrightarrow> (\<forall>j \<in> set owned_keys. j \<noteq> k \<longrightarrow> cnt s' j = cnt s j)"

lemma gap_gate_counters:
  assumes "gap_gate w s = Inr (r, s')"
  shows "r = To_research_ok \<and> s' = s \<or>
    r = To_research_gap \<and> others ''gap_pass_count'' s s' \<and>
      cnt s ''gap_pass_count'' < max_gap_passes \<and> cnt s' ''gap_pass_count'' = cnt s ''gap_pass_count'' + 1"
  using assms
  by (auto simp: gap_gate_def Let_def ebind_Inr_iff others_def cnt_def owned_keys_def split: if_splits)

lemma verifier_gate_counters:
  assumes "verifier_gate w s = Inr (r, s')"
  shows "r = To_verify_pass \<and> s' = s \<or>
    r = To_verify_replan \<and> others ''verify_replan_count'' s s' \<and>
      cnt s ''verify_replan_count'' < max_verify_replans \<and>
      cnt s' ''verify_replan_count'' = cnt s ''verify_replan_count'' + 1"
  using assms
  by (auto simp: verifier_gate_def Let_def ebind_Inr_iff others_def cnt_def owned_keys_def scoped_keys split: if_splits)

lemma loop_gate_counters:
  assumes "loop_gate w s = Inr (r, s')"
  shows "(r = To_loop \<or> r = To_exit) \<and> others ''doer_iters'' s s' \<and> cnt s' ''doer_iters'' = cnt s ''doer_iters'' + 1 \<and>
    (r = To_loop \<longrightarrow> cnt s' ''doer_iters'' < max_doer_iters_cap (gw_env w))"
proof -
  obtain n where n: "int_or0 (sget (ss_vars s) ''doer_iters'') = Inr n"
    using assms by (auto simp: loop_gate_def ebind_Inr_iff)
  let ?st = "sset (ss_vars s) ''doer_iters'' (PInt (n + 1))"
  have fin: "cnt s' ''doer_iters'' = n + 1 \<and> others ''doer_iters'' s s'"
    if "same_counters ?st (ss_vars s')" for s'
    using that by (auto simp: cnt_def others_def same_counters_def owned_keys_def)
  have "same_counters ?st (ss_vars s') \<and> (r = To_loop \<or> r = To_exit) \<and>
    (r = To_loop \<longrightarrow> n + 1 < max_doer_iters_cap (gw_env w))"
  proof (cases "feedback_passed (gw_rep w) ?st")
    case False
    then obtain s1 where s1: "stop_rules w (s\<lparr> ss_vars := ?st \<rparr>) = Inr s1"
        "loop_decision w False (n + 1) s1 = Inr (r, s')"
      using assms by (auto simp: loop_gate_def n Let_def ebind_Inr_iff)
    then show ?thesis
      using loop_decision_result(1-3) [OF s1(2)] stop_rules_counters [OF s1(1)] same_counters_trans by auto
  next
    case True
    show ?thesis
    proof (cases "gw_repo w = [] \<or> gw_evidence w = []")
      case clean: True
      then have "loop_decision w True (n + 1) (s\<lparr> ss_vars := ?st \<rparr>) = Inr (r, s')"
        using assms True by (simp add: loop_gate_def n Let_def no_gaming)
      then show ?thesis using loop_decision_result(1-3) by fastforce
    next
      case False
      then show ?thesis
        using assms True by (auto simp: loop_gate_def n Let_def mark_test_gaming_def owned_keys_def)
    qed
  qed
  then show ?thesis using fin [of s'] cnt_Inr [OF n] by auto
qed

text \<open>The Validator's gate spends one replan or one plateau replan, or ends the run.\<close>

definition epochs_left :: "env \<Rightarrow> session \<Rightarrow> nat" where
  "epochs_left e s = nat (max_replans - cnt s ''replan_count'') +
     nat (plateau_replans_max e - cnt s ''plateau_replan_count'')"

lemma validator_gate_counters:
  assumes "validator_gate w s = Inr (r, s')"
  shows "r = To_done \<or>
    (r = To_replan \<or> r = To_redo) \<and> epochs_left (gw_env w) s = Suc (epochs_left (gw_env w) s') \<and>
      cnt s' ''doer_iters'' = 0 \<and> cnt s' ''gap_pass_count'' = cnt s ''gap_pass_count''"
proof -
  have rec: "sget (record_failed f st t) k = sget st k" if "k \<in> set owned_keys" for f st t k
    using that by (auto simp: record_failed_def Let_def owned_keys_def)
  have o: "''replan_count'' \<in> set owned_keys" "''plateau_replan_count'' \<in> set owned_keys"
    "''gap_pass_count'' \<in> set owned_keys" "''doer_iters'' \<in> set owned_keys"
    by (simp_all add: owned_keys_def)
  have q: "''replan_count'' \<notin> set (scoped On_replan)" "''plateau_replan_count'' \<notin> set (scoped On_replan)"
    "''gap_pass_count'' \<notin> set (scoped On_replan)"
    by (simp_all add: scoped_keys)
  show ?thesis
    using assms
    by (auto simp: validator_gate_def Let_def ebind_Inr_iff epochs_left_def cnt_def reset_for_replan_get
        note_failed_approach_def rec [OF o(1)] rec [OF o(2)] rec [OF o(3)] q Suc_nat_eq_nat_zadd1
        nat_diff_distrib split: if_splits)
qed

section \<open>Every step makes progress\<close>

fun rank :: "node \<Rightarrow> nat" where
  "rank Start = 20"
| "rank Triage = 19"
| "rank Triage_gate = 18"
| "rank Enhancer = 17"
| "rank Research_entry = 16"
| "rank (Branch b) = 15"
| "rank Context_join = 14"
| "rank Merge_context = 13"
| "rank Gap_eval = 12"
| "rank Gap_gate = 11"
| "rank Planner = 10"
| "rank Plan_promote = 9"
| "rank Verifier = 8"
| "rank Verifier_gate = 7"
| "rank Doer = 6"
| "rank Refiner = 5"
| "rank Feedback = 4"
| "rank Loop_gate = 3"
| "rank Validator = 2"
| "rank Validator_gate = 1"
| "rank Learner = 0"

definition back_edge :: "node \<Rightarrow> route option \<Rightarrow> bool" where
  "back_edge n l \<longleftrightarrow> (n, l) \<in> {(Gap_gate, Some To_research_gap), (Verifier_gate, Some To_verify_replan),
     (Loop_gate, Some To_loop), (Validator_gate, Some To_replan), (Validator_gate, Some To_redo)}"

lemmas edges_defs = edges_def entry_edges_def context_edges_def plan_edges_def loop_edges_def

lemma edge_rank: "(n, l, m) \<in> set (edges sh) \<Longrightarrow> back_edge n l \<or> rank m < rank n"
proof -
  have "(n, l, m) \<in> set entry_edges \<Longrightarrow> rank m < rank n"
    by (auto simp: entry_edges_def)
  moreover have "(n, l, m) \<in> set (context_edges sh) \<Longrightarrow> back_edge n l \<or> rank m < rank n"
    by (auto simp: context_edges_def back_edge_def split: if_splits)
  moreover have "(n, l, m) \<in> set plan_edges \<Longrightarrow> back_edge n l \<or> rank m < rank n"
    by (auto simp: plan_edges_def back_edge_def)
  moreover have "(n, l, m) \<in> set loop_edges \<Longrightarrow> back_edge n l \<or> rank m < rank n"
    by (auto simp: loop_edges_def back_edge_def)
  ultimately show "(n, l, m) \<in> set (edges sh) \<Longrightarrow> back_edge n l \<or> rank m < rank n"
    by (auto simp: edges_def)
qed

lemma plain_edge: "(n, None, m) \<in> set (edges sh) \<Longrightarrow> rank m < rank n"
  using edge_rank [of n None m sh] by (simp add: back_edge_def)

definition standing :: "env \<Rightarrow> node \<times> session \<Rightarrow> nat \<times> nat \<times> nat \<times> nat \<times> nat" where
  "standing e x = (epochs_left e (snd x), nat (max_gap_passes - cnt (snd x) ''gap_pass_count''),
     nat (max_verify_replans - cnt (snd x) ''verify_replan_count''),
     nat (max_doer_iters_cap e - cnt (snd x) ''doer_iters''), rank (fst x))"

definition ahead :: "((nat \<times> nat \<times> nat \<times> nat \<times> nat) \<times> (nat \<times> nat \<times> nat \<times> nat \<times> nat)) set" where
  "ahead = less_than <*lex*> less_than <*lex*> less_than <*lex*> less_than <*lex*> less_than"

lemma wf_ahead: "wf ahead"
  by (simp add: ahead_def wf_lex_prod)

lemma standing_same:
  assumes "same_counters (ss_vars s) (ss_vars s')" and "rank m < rank n"
  shows "(standing e (m, s'), standing e (n, s)) \<in> ahead"
  using assms cnt_same [OF assms(1)]
  by (simp add: standing_def ahead_def epochs_left_def owned_keys_def)

lemma othersD: "others k s s' \<Longrightarrow> j \<in> set owned_keys \<Longrightarrow> j \<noteq> k \<Longrightarrow> cnt s' j = cnt s j"
  by (simp add: others_def)

lemma gate_progress:
  assumes "gate_of w n = Some g" and "g s = Inr (r, s')" and "(n, Some r, m) \<in> set (edges sh)"
  shows "(standing (gw_env w) (m, s'), standing (gw_env w) (n, s)) \<in> ahead"
proof (cases n)
  case Triage_gate
  then show ?thesis
    using assms edge_rank [OF assms(3)] triage_gate_counters [of w s r s']
    by (intro standing_same) (auto simp: back_edge_def)
next
  case Gap_gate
  with assms have g: "gap_gate w s = Inr (r, s')" by simp
  show ?thesis
  proof (cases "r = To_research_ok")
    case True
    then show ?thesis using gap_gate_counters [OF g] edge_rank [OF assms(3)] Gap_gate
      by (intro standing_same) (auto simp: back_edge_def)
  next
    case False
    then have o: "others ''gap_pass_count'' s s'" "cnt s ''gap_pass_count'' < max_gap_passes"
        "cnt s' ''gap_pass_count'' = cnt s ''gap_pass_count'' + 1"
      using gap_gate_counters [OF g] by auto
    then show ?thesis
      by (simp add: standing_def ahead_def epochs_left_def othersD [OF o(1)] owned_keys_def)
  qed
next
  case Verifier_gate
  with assms have g: "verifier_gate w s = Inr (r, s')" by simp
  show ?thesis
  proof (cases "r = To_verify_pass")
    case True
    then show ?thesis using verifier_gate_counters [OF g] edge_rank [OF assms(3)] Verifier_gate
      by (intro standing_same) (auto simp: back_edge_def)
  next
    case False
    then have o: "others ''verify_replan_count'' s s'" "cnt s ''verify_replan_count'' < max_verify_replans"
        "cnt s' ''verify_replan_count'' = cnt s ''verify_replan_count'' + 1"
      using verifier_gate_counters [OF g] by auto
    then show ?thesis
      by (simp add: standing_def ahead_def epochs_left_def othersD [OF o(1)] owned_keys_def)
  qed
next
  case Loop_gate
  with assms have g: "loop_gate w s = Inr (r, s')" by simp
  have o: "others ''doer_iters'' s s'" "cnt s' ''doer_iters'' = cnt s ''doer_iters'' + 1"
      "r = To_loop \<longrightarrow> cnt s' ''doer_iters'' < max_doer_iters_cap (gw_env w)" "r = To_loop \<or> r = To_exit"
    using loop_gate_counters [OF g] by auto
  have "rank m < rank n \<or> r = To_loop"
    using edge_rank [OF assms(3)] o(4) Loop_gate by (auto simp: back_edge_def)
  then show ?thesis
    using o Loop_gate
    by (auto simp: standing_def ahead_def epochs_left_def othersD [OF o(1)] owned_keys_def)
next
  case Validator_gate
  with assms have g: "validator_gate w s = Inr (r, s')" by simp
  show ?thesis
  proof (cases "r = To_done")
    case True
    then have "same_counters (ss_vars s) (ss_vars s')"
      using g by (auto simp: validator_gate_def Let_def ebind_Inr_iff owned_keys_def split: if_splits)
    then show ?thesis using edge_rank [OF assms(3)] True Validator_gate
      by (intro standing_same) (auto simp: back_edge_def)
  next
    case False
    then show ?thesis
      using validator_gate_counters [OF g] by (simp add: standing_def ahead_def)
  qed
qed (use assms(1) in simp_all)

lemma pstep_progress: "pstep e sh x y \<Longrightarrow> (standing e y, standing e x) \<in> ahead"
proof (induction rule: pstep.induct)
  case (gate w n g s r s' m)
  then show ?case using gate_progress [OF gate(2-4)] by simp
next
  case (promote w s s' m)
  then show ?case using standing_same [OF plan_promote_counters plain_edge] by blast
next
  case (agent n s s' m)
  then show ?case using standing_same [OF _ plain_edge] by blast
qed

section \<open>The Doer passes of a run\<close>

definition pass_cap :: "env \<Rightarrow> int" where
  "pass_cap e = max 1 (max_doer_iters_cap e)"

definition late :: "node \<Rightarrow> bool" where
  "late n \<longleftrightarrow> n \<in> {Validator, Validator_gate, Learner}"

definition sound :: "env \<Rightarrow> node \<times> session \<Rightarrow> bool" where
  "sound e x \<longleftrightarrow> 0 \<le> cnt (snd x) ''doer_iters'' \<and>
     cnt (snd x) ''doer_iters'' \<le> (if late (fst x) then pass_cap e else pass_cap e - 1)"

definition passes_left :: "env \<Rightarrow> node \<times> session \<Rightarrow> int" where
  "passes_left e x = int (epochs_left e (snd x)) * pass_cap e + (pass_cap e - cnt (snd x) ''doer_iters'')"

lemma late_edge: "(n, l, m) \<in> set (edges sh) \<Longrightarrow> late m \<Longrightarrow> late n \<or> (n = Loop_gate \<and> l = Some To_exit)"
  by (auto simp: edges_defs late_def split: if_splits)

lemma late_out: "(n, l, m) \<in> set (edges sh) \<Longrightarrow> late n \<Longrightarrow> late m \<or> (n = Validator_gate \<and> (l = Some To_replan \<or> l = Some To_redo))"
  by (auto simp: edges_defs late_def split: if_splits)

lemma passes_same:
  assumes "\<And>j. j \<in> {''doer_iters'', ''replan_count'', ''plateau_replan_count''} \<Longrightarrow> cnt s' j = cnt s j"
    and "late m \<longleftrightarrow> late n" and "sound e (n, s)"
  shows "sound e (m, s') \<and> passes_left e (m, s') = passes_left e (n, s)"
  using assms by (simp add: sound_def passes_left_def epochs_left_def)

lemma pstep_passes:
  "pstep e sh x y \<Longrightarrow> sound e x \<Longrightarrow>
     sound e y \<and> passes_left e y + of_bool (fst x = Loop_gate) \<le> passes_left e x"
proof (induction rule: pstep.induct)
  case (agent n s s' m)
  have l: "late m \<longleftrightarrow> late n" using late_edge [OF agent(4)] late_out [OF agent(4)] by auto
  have "\<And>j. j \<in> {''doer_iters'', ''replan_count'', ''plateau_replan_count''} \<Longrightarrow> cnt s' j = cnt s j"
    using cnt_same [OF agent(3)] by (auto simp: owned_keys_def)
  then show ?case using passes_same [OF _ l agent(5)] agent(1) by (auto simp: is_gate_def)
next
  case (promote w s s' m)
  have l: "late m \<longleftrightarrow> late Plan_promote" using late_edge [OF promote(3)] late_out [OF promote(3)] by auto
  have "\<And>j. j \<in> {''doer_iters'', ''replan_count'', ''plateau_replan_count''} \<Longrightarrow> cnt s' j = cnt s j"
    using cnt_same [OF plan_promote_counters [OF promote(2)]] by (auto simp: owned_keys_def)
  then show ?case using passes_same [OF _ l promote(4)] by auto
next
  case (gate w n g s r s' m)
  have other: ?case if "n \<noteq> Loop_gate" "\<not> (n = Validator_gate \<and> r \<noteq> To_done)"
    "\<And>j. j \<in> {''doer_iters'', ''replan_count'', ''plateau_replan_count''} \<Longrightarrow> cnt s' j = cnt s j"
  proof -
    have "late m \<longleftrightarrow> late n" using late_edge [OF gate(4)] late_out [OF gate(4)] that(1,2) by auto
    then show ?case using passes_same [OF that(3) _ gate(5)] that(1) by auto
  qed
  show ?case
  proof (cases n)
    case Loop_gate
    with gate have g: "loop_gate w s = Inr (r, s')" by simp
    have o: "others ''doer_iters'' s s'" "cnt s' ''doer_iters'' = cnt s ''doer_iters'' + 1"
        "r = To_loop \<longrightarrow> cnt s' ''doer_iters'' < max_doer_iters_cap e" "r = To_loop \<or> r = To_exit"
      using loop_gate_counters [OF g] gate(1) by auto
    have e: "epochs_left e s' = epochs_left e s"
      by (simp add: epochs_left_def othersD [OF o(1)] owned_keys_def)
    have m: "m = (if r = To_loop then Doer else Validator)"
      using gate(4) Loop_gate o(4) by (auto simp: edges_defs split: if_splits)
    have "sound e (m, s')"
      using gate(5) o Loop_gate m by (auto simp: sound_def late_def pass_cap_def)
    then show ?thesis using o(2) e Loop_gate by (simp add: passes_left_def)
  next
    case Validator_gate
    with gate have g: "validator_gate w s = Inr (r, s')" by simp
    show ?thesis
    proof (cases "r = To_done")
      case True
      then have "same_counters (ss_vars s) (ss_vars s')"
        using g by (auto simp: validator_gate_def Let_def ebind_Inr_iff owned_keys_def split: if_splits)
      then have "cnt s' j = cnt s j" if "j \<in> {''doer_iters'', ''replan_count'', ''plateau_replan_count''}" for j
        using that cnt_same by (auto simp: owned_keys_def)
      then show ?thesis using other True Validator_gate by blast
    next
      case False
      then have o: "epochs_left e s = Suc (epochs_left e s')" "cnt s' ''doer_iters'' = 0"
        using validator_gate_counters [OF g] gate(1) by auto
      have "sound e (m, s')" using o by (simp add: sound_def pass_cap_def less_max_iff_disj le_max_iff_disj)
      then show ?thesis
        using o gate(5) Validator_gate by (simp add: passes_left_def sound_def late_def algebra_simps)
    qed
  next
    case Triage_gate
    with gate have "triage_gate w s = Inr (r, s')" by simp
    note c = cnt_same [OF triage_gate_counters [OF this]]
    show ?thesis using Triage_gate by (intro other) (auto simp: c owned_keys_def)
  next
    case Gap_gate
    with gate have "gap_gate w s = Inr (r, s')" by simp
    note c = gap_gate_counters [OF this]
    show ?thesis using Gap_gate c by (intro other) (auto dest: othersD simp: owned_keys_def)
  next
    case Verifier_gate
    with gate have "verifier_gate w s = Inr (r, s')" by simp
    note c = verifier_gate_counters [OF this]
    show ?thesis using Verifier_gate c by (intro other) (auto dest: othersD simp: owned_keys_def)
  qed (use gate(2) in simp_all)
qed

lemma run_passes:
  assumes "successively (pstep e sh) run" and "run \<noteq> []" and "sound e (hd run)"
  shows "int (length (filter (\<lambda>x. fst x = Loop_gate) run)) \<le> passes_left e (hd run)"
  using assms
proof (induction run rule: induct_list012)
  case (2 x)
  have "0 \<le> int (epochs_left e (snd x)) * pass_cap e" by (simp add: pass_cap_def)
  moreover have "of_bool (fst x = Loop_gate) \<le> pass_cap e - cnt (snd x) ''doer_iters''"
    using 2(3) by (auto simp: sound_def late_def split: if_splits)
  ultimately show ?case by (auto simp: passes_left_def)
next
  case (3 x y zs)
  then have "pstep e sh x y" by simp
  from pstep_passes [OF this] 3 show ?case by (auto split: if_splits)
qed simp

section \<open>Properties\<close>

text \<open>C1. The pipeline always ends: whatever the agents write (the gates' own counters apart),
  whatever time it is and whatever the shape of the context stage, no run of the graph goes on
  for ever.\<close>

theorem pipeline_terminates:
  "\<not> (\<exists>run. \<forall>i. pstep e sh (run i) (run (Suc i)))"
proof
  assume "\<exists>run. \<forall>i. pstep e sh (run i) (run (Suc i))"
  then obtain run where "\<forall>i. pstep e sh (run i) (run (Suc i))" by blast
  then have "\<forall>i. (standing e (run (Suc i)), standing e (run i)) \<in> ahead"
    using pstep_progress by blast
  then show False
    using wf_ahead unfolding wf_iff_no_infinite_down_chain
    by (auto dest: spec [of _ "\<lambda>i. standing e (run i)"])
qed

text \<open>C6. The Doer's work is bounded: a run from a fresh session judges at most
  \<open>2 + plateau replans\<close> attempts of at most \<open>cap\<close> passes each, whatever every agent says.\<close>

theorem doer_passes_bounded:
  assumes "successively (pstep e sh) run" and "run \<noteq> []" and "hd run = (Start, s)"
    and "same_counters Map.empty (ss_vars s)"
  shows "int (length (filter (\<lambda>x. fst x = Loop_gate) run)) \<le>
    (2 + max 0 (plateau_replans_max e)) * max 1 (max_doer_iters_cap e)"
proof -
  have "cnt s k = 0" if "k \<in> set owned_keys" for k
    using that assms(4) by (simp add: cnt_def same_counters_def sget_def)
  then have c: "cnt s ''doer_iters'' = 0" "cnt s ''replan_count'' = 0" "cnt s ''plateau_replan_count'' = 0"
    by (simp_all add: owned_keys_def)
  have "sound e (hd run)" by (simp add: assms(3) sound_def late_def c pass_cap_def)
  from run_passes [OF assms(1,2) this] show ?thesis
    by (simp add: assms(3) passes_left_def epochs_left_def c pass_cap_def max_replans_def algebra_simps max_def)
qed

definition fresh_session :: session where
  "fresh_session = \<lparr> ss_vars = Map.empty, ss_track = new_track \<rparr>"

theorem doer_passes_bounded_witness:
  "successively (pstep Map.empty \<lparr> sh_branches = [], sh_gap = False \<rparr>) [(Start, fresh_session), (Triage, fresh_session)] \<and>
   int (length (filter (\<lambda>x. fst x = Loop_gate) [(Start, fresh_session), (Triage, fresh_session)])) \<le>
     (2 + max 0 (plateau_replans_max Map.empty)) * max 1 (max_doer_iters_cap Map.empty)"
proof -
  have h: "successively (pstep Map.empty \<lparr> sh_branches = [], sh_gap = False \<rparr>) [(Start, fresh_session), (Triage, fresh_session)]"
    by (simp add: pstep.agent is_gate_def edges_defs)
  have f: "same_counters Map.empty (ss_vars fresh_session)" by (simp add: fresh_session_def)
  show ?thesis
    by (rule conjI [OF h doer_passes_bounded [OF h _ _ f]]) simp_all
qed

text \<open>No gate gets stuck: whatever route a gate picks, on any session, the graph has an edge
  for it, as long as the gate is wired at all (the gap gate needs its branches).\<close>

theorem gates_are_wired:
  assumes "gate_of w n = Some g" and "g s = Inr (r, s')"
    and "n \<noteq> Gap_gate \<or> (sh_gap sh \<and> sh_branches sh \<noteq> [])"
  shows "\<exists>m. (n, Some r, m) \<in> set (edges sh)"
proof (cases n)
  case Triage_gate
  then show ?thesis using assms by (auto simp: triage_gate_def Let_def edges_defs split: if_splits)
next
  case Gap_gate
  then show ?thesis using assms gap_gate_counters [of w s r s'] by (auto simp: edges_defs)
next
  case Verifier_gate
  then show ?thesis using assms verifier_gate_counters [of w s r s'] by (auto simp: edges_defs)
next
  case Loop_gate
  then show ?thesis using assms loop_gate_counters [of w s r s'] by (auto simp: edges_defs)
next
  case Validator_gate
  then show ?thesis using assms validator_gate_counters [of w s r s'] by (auto simp: edges_defs)
qed (use assms(1) in simp_all)

theorem gates_are_wired_witness:
  "\<exists>s' m. gap_gate plain_world fresh_session = Inr (To_research_ok, s') \<and>
     (Gap_gate, Some To_research_ok, m) \<in> set (edges \<lparr> sh_branches = [''docs''], sh_gap = True \<rparr>)"
proof -
  have g: "gate_of plain_world Gap_gate = Some (gap_gate plain_world)"
    "gap_gate plain_world fresh_session = Inr (To_research_ok, fresh_session)"
    by (simp_all add: gap_gate_def fresh_session_def sget_def gap_sufficient_def gap_object_def)
  have "\<exists>m. (Gap_gate, Some To_research_ok, m) \<in> set (edges \<lparr> sh_branches = [''docs''], sh_gap = True \<rparr>)"
    by (rule gates_are_wired [OF g]) simp
  then show ?thesis using g(2) by blast
qed

end
