(* ===== verification/Rate_Window.thy ===== *)
theory Rate_Window
  imports Py_Strings
begin

text \<open>
  The sliding 60 second window behind the operator's requests-per-minute ceiling, in its two
  implementations: the in-process list of \<^verbatim>\<open>aiforge_core/llm/rate_limiter.py\<close>
  (\<^verbatim>\<open>_take\<close>, \<^verbatim>\<open>_force_take\<close>, with \<^verbatim>\<open>_trim_locked\<close> of \<^verbatim>\<open>_rate_holds.py\<close>) and the
  table every process of the machine shares, \<^verbatim>\<open>_shared_window.py\<close> (\<^verbatim>\<open>take\<close>,
  \<^verbatim>\<open>force\<close>, \<^verbatim>\<open>count\<close>), whose statements of one transaction are one step here.

  The locale \<open>send_window\<close> is what the limiter needs of either. Its client lemma is the
  ceiling itself, over the true history of sends, the ones let through past their wait
  budget included. A table is the list of its rows in the order of insertion; of rows with
  one time stamp, \<^verbatim>\<open>ORDER BY ts DESC\<close> lists the last inserted first.
\<close>

type_synonym cat = string
type_synonym send = "rat \<times> cat"

definition recent :: "rat \<Rightarrow> send list \<Rightarrow> send list" where
  "recent now xs = filter (\<lambda>s. now - 60 < fst s) xs"

definition of_cat :: "cat \<Rightarrow> send list \<Rightarrow> send list" where
  "of_cat c xs = filter (\<lambda>s. snd s = c) xs"

section \<open>Windows of a history in time order\<close>

lemma recent_split:
  assumes "sorted (map fst xs)"
  obtains ys where "xs = ys @ recent t xs" and "list_all (\<lambda>s. fst s \<le> t - 60) ys"
  using assms
proof (induction xs arbitrary: thesis)
  case Nil
  then show ?case by (simp add: recent_def)
next
  case (Cons x xs)
  show ?case
  proof (cases "fst x \<le> t - 60")
    case True
    obtain ys where "xs = ys @ recent t xs" "list_all (\<lambda>s. fst s \<le> t - 60) ys"
      using Cons by auto
    then show ?thesis using True by (intro Cons.prems(1) [of "x # ys"]) (auto simp: recent_def)
  next
    case False
    then have "recent t (x # xs) = x # xs"
      using Cons.prems(2) by (fastforce simp: recent_def filter_id_conv)
    then show ?thesis by (intro Cons.prems(1) [of "[]"]) simp_all
  qed
qed

lemma recent_Nil [simp]: "recent t [] = []"
  by (simp add: recent_def)

lemma recent_append [simp]: "recent t (xs @ ys) = recent t xs @ recent t ys"
  by (simp add: recent_def)

lemma recent_now [simp]: "recent t [(t, c)] = [(t, c)]"
  by (simp add: recent_def)

lemma recent_idem: "t \<le> u \<Longrightarrow> recent u (recent t xs) = recent u xs"
  unfolding recent_def by (simp add: conj_commute) (rule filter_cong, auto)

lemma recent_old: "list_all (\<lambda>s. fst s \<le> t - 60) ys \<Longrightarrow> recent t ys = []"
  by (auto simp: recent_def list_all_iff filter_empty_conv)

lemma recent_of_recent: "set zs \<subseteq> set (recent t xs) \<Longrightarrow> recent t zs = zs"
  by (auto simp: recent_def filter_id_conv)

lemma last_n_append:
  "last_n n (ys @ zs) = (if n \<le> length zs then last_n n zs else last_n (n - length zs) ys @ zs)"
  by (auto simp: last_n_def)

lemma recent_last_n:
  assumes "sorted (map fst xs)"
  shows "recent t (last_n n xs) = last_n n (recent t xs)"
proof -
  obtain ys where ys: "xs = ys @ recent t xs" "list_all (\<lambda>s. fst s \<le> t - 60) ys"
    using recent_split [OF assms] by blast
  let ?z = "recent t xs"
  have z: "recent t ?z = ?z" by (rule recent_of_recent [of _ t xs]) simp
  have "recent t (last_n n (ys @ ?z)) = last_n n ?z"
  proof (cases "n \<le> length ?z")
    case True
    then show ?thesis
      by (simp add: last_n_append) (rule recent_of_recent [of _ t xs], rule set_last_n)
  next
    case False
    have "list_all (\<lambda>s. fst s \<le> t - 60) (last_n (n - length ?z) ys)"
      using ys(2) set_last_n [of "n - length ?z" ys] by (auto simp: list_all_iff)
    then show ?thesis using False z by (simp add: last_n_append recent_old last_n_id)
  qed
  then show ?thesis using ys(1) by simp
qed

lemma last_n_last_n: "last_n n (last_n n xs) = last_n n xs"
  by (rule last_n_id) simp

lemma last_n_snoc_last: "0 < n \<Longrightarrow> last_n n (last_n n xs @ [x]) = last_n n (xs @ [x])"
proof -
  assume n: "0 < n"
  have "last_n (n - 1) (last_n n xs) = last_n (n - 1) xs"
    by (cases "n \<le> length xs") (simp_all add: last_n_def)
  then show ?thesis using n by (simp add: last_n_snoc)
qed

lemma last_n_all: "length (last_n n xs) < n \<Longrightarrow> last_n n xs = xs"
  by (simp add: last_n_id)

section \<open>The interface\<close>

datatype send_event = Try cat | Overrun cat

text \<open>
  The true history of sends, oldest first; a send is marked \<open>True\<close> when the window let it
  through and \<open>False\<close> when it overran its wait budget.
\<close>

type_synonym history = "(send \<times> bool) list"

fun send_step :: "('w \<Rightarrow> rat \<Rightarrow> cat \<Rightarrow> bool \<times> 'w) \<Rightarrow> ('w \<Rightarrow> rat \<Rightarrow> cat \<Rightarrow> 'w)
    \<Rightarrow> 'w \<times> history \<Rightarrow> rat \<times> send_event \<Rightarrow> 'w \<times> history" where
  "send_step tk fc (w, h) (t, Try c) =
     (snd (tk w t c), if fst (tk w t c) then h @ [((t, c), True)] else h)"
| "send_step tk fc (w, h) (t, Overrun c) = (fc w t c, h @ [((t, c), False)])"

definition send_run :: "('w \<Rightarrow> rat \<Rightarrow> cat \<Rightarrow> bool \<times> 'w) \<Rightarrow> ('w \<Rightarrow> rat \<Rightarrow> cat \<Rightarrow> 'w)
    \<Rightarrow> 'w \<Rightarrow> (rat \<times> send_event) list \<Rightarrow> 'w \<times> history" where
  "send_run tk fc w es = foldl (send_step tk fc) (w, []) es"

text \<open>
  Every send the window let through found, among all the sends of the minute before it,
  fewer than \<open>g\<close>, and fewer than \<open>cl c\<close> of its own category \<open>c\<close> if that is bounded.
\<close>

definition under :: "nat \<Rightarrow> (cat \<Rightarrow> nat) \<Rightarrow> history \<Rightarrow> send \<Rightarrow> bool" where
  "under g cl h s \<longleftrightarrow> length (recent (fst s) (map fst h)) < g \<and>
     (0 < cl (snd s) \<longrightarrow> length (of_cat (snd s) (recent (fst s) (map fst h))) < cl (snd s))"

fun obeys :: "nat \<Rightarrow> (cat \<Rightarrow> nat) \<Rightarrow> history \<Rightarrow> history \<Rightarrow> bool" where
  "obeys g cl seen [] = True"
| "obeys g cl seen ((s, b) # h) =
     ((b \<longrightarrow> under g cl seen s) \<and> obeys g cl (seen @ [(s, b)]) h)"

lemma obeys_snoc:
  "obeys g cl b (h @ [(s, c)]) \<longleftrightarrow> obeys g cl b h \<and> (c \<longrightarrow> under g cl (b @ h) s)"
  by (induction h arbitrary: b) auto

text \<open>The admitted sends of the 60 seconds that end at \<open>u\<close>.\<close>

definition admitted :: "rat \<Rightarrow> history \<Rightarrow> send list" where
  "admitted u h = map fst (filter (\<lambda>(s, b). b \<and> u - 60 < fst s \<and> fst s \<le> u) h)"

lemma admitted_snoc:
  "admitted u (h @ [(s, b)]) = admitted u h @ (if b \<and> u - 60 < fst s \<and> fst s \<le> u then [s] else [])"
  by (simp add: admitted_def)

lemma admitted_le_recent:
  assumes "t \<le> u"
  shows "length (admitted u h) \<le> length (recent t (map fst h))"
    and "length (of_cat c (admitted u h)) \<le> length (of_cat c (recent t (map fst h)))"
  using assms by (induction h) (auto simp: admitted_def recent_def of_cat_def)

lemma admitted_ceiling:
  assumes "obeys g cl [] h"
  shows "length (admitted u h) \<le> g"
    and "0 < cl c \<Longrightarrow> length (of_cat c (admitted u h)) \<le> cl c"
proof -
  have "length (admitted u h) \<le> g \<and> (0 < cl c \<longrightarrow> length (of_cat c (admitted u h)) \<le> cl c)"
    using assms
  proof (induction h rule: rev_induct)
    case Nil
    then show ?case by (simp add: admitted_def of_cat_def)
  next
    case (snoc x h)
    obtain t d b where x: "x = ((t, d), b)" by (metis prod.exhaust)
    have IH: "length (admitted u h) \<le> g" "0 < cl c \<Longrightarrow> length (of_cat c (admitted u h)) \<le> cl c"
      and r: "b \<Longrightarrow> under g cl h (t, d)"
      using snoc x by (auto simp: obeys_snoc)
    show ?case
    proof (cases "b \<and> u - 60 < t \<and> t \<le> u")
      case False
      then have "admitted u (h @ [x]) = admitted u h" using x by (simp add: admitted_snoc)
      then show ?thesis using IH by simp
    next
      case True
      then show ?thesis
        using IH(2) r admitted_le_recent(1) [of t u h] admitted_le_recent(2) [of t u d h] x
        by (auto simp: admitted_snoc under_def of_cat_def)
    qed
  qed
  then show "length (admitted u h) \<le> g"
    and "0 < cl c \<Longrightarrow> length (of_cat c (admitted u h)) \<le> cl c" by blast+
qed

locale send_window =
  fixes view :: "'w \<Rightarrow> send list"
    and tk :: "'w \<Rightarrow> rat \<Rightarrow> cat \<Rightarrow> bool \<times> 'w"
    and fc :: "'w \<Rightarrow> rat \<Rightarrow> cat \<Rightarrow> 'w"
    and ok :: "'w \<Rightarrow> rat \<Rightarrow> bool"
    and g :: nat
    and cl :: "cat \<Rightarrow> nat"
  assumes room: "0 < g"
    and ok_later: "ok w t \<Longrightarrow> t \<le> u \<Longrightarrow> ok w u"
    and ok_sorted: "ok w t \<Longrightarrow> sorted (map fst (view w))"
    and take_ok: "ok w t \<Longrightarrow> ok (snd (tk w t c)) t"
    and force_ok: "ok w t \<Longrightarrow> ok (fc w t c) t"
    and take_sound: "ok w t \<Longrightarrow> fst (tk w t c) \<Longrightarrow> length (recent t (view w)) < g \<and>
      (0 < cl c \<longrightarrow> length (of_cat c (recent t (view w))) < cl c)"
    and take_view: "ok w t \<Longrightarrow>
      recent t (view (snd (tk w t c))) = recent t (view w) @ (if fst (tk w t c) then [(t, c)] else [])"
    and force_view: "ok w t \<Longrightarrow> recent t (view (fc w t c)) = last_n g (recent t (view w) @ [(t, c)])"
begin

text \<open>The window's rows of the last minute are the newest \<open>g\<close> true sends of it.\<close>

definition tracks :: "'w \<times> history \<Rightarrow> rat \<Rightarrow> bool" where
  "tracks x t \<longleftrightarrow> ok (fst x) t \<and> sorted (map fst (map fst (snd x))) \<and>
     list_all (\<lambda>s. fst (fst s) \<le> t) (snd x) \<and>
     recent t (view (fst x)) = last_n g (recent t (map fst (snd x)))"

lemma tracks_later:
  assumes "tracks x t" and "t \<le> u"
  shows "tracks x u"
proof -
  have "recent u (view (fst x)) = recent u (last_n g (recent t (map fst (snd x))))"
    using assms recent_idem [OF assms(2), of "view (fst x)"] by (simp add: tracks_def)
  also have "\<dots> = last_n g (recent u (map fst (snd x)))"
    using assms recent_idem [OF assms(2), of "map fst (snd x)"]
    by (subst recent_last_n) (auto simp: tracks_def recent_def sorted_filter)
  finally show ?thesis
    using assms by (auto simp: tracks_def list_all_iff intro: ok_later)
qed

lemma sorted_history: "sorted (map fst (map fst h)) \<Longrightarrow> list_all (\<lambda>s. fst (fst s) \<le> t) h
    \<Longrightarrow> sorted (map fst (map fst (h @ [((t, c), b)])))"
  by (auto simp: sorted_append list_all_iff)

lemma step_tracks:
  assumes "tracks (w, h) t"
  shows "tracks (send_step tk fc (w, h) (t, e)) t"
proof (cases e)
  case (Try c)
  have k: "ok w t" and s: "sorted (map fst (map fst h))" "list_all (\<lambda>s. fst (fst s) \<le> t) h"
    and v: "recent t (view w) = last_n g (recent t (map fst h))"
    using assms by (simp_all add: tracks_def)
  show ?thesis
  proof (cases "fst (tk w t c)")
    case True
    then have l: "length (last_n g (recent t (map fst h))) < g"
      using take_sound [OF k True] v by simp
    then have "last_n g (recent t (map fst h) @ [(t, c)]) = recent t (map fst h) @ [(t, c)]"
      by (intro last_n_id) simp
    moreover have "last_n g (recent t (map fst h)) = recent t (map fst h)"
      by (rule last_n_all [OF l])
    ultimately show ?thesis
      using True Try k s v take_ok [OF k] take_view [OF k, of c] sorted_history [OF s]
      by (simp add: tracks_def)
  next
    case False
    then show ?thesis using Try k s v take_ok [OF k] take_view [OF k, of c] by (simp add: tracks_def)
  qed
next
  case (Overrun c)
  have k: "ok w t" and s: "sorted (map fst (map fst h))" "list_all (\<lambda>s. fst (fst s) \<le> t) h"
    and v: "recent t (view w) = last_n g (recent t (map fst h))"
    using assms by (simp_all add: tracks_def)
  have "recent t (view (fc w t c)) = last_n g (recent t (map fst (h @ [((t, c), False)])))"
    using force_view [OF k, of c] v room by (simp add: last_n_snoc_last)
  then show ?thesis using Overrun s k force_ok [OF k] sorted_history [OF s] by (simp add: tracks_def)
qed

lemma claim_under:
  assumes "tracks (w, h) t" and "fst (tk w t c)"
  shows "under g cl h (t, c)"
proof -
  have k: "ok w t" and v: "recent t (view w) = last_n g (recent t (map fst h))"
    using assms(1) by (simp_all add: tracks_def)
  have "length (last_n g (recent t (map fst h))) < g"
    using take_sound [OF k assms(2)] v by simp
  from last_n_all [OF this] show ?thesis
    using take_sound [OF k assms(2)] v by (simp add: under_def)
qed

theorem run_obeys:
  assumes "ok w t0" and "view w = []" and "sorted (t0 # map fst es)"
  shows "obeys g cl [] (snd (send_run tk fc w es))"
proof -
  have "obeys g cl [] (snd (send_run tk fc w es)) \<and>
        tracks (send_run tk fc w es) (last (t0 # map fst es))"
    using assms(3)
  proof (induction es rule: rev_induct)
    case Nil
    then show ?case using assms(1,2) by (simp add: send_run_def tracks_def recent_def last_n_def)
  next
    case (snoc e es)
    obtain w' h where r: "send_run tk fc w es = (w', h)" by fastforce
    obtain t ev where e: "e = (t, ev)" by (cases e)
    have "last (t0 # map fst es) \<in> set (t0 # map fst es)" by (rule last_in_set) simp
    then have le: "last (t0 # map fst es) \<le> t" and so: "sorted (t0 # map fst es)"
      using snoc.prems e by (auto simp: sorted_append)
    have IH: "obeys g cl [] h" "tracks (w', h) (last (t0 # map fst es))"
      using snoc.IH [OF so] r by simp_all
    have tr: "tracks (w', h) t" by (rule tracks_later [OF IH(2) le])
    have "send_run tk fc w (es @ [e]) = send_step tk fc (w', h) (t, ev)"
      using r e by (simp add: send_run_def)
    moreover have "obeys g cl [] (snd (send_step tk fc (w', h) (t, ev)))"
      using IH(1) claim_under [OF tr] by (cases ev) (auto simp: obeys_snoc)
    ultimately show ?case using step_tracks [OF tr, of ev] e by simp
  qed
  then show ?thesis ..
qed

end

section \<open>The window of one process\<close>

text \<open>\<^verbatim>\<open>_limit\<close>: at least one, whatever fraction of a request a minute was asked for.\<close>

definition limit_of :: "rat \<Rightarrow> int" where
  "limit_of rpm = max 1 (if rpm < 0 then - \<lfloor>- rpm\<rfloor> else \<lfloor>rpm\<rfloor>)"

definition trim_locked :: "rat \<Rightarrow> send list \<Rightarrow> send list" where
  "trim_locked now sends = dropWhile (\<lambda>s. fst s \<le> now - 60) sends"

text \<open>The seconds to wait when a window is full: until the oldest send of every binding
  window has aged out. A full window of a positive capacity has an oldest send.\<close>

definition oldest :: "send list \<Rightarrow> rat option" where
  "oldest xs = (case xs of [] \<Rightarrow> None | s # _ \<Rightarrow> Some (fst s))"

definition waits :: "rat \<Rightarrow> bool \<Rightarrow> bool \<Rightarrow> rat option \<Rightarrow> rat option \<Rightarrow> rat list" where
  "waits now global_ok cat_ok og oc =
     (if global_ok then [] else (case og of None \<Rightarrow> [] | Some t \<Rightarrow> [t + 60 - now])) @
     (if cat_ok then [] else (case oc of None \<Rightarrow> [] | Some t \<Rightarrow> [t + 60 - now]))"

definition longest :: "rat list \<Rightarrow> rat" where
  "longest ws = (if ws = [] then 0 else max 0 (foldl max (hd ws) (tl ws)))"

definition take_local :: "int \<Rightarrow> int \<Rightarrow> rat \<Rightarrow> cat \<Rightarrow> send list \<Rightarrow> (bool \<times> rat) \<times> send list" where
  "take_local glimit climit now c sends =
     (let xs = trim_locked now sends;
          n = int (length xs);
          nc = (if climit > 0 then int (length (of_cat c xs)) else 0);
          global_ok = (glimit \<le> 0 \<or> n < glimit);
          cat_ok = (climit \<le> 0 \<or> nc < climit)
      in if global_ok \<and> cat_ok then ((True, 0), xs @ [(now, c)])
         else ((False, longest (waits now global_ok cat_ok (oldest xs) (oldest (of_cat c xs)))), xs))"

text \<open>\<^verbatim>\<open>_force_take\<close> on this process's list; \<open>forced_cap\<close> is its cap.\<close>

definition forced_cap :: "rat \<Rightarrow> int" where
  "forced_cap rpm = (if rpm > 0 then limit_of rpm else 1000000000)"

definition force_local :: "int \<Rightarrow> rat \<Rightarrow> cat \<Rightarrow> send list \<Rightarrow> send list" where
  "force_local cap now c sends =
     (let xs = sends @ [(now, c)]
      in if cap < int (length xs) then drop (nat (int (length xs) - cap)) xs else xs)"

section \<open>The window of the machine\<close>

text \<open>\<^verbatim>\<open>DELETE FROM sends WHERE ts <= now - 60 OR ts > now + 1\<close>.\<close>

definition prune :: "rat \<Rightarrow> send list \<Rightarrow> send list" where
  "prune now rows = filter (\<lambda>s. \<not> (fst s \<le> now - 60 \<or> fst s > now + 1)) rows"

definition count_rows :: "rat \<Rightarrow> cat option \<Rightarrow> send list \<Rightarrow> int" where
  "count_rows now c rows =
     (let xs = filter (\<lambda>s. fst s > now - 60 \<and> fst s \<le> now + 1) rows
      in case c of None \<Rightarrow> int (length xs) | Some k \<Rightarrow> int (length (of_cat k xs)))"

text \<open>\<^verbatim>\<open>SELECT MIN(ts)\<close>: the null of an empty table is \<open>None\<close>.\<close>

definition min_ts :: "send list \<Rightarrow> rat option" where
  "min_ts rows = (case map fst rows of [] \<Rightarrow> None | t # ts \<Rightarrow> Some (foldl min t ts))"

definition binding_wait :: "rat \<Rightarrow> bool \<Rightarrow> bool \<Rightarrow> cat \<Rightarrow> send list \<Rightarrow> rat option" where
  "binding_wait now global_ok cat_ok c rows =
     (case waits now global_ok cat_ok (min_ts rows) (min_ts (of_cat c rows)) of
        [] \<Rightarrow> None
      | w # ws \<Rightarrow> Some (foldl max w ws))"

text \<open>The transaction of \<^verbatim>\<open>take\<close>, on a store that answers.\<close>

definition take_rows :: "int \<Rightarrow> int \<Rightarrow> rat \<Rightarrow> cat \<Rightarrow> send list \<Rightarrow> (bool \<times> rat) \<times> send list" where
  "take_rows limit cat_limit now c rows =
     (let xs = prune now rows;
          n = int (length xs);
          nc = (if cat_limit > 0 then int (length (of_cat c xs)) else 0);
          global_ok = (limit \<le> 0 \<or> n < limit);
          cat_ok = (cat_limit \<le> 0 \<or> nc < cat_limit)
      in if global_ok \<and> cat_ok then ((True, 0), xs @ [(now, c)])
         else ((False, case binding_wait now global_ok cat_ok c xs of None \<Rightarrow> 0 | Some w \<Rightarrow> max 0 w), xs))"

text \<open>\<^verbatim>\<open>DELETE ... WHERE rowid IN (SELECT rowid ... ORDER BY ts DESC LIMIT -1 OFFSET k)\<close>.\<close>

definition keep_newest :: "nat \<Rightarrow> send list \<Rightarrow> send list" where
  "keep_newest k rows = fold remove1 (take (length rows - k) (sort_key fst rows)) rows"

definition force_rows :: "int \<Rightarrow> rat \<Rightarrow> cat \<Rightarrow> send list \<Rightarrow> send list" where
  "force_rows limit now c rows = keep_newest (nat (max 1 limit)) (prune now rows @ [(now, c)])"

section \<open>Both are windows\<close>

definition in_order :: "send list \<Rightarrow> rat \<Rightarrow> bool" where
  "in_order w t \<longleftrightarrow> sorted (map fst w) \<and> list_all (\<lambda>s. fst s \<le> t) w"

lemma in_order_Nil [simp]: "in_order [] t"
  by (simp add: in_order_def)

lemma in_order_sorted: "in_order w t \<Longrightarrow> sorted (map fst w)"
  by (simp add: in_order_def)

lemma in_order_later: "in_order w t \<Longrightarrow> t \<le> u \<Longrightarrow> in_order w u"
  by (auto simp: in_order_def list_all_iff)

lemma in_order_snoc: "in_order w t \<Longrightarrow> in_order (w @ [(t, c)]) t"
  by (auto simp: in_order_def list_all_iff sorted_append)

lemma in_order_recent: "in_order w t \<Longrightarrow> in_order (recent t w) t"
  by (auto simp: in_order_def list_all_iff recent_def sorted_filter)

lemma in_order_drop: "in_order w t \<Longrightarrow> in_order (drop n w) t"
  by (auto simp: in_order_def list_all_iff drop_map [symmetric] sorted_wrt_drop dest: in_set_dropD)

lemma trim_recent: "sorted (map fst w) \<Longrightarrow> trim_locked t w = recent t w"
proof (induction w)
  case (Cons s w)
  then show ?case
  proof (cases "fst s \<le> t - 60")
    case False
    then have "recent t (s # w) = s # w"
      using Cons.prems by (fastforce simp: recent_def filter_id_conv)
    then show ?thesis using False by (simp add: trim_locked_def)
  qed (simp add: trim_locked_def recent_def)
qed (simp add: trim_locked_def recent_def)

lemma prune_recent: "in_order w t \<Longrightarrow> prune t w = recent t w"
  unfolding prune_def recent_def in_order_def list_all_iff
  by (rule filter_cong) fastforce+

lemma remove_oldest: "fold remove1 (take n xs) xs = drop n xs"
proof (induction n arbitrary: xs)
  case (Suc n)
  then show ?case by (cases xs) simp_all
qed simp

lemma sort_key_sorted: "sorted (map f xs) \<Longrightarrow> sort_key f xs = xs"
  by (induction xs) (simp_all add: insort_is_Cons)

lemma keep_newest_sorted: "sorted (map fst xs) \<Longrightarrow> keep_newest k xs = last_n k xs"
  by (simp add: keep_newest_def sort_key_sorted remove_oldest last_n_def)

lemma force_local_last_n: "force_local (int n) t c w = last_n n (w @ [(t, c)])"
proof -
  have "nat (int (Suc (length w)) - int n) = Suc (length w) - n" by (simp add: nat_diff_distrib')
  then show ?thesis by (auto simp: force_local_def last_n_def Let_def)
qed

lemma take_local_window:
  assumes "in_order w t" and "0 < g"
  shows "snd (take_local (int g) (int k) t c w) =
      recent t w @ (if fst (fst (take_local (int g) (int k) t c w)) then [(t, c)] else [])"
    and "fst (fst (take_local (int g) (int k) t c w)) \<longleftrightarrow>
      length (recent t w) < g \<and> (0 < k \<longrightarrow> length (of_cat c (recent t w)) < k)"
  using assms by (auto simp: take_local_def Let_def in_order_def trim_recent)

lemma take_rows_window:
  assumes "in_order w t" and "0 < g"
  shows "snd (take_rows (int g) (int k) t c w) =
      recent t w @ (if fst (fst (take_rows (int g) (int k) t c w)) then [(t, c)] else [])"
    and "fst (fst (take_rows (int g) (int k) t c w)) \<longleftrightarrow>
      length (recent t w) < g \<and> (0 < k \<longrightarrow> length (of_cat c (recent t w)) < k)"
  using assms by (auto simp: take_rows_def Let_def prune_recent)

text \<open>The two operations of either window, as the limiter calls them with fixed ceilings.\<close>

definition local_take :: "nat \<Rightarrow> (cat \<Rightarrow> nat) \<Rightarrow> send list \<Rightarrow> rat \<Rightarrow> cat \<Rightarrow> bool \<times> send list" where
  "local_take g cl w t c = (let r = take_local (int g) (int (cl c)) t c w in (fst (fst r), snd r))"

definition local_force :: "nat \<Rightarrow> send list \<Rightarrow> rat \<Rightarrow> cat \<Rightarrow> send list" where
  "local_force g w t c = force_local (int g) t c w"

definition shared_take :: "nat \<Rightarrow> (cat \<Rightarrow> nat) \<Rightarrow> send list \<Rightarrow> rat \<Rightarrow> cat \<Rightarrow> bool \<times> send list" where
  "shared_take g cl w t c = (let r = take_rows (int g) (int (cl c)) t c w in (fst (fst r), snd r))"

definition shared_force :: "nat \<Rightarrow> send list \<Rightarrow> rat \<Rightarrow> cat \<Rightarrow> send list" where
  "shared_force g w t c = force_rows (int g) t c w"

lemma local_take_eq:
  assumes "in_order w t" and "0 < g"
  shows "local_take g cl w t c =
    (let xs = recent t w; b = (length xs < g \<and> (0 < cl c \<longrightarrow> length (of_cat c xs) < cl c))
     in (b, xs @ (if b then [(t, c)] else [])))"
  using take_local_window [OF assms, of "cl c" c]
  by (simp add: local_take_def Let_def)

lemma shared_take_eq:
  assumes "in_order w t" and "0 < g"
  shows "shared_take g cl w t c =
    (let xs = recent t w; b = (length xs < g \<and> (0 < cl c \<longrightarrow> length (of_cat c xs) < cl c))
     in (b, xs @ (if b then [(t, c)] else [])))"
  using take_rows_window [OF assms, of "cl c" c]
  by (simp add: shared_take_def Let_def)

lemma recent_id [simp]: "recent t (recent t w) = recent t w"
  by (rule recent_idem) simp

lemma shared_force_eq:
  "in_order w t \<Longrightarrow> 0 < g \<Longrightarrow> shared_force g w t c = last_n g (recent t w @ [(t, c)])"
  using in_order_snoc [OF in_order_recent, of w t c]
  by (simp add: shared_force_def force_rows_def prune_recent keep_newest_sorted in_order_def max_def)

lemma in_order_last_n: "in_order w t \<Longrightarrow> in_order (last_n n w) t"
  by (simp add: last_n_def in_order_drop)

interpretation local_win: send_window "\<lambda>w. w" "local_take (Suc n) cl" "local_force (Suc n)"
    in_order "Suc n" cl for n cl
proof
  fix w t c
  assume k: "in_order w t"
  show "in_order (snd (local_take (Suc n) cl w t c)) t"
    using k by (auto simp: local_take_eq Let_def intro: in_order_recent in_order_snoc)
  show "in_order (local_force (Suc n) w t c) t"
    using in_order_last_n [OF in_order_snoc [OF k]] by (simp only: local_force_def force_local_last_n)
  show "recent t (snd (local_take (Suc n) cl w t c)) =
      recent t w @ (if fst (local_take (Suc n) cl w t c) then [(t, c)] else [])"
    using k by (simp add: local_take_eq Let_def)
  show "recent t (local_force (Suc n) w t c) = last_n (Suc n) (recent t w @ [(t, c)])"
    using in_order_snoc [OF k, of c]
    by (simp only: local_force_def force_local_last_n recent_last_n in_order_sorted recent_append recent_now)
qed (auto simp: local_take_eq Let_def intro: in_order_later in_order_sorted)

interpretation shared_win: send_window "\<lambda>w. w" "shared_take (Suc n) cl" "shared_force (Suc n)"
    in_order "Suc n" cl for n cl
proof
  fix w t c
  assume k: "in_order w t"
  show "in_order (snd (shared_take (Suc n) cl w t c)) t"
    using k by (auto simp: shared_take_eq Let_def intro: in_order_recent in_order_snoc)
  show "in_order (shared_force (Suc n) w t c) t"
    using in_order_last_n [OF in_order_snoc [OF in_order_recent [OF k]]] k by (simp add: shared_force_eq)
  show "recent t (snd (shared_take (Suc n) cl w t c)) =
      recent t w @ (if fst (shared_take (Suc n) cl w t c) then [(t, c)] else [])"
    using k by (simp add: shared_take_eq Let_def)
  show "recent t (shared_force (Suc n) w t c) = last_n (Suc n) (recent t w @ [(t, c)])"
    using in_order_snoc [OF in_order_recent [OF k], of c] k
    by (simp add: shared_force_eq recent_last_n in_order_def)
qed (auto simp: shared_take_eq Let_def intro: in_order_later in_order_sorted)

section \<open>The ceiling\<close>

text \<open>C3. On one machine, however the processes interleave their attempts and their
  overruns, the shared window lets at most \<open>limit\<close> sends of any kind, and at most the
  category's ceiling of one category, through in any 60 seconds; each of them saw fewer than
  that many sends, overruns counted, in the minute before it.\<close>

theorem machine_ceiling:
  assumes "0 < limit" and "sorted (map fst es)"
    and "h = snd (send_run (shared_take limit cl) (shared_force limit) [] es)"
  shows "obeys limit cl [] h \<and> length (admitted u h) \<le> limit \<and>
    (cl c = 0 \<or> length (of_cat c (admitted u h)) \<le> cl c)"
proof -
  obtain n where n: "limit = Suc n" using assms(1) gr0_implies_Suc by blast
  have "sorted (Min (insert 0 (fst ` set es)) # map fst es)"
    using assms(2) by auto
  from shared_win.run_obeys [OF in_order_Nil refl this, of n cl] have "obeys limit cl [] h"
    using n assms(3) by simp
  with admitted_ceiling [OF this] show ?thesis by auto
qed

theorem machine_ceiling_witness:
  "length (admitted 70 (snd (send_run (shared_take 2 (\<lambda>_. 0)) (shared_force 2) []
     [(0, Try ''chat''), (20, Overrun ''chat''), (30, Try ''chat''), (65, Try ''chat'')]))) \<le> 2"
  using machine_ceiling [of 2 "[(0, Try ''chat''), (20, Overrun ''chat''), (30, Try ''chat''), (65, Try ''chat'')]"
      _ "\<lambda>_. 0", OF _ _ refl] by simp

text \<open>The window of one process, the fallback of a machine without a shared store, keeps
  the same two ceilings.\<close>

theorem process_ceiling:
  assumes "0 < limit" and "sorted (map fst es)"
    and "h = snd (send_run (local_take limit cl) (local_force limit) [] es)"
  shows "obeys limit cl [] h \<and> length (admitted u h) \<le> limit \<and>
    (cl c = 0 \<or> length (of_cat c (admitted u h)) \<le> cl c)"
proof -
  obtain n where n: "limit = Suc n" using assms(1) gr0_implies_Suc by blast
  have "sorted (Min (insert 0 (fst ` set es)) # map fst es)"
    using assms(2) by auto
  from local_win.run_obeys [OF in_order_Nil refl this, of n cl] have "obeys limit cl [] h"
    using n assms(3) by simp
  with admitted_ceiling [OF this] show ?thesis by auto
qed

theorem process_ceiling_witness:
  "length (admitted 70 (snd (send_run (local_take 2 (\<lambda>_. 1)) (local_force 2) []
     [(0, Try ''chat''), (20, Overrun ''chat''), (30, Try ''compaction''), (65, Try ''chat'')]))) \<le> 2"
  using process_ceiling [of 2 "[(0, Try ''chat''), (20, Overrun ''chat''), (30, Try ''compaction''), (65, Try ''chat'')]"
      _ "\<lambda>_. 1", OF _ _ refl] by simp

section \<open>Waiting as long as told\<close>

lemma foldl_min: "foldl min (t::rat) ts \<in> set (t # ts) \<and> (\<forall>x \<in> set (t # ts). foldl min t ts \<le> x)"
proof (induction ts arbitrary: t)
  case (Cons u ts)
  from Cons [of "min t u"] show ?case by (auto simp: min_def split: if_splits)
qed simp

lemma min_ts_spec:
  assumes "rows \<noteq> []"
  obtains m where "min_ts rows = Some m" and "m \<in> fst ` set rows"
proof -
  obtain t ts where tt: "map fst rows = t # ts" using assms by (cases rows) auto
  have "foldl min t ts \<in> set (map fst rows)" using foldl_min [of t ts] tt by simp
  then have "foldl min t ts \<in> fst ` set rows" by (simp only: set_map)
  then show thesis using tt by (intro that [of "foldl min t ts"]) (simp_all add: min_ts_def)
qed

lemma prune_drops:
  assumes "m \<in> fst ` set xs" and "m \<le> t - 60"
  shows "length (prune t xs) < length xs"
proof -
  obtain s where "s \<in> set xs" "fst s = m" using assms(1) by blast
  then show ?thesis using assms(2) unfolding prune_def by (intro length_filter_less) auto
qed

lemma of_cat_prune: "of_cat c (prune t xs) = prune t (of_cat c xs)"
  by (simp add: of_cat_def prune_def conj_commute)

lemma prune_bounds: "s \<in> set (prune t rows) \<Longrightarrow> t - 60 < fst s \<and> fst s \<le> t + 1"
  by (auto simp: prune_def)

lemma oldest_wait:
  assumes "ys \<noteq> []" and "set ys \<subseteq> set (prune now rows)"
  obtains m where "min_ts ys = Some m" and "m \<in> fst ` set ys" and "0 < m + 60 - now" and "m + 60 - now \<le> 61"
proof -
  obtain m where m: "min_ts ys = Some m" "m \<in> fst ` set ys" using min_ts_spec [OF assms(1)] by blast
  then obtain s where "s \<in> set (prune now rows)" "fst s = m" using assms(2) by blast
  from prune_bounds [OF this(1)] this(2) m show thesis by (intro that [of m]) simp_all
qed

lemma take_rows_granted:
  assumes "limit \<le> 0 \<or> int (length (prune t xs)) < limit"
    and "k \<le> 0 \<or> int (length (of_cat c (prune t xs))) < k"
  shows "fst (take_rows limit k t c xs) = (True, 0)"
  using assms by (auto simp: take_rows_def Let_def)

lemma prune_shorter: "length (prune t xs) \<le> length xs"
  by (simp add: prune_def)

lemma refused_wait:
  assumes "take_rows limit k now c rows = ((False, w), xs)"
  obtains gok cok where
    "xs = prune now rows" "gok = (limit \<le> 0 \<or> int (length xs) < limit)"
    "cok = (k \<le> 0 \<or> int (length (of_cat c xs)) < k)" "\<not> (gok \<and> cok)"
    "w = (case binding_wait now gok cok c xs of None \<Rightarrow> 0 | Some w \<Rightarrow> max 0 w)"
proof (rule that [OF _ refl refl])
  show x: "xs = prune now rows"
    using assms by (auto simp: take_rows_def Let_def split: if_splits)
  have e: "(if k > 0 then int (length (of_cat c xs)) else 0) < k \<or> k \<le> 0 \<longleftrightarrow>
      k \<le> 0 \<or> int (length (of_cat c xs)) < k" by auto
  show "\<not> ((limit \<le> 0 \<or> int (length xs) < limit) \<and> (k \<le> 0 \<or> int (length (of_cat c xs)) < k))"
    using assms by (auto simp: take_rows_def Let_def split: if_splits)
  show "w = (case binding_wait now (limit \<le> 0 \<or> int (length xs) < limit)
      (k \<le> 0 \<or> int (length (of_cat c xs)) < k) c xs of None \<Rightarrow> 0 | Some w \<Rightarrow> max 0 w)"
    using assms unfolding x by (cases "0 < k") (auto simp: take_rows_def Let_def split: if_splits)
qed

text \<open>A refusal's wait, and that the oldest send of a full window has left it by then.\<close>

lemma refused_bounds:
  assumes "take_rows limit k now c rows = ((False, w), xs)"
  shows "0 < w \<and> w \<le> 61 \<and>
      (\<not> (limit \<le> 0 \<or> int (length xs) < limit) \<longrightarrow> (\<exists>m. m \<in> fst ` set xs \<and> m \<le> now + w - 60)) \<and>
      (\<not> (k \<le> 0 \<or> int (length (of_cat c xs)) < k) \<longrightarrow>
        (\<exists>m. m \<in> fst ` set (of_cat c xs) \<and> m \<le> now + w - 60))"
proof -
  obtain gok cok where x: "xs = prune now rows"
    and gok: "gok = (limit \<le> 0 \<or> int (length xs) < limit)"
    and cok: "cok = (k \<le> 0 \<or> int (length (of_cat c xs)) < k)" and full: "\<not> (gok \<and> cok)"
    and w: "w = (case binding_wait now gok cok c xs of None \<Rightarrow> 0 | Some w \<Rightarrow> max 0 w)"
    using refused_wait [OF assms] by metis
  have g: "\<exists>m. min_ts xs = Some m \<and> m \<in> fst ` set xs \<and> 0 < m + 60 - now \<and> m + 60 - now \<le> 61" if "\<not> gok"
  proof -
    have "xs \<noteq> []" using that gok by auto
    with oldest_wait [of xs now rows] x show ?thesis by blast
  qed
  have c: "\<exists>m. min_ts (of_cat c xs) = Some m \<and> m \<in> fst ` set (of_cat c xs)
      \<and> 0 < m + 60 - now \<and> m + 60 - now \<le> 61" if "\<not> cok"
  proof -
    have "of_cat c xs \<noteq> []" using that cok by auto
    moreover have "set (of_cat c xs) \<subseteq> set (prune now rows)" using x by (auto simp: of_cat_def)
    ultimately show ?thesis using oldest_wait [of "of_cat c xs" now rows] by blast
  qed
  have "0 < w \<and> w \<le> 61 \<and>
      (\<not> gok \<longrightarrow> (\<exists>m. m \<in> fst ` set xs \<and> m \<le> now + w - 60)) \<and>
      (\<not> cok \<longrightarrow> (\<exists>m. m \<in> fst ` set (of_cat c xs) \<and> m \<le> now + w - 60))"
  proof (cases gok)
    case True
    then have "\<not> cok" using full by blast
    from c [OF this] obtain l where l: "min_ts (of_cat c xs) = Some l" "l \<in> fst ` set (of_cat c xs)"
      "0 < l + 60 - now" "l + 60 - now \<le> 61" by blast
    have "w = l + 60 - now"
      using w l(1,3) True \<open>\<not> cok\<close> by (simp add: binding_wait_def waits_def)
    then show ?thesis using l(2-4) True by (intro conjI impI exI [of _ l]) simp_all
  next
    case False
    from g [OF this] obtain m where m: "min_ts xs = Some m" "m \<in> fst ` set xs"
      "0 < m + 60 - now" "m + 60 - now \<le> 61" by blast
    show ?thesis
    proof (cases cok)
      case True
      have "w = m + 60 - now"
        using w m(1,3) False True by (simp add: binding_wait_def waits_def)
      then show ?thesis using m True by auto
    next
      case cf: False
      from c [OF this] obtain l where l: "min_ts (of_cat c xs) = Some l" "l \<in> fst ` set (of_cat c xs)"
        "0 < l + 60 - now" "l + 60 - now \<le> 61" by blast
      have "w = max (m + 60 - now) (l + 60 - now)"
        using w m(1,3) l(1,3) False cf by (simp add: binding_wait_def waits_def)
      then show ?thesis using m(2-4) l(2-4)
        by (intro conjI impI exI [of _ m] exI [of _ l]) (auto simp: max_def)
    qed
  qed
  then show ?thesis unfolding gok cok .
qed

lemma room_later:
  assumes "cap \<le> 0 \<or> int (length ys) \<le> cap"
    and "\<not> (cap \<le> 0 \<or> int (length ys) < cap) \<longrightarrow> (\<exists>m. m \<in> fst ` set ys \<and> m \<le> t - 60)"
  shows "cap \<le> 0 \<or> int (length (prune t ys)) < cap"
proof (cases "cap \<le> 0 \<or> int (length ys) < cap")
  case True
  then show ?thesis using prune_shorter [of t ys] by linarith
next
  case False
  then obtain m where "m \<in> fst ` set ys" "m \<le> t - 60" using assms(2) by blast
  from prune_drops [OF this] show ?thesis using assms(1) by linarith
qed

text \<open>A refusal names a wait of more than 0 and at most 61 seconds, whatever clock wrote
  the rows; and a caller who waits exactly that long finds room, unless somebody else sent or
  the ceilings were lowered.\<close>

theorem wait_suffices:
  assumes "take_rows limit k now c rows = ((False, w), xs)"
    and "limit \<le> 0 \<or> int (length xs) \<le> limit"
    and "k \<le> 0 \<or> int (length (of_cat c xs)) \<le> k"
  shows "0 < w \<and> w \<le> 61 \<and> fst (take_rows limit k (now + w) c xs) = (True, 0)"
proof -
  note b = refused_bounds [OF assms(1)]
  have "limit \<le> 0 \<or> int (length (prune (now + w) xs)) < limit"
    using b by (intro room_later [OF assms(2)]) blast
  moreover have "k \<le> 0 \<or> int (length (of_cat c (prune (now + w) xs))) < k"
    unfolding of_cat_prune using b by (intro room_later [OF assms(3)]) blast
  ultimately show ?thesis using b by (simp add: take_rows_granted)
qed

theorem wait_suffices_witness:
  "fst (take_rows 2 1 (10 + 50) ''chat'' [(0, ''chat''), (5, ''compaction'')]) = (True, 0)"
  using wait_suffices [of 2 1 10 "''chat''" "[(0, ''chat''), (5, ''compaction'')]" 50
      "[(0, ''chat''), (5, ''compaction'')]"]
  by (simp add: take_rows_def prune_def of_cat_def binding_wait_def waits_def min_ts_def)

end
