(* ===== verification/Shared_Store.thy ===== *)
theory Shared_Store
  imports Rate_Window
begin

text \<open>
  The store behind the machine's window, \<^verbatim>\<open>aiforge_core/llm/_shared_window.py\<close> and
  \<^verbatim>\<open>_shared_window_holds.py\<close>: what an entry point answers when the store cannot be
  opened, is locked by another process, is broken, or works; how failures degrade it; and the
  holds a 429 leaves for every process.

  How the store answers one call is an argument, \<open>answer\<close>. The text of an SQLite error
  (\<^verbatim>\<open>_busy\<close> reads it), the connection cached per thread and the retries while the
  file is created (\<^verbatim>\<open>_init\<close>) are not modelled: a connection that failed is dropped
  and opened again. Within one call the clock is read once.
\<close>

section \<open>Failures\<close>

record health =
  fails :: nat
  total_fails :: nat
  cold_until :: rat
  warned :: bool

definition new_health :: health where
  "new_health = \<lparr>fails = 0, total_fails = 0, cold_until = 0, warned = False\<rparr>"

definition fail_limit :: nat where
  "fail_limit = 3"

definition cooldown_s :: rat where
  "cooldown_s = 60"

text \<open>\<^verbatim>\<open>_degrade\<close>: was the warning printed, and the state after it.\<close>

definition degrade :: "rat \<Rightarrow> health \<Rightarrow> bool \<times> health" where
  "degrade now h =
     (let f = Suc (fails h); tf = Suc (total_fails h);
          say = (\<not> warned h \<and> fail_limit \<le> tf);
          h1 = h\<lparr>fails := f, total_fails := tf, warned := (warned h \<or> say)\<rparr>
      in (say, if f < fail_limit then h1 else h1\<lparr>cold_until := now + cooldown_s, fails := 0\<rparr>))"

definition healthy :: "health \<Rightarrow> health" where
  "healthy h = h\<lparr>fails := 0\<rparr>"

definition cold :: "rat \<Rightarrow> health \<Rightarrow> bool" where
  "cold now h \<longleftrightarrow> now < cold_until h"

section \<open>The store and its answers\<close>

datatype answer = Unopened | Busy | Broken | Works

record store =
  rows :: "send list"
  holds :: "string \<Rightarrow> rat option"
  health :: health

definition new_store :: store where
  "new_store = \<lparr>rows = [], holds = (\<lambda>_. None), health = new_health\<rparr>"

definition failed :: "rat \<Rightarrow> store \<Rightarrow> store" where
  "failed now s = s\<lparr>health := snd (degrade now (health s))\<rparr>"

definition served :: "store \<Rightarrow> store" where
  "served s = s\<lparr>health := healthy (health s)\<rparr>"

text \<open>\<^verbatim>\<open>_conn\<close>: a cold store is not tried; one that does not open counts as a failure.\<close>

definition conn :: "rat \<Rightarrow> answer \<Rightarrow> store \<Rightarrow> bool \<times> store" where
  "conn now a s =
     (if cold now (health s) then (False, s)
      else if a = Unopened then (False, failed now s)
      else (True, s))"

text \<open>An exception of the store: contention is not a failure.\<close>

definition raised :: "rat \<Rightarrow> answer \<Rightarrow> store \<Rightarrow> store" where
  "raised now a s = (if a = Busy then s else failed now s)"

definition enabled :: "env \<Rightarrow> bool" where
  "enabled e \<longleftrightarrow>
     lower (strip (env_get e ''AIFORGE_LLM_SHARED_WINDOW'' ''1'')) \<notin> {''0'', ''false'', ''no'', ''off''}"

definition count :: "rat \<Rightarrow> cat option \<Rightarrow> answer \<Rightarrow> store \<Rightarrow> int option \<times> store" where
  "count now c a s =
     (let (up, s1) = conn now a s in
      if \<not> up then (None, s1)
      else if a \<noteq> Works then (None, raised now a s1)
      else (Some (count_rows now c (rows s1)), served s1))"

definition take_store :: "int \<Rightarrow> rat \<Rightarrow> cat \<Rightarrow> int \<Rightarrow> answer \<Rightarrow> store \<Rightarrow> (bool \<times> rat) option \<times> store" where
  "take_store limit now c cat_limit a s =
     (let (up, s1) = conn now a s in
      if \<not> up then (None, s1)
      else if a = Busy then (Some (False, 5 / 100), s1)
      else if a \<noteq> Works then (None, failed now s1)
      else (let (r, xs) = take_rows limit cat_limit now c (rows s1) in (Some r, served (s1\<lparr>rows := xs\<rparr>))))"

definition force_store :: "int \<Rightarrow> rat \<Rightarrow> cat \<Rightarrow> answer \<Rightarrow> store \<Rightarrow> bool \<times> store" where
  "force_store limit now c a s =
     (let (up, s1) = conn now a s in
      if \<not> up then (False, s1)
      else if a \<noteq> Works then (False, raised now a s1)
      else (True, served (s1\<lparr>rows := force_rows limit now c (rows s1)\<rparr>)))"

text \<open>\<^verbatim>\<open>writable\<close> probes the write path; a busy store is alive.\<close>

definition writable :: "rat \<Rightarrow> answer \<Rightarrow> store \<Rightarrow> bool \<times> store" where
  "writable now a s =
     (let (up, s1) = conn now a s in
      if \<not> up then (False, s1)
      else if a = Works then (True, s1\<lparr>rows := filter (\<lambda>r. \<not> fst r < 0) (rows s1)\<rparr>)
      else (a = Busy, s1))"

definition reset_store :: "bool \<Rightarrow> answer \<Rightarrow> store \<Rightarrow> store" where
  "reset_store on_disk a s =
     (let s0 = s\<lparr>health := new_health\<rparr> in
      if \<not> on_disk then s0
      else (let (up, s1) = conn 0 a s0 in
            if up \<and> a = Works then s1\<lparr>rows := [], holds := (\<lambda>_. None)\<rparr> else s1))"

section \<open>Holds\<close>

definition max_hold_s :: rat where
  "max_hold_s = 3600"

definition default_cap_s :: rat where
  "default_cap_s = 60"

definition cap_of :: "rat option \<Rightarrow> rat" where
  "cap_of cap =
     (let c = (case cap of None \<Rightarrow> 0 | Some x \<Rightarrow> x);
          c' = (if c \<le> 0 then default_cap_s else c)
      in min (c' * (3 / 2) + 5) max_hold_s)"

text \<open>The upsert clamps both the row that is there and the row that comes.\<close>

definition set_hold :: "string \<Rightarrow> rat \<Rightarrow> rat option \<Rightarrow> rat \<Rightarrow> answer \<Rightarrow> store \<Rightarrow> store" where
  "set_hold k until_ts cap now a s =
     (let (up, s1) = conn now a s; lim = cap_of cap; u = min until_ts (now + lim) in
      if \<not> up then s1
      else if a \<noteq> Works then raised now a s1
      else s1\<lparr>holds := (holds s1)(k \<mapsto>
             (case holds s1 k of None \<Rightarrow> u | Some old \<Rightarrow> max (min old (now + lim)) u))\<rparr>)"

text \<open>\<^verbatim>\<open>SELECT MAX(until) FROM holds WHERE k IN (...)\<close>.\<close>

fun max_hold :: "(string \<Rightarrow> rat option) \<Rightarrow> string list \<Rightarrow> rat option" where
  "max_hold h [] = None"
| "max_hold h (k # ks) =
     (case (h k, max_hold h ks) of
        (None, r) \<Rightarrow> r
      | (Some u, None) \<Rightarrow> Some u
      | (Some u, Some v) \<Rightarrow> Some (max u v))"

definition drop_late :: "rat \<Rightarrow> (string \<Rightarrow> rat option) \<Rightarrow> string \<Rightarrow> rat option" where
  "drop_late t h k = (case h k of None \<Rightarrow> None | Some u \<Rightarrow> if u > t then None else Some u)"

definition drop_poisoned_hold ::
  "string list \<Rightarrow> rat \<Rightarrow> rat option \<Rightarrow> rat \<Rightarrow> answer \<Rightarrow> store \<Rightarrow> rat \<times> store" where
  "drop_poisoned_hold ks now cap left a s =
     (if a = Busy then (max 0 (min left (cap_of cap)), s)
      else if a \<noteq> Works then (0, s)
      else (let s1 = s\<lparr>holds := drop_late (now + cap_of cap) (holds s)\<rparr> in
            (case max_hold (holds s1) ks of
               None \<Rightarrow> (0, s1)
             | Some u \<Rightarrow> (max 0 (min (u - now) (cap_of cap)), s1))))"

text \<open>The two statements of \<^verbatim>\<open>hold_left\<close> may fare differently: \<open>a\<close> answers the query
  and \<open>a'\<close> the clean-up.\<close>

definition hold_left ::
  "string list \<Rightarrow> rat \<Rightarrow> rat option \<Rightarrow> answer \<Rightarrow> answer \<Rightarrow> store \<Rightarrow> rat option \<times> store" where
  "hold_left ks now cap a a' s =
     (let (up, s1) = conn now a s in
      if \<not> up then (None, s1)
      else if a \<noteq> Works then (None, raised now a s1)
      else (case max_hold (holds s1) ks of
              None \<Rightarrow> (Some 0, s1)
            | Some u \<Rightarrow>
                if u - now > cap_of cap
                then (let (l, s2) = drop_poisoned_hold ks now cap (u - now) a' s1 in (Some l, s2))
                else (Some (max 0 (u - now)), s1)))"

section \<open>One warning\<close>

datatype health_event = Fails rat | Succeeds

fun health_step :: "health \<Rightarrow> health_event \<Rightarrow> bool \<times> health" where
  "health_step h (Fails t) = degrade t h"
| "health_step h Succeeds = (False, healthy h)"

lemma degrade_fields:
  "total_fails (snd (degrade t h)) = Suc (total_fails h)"
  "warned (snd (degrade t h)) = (warned h \<or> fail_limit \<le> Suc (total_fails h))"
  "fst (degrade t h) = (\<not> warned h \<and> fail_limit \<le> Suc (total_fails h))"
  by (auto simp: degrade_def Let_def)

lemma healthy_fields: "total_fails (healthy h) = total_fails h" "warned (healthy h) = warned h"
  by (simp_all add: healthy_def)

definition warning_state :: "health \<Rightarrow> bool" where
  "warning_state h \<longleftrightarrow> warned h = (fail_limit \<le> total_fails h)"

text \<open>However successes launder the run of failures in between, the operator is told that
  the ceiling fell back to one per process exactly once: at the third failure of the process's
  life, if there is one.\<close>

theorem warned_once:
  "length (filter id (fst (run_with health_step new_health es))) =
     (if 3 \<le> length (filter (\<lambda>e. e \<noteq> Succeeds) es) then 1 else 0)"
proof -
  have "warning_state (snd (run_with health_step h es)) \<and>
      total_fails (snd (run_with health_step h es)) = total_fails h + length (filter (\<lambda>e. e \<noteq> Succeeds) es) \<and>
      length (filter id (fst (run_with health_step h es))) =
        (if \<not> warned h \<and> warned (snd (run_with health_step h es)) then 1 else 0) \<and>
      (warned h \<longrightarrow> warned (snd (run_with health_step h es)))"
    if "warning_state h" for h
    using that
  proof (induction es arbitrary: h)
    case (Cons e es)
    have "warning_state (snd (health_step h e))"
      using Cons.prems by (cases e) (auto simp: warning_state_def degrade_fields healthy_fields)
    from Cons.IH [OF this] show ?case
      using Cons.prems by (cases e) (auto simp: warning_state_def degrade_fields healthy_fields)
  qed simp
  from this [of new_health] show ?thesis
    by (auto simp: warning_state_def new_health_def fail_limit_def)
qed

section \<open>Holds are bounded and seen\<close>

lemma cap_of_pos: "0 < cap_of c"
  by (auto simp: cap_of_def Let_def default_cap_s_def max_hold_s_def min_def split: option.splits)

lemma max_hold_ge: "k \<in> set ks \<Longrightarrow> h k = Some u \<Longrightarrow> \<exists>v. max_hold h ks = Some v \<and> u \<le> v"
proof (induction ks)
  case (Cons j ks)
  then show ?case
    by (cases "h j"; cases "max_hold h ks") (auto simp: le_max_iff_disj)
qed simp

lemma max_hold_mem: "max_hold h ks = Some v \<Longrightarrow> \<exists>k \<in> set ks. h k = Some v"
proof (induction ks arbitrary: v)
  case (Cons j ks)
  then show ?case
    by (cases "h j"; cases "max_hold h ks") (auto simp: max_def split: if_splits)
qed simp

lemma hold_left_bounds:
  assumes "fst (hold_left ks now cap a a' s) = Some l"
  shows "0 \<le> l \<and> l \<le> cap_of cap"
  using assms less_imp_le [OF cap_of_pos [of cap]]
  by (auto simp: hold_left_def drop_poisoned_hold_def Let_def split: prod.splits if_splits option.splits)

text \<open>A rejection is always observed: on a working store, whatever poisoned rows a clock
  that moved left there, for this key or another, a caller who asks right after a hold of
  \<open>d\<close> seconds was set reads at least \<open>d\<close> (or the cap if that is less) and never more than
  the cap.\<close>

theorem hold_observed:
  assumes "\<not> cold now (health s)" and "k \<in> set ks"
    and "fst (hold_left ks now cap Works Works (set_hold k (now + d) cap now Works s)) = Some l"
  shows "min d (cap_of cap) \<le> l \<and> l \<le> cap_of cap"
proof -
  let ?s = "set_hold k (now + d) cap now Works s" and ?m = "cap_of cap"
  have m: "0 < ?m" by (rule cap_of_pos)
  obtain u where hk: "holds ?s k = Some u" and u: "now + min d ?m \<le> u" "u \<le> now + ?m"
    using assms(1) by (auto simp: set_hold_def conn_def Let_def min_def max_def split: option.splits)
  have c: "\<not> cold now (health ?s)"
    using assms(1) by (simp add: set_hold_def conn_def Let_def)
  obtain v where v: "max_hold (holds ?s) ks = Some v" "u \<le> v"
    using max_hold_ge [where h = "holds ?s", OF assms(2) hk] by blast
  show ?thesis
  proof (cases "v - now > ?m")
    case False
    then show ?thesis using assms(3) c v u m by (auto simp: hold_left_def conn_def)
  next
    case True
    have "drop_late (now + ?m) (holds ?s) k = Some u" using hk u by (simp add: drop_late_def)
    from max_hold_ge [where h = "drop_late (now + ?m) (holds ?s)", OF assms(2) this] obtain w
      where w: "max_hold (drop_late (now + ?m) (holds ?s)) ks = Some w" "u \<le> w" by blast
    then show ?thesis
      using assms(3) c v u m True
      by (auto simp: hold_left_def conn_def drop_poisoned_hold_def Let_def min_def max_def split: if_splits)
  qed
qed

theorem hold_observed_witness:
  "\<exists>l. fst (hold_left [[], ''cloud''] 100 (Some 60) Works Works
      (set_hold ''cloud'' (100 + 30) (Some 60) 100 Works
        (new_store\<lparr>holds := [[] \<mapsto> 90000, ''cloud'' \<mapsto> 90000]\<rparr>))) = Some l
     \<and> min 30 (cap_of (Some 60)) \<le> l"
proof -
  let ?s = "new_store\<lparr>holds := [[] \<mapsto> 90000, ''cloud'' \<mapsto> 90000]\<rparr>"
  have c: "\<not> cold 100 (health ?s)" by (simp add: cold_def new_store_def new_health_def)
  have "fst (hold_left [[], ''cloud''] 100 (Some 60) Works Works
      (set_hold ''cloud'' (100 + 30) (Some 60) 100 Works ?s)) = Some 95"
    by (simp add: hold_left_def set_hold_def conn_def cold_def new_store_def new_health_def
        cap_of_def max_hold_s_def drop_poisoned_hold_def drop_late_def Let_def)
  from hold_observed [OF c _ this] this show ?thesis by auto
qed

end
