(* ===== verification/Waiting.thy ===== *)
theory Waiting
  imports Py_Strings
begin

text \<open>
  Loops that wait. The limiter, the interactive gate and the provider buckets all wait in the
  same shape: look, leave with a result, or sleep a step and look again. \<open>wait_run\<close> is that
  loop with fuel, over a body that sees the number of the pass, the state and the seconds
  waited so far; it answers \<open>None\<close> when the fuel runs out. The locale \<open>honest\<close> is the
  contract of a body that keeps an invariant and leaves with what it promises, and
  \<open>patient\<close> adds a rank that falls with every step: a loop with fuel beyond its rank
  returns.
\<close>

fun wait_run :: "(nat \<Rightarrow> 's \<Rightarrow> rat \<Rightarrow> 'r + 's \<times> rat) \<Rightarrow> nat \<Rightarrow> nat \<Rightarrow> 's \<Rightarrow> rat \<Rightarrow> 'r option" where
  "wait_run body 0 i s w = None"
| "wait_run body (Suc f) i s w =
     (case body i s w of
        Inl r \<Rightarrow> Some r
      | Inr p \<Rightarrow> wait_run body f (Suc i) (fst p) (w + snd p))"

locale honest =
  fixes body :: "nat \<Rightarrow> 's \<Rightarrow> rat \<Rightarrow> 'r + 's \<times> rat"
    and inv :: "nat \<Rightarrow> 's \<Rightarrow> rat \<Rightarrow> bool"
    and post :: "'r \<Rightarrow> bool"
  assumes leaves: "inv i s w \<Longrightarrow> body i s w = Inl r \<Longrightarrow> post r"
    and keeps: "inv i s w \<Longrightarrow> body i s w = Inr (s', d) \<Longrightarrow> inv (Suc i) s' (w + d)"
begin

lemma sound: "inv i s w \<Longrightarrow> wait_run body f i s w = Some r \<Longrightarrow> post r"
proof (induction f arbitrary: i s w)
  case (Suc f)
  show ?case
  proof (cases "body i s w")
    case (Inl a)
    then show ?thesis using leaves [OF Suc.prems(1) Inl] Suc.prems(2) by simp
  next
    case (Inr p)
    then have "inv (Suc i) (fst p) (w + snd p)"
      using keeps [OF Suc.prems(1), of "fst p" "snd p"] by simp
    from Suc.IH [OF this] Inr Suc.prems(2) show ?thesis by simp
  qed
qed simp

end

locale patient = honest +
  fixes rank :: "nat \<Rightarrow> 's \<Rightarrow> rat \<Rightarrow> nat"
  assumes falls: "inv i s w \<Longrightarrow> body i s w = Inr (s', d) \<Longrightarrow> rank (Suc i) s' (w + d) < rank i s w"
begin

lemma returns: "inv i s w \<Longrightarrow> rank i s w < f \<Longrightarrow> \<exists>r. wait_run body f i s w = Some r \<and> post r"
proof (induction f arbitrary: i s w)
  case (Suc f)
  show ?case
  proof (cases "body i s w")
    case (Inl r)
    then show ?thesis using leaves [OF Suc.prems(1)] by simp
  next
    case (Inr p)
    then have "inv (Suc i) (fst p) (w + snd p)" "rank (Suc i) (fst p) (w + snd p) < f"
      using keeps [OF Suc.prems(1), of "fst p" "snd p"] falls [OF Suc.prems(1), of "fst p" "snd p"]
        Suc.prems(2) by auto
    from Suc.IH [OF this] Inr show ?thesis by simp
  qed
qed simp

end

text \<open>The passes left of a budget when each sleeps a clock tick of \<open>1 / Suc k\<close> seconds at least.\<close>

definition ticks :: "nat \<Rightarrow> rat \<Rightarrow> nat" where
  "ticks k s = nat \<lceil>s * of_nat (Suc k)\<rceil>"

lemma ticks_step:
  assumes "1 / of_nat (Suc k) \<le> d" and "0 < s"
  shows "ticks k (s - d) < ticks k s"
proof -
  have "1 \<le> d * of_nat (Suc k)"
    using assms(1) by (simp add: pos_divide_le_eq del: of_nat_Suc)
  then have "(s - d) * of_nat (Suc k) \<le> s * of_nat (Suc k) - 1"
    by (simp add: algebra_simps)
  then have "\<lceil>(s - d) * of_nat (Suc k)\<rceil> \<le> \<lceil>s * of_nat (Suc k)\<rceil> - 1"
    by (metis ceiling_diff_one ceiling_mono)
  moreover have "0 < \<lceil>s * of_nat (Suc k)\<rceil>" using assms(2) by simp
  ultimately show ?thesis by (simp add: ticks_def)
qed

lemma ticks_mono: "s \<le> u \<Longrightarrow> ticks k s \<le> ticks k u"
  by (simp add: ticks_def ceiling_mono mult_right_mono nat_mono)

lemma ticks_pos: "0 < s \<Longrightarrow> 0 < ticks k s"
  by (simp add: ticks_def)

end
