(* ===== verification/Interactive_Gate.thy ===== *)
theory Interactive_Gate
  imports Waiting
begin

text \<open>
  Background model traffic steps aside while someone is served,
  \<^verbatim>\<open>aiforge_core/llm/interactive_gate.py\<close>. The marker file other processes touch is the
  field \<open>marker\<close> (its time, or \<open>None\<close> when it cannot be read); an event of a background
  call is a number, and the events that are set are listed in \<open>fired\<close>. The per-thread mark
  \<^verbatim>\<open>_EXEMPT\<close> is the field \<open>exempted\<close> of the calling thread.
\<close>

record gate =
  last_local :: rat
  last_touch :: rat
  marker :: "rat option"
  bg :: "nat list"
  fired :: "nat list"
  exempted :: bool

definition new_gate :: gate where
  "new_gate = \<lparr>last_local = 0, last_touch = 0, marker = None, bg = [], fired = [], exempted = False\<rparr>"

definition default_window_s :: rat where
  "default_window_s = 45"

definition touch_every_s :: rat where
  "touch_every_s = 1"

definition poll_s :: rat where
  "poll_s = 1"

definition window_s :: "env \<Rightarrow> rat" where
  "window_s e =
     (let raw = env_get e ''AIFORGE_BACKGROUND_YIELD_S'' [] in
      if raw = [] then max 0 default_window_s
      else (case float_of_str raw of None \<Rightarrow> default_window_s | Some x \<Rightarrow> max 0 x))"

definition set_exempt :: "bool \<Rightarrow> gate \<Rightarrow> gate" where
  "set_exempt on g = g\<lparr>exempted := on\<rparr>"

definition track_background :: "nat \<Rightarrow> gate \<Rightarrow> gate" where
  "track_background ev g = g\<lparr>bg := bg g @ [ev]\<rparr>"

definition untrack_background :: "nat \<Rightarrow> gate \<Rightarrow> gate" where
  "untrack_background ev g = g\<lparr>bg := remove1 ev (bg g)\<rparr>"

definition abort_background :: "gate \<Rightarrow> gate" where
  "abort_background g = g\<lparr>fired := fired g @ filter (\<lambda>ev. ev \<notin> set (fired g)) (bg g)\<rparr>"

text \<open>\<open>disk\<close>: the marker can be written.\<close>

definition note_interactive :: "bool \<Rightarrow> rat \<Rightarrow> gate \<Rightarrow> gate" where
  "note_interactive disk t g =
     (let g1 = (abort_background g)\<lparr>last_local := t\<rparr> in
      if t - last_touch g1 < touch_every_s then g1
      else (let g2 = g1\<lparr>last_touch := t\<rparr> in if disk then g2\<lparr>marker := Some t\<rparr> else g2))"

definition last_seen :: "gate \<Rightarrow> rat" where
  "last_seen g = (case marker g of None \<Rightarrow> last_local g | Some m \<Rightarrow> max (last_local g) m)"

text \<open>\<open>None\<close> is infinity: there has been no interactive send.\<close>

definition since_last :: "rat \<Rightarrow> gate \<Rightarrow> rat option" where
  "since_last t g = (if last_seen g \<le> 0 then None else Some (max 0 (t - last_seen g)))"

definition busy_for :: "env \<Rightarrow> rat \<Rightarrow> gate \<Rightarrow> rat" where
  "busy_for e t g = (if window_s e \<le> 0 then 0 else max 0 (last_seen g + window_s e - t))"

definition reset_gate :: "bool \<Rightarrow> gate \<Rightarrow> gate" where
  "reset_gate disk g =
     g\<lparr>last_local := 0, last_touch := 0, bg := [], marker := (if disk then None else marker g)\<rparr>"

text \<open>
  What the \<open>i\<close>-th pass of \<^verbatim>\<open>yield_to_interactive\<close> sees: was Stop pressed, the time, and the
  gate as the other threads and processes left it.
\<close>

record sight =
  stopped :: bool
  clock :: rat
  seen_gate :: gate

definition yield_body :: "env \<Rightarrow> (nat \<Rightarrow> sight) \<Rightarrow> rat \<Rightarrow> nat \<Rightarrow> unit \<Rightarrow> rat \<Rightarrow> rat + unit \<times> rat" where
  "yield_body e world max_wait_s i u waited =
     (if \<not> waited < max_wait_s then Inl waited
      else if stopped (world i) then Inl waited
      else (let left = busy_for e (clock (world i)) (seen_gate (world i)) in
            if left \<le> 0 then Inl waited
            else Inr ((), min left (min poll_s (max_wait_s - waited)))))"

definition yield_to_interactive :: "nat \<Rightarrow> env \<Rightarrow> (nat \<Rightarrow> sight) \<Rightarrow> gate \<Rightarrow> rat \<Rightarrow> rat option" where
  "yield_to_interactive fuel e world g max_wait_s =
     (if max_wait_s \<le> 0 \<or> window_s e \<le> 0 \<or> exempted g then Some 0
      else wait_run (yield_body e world max_wait_s) fuel 0 () 0)"

section \<open>Facts\<close>

text \<open>An interactive send closes every background call in flight.\<close>

lemma note_aborts: "set (bg g) \<subseteq> set (fired (note_interactive disk t g))"
  by (auto simp: note_interactive_def abort_background_def Let_def)

text \<open>The busy readings come from a clock with a tick of \<open>1 / Suc k\<close> seconds.\<close>

definition ticking :: "nat \<Rightarrow> env \<Rightarrow> (nat \<Rightarrow> sight) \<Rightarrow> bool" where
  "ticking k e world \<longleftrightarrow> (\<forall>i. let b = busy_for e (clock (world i)) (seen_gate (world i)) in
     0 < b \<longrightarrow> 1 / of_nat (Suc k) \<le> b)"

definition yield_inv :: "nat \<Rightarrow> env \<Rightarrow> (nat \<Rightarrow> sight) \<Rightarrow> rat \<Rightarrow> nat \<Rightarrow> unit \<Rightarrow> rat \<Rightarrow> bool" where
  "yield_inv k e world mx i u w \<longleftrightarrow> ticking k e world \<and> 0 \<le> w \<and> w \<le> mx"

definition yield_rank :: "nat \<Rightarrow> rat \<Rightarrow> nat \<Rightarrow> unit \<Rightarrow> rat \<Rightarrow> nat" where
  "yield_rank k mx i u w = ticks k (mx - w)"

lemma yield_step:
  assumes "yield_inv k e world mx i u w" and "yield_body e world mx i u w = Inr (u', d)"
  shows "yield_inv k e world mx (Suc i) u' (w + d)"
    and "yield_rank k mx (Suc i) u' (w + d) < yield_rank k mx i u w"
proof -
  let ?b = "busy_for e (clock (world i)) (seen_gate (world i))"
  have b: "0 < ?b" "w < mx" "d = min ?b (min poll_s (mx - w))"
    using assms(2) by (auto simp: yield_body_def Let_def split: if_splits)
  have t: "1 / of_nat (Suc k) \<le> ?b" using assms(1) b(1) by (simp add: yield_inv_def ticking_def Let_def)
  have p: "1 / of_nat (Suc k) \<le> poll_s" by (simp add: poll_s_def del: of_nat_Suc)
  have d: "0 < d" "d \<le> mx - w" using b by (auto simp: poll_s_def min_def)
  show "yield_inv k e world mx (Suc i) u' (w + d)"
    using assms(1) d by (auto simp: yield_inv_def)
  have "ticks k (mx - w - d) < ticks k (mx - w)"
  proof (cases "1 / of_nat (Suc k) \<le> d")
    case True
    then show ?thesis using ticks_step b(2) by simp
  next
    case False
    then have "d = mx - w" using b(3) t p by (auto simp: min_def split: if_splits)
    then show ?thesis using ticks_pos [of "mx - w" k] b(2) by (simp add: ticks_def)
  qed
  then show "yield_rank k mx (Suc i) u' (w + d) < yield_rank k mx i u w"
    by (simp add: yield_rank_def diff_diff_eq)
qed

interpretation yields: patient "yield_body e world mx" "yield_inv k e world mx"
    "\<lambda>w. 0 \<le> w \<and> w \<le> mx" "yield_rank k mx" for k e world mx
proof
  fix i u w r
  assume "yield_inv k e world mx i u w" "yield_body e world mx i u w = Inl r"
  then show "0 \<le> r \<and> r \<le> mx"
    by (auto simp: yield_body_def yield_inv_def Let_def split: if_splits)
qed (auto intro: yield_step)

interpretation yields_safely: honest "yield_body e world mx" "\<lambda>i u w. 0 \<le> w \<and> w \<le> mx"
    "\<lambda>w. 0 \<le> w \<and> w \<le> mx" for e world mx
  by unfold_locales (auto simp: yield_body_def poll_s_def min_def Let_def split: if_splits)

lemma yield_within:
  "yield_to_interactive fuel e world g mx = Some y \<Longrightarrow> 0 \<le> y \<and> y \<le> max 0 mx"
  using yields_safely.sound [of 0 mx e world fuel 0 "()" y]
  by (auto simp: yield_to_interactive_def split: if_splits)

text \<open>Background work is delayed and never starved: however continuously a person is
  served, the yield returns, after at most the wait it was allowed.\<close>

theorem yield_returns:
  assumes "ticking k e world" and "ticks k mx < fuel"
  shows "\<exists>w. yield_to_interactive fuel e world g mx = Some w \<and> 0 \<le> w \<and> w \<le> max 0 mx"
proof (cases "mx \<le> 0 \<or> window_s e \<le> 0 \<or> exempted g")
  case True
  then show ?thesis by (auto simp: yield_to_interactive_def)
next
  case False
  have "yield_inv k e world mx 0 () 0" using assms(1) False by (simp add: yield_inv_def)
  from yields.returns [OF this, of fuel] assms(2) False show ?thesis
    by (auto simp: yield_to_interactive_def yield_rank_def)
qed

theorem yield_returns_witness:
  "\<exists>w. yield_to_interactive 20 (\<lambda>_. None)
      (\<lambda>i. \<lparr>stopped = False, clock = 1000, seen_gate = new_gate\<lparr>last_local := 1000\<rparr>\<rparr>) new_gate 10 = Some w
     \<and> 0 \<le> w \<and> w \<le> max 0 10"
proof (rule yield_returns [of 0])
  show "ticks 0 10 < 20" by (simp add: ticks_def)
qed (simp add: ticking_def busy_for_def window_s_def default_window_s_def env_get_def last_seen_def new_gate_def Let_def)

end
