(* ===== verification/Slots.thy ===== *)
theory Slots
  imports Py_Strings
begin

text \<open>
  How many model requests may run at once, \<^verbatim>\<open>aiforge_core/llm/slots.py\<close>. The router,
  the model registry, the runtime settings and the probe of a server are the fields of
  \<open>host\<close>, each of which may raise; the environment and the clock are fields too. The probe
  cache is threaded through.
\<close>

type_synonym slot_key = "string \<times> string \<times> string option"
type_synonym slot_cache = "slot_key \<Rightarrow> (rat \<times> int) option"

record host =
  resolve :: "string \<Rightarrow> (string \<times> string) res"
  registry :: "string \<Rightarrow> string \<Rightarrow> int res"
  stamp :: "string option"
  parallel_setting :: "int res"
  probe :: "string \<Rightarrow> string \<Rightarrow> int res"
  henv :: env
  hclock :: rat

definition chat_role :: string where
  "chat_role = ''chat''"

definition ttl :: "host \<Rightarrow> int \<Rightarrow> rat" where
  "ttl H slots =
     (let dflt = (if slots > 1 then 300 else 600);
          raw = env_get (henv H) ''AIFORGE_LLM_PARALLEL_TTL_S'' []
      in if raw = [] then dflt
         else (case float_of_str raw of None \<Rightarrow> dflt | Some x \<Rightarrow> max 0 x))"

definition configured :: "host \<Rightarrow> int" where
  "configured H =
     (case parallel_setting H of
        Inr n \<Rightarrow> max 0 n
      | Inl _ \<Rightarrow> (case int_of_str (strip (env_get (henv H) ''AIFORGE_LLM_PARALLEL'' [])) of
                   None \<Rightarrow> 0 | Some n \<Rightarrow> max 0 n))"

definition endpoint :: "host \<Rightarrow> string \<Rightarrow> string \<times> string" where
  "endpoint H role = (case resolve H role of Inl _ \<Rightarrow> ([], []) | Inr (u, m) \<Rightarrow> (rstrip_chars ''/'' u, m))"

definition registry_parallel :: "host \<Rightarrow> string \<Rightarrow> string \<Rightarrow> int" where
  "registry_parallel H model base = (case registry H model base of Inl _ \<Rightarrow> 0 | Inr n \<Rightarrow> max 0 n)"

definition probed :: "host \<Rightarrow> string \<Rightarrow> string \<Rightarrow> slot_cache \<Rightarrow> int \<times> slot_cache" where
  "probed H base model cache =
     (let key = (base, model, stamp H);
          ask = (let n = (case probe H base model of Inl _ \<Rightarrow> 1 | Inr k \<Rightarrow> max 1 k)
                 in (n, cache(key \<mapsto> (hclock H, n))))
      in case cache key of
           None \<Rightarrow> ask
         | Some (t0, n) \<Rightarrow> if hclock H - t0 < ttl H n then (n, cache) else ask)"

definition llm_slots :: "host \<Rightarrow> string \<Rightarrow> slot_cache \<Rightarrow> int \<times> slot_cache" where
  "llm_slots H role cache =
     (let (base, model) = endpoint H role;
          per_model = (if model \<noteq> [] then registry_parallel H model base else 0)
      in if per_model > 0 then (per_model, cache)
         else if configured H > 0 then (configured H, cache)
         else if base = [] then (1, cache)
         else probed H base model cache)"

text \<open>\<^verbatim>\<open>groups.setdefault(key, []).append(r)\<close>: in the order the keys were first met.\<close>

fun group_add :: "'k \<Rightarrow> 'v \<Rightarrow> ('k \<times> 'v list) list \<Rightarrow> ('k \<times> 'v list) list" where
  "group_add k v [] = [(k, [v])]"
| "group_add k v ((j, vs) # gs) = (if j = k then (j, vs @ [v]) # gs else (j, vs) # group_add k v gs)"

definition group_of :: "host \<Rightarrow> string \<Rightarrow> string" where
  "group_of H r = (if fst (endpoint H r) = [] then ''?'' else fst (endpoint H r))"

definition server_groups :: "host \<Rightarrow> string list \<Rightarrow> (string \<times> string list) list" where
  "server_groups H roles = fold (\<lambda>r. group_add (group_of H r) r) roles []"

text \<open>\<^verbatim>\<open>min(llm_slots(r) for r in members)\<close>, of a list that is not empty.\<close>

fun slots_each :: "host \<Rightarrow> string list \<Rightarrow> slot_cache \<Rightarrow> int list \<times> slot_cache" where
  "slots_each H [] cache = ([], cache)"
| "slots_each H (r # rs) cache =
     (let (n, c1) = llm_slots H r cache; (ns, c2) = slots_each H rs c1 in (n # ns, c2))"

fun groups_fit :: "host \<Rightarrow> (string \<times> string list) list \<Rightarrow> slot_cache \<Rightarrow> bool \<times> slot_cache" where
  "groups_fit H [] cache = (True, cache)"
| "groups_fit H ((k, members) # gs) cache =
     (if length members > 1
      then (let (ns, c1) = slots_each H members cache in
            if Min (set ns) < int (length members) then (False, c1) else groups_fit H gs c1)
      else groups_fit H gs cache)"

definition parallel_ok :: "host \<Rightarrow> string list \<Rightarrow> slot_cache \<Rightarrow> bool \<times> slot_cache" where
  "parallel_ok H roles cache =
     (if length roles < 2
      then (case roles of [] \<Rightarrow> (False, cache)
            | r # _ \<Rightarrow> (let (n, c1) = llm_slots H r cache in (n > 1, c1)))
      else groups_fit H (server_groups H roles) cache)"

definition same_server :: "host \<Rightarrow> string \<Rightarrow> string \<Rightarrow> bool" where
  "same_server H a b \<longleftrightarrow> fst (endpoint H a) \<noteq> [] \<and> fst (endpoint H a) = fst (endpoint H b)"

section \<open>Facts\<close>

definition sane :: "slot_cache \<Rightarrow> bool" where
  "sane cache \<longleftrightarrow> (\<forall>k t n. cache k = Some (t, n) \<longrightarrow> 1 \<le> n)"

lemma probed_sane:
  assumes "sane cache"
  shows "1 \<le> fst (probed H b m cache) \<and> sane (snd (probed H b m cache))"
proof -
  have "1 \<le> n" if "cache k = Some (t, n)" for k t n
    using assms that unfolding sane_def by blast
  then show ?thesis
    using assms by (auto simp: probed_def Let_def sane_def split: option.splits sum.splits)
qed

lemma llm_slots_sane:
  "sane cache \<Longrightarrow> 1 \<le> fst (llm_slots H r cache) \<and> sane (snd (llm_slots H r cache))"
  by (auto simp: llm_slots_def Let_def probed_sane split: prod.splits)

text \<open>Asking for one role never changes what another is told, nor what it is told again.\<close>

lemma probed_stable: "fst (probed H b m (snd (probed H b' m' cache))) = fst (probed H b m cache)"
  by (auto simp: probed_def Let_def split: option.splits sum.splits)

lemma llm_slots_cases: "(\<exists>n. llm_slots H r = Pair n) \<or> (\<exists>b m. llm_slots H r = probed H b m)"
  by (cases "endpoint H r") (auto simp: llm_slots_def Let_def fun_eq_iff)

lemma llm_slots_stable: "fst (llm_slots H r (snd (llm_slots H q cache))) = fst (llm_slots H r cache)"
  using llm_slots_cases [of H r] llm_slots_cases [of H q] by (auto simp: probed_stable)

lemma slots_each_fst: "fst (slots_each H rs cache) = map (\<lambda>r. fst (llm_slots H r cache)) rs"
proof (induction rs arbitrary: cache)
  case (Cons r rs)
  then show ?case by (simp add: Let_def split_beta llm_slots_stable)
qed simp

lemma slots_each_stable: "fst (llm_slots H r (snd (slots_each H rs cache))) = fst (llm_slots H r cache)"
proof (induction rs arbitrary: cache)
  case (Cons q rs)
  then show ?case by (simp add: Let_def split_beta llm_slots_stable)
qed simp

lemma groups_fit_iff:
  "fst (groups_fit H gs cache) \<longleftrightarrow>
     (\<forall>(k, ms) \<in> set gs. 1 < length ms \<longrightarrow> (\<forall>r \<in> set ms. int (length ms) \<le> fst (llm_slots H r cache)))"
proof (induction gs arbitrary: cache)
  case (Cons g gs)
  obtain k ms where g: "g = (k, ms)" by (cases g)
  show ?case
  proof (cases "1 < length ms")
    case True
    then have ne: "set ms \<noteq> {}" by auto
    have "Min (set (fst (slots_each H ms cache))) < int (length ms) \<longleftrightarrow>
        \<not> (\<forall>r \<in> set ms. int (length ms) \<le> fst (llm_slots H r cache))"
      using ne by (subst Min_less_iff) (auto simp: slots_each_fst not_le)
    then show ?thesis using Cons g True by (auto simp: Let_def split_beta slots_each_stable)
  next
    case False
    then show ?thesis using Cons g by simp
  qed
qed simp

lemma keys_group_add: "fst ` set (group_add k v gs) = insert k (fst ` set gs)"
  by (induction k v gs rule: group_add.induct) auto

lemma distinct_group_add: "distinct (map fst gs) \<Longrightarrow> distinct (map fst (group_add k v gs))"
  by (induction k v gs rule: group_add.induct) (auto simp: keys_group_add)

lemma map_of_group_add:
  "map_of (group_add k v gs) j =
     (if j = k then Some ((case map_of gs k of None \<Rightarrow> [] | Some vs \<Rightarrow> vs) @ [v]) else map_of gs j)"
  by (induction gs) auto

lemma server_groups_snoc: "server_groups H (rs @ [r]) = group_add (group_of H r) r (server_groups H rs)"
  by (simp add: server_groups_def)

definition sharers :: "host \<Rightarrow> string list \<Rightarrow> string \<Rightarrow> string list" where
  "sharers H roles k = filter (\<lambda>r. group_of H r = k) roles"

lemma server_groups_spec:
  "distinct (map fst (server_groups H roles)) \<and>
   map_of (server_groups H roles) k = (if sharers H roles k = [] then None else Some (sharers H roles k))"
proof (induction roles rule: rev_induct)
  case Nil
  then show ?case by (simp add: server_groups_def sharers_def)
next
  case (snoc r rs)
  then show ?case
    by (auto simp: server_groups_snoc distinct_group_add map_of_group_add sharers_def)
qed

lemma server_groups_set:
  "(k, ms) \<in> set (server_groups H roles) \<longleftrightarrow> ms = sharers H roles k \<and> ms \<noteq> []"
  using server_groups_spec [of H roles k] map_of_eq_Some_iff [of "server_groups H roles" k ms]
  by (auto split: if_splits)

text \<open>Calls of two or more roles may overlap exactly when every server that several of them
  share has a slot for each: what the threaded probe cache answers for one role never depends on
  the roles asked before it.\<close>

theorem parallel_ok_exact:
  assumes "2 \<le> length roles"
  shows "fst (parallel_ok H roles cache) \<longleftrightarrow>
    list_all (\<lambda>r. let n = length (sharers H roles (group_of H r)) in
       n \<le> 1 \<or> int n \<le> fst (llm_slots H r cache)) roles"
proof -
  have mem: "r \<in> set (sharers H roles k) \<longleftrightarrow> r \<in> set roles \<and> group_of H r = k" for r k
    by (auto simp: sharers_def)
  have "fst (parallel_ok H roles cache) \<longleftrightarrow>
      (\<forall>k r. r \<in> set (sharers H roles k) \<longrightarrow> 1 < length (sharers H roles k) \<longrightarrow>
         int (length (sharers H roles k)) \<le> fst (llm_slots H r cache))"
    using assms by (simp add: parallel_ok_def groups_fit_iff Ball_def server_groups_set)
        (metis (no_types, opaque_lifting) list.size(3) not_less_zero)
  then show ?thesis by (auto simp: mem list_all_iff Let_def not_le)
qed

theorem parallel_ok_exact_witness:
  "fst (parallel_ok
     \<lparr>resolve = (\<lambda>r. Inr (''http://a/'', ''m'')), registry = (\<lambda>_ _. Inr 2), stamp = None,
      parallel_setting = Inr 0, probe = (\<lambda>_ _. Inr 1), henv = (\<lambda>_. None), hclock = 0\<rparr>
     [''chat'', ''learner''] (\<lambda>_. None))"
  using parallel_ok_exact [of "[''chat'', ''learner'']"
     "\<lparr>resolve = (\<lambda>r. Inr (''http://a/'', ''m'')), registry = (\<lambda>_ _. Inr 2), stamp = None,
      parallel_setting = Inr 0, probe = (\<lambda>_ _. Inr 1), henv = (\<lambda>_. None), hclock = 0\<rparr>" "\<lambda>_. None"]
  by (simp add: llm_slots_def endpoint_def registry_parallel_def sharers_def group_of_def rstrip_chars_def Let_def)

end
