(* ===== verification/Rate_Buckets.thy ===== *)
theory Rate_Buckets
  imports Py_Values Waiting
begin

text \<open>
  The token buckets of the providers' own limits: \<^verbatim>\<open>_Bucket\<close>, \<^verbatim>\<open>_bucket\<close> and
  \<^verbatim>\<open>_resolved_limits\<close> of \<^verbatim>\<open>aiforge_core/llm/_rate_settings.py\<close>;
  \<^verbatim>\<open>_drain_bucket\<close>, \<^verbatim>\<open>_acquire_provider_pass\<close> and \<^verbatim>\<open>acquire\<close> of
  \<^verbatim>\<open>rate_limiter.py\<close>. The clock is an argument, read once in a pass; what other threads
  do to the buckets between two passes is the argument \<open>others\<close> of a pass.
\<close>

record bucket =
  capacity :: rat
  rate :: rat
  tokens :: rat
  last_at :: rat

definition refill :: "rat \<Rightarrow> bucket \<Rightarrow> bucket" where
  "refill now b = b\<lparr>tokens := min (capacity b) (tokens b + max 0 (now - last_at b) * rate b), last_at := now\<rparr>"

text \<open>\<^verbatim>\<open>take\<close>: the seconds to wait, 0 when the tokens were drained.\<close>

definition drain :: "rat \<Rightarrow> rat \<Rightarrow> bucket \<Rightarrow> rat \<times> bucket" where
  "drain now n b =
     (let b1 = refill now b in
      if tokens b1 \<ge> n then (0, b1\<lparr>tokens := tokens b1 - n\<rparr>)
      else ((n - tokens b1) / max (rate b1) (1 / 10 ^ 9), b1))"

type_synonym buckets = "string \<Rightarrow> bucket option"

definition bucket_of :: "rat \<Rightarrow> buckets \<Rightarrow> string \<Rightarrow> rat \<Rightarrow> bucket \<times> buckets" where
  "bucket_of now bs name per_minute =
     (case bs name of
        Some b \<Rightarrow> (b, bs)
      | None \<Rightarrow> (let b = \<lparr>capacity = per_minute, rate = per_minute / 60, tokens = per_minute, last_at = now\<rparr>
                in (b, bs(name \<mapsto> b))))"

definition resolved_limits :: "env \<Rightarrow> string \<Rightarrow> (string \<times> pyval) list option \<Rightarrow> (rat \<times> rat) res" where
  "resolved_limits e provider declared =
     (case declared of
        None \<Rightarrow> Inr (0, 0)
      | Some d \<Rightarrow>
          (let lim = (\<lambda>key suffix.
                 let raw = env_get e (''AIFORGE_'' @ upper provider @ suffix) [] in
                 py_float (if raw \<noteq> [] then PStr raw else dget_or d key (PInt 0)))
           in ebind (lim ''rpm'' ''_RPM'') (\<lambda>rpm. ebind (lim ''tpm'' ''_TPM'') (\<lambda>tpm. Inr (rpm, tpm)))))"

text \<open>\<^verbatim>\<open>_drain_bucket\<close>: the wait, and the buckets with the one drained.\<close>

definition drain_bucket :: "rat \<Rightarrow> buckets \<Rightarrow> string \<Rightarrow> rat \<Rightarrow> rat \<Rightarrow> rat \<times> buckets" where
  "drain_bucket now bs provider limit amount =
     (let (b, bs1) = bucket_of now bs provider limit; (s, b1) = drain now amount b
      in (s, bs1(provider \<mapsto> b1)))"

definition refund :: "rat \<Rightarrow> bucket \<Rightarrow> bucket" where
  "refund amt b = b\<lparr>tokens := min (capacity b) (tokens b + amt)\<rparr>"

definition refund_at :: "string \<Rightarrow> rat \<Rightarrow> buckets \<Rightarrow> buckets" where
  "refund_at p amt bs = bs(p := map_option (refund amt) (bs p))"

text \<open>One pass over the request bucket and the token bucket of a provider.\<close>

definition provider_pass ::
  "rat \<Rightarrow> string \<Rightarrow> rat \<Rightarrow> rat \<Rightarrow> int \<Rightarrow> buckets \<times> buckets \<Rightarrow> rat \<times> buckets \<times> buckets" where
  "provider_pass now p rpm tpm est bs =
     (let r = (if rpm > 0 then Some (drain_bucket now (fst bs) p rpm 1) else None);
          t = (if tpm > 0 \<and> est > 0 then Some (drain_bucket now (snd bs) p tpm (of_int est)) else None);
          rb = (case r of None \<Rightarrow> fst bs | Some x \<Rightarrow> snd x);
          tb = (case t of None \<Rightarrow> snd bs | Some x \<Rightarrow> snd x);
          sleeps = (case r of None \<Rightarrow> [] | Some x \<Rightarrow> [fst x]) @ (case t of None \<Rightarrow> [] | Some x \<Rightarrow> [fst x])
      in if list_all (\<lambda>s. s \<le> 0) sleeps then (0, rb, tb)
         else (foldl max (hd sleeps) (tl sleeps),
               (case r of None \<Rightarrow> rb | Some x \<Rightarrow> if fst x \<le> 0 then refund_at p 1 rb else rb),
               (case t of None \<Rightarrow> tb | Some x \<Rightarrow> if fst x \<le> 0 then refund_at p (of_int est) tb else tb)))"

text \<open>What the \<open>i\<close>-th pass of \<^verbatim>\<open>acquire\<close> meets.\<close>

record bucket_look =
  bucket_clock :: rat
  others :: "buckets \<times> buckets \<Rightarrow> buckets \<times> buckets"

definition acquire_body ::
  "(nat \<Rightarrow> bucket_look) \<Rightarrow> string \<Rightarrow> rat \<Rightarrow> rat \<Rightarrow> int \<Rightarrow> rat \<Rightarrow> nat \<Rightarrow> buckets \<times> buckets \<Rightarrow> rat
     \<Rightarrow> (rat res \<times> buckets \<times> buckets) + (buckets \<times> buckets) \<times> rat" where
  "acquire_body world p rpm tpm est max_wait i bs waited =
     (let (s, bs1) = provider_pass (bucket_clock (world i)) p rpm tpm est (others (world i) bs) in
      if s \<le> 0 then Inl (Inr waited, bs1)
      else if waited + s > max_wait then Inl (Inl TimeoutError, bs1)
      else Inr (bs1, min s 5))"

definition acquire ::
  "nat \<Rightarrow> env \<Rightarrow> (nat \<Rightarrow> bucket_look) \<Rightarrow> string \<Rightarrow> (string \<times> pyval) list option \<Rightarrow> int \<Rightarrow> rat
     \<Rightarrow> buckets \<times> buckets \<Rightarrow> (rat res \<times> buckets \<times> buckets) option" where
  "acquire fuel e world p declared est max_wait bs =
     (case resolved_limits e p declared of
        Inl x \<Rightarrow> Some (Inl x, bs)
      | Inr (rpm, tpm) \<Rightarrow>
          if rpm \<le> 0 \<and> tpm \<le> 0 then Some (Inr 0, bs)
          else wait_run (acquire_body world p rpm tpm est max_wait) fuel 0 bs 0)"

section \<open>A bucket's budget\<close>

definition bucket_ok :: "bucket \<Rightarrow> bool" where
  "bucket_ok b \<longleftrightarrow> 0 \<le> tokens b \<and> tokens b \<le> capacity b \<and> 0 \<le> rate b"

lemma refill_ok: "bucket_ok b \<Longrightarrow> bucket_ok (refill now b)"
  by (simp add: bucket_ok_def refill_def)

lemma drain_ok: "bucket_ok b \<Longrightarrow> bucket_ok (snd (drain now n b)) \<or> n < 0"
  using refill_ok [of b now] by (auto simp: bucket_ok_def drain_def Let_def)

lemma drain_fields [simp]:
  "capacity (snd (drain now n b)) = capacity b"
  "rate (snd (drain now n b)) = rate b"
  "last_at (snd (drain now n b)) = now"
  by (simp_all add: drain_def refill_def Let_def)

text \<open>The tokens a run of calls was granted; a call asks \<open>n \<ge> 0\<close> tokens at a time.\<close>

fun granted :: "(rat \<times> rat) list \<Rightarrow> bucket \<Rightarrow> rat" where
  "granted [] b = 0"
| "granted ((now, n) # cs) b =
     (let (s, b1) = drain now n b in (if s \<le> 0 then n else 0) + granted cs b1)"

lemma drain_full: "n \<le> tokens (refill now b) \<Longrightarrow>
    drain now n b = (0, (refill now b)\<lparr>tokens := tokens (refill now b) - n\<rparr>)"
  by (simp add: drain_def Let_def)

lemma drain_short: "\<not> n \<le> tokens (refill now b) \<Longrightarrow>
    0 < fst (drain now n b) \<and> snd (drain now n b) = refill now b"
  by (auto simp: drain_def Let_def less_max_iff_disj intro!: divide_pos_pos)

lemma drain_budget:
  assumes "bucket_ok b" and "last_at b \<le> now" and "0 \<le> n"
  shows "(if fst (drain now n b) \<le> 0 then n else 0) + tokens (snd (drain now n b))
    \<le> tokens b + (now - last_at b) * rate b"
proof -
  have t: "tokens (refill now b) \<le> tokens b + (now - last_at b) * rate b"
    using assms(2) by (simp add: refill_def)
  show ?thesis
    using t drain_full [of n now b] drain_short [of n now b]
    by (cases "n \<le> tokens (refill now b)") auto
qed

lemma granted_budget:
  assumes "bucket_ok b" and "sorted (last_at b # map fst cs)" and "list_all (\<lambda>c. 0 \<le> snd c) cs"
  shows "granted cs b \<le> tokens b + (last (last_at b # map fst cs) - last_at b) * rate b"
  using assms
proof (induction cs arbitrary: b)
  case Nil
  then show ?case by (simp add: bucket_ok_def)
next
  case (Cons c cs)
  obtain now n where c: "c = (now, n)" by (cases c)
  let ?b = "snd (drain now n b)"
  have ok: "bucket_ok ?b" using drain_ok [OF Cons.prems(1), of now n] Cons.prems(3) c by auto
  have "granted cs ?b \<le> tokens ?b + (last (now # map fst cs) - now) * rate b"
    using Cons.IH [OF ok] Cons.prems c by simp
  moreover have "(if fst (drain now n b) \<le> 0 then n else 0) + tokens ?b \<le> tokens b + (now - last_at b) * rate b"
    using drain_budget [OF Cons.prems(1)] Cons.prems c by simp
  moreover have "granted (c # cs) b = (if fst (drain now n b) \<le> 0 then n else 0) + granted cs ?b"
    using c by (simp add: Let_def split_beta)
  ultimately show ?case using c by (simp add: algebra_simps)
qed

text \<open>However many calls a provider's bucket is asked, it never grants more than its
  capacity plus what refills in the time they span: at a limit of \<open>r\<close> a minute, at most
  \<open>r + r/60\<close> times the seconds.\<close>

theorem bucket_budget:
  assumes "0 \<le> r" and "sorted (t0 # map fst cs)" and "list_all (\<lambda>c. 0 \<le> snd c) cs"
  shows "granted cs (fst (bucket_of t0 (\<lambda>_. None) p r)) \<le> r + (last (t0 # map fst cs) - t0) * (r / 60)"
proof -
  let ?b = "fst (bucket_of t0 (\<lambda>_. None) p r)"
  have "bucket_ok ?b" "last_at ?b = t0" "tokens ?b = r" "rate ?b = r / 60"
    using assms(1) by (simp_all add: bucket_of_def bucket_ok_def Let_def)
  with granted_budget [of ?b cs] assms(2,3) show ?thesis by simp
qed

theorem bucket_budget_witness:
  "granted [(0, 5), (0, 5), (30, 5)] (fst (bucket_of 0 (\<lambda>_. None) ''cloud'' 6)) \<le> 6 + (30 - 0) * (6 / 60)"
  using bucket_budget [of 6 0 "[(0, 5), (0, 5), (30, 5)]" "''cloud''"] by simp

section \<open>A blocked pass costs nothing\<close>

lemma refund_drain:
  assumes "bucket_ok b" and "fst (drain now n b) \<le> 0"
  shows "refund n (snd (drain now n b)) = refill now b"
proof -
  have n: "n \<le> tokens (refill now b)" using drain_short [of n now b] assms(2) by linarith
  show ?thesis
    using refill_ok [OF assms(1), of now]
    by (simp add: drain_full [OF n] refund_def bucket_ok_def refill_def)
qed

lemma blocked_drain: "0 < fst (drain now n b) \<Longrightarrow> snd (drain now n b) = refill now b"
  using drain_full [of n now b] drain_short [of n now b] by fastforce

text \<open>While one of a provider's two limits blocks a call, its retries cost the other limit
  nothing: after a blocked pass over existing buckets each of them is as if only time had
  passed.\<close>

theorem blocked_pass_refunds:
  assumes "provider_pass now p rpm tpm est (rb, tb) = (s, rb1, tb1)" and "0 < s"
    and "rb p = Some b" and "tb p = Some c" and "bucket_ok b" and "bucket_ok c"
  shows "(rb1 p = Some b \<or> rb1 p = Some (refill now b)) \<and> (tb1 p = Some c \<or> tb1 p = Some (refill now c))"
proof -
  have one: "(if fst (drain_bucket now bs p l n) \<le> 0 then refund_at p n (snd (drain_bucket now bs p l n))
       else snd (drain_bucket now bs p l n)) p = Some (refill now a)"
    if "bs p = Some a" "bucket_ok a" for bs a l n
    using that refund_drain [OF that(2), of now n] blocked_drain [of now n a]
    by (auto simp: drain_bucket_def bucket_of_def split_beta Let_def refund_at_def not_le)
  show ?thesis
    using assms(1,2) one [of rb b rpm 1] one [of tb c tpm "of_int est"] assms(3-6)
    by (auto simp: provider_pass_def Let_def split: if_splits)
qed

theorem blocked_pass_refunds_witness:
  "\<exists>rb1 tb1. provider_pass 0 ''p'' 60 60 50
     (\<lambda>_. Some \<lparr>capacity = 60, rate = 1, tokens = 10, last_at = 0\<rparr>,
      \<lambda>_. Some \<lparr>capacity = 60, rate = 1, tokens = 20, last_at = 0\<rparr>) = (30, rb1, tb1) \<and>
   rb1 ''p'' = Some \<lparr>capacity = 60, rate = 1, tokens = 10, last_at = 0\<rparr>"
proof -
  let ?b = "\<lparr>capacity = 60, rate = 1, tokens = 10, last_at = 0\<rparr> :: bucket"
  let ?c = "\<lparr>capacity = 60, rate = 1, tokens = 20, last_at = 0\<rparr> :: bucket"
  obtain s rb1 tb1 where r: "provider_pass 0 ''p'' 60 60 50 (\<lambda>_. Some ?b, \<lambda>_. Some ?c) = (s, rb1, tb1)"
    by (metis prod.exhaust)
  then have s: "s = 30"
    by (simp add: provider_pass_def drain_bucket_def bucket_of_def drain_def refill_def Let_def)
  have "refill 0 ?b = ?b" by (simp add: refill_def)
  with blocked_pass_refunds [OF r _ refl refl] s have "rb1 ''p'' = Some ?b"
    by (auto simp: bucket_ok_def)
  with r s show ?thesis by blast
qed

text \<open>An acquisition that is granted waited no longer than it was allowed.\<close>

interpretation acquires: honest "acquire_body world p rpm tpm est mx"
    "\<lambda>i bs w. 0 \<le> w \<and> w \<le> max 0 mx" "\<lambda>r. case fst r of Inl _ \<Rightarrow> True | Inr w \<Rightarrow> 0 \<le> w \<and> w \<le> max 0 mx"
  for world p rpm tpm est mx
  by unfold_locales (auto simp: acquire_body_def Let_def split: prod.splits if_splits)

lemma acquire_within:
  assumes "acquire fuel e world p declared est mx bs = Some (Inr w, bs1)"
  shows "0 \<le> w \<and> w \<le> max 0 mx"
proof -
  have "w = 0 \<or> (\<exists>rpm tpm. wait_run (acquire_body world p rpm tpm est mx) fuel 0 bs 0 = Some (Inr w, bs1))"
    using assms by (auto simp: acquire_def split: sum.splits prod.splits if_splits)
  then show ?thesis using acquires.sound by fastforce
qed

end
