(* ===== verification/Rate_Limiter.thy ===== *)
theory Rate_Limiter
  imports Shared_Store Interactive_Gate Slots Rate_Buckets
begin

text \<open>
  The operator's ceiling over every model call: \<^verbatim>\<open>acquire_global\<close> and what it is made of,
  from \<^verbatim>\<open>aiforge_core/llm/rate_limiter.py\<close>, \<^verbatim>\<open>_rate_category.py\<close>,
  \<^verbatim>\<open>_rate_settings.py\<close> and \<^verbatim>\<open>_rate_holds.py\<close>, over the two windows
  (theories \<open>Rate_Window\<close> and \<open>Shared_Store\<close>), the interactive gate and the slots.

  \<open>limiter\<close> is the state; \<open>look\<close> is what one pass meets outside it: the two clocks, how the
  shared store answers, the settings store (a read may raise), the environment, whether Stop
  was pressed at the \<open>j\<close>-th time it is polled, and what other threads and processes did to
  the state since the pass before. Log lines are not modelled.
\<close>

record limiter =
  sends :: "send list"
  lholds :: "string \<Rightarrow> rat option"
  machine :: store
  waiting :: int
  igate :: gate
  slot_memo :: slot_cache

record look =
  wall :: rat
  mono :: rat
  settings :: "string \<Rightarrow> rat res"
  lenv :: env
  lhost :: host
  on_write :: answer
  on_count :: answer
  on_hold :: answer
  on_clean :: answer
  disk :: bool
  polls :: "(nat \<Rightarrow> bool) option"
  meddle :: "limiter \<Rightarrow> limiter"

section \<open>Settings\<close>

definition any_provider :: string where
  "any_provider = []"

definition default_global_rpm :: rat where
  "default_global_rpm = 25"

definition default_compaction_rpm :: rat where
  "default_compaction_rpm = 5"

definition default_chat_rpm :: rat where
  "default_chat_rpm = 0"

definition env_float :: "env \<Rightarrow> string \<Rightarrow> rat \<Rightarrow> rat" where
  "env_float e name dflt =
     (let raw = env_get e name [] in
      if raw = [] then dflt else (case float_of_str raw of None \<Rightarrow> dflt | Some x \<Rightarrow> x))"

definition setting :: "look \<Rightarrow> string \<Rightarrow> string \<Rightarrow> rat \<Rightarrow> rat" where
  "setting L name envname dflt =
     (case settings L name of Inr x \<Rightarrow> x | Inl _ \<Rightarrow> env_float (lenv L) envname dflt)"

definition hold_cap :: "look \<Rightarrow> rat" where
  "hold_cap L = max 1 (setting L ''llm_rate_limit_cap_s'' ''AIFORGE_LLM_RATE_LIMIT_CAP_S'' 60)"

definition compaction_hold_cap :: "look \<Rightarrow> rat" where
  "compaction_hold_cap L =
     max 0 (setting L ''compaction_rate_limit_cap_s'' ''AIFORGE_COMPACTION_RATE_LIMIT_CAP_S'' 900)"

text \<open>The non-negative form of a rate: the built-in defaults are not clamped in the code,
  and need not be.\<close>

definition rate_setting :: "look \<Rightarrow> string \<Rightarrow> string \<Rightarrow> rat \<Rightarrow> rat" where
  "rate_setting L name envname dflt =
     (case settings L name of
        Inr x \<Rightarrow> max 0 x
      | Inl _ \<Rightarrow>
          (let raw = env_get (lenv L) envname [] in
           if raw = [] then dflt
           else (case float_of_str raw of None \<Rightarrow> dflt | Some x \<Rightarrow> max 0 x)))"

definition global_rpm :: "look \<Rightarrow> rat" where
  "global_rpm L = rate_setting L ''llm_max_rpm'' ''AIFORGE_LLM_MAX_RPM'' default_global_rpm"

definition compaction_roles :: "env \<Rightarrow> string list" where
  "compaction_roles e =
     (let extra = strip (env_get e ''AIFORGE_MEMORY_MODEL_ROLE'' [])
      in [''learner'', ''memory''] @ (if extra \<noteq> [] then [extra] else []))"

definition compaction_cat :: cat where
  "compaction_cat = ''compaction''"

definition chat_cat :: cat where
  "chat_cat = ''chat''"

definition category :: "env \<Rightarrow> string option \<Rightarrow> cat" where
  "category e role =
     (case role of None \<Rightarrow> chat_cat
      | Some r \<Rightarrow> if r \<in> set (compaction_roles e) then compaction_cat else chat_cat)"

definition cat_rpm :: "look \<Rightarrow> cat \<Rightarrow> rat" where
  "cat_rpm L c =
     (if c = compaction_cat
      then rate_setting L ''compaction_rpm'' ''AIFORGE_COMPACTION_RPM'' default_compaction_rpm
      else rate_setting L ''chat_rpm'' ''AIFORGE_CHAT_RPM'' default_chat_rpm)"

section \<open>Claiming and counting\<close>

definition take_any :: "look \<Rightarrow> rat \<Rightarrow> cat \<Rightarrow> rat \<Rightarrow> limiter \<Rightarrow> (bool \<times> rat) \<times> limiter" where
  "take_any L rpm c crpm st =
     (let glimit = (if rpm > 0 then limit_of rpm else 0);
          climit = (if crpm > 0 then limit_of crpm else 0);
          (got, m) = (if enabled (lenv L) then take_store glimit (wall L) c climit (on_write L) (machine st)
                      else (None, machine st));
          st1 = st\<lparr>machine := m\<rparr>
      in case got of
           Some r \<Rightarrow> (r, st1)
         | None \<Rightarrow> (let (r, xs) = take_local glimit climit (mono L) c (sends st1) in (r, st1\<lparr>sends := xs\<rparr>)))"

definition force_take :: "look \<Rightarrow> rat \<Rightarrow> cat \<Rightarrow> limiter \<Rightarrow> limiter" where
  "force_take L rpm c st =
     (let cap = forced_cap rpm;
          (ok, m) = (if enabled (lenv L) then force_store cap (wall L) c (on_write L) (machine st)
                     else (False, machine st));
          st1 = st\<lparr>machine := m\<rparr>
      in if ok then st1 else st1\<lparr>sends := force_local cap (mono L) c (sends st1)\<rparr>)"

definition global_used :: "look \<Rightarrow> limiter \<Rightarrow> int \<times> limiter" where
  "global_used L st =
     (let (got, m) = (if enabled (lenv L) then count (wall L) None (on_count L) (machine st)
                      else (None, machine st));
          st1 = st\<lparr>machine := m\<rparr>
      in case got of
           Some n \<Rightarrow> (n, st1)
         | None \<Rightarrow> (let xs = trim_locked (mono L) (sends st1) in (int (length xs), st1\<lparr>sends := xs\<rparr>)))"

section \<open>Holds\<close>

definition provider_key :: "string option \<Rightarrow> string" where
  "provider_key p = (case p of None \<Rightarrow> any_provider | Some k \<Rightarrow> if k = [] then any_provider else k)"

definition note_rate_limited :: "look \<Rightarrow> rat \<Rightarrow> string option \<Rightarrow> limiter \<Rightarrow> limiter" where
  "note_rate_limited L retry_after p st =
     (let hold = min (if retry_after > 0 then retry_after else 60) (hold_cap L);
          key = provider_key p;
          m = (if enabled (lenv L)
               then set_hold key (wall L + hold) (Some (hold_cap L)) (wall L) (on_hold L) (machine st)
               else machine st);
          old = (case lholds st key of None \<Rightarrow> 0 | Some u \<Rightarrow> u)
      in st\<lparr>machine := m, lholds := (lholds st)(key \<mapsto> max old (mono L + hold))\<rparr>)"

definition hold_left_locked :: "rat \<Rightarrow> string option \<Rightarrow> (string \<Rightarrow> rat option) \<Rightarrow> rat" where
  "hold_left_locked now p h =
     foldl (\<lambda>l k. case h k of None \<Rightarrow> l | Some u \<Rightarrow> max l (u - now)) 0 [any_provider, provider_key p]"

definition held_for :: "look \<Rightarrow> string option \<Rightarrow> limiter \<Rightarrow> rat \<times> limiter" where
  "held_for L p st =
     (let mine = max 0 (hold_left_locked (mono L) p (lholds st)) in
      if \<not> enabled (lenv L) then (mine, st)
      else (let (shared, m) = hold_left [any_provider, provider_key p] (wall L) (Some (hold_cap L))
                                (on_hold L) (on_clean L) (machine st)
            in (case shared of None \<Rightarrow> mine | Some l \<Rightarrow> max mine l, st\<lparr>machine := m\<rparr>)))"

definition window_scope :: "look \<Rightarrow> limiter \<Rightarrow> string \<times> limiter" where
  "window_scope L st =
     (if \<not> enabled (lenv L) then (''process'', st)
      else (let (ok, m) = writable (wall L) (on_write L) (machine st)
            in (if ok then ''machine'' else ''process'', st\<lparr>machine := m\<rparr>)))"

section \<open>Which ceiling a category meets\<close>

definition chat_sends_recent :: "look \<Rightarrow> limiter \<Rightarrow> int option \<times> limiter" where
  "chat_sends_recent L st =
     (if enabled (lenv L)
      then (let (n, m) = count (wall L) (Some chat_cat) (on_count L) (machine st) in (n, st\<lparr>machine := m\<rparr>))
      else (let xs = trim_locked (mono L) (sends st)
            in (Some (int (length (of_cat chat_cat xs))), st\<lparr>sends := xs\<rparr>)))"

definition chat_headroom_frac :: rat where
  "chat_headroom_frac = 1 / 4"

definition chat_active_s :: rat where
  "chat_active_s = 60"

definition chat_active :: "look \<Rightarrow> limiter \<Rightarrow> bool \<times> limiter" where
  "chat_active L st =
     (let seen = (case since_last (wall L) (igate st) of None \<Rightarrow> False | Some s \<Rightarrow> s < chat_active_s) in
      if seen then (True, st)
      else (let (n, st1) = chat_sends_recent L st in (n \<noteq> Some 0, st1)))"

definition compaction_slots :: "look \<Rightarrow> limiter \<Rightarrow> int \<times> limiter" where
  "compaction_slots L st =
     (let raw = strip (env_get (lenv L) ''AIFORGE_COMPACT_ROLE'' []);
          role = (if raw = [] then ''learner'' else raw);
          (a, c1) = llm_slots (lhost L) role (slot_memo st);
          (b, c2) = llm_slots (lhost L) chat_role c1
      in (min a b, st\<lparr>slot_memo := c2\<rparr>))"

definition category_limit :: "look \<Rightarrow> cat \<Rightarrow> limiter \<Rightarrow> rat \<times> limiter" where
  "category_limit L c st =
     (let base = cat_rpm L c in
      if c \<noteq> compaction_cat \<or> base \<le> 0 then (base, st)
      else (let (slots, st1) = compaction_slots L st in
            if slots \<le> 1 then (base, st1)
            else if exempted (igate st1) then (0, st1)
            else (let (active, st2) = chat_active L st1 in
                  if active then (base, st2)
                  else (let g = global_rpm L in
                        if g \<le> 0 then (0, st2)
                        else (let headroom = max 1 (of_int \<lceil>g * chat_headroom_frac\<rceil>)
                              in (max base (g - headroom), st2))))))"

section \<open>The gateway\<close>

definition cancelled :: "look \<Rightarrow> nat \<Rightarrow> bool" where
  "cancelled L j = (case polls L of None \<Rightarrow> False | Some p \<Rightarrow> p j)"

text \<open>\<^verbatim>\<open>_sleep_cancellable\<close>: quarter-second naps; the \<open>j\<close>-th poll comes before a nap.\<close>

function nap :: "(nat \<Rightarrow> bool) \<Rightarrow> nat \<Rightarrow> rat \<Rightarrow> rat \<Rightarrow> rat" where
  "nap p j seconds slept =
     (if slept < seconds \<and> \<not> p j then nap p (Suc j) seconds (slept + min (1 / 4) (seconds - slept))
      else slept)"
  by pat_completeness auto
termination
proof (relation "measure (\<lambda>(p, j, seconds, slept). ticks 3 (seconds - slept))")
  fix p :: "nat \<Rightarrow> bool" and j :: nat and seconds slept :: rat
  assume a: "slept < seconds \<and> \<not> p j"
  let ?s = "seconds - slept"
  have "ticks 3 (?s - min (1 / 4) ?s) < ticks 3 ?s"
  proof (cases "1 / 4 \<le> ?s")
    case True
    then show ?thesis using ticks_step [of 3 "1 / 4" ?s] a by (simp add: min_def)
  next
    case False
    then have "min (1 / 4) ?s = ?s" by simp
    then show ?thesis using ticks_pos [of ?s 3] a by (simp add: ticks_def)
  qed
  then show "((p, Suc j, seconds, slept + min (1 / 4) ?s), p, j, seconds, slept)
      \<in> measure (\<lambda>(p, j, seconds, slept). ticks 3 (seconds - slept))"
    by (simp add: diff_diff_eq)
qed simp

declare nap.simps [simp del]

definition sleep_cancellable :: "look \<Rightarrow> rat \<Rightarrow> rat" where
  "sleep_cancellable L seconds = (case polls L of None \<Rightarrow> seconds | Some p \<Rightarrow> nap p 1 seconds 0)"

definition overrun_through :: "look \<Rightarrow> rat \<Rightarrow> cat \<Rightarrow> rat \<Rightarrow> limiter \<Rightarrow> limiter" where
  "overrun_through L rpm c crpm st = (if rpm > 0 \<or> crpm > 0 then force_take L rpm c st else st)"

text \<open>What one evaluation of the ceilings came to.\<close>

record verdict =
  done_now :: bool
  sleep_s :: rat
  rpm_now :: rat
  crpm_now :: rat

definition acquire_pass :: "look \<Rightarrow> string option \<Rightarrow> cat \<Rightarrow> limiter \<Rightarrow> verdict \<times> limiter" where
  "acquire_pass L p c st =
     (let rpm = global_rpm L;
          (crpm, st1) = category_limit L c st;
          (hold, st2) = held_for L p st1;
          go = \<lparr>done_now = True, sleep_s = 0, rpm_now = rpm, crpm_now = crpm\<rparr>
      in if hold \<le> 0
         then (if rpm \<le> 0 \<and> crpm \<le> 0
               then (go, if c = compaction_cat then force_take L rpm c st2 else st2)
               else (let ((claimed, window), st3) = take_any L rpm c crpm st2 in
                     if claimed then (go, st3)
                     else (\<lparr>done_now = False, sleep_s = max hold window, rpm_now = rpm, crpm_now = crpm\<rparr>, st3)))
         else (\<lparr>done_now = False, sleep_s = max hold 0, rpm_now = rpm, crpm_now = crpm\<rparr>, st2))"

definition gate_body ::
  "(nat \<Rightarrow> look) \<Rightarrow> string option \<Rightarrow> cat \<Rightarrow> rat \<Rightarrow> nat \<Rightarrow> limiter \<Rightarrow> rat
     \<Rightarrow> (rat \<times> limiter) + limiter \<times> rat" where
  "gate_body world p c max_wait i st waited =
     (let L = world i; st0 = meddle L st in
      if cancelled L 0 then Inl (waited, st0)
      else (let (v, st1) = acquire_pass L p c st0 in
            if done_now v then Inl (waited, st1)
            else if sleep_s v \<le> 0 then Inr (st1, 0)
            else if waited + sleep_s v > max_wait
            then Inl (waited, overrun_through L (rpm_now v) c (crpm_now v) st1)
            else Inr (st1, sleep_cancellable L (min (sleep_s v) 5))))"

text \<open>The loop of \<^verbatim>\<open>acquire_global\<close>, counted as a parked caller while it lasts.\<close>

definition bump_waiting :: "int \<Rightarrow> limiter \<Rightarrow> limiter" where
  "bump_waiting d st = st\<lparr>waiting := waiting st + d\<rparr>"

definition park ::
  "nat \<Rightarrow> (nat \<Rightarrow> look) \<Rightarrow> string option \<Rightarrow> cat \<Rightarrow> rat \<Rightarrow> rat \<Rightarrow> limiter \<Rightarrow> (rat \<times> limiter) option" where
  "park fuel world p c max_wait waited st =
     map_option (\<lambda>r. (fst r, bump_waiting (- 1) (snd r)))
       (wait_run (gate_body world p c max_wait) fuel 0 (bump_waiting 1 st) waited)"

text \<open>\<^verbatim>\<open>_priority_gate\<close>: the seconds this send stepped aside.\<close>

definition priority_gate ::
  "nat \<Rightarrow> look \<Rightarrow> (nat \<Rightarrow> sight) \<Rightarrow> cat \<Rightarrow> rat \<Rightarrow> limiter \<Rightarrow> (rat \<times> limiter) option" where
  "priority_gate fuel L sights c max_wait st =
     (if c = compaction_cat
      then map_option (\<lambda>y. (y, st)) (yield_to_interactive fuel (lenv L) sights (igate st) max_wait)
      else Some (0, st\<lparr>igate := note_interactive (disk L) (wall L) (igate st)\<rparr>))"

definition budget :: "look \<Rightarrow> cat \<Rightarrow> rat \<Rightarrow> rat" where
  "budget L c max_wait =
     (if c = compaction_cat \<and> compaction_hold_cap L > 0 then max max_wait (compaction_hold_cap L) else max_wait)"

text \<open>\<open>L\<close> is the look before the priority gate and \<open>L'\<close> the one after it.\<close>

definition acquire_global ::
  "nat \<Rightarrow> look \<Rightarrow> (nat \<Rightarrow> sight) \<Rightarrow> look \<Rightarrow> (nat \<Rightarrow> look) \<Rightarrow> rat \<Rightarrow> string option \<Rightarrow> string option
     \<Rightarrow> limiter \<Rightarrow> (rat \<times> limiter) option" where
  "acquire_global fuel L sights L' world max_wait p role st =
     (if cancelled L 0 then Some (0, st)
      else
        let c = category (lenv L) role; mx = budget L c max_wait in
        case priority_gate fuel L sights c mx st of
          None \<Rightarrow> None
        | Some (yielded, st1) \<Rightarrow>
            let mx1 = (if yielded \<noteq> 0 then max 0 (mx - yielded) else mx) in
            if cancelled L' 0 then Some (yielded, st1)
            else
              let open_g = global_rpm L' \<le> 0;
                  (crpm, st2) = (if open_g then category_limit L' c st1 else (0, st1));
                  (hold, st3) = (if open_g \<and> crpm \<le> 0 then held_for L' p st2 else (1, st2))
              in if open_g \<and> crpm \<le> 0 \<and> hold \<le> 0
                 then Some (yielded, if c = compaction_cat then force_take L' (global_rpm L') c st3 else st3)
                 else park fuel world p c mx1 yielded st3)"

section \<open>The wait is bounded\<close>

lemma nap_bounds: "slept \<le> seconds \<Longrightarrow>
    slept \<le> nap p j seconds slept \<and> nap p j seconds slept \<le> seconds \<and>
    (nap p j seconds slept = seconds \<or> (\<exists>i. p i))"
proof (induction p j seconds slept rule: nap.induct)
  case (1 p j seconds slept)
  show ?case
  proof (cases "slept < seconds \<and> \<not> p j")
    case True
    let ?d = "min (1 / 4) (seconds - slept)"
    have d: "slept + ?d \<le> seconds" "slept \<le> slept + ?d" using True by (auto simp: min_def)
    have e: "nap p j seconds slept = nap p (Suc j) seconds (slept + ?d)"
      using True by (subst nap.simps) simp
    show ?thesis using "1.IH" [OF True d(1)] d(2) unfolding e by (meson order_trans)
  next
    case False
    then have "nap p j seconds slept = slept" by (subst nap.simps) (simp only: if_False)
    then show ?thesis using False "1.prems" by auto
  qed
qed

lemma sleep_bounds:
  assumes "0 \<le> s"
  shows "0 \<le> sleep_cancellable L s \<and> sleep_cancellable L s \<le> s \<and>
    (sleep_cancellable L s = s \<or> (\<exists>j. cancelled L j))"
  using nap_bounds [OF assms] assms
  by (auto simp: sleep_cancellable_def cancelled_def split: option.splits)

lemma gate_body_cases:
  assumes "gate_body world p c mx i st w = Inr (st', d)"
  obtains v where "\<not> cancelled (world i) 0"
    and "acquire_pass (world i) p c (meddle (world i) st) = (v, st')" and "\<not> done_now v"
    and "sleep_s v \<le> 0 \<and> d = 0 \<or>
      0 < sleep_s v \<and> w + sleep_s v \<le> mx \<and> d = sleep_cancellable (world i) (min (sleep_s v) 5)"
  using assms by (auto simp: gate_body_def Let_def split: prod.splits if_splits)

lemma gate_body_leaves: "gate_body world p c mx i st w = Inl r \<Longrightarrow> fst r = w"
  by (auto simp: gate_body_def Let_def split: prod.splits if_splits)

lemma gate_body_step:
  assumes "gate_body world p c mx i st w = Inr (st', d)"
  shows "0 \<le> d \<and> (d = 0 \<or> w + d \<le> mx)"
  using gate_body_cases [OF assms]
proof cases
  case (1 v)
  from 1(4) show ?thesis
  proof
    assume a: "0 < sleep_s v \<and> w + sleep_s v \<le> mx \<and> d = sleep_cancellable (world i) (min (sleep_s v) 5)"
    have "0 \<le> min (sleep_s v) 5" using a by simp
    from sleep_bounds [OF this, of "world i"] a show ?thesis by (auto simp: min_def split: if_splits)
  qed simp
qed

interpretation gate_loop: honest "gate_body world p c mx" "\<lambda>i st w. y \<le> w \<and> w \<le> max y mx"
    "\<lambda>r. y \<le> fst r \<and> fst r \<le> max y mx" for world p c mx y
proof
  fix i st w r
  assume "y \<le> w \<and> w \<le> max y mx" "gate_body world p c mx i st w = Inl r"
  then show "y \<le> fst r \<and> fst r \<le> max y mx" by (simp add: gate_body_leaves)
next
  fix i st w st' d
  assume "y \<le> w \<and> w \<le> max y mx" "gate_body world p c mx i st w = Inr (st', d)"
  with gate_body_step [OF this(2)] show "y \<le> w + d \<and> w + d \<le> max y mx" by auto
qed

lemma park_within: "park fuel world p c mx y st = Some (w, st') \<Longrightarrow> y \<le> w \<and> w \<le> max y mx"
  using gate_loop.sound [of y y mx world p c fuel 0 "bump_waiting 1 st"]
  by (auto simp: park_def)

text \<open>A call waits for the operator's ceilings no longer than it was allowed, a background
  call no longer than the larger of that and the compaction cap, whatever the stores, the other
  processes and the operator do meanwhile.\<close>

theorem acquire_within_budget:
  assumes "acquire_global fuel L sights L' world max_wait p role st = Some (w, st')"
  shows "0 \<le> w \<and> w \<le> max 0 (budget L (category (lenv L) role) max_wait)"
proof (cases "cancelled L 0")
  case True
  then show ?thesis using assms by (simp add: acquire_global_def)
next
  case False
  let ?c = "category (lenv L) role"
  let ?mx = "budget L ?c max_wait"
  obtain y st1 where g: "priority_gate fuel L sights ?c ?mx st = Some (y, st1)"
    using assms False by (auto simp: acquire_global_def Let_def split: option.splits)
  have y: "0 \<le> y \<and> y \<le> max 0 ?mx"
    using g yield_within [of fuel "lenv L" sights "igate st" ?mx]
    by (auto simp: priority_gate_def split: if_splits)
  let ?m1 = "if y \<noteq> 0 then max 0 (?mx - y) else ?mx"
  have "w = y \<or> (\<exists>st3. park fuel world p ?c ?m1 y st3 = Some (w, st'))"
    using assms False g by (auto simp: acquire_global_def Let_def split: prod.splits if_splits)
  then show ?thesis
  proof
    assume "\<exists>st3. park fuel world p ?c ?m1 y st3 = Some (w, st')"
    then have "y \<le> w \<and> w \<le> max y ?m1" using park_within by blast
    then show ?thesis using y by (auto simp: max_def split: if_splits)
  qed (use y in simp)
qed

section \<open>Every call returns\<close>

subsection \<open>A refusal names a wait of a tick at least\<close>

text \<open>Clock readings, like every floating point number of a bounded range, are multiples of one
  tick, here of \<open>1 / Suc k\<close> seconds.\<close>

definition on_grid :: "nat \<Rightarrow> rat \<Rightarrow> bool" where
  "on_grid k x \<longleftrightarrow> x * of_nat (Suc k) \<in> \<int>"

lemma on_grid_diff: "on_grid k x \<Longrightarrow> on_grid k y \<Longrightarrow> on_grid k (x - y)"
  unfolding on_grid_def left_diff_distrib by (rule Ints_diff)

lemma on_grid_aged: "on_grid k x \<Longrightarrow> on_grid k now \<Longrightarrow> on_grid k (x + 60 - now)"
proof -
  assume a: "on_grid k x" "on_grid k now"
  have "(60 :: rat) * of_nat (Suc k) = of_nat (60 * Suc k)" by (simp only: of_nat_mult of_nat_numeral)
  then have "(60 :: rat) * of_nat (Suc k) \<in> \<int>" by (metis Ints_of_nat)
  then show ?thesis
    using a unfolding on_grid_def left_diff_distrib distrib_right by (intro Ints_diff Ints_add)
qed

lemma grid_step:
  assumes "on_grid k x" and "0 < x"
  shows "1 / of_nat (Suc k) \<le> x"
proof -
  obtain z where z: "x * of_nat (Suc k) = of_int z"
    using assms(1) unfolding on_grid_def by (rule Ints_cases)
  have n: "(0 :: rat) < of_nat (Suc k)" by (simp del: of_nat_Suc)
  have "(0 :: rat) < of_int z" using mult_pos_pos [OF assms(2) n] z by simp
  then have "1 \<le> z" by simp
  then have "(1 :: rat) \<le> of_int z" by (metis of_int_1 of_int_le_iff)
  then show ?thesis using z n by (simp only: pos_divide_le_eq)
qed

lemma tick_small: "19 \<le> k \<Longrightarrow> (1 :: rat) / of_nat (Suc k) \<le> 5 / 100"
proof -
  assume "19 \<le> k"
  then have "(20 :: nat) \<le> Suc k" by simp
  then have "(of_nat 20 :: rat) \<le> of_nat (Suc k)" by (simp only: of_nat_le_iff)
  then show ?thesis by (simp add: field_simps)
qed

lemma waits_mem:
  "w \<in> set (waits now gok cok og oc) \<Longrightarrow> \<exists>t. (og = Some t \<or> oc = Some t) \<and> w = t + 60 - now"
  by (auto simp: waits_def split: if_splits option.splits)

lemma foldl_max_mem: "foldl max (w :: rat) ws \<in> set (w # ws)"
proof (induction ws arbitrary: w)
  case (Cons v ws)
  from Cons [of "max w v"] show ?case by (auto simp: max_def)
qed simp

lemma take_rows_tick:
  assumes "take_rows limit cl now c rs = ((False, w), xs)"
    and "\<forall>s \<in> set rs. on_grid k (fst s)" and "on_grid k now"
  shows "1 / of_nat (Suc k) \<le> w"
proof -
  have pos: "0 < w" using refused_bounds [OF assms(1)] by blast
  obtain gok cok where x: "xs = prune now rs"
    and w: "w = (case binding_wait now gok cok c xs of None \<Rightarrow> 0 | Some w \<Rightarrow> max 0 w)"
    using refused_wait [OF assms(1)] by metis
  then obtain u where u: "binding_wait now gok cok c xs = Some u" "w = u"
    using pos by (auto simp: max_def split: option.splits if_splits)
  have "u \<in> set (waits now gok cok (min_ts xs) (min_ts (of_cat c xs)))"
    using u(1) foldl_max_mem by (auto simp: binding_wait_def simp del: list.set split: list.splits)
  then obtain t where t: "min_ts xs = Some t \<or> min_ts (of_cat c xs) = Some t" "u = t + 60 - now"
    using waits_mem by blast
  have mem: "t \<in> fst ` set ys" if "min_ts ys = Some t" for ys
  proof -
    have "ys \<noteq> []" using that by (auto simp: min_ts_def)
    then obtain m where "min_ts ys = Some m" "m \<in> fst ` set ys" by (rule min_ts_spec)
    then show ?thesis using that by simp
  qed
  have "t \<in> fst ` set rs"
    using t(1) mem [of xs] mem [of "of_cat c xs"] by (auto simp: x prune_def of_cat_def)
  then have "on_grid k u" using assms(2,3) t(2) on_grid_aged by auto
  then show ?thesis using grid_step pos u(2) by simp
qed

lemma oldest_mem: "oldest ys = Some t \<Longrightarrow> t \<in> fst ` set ys"
  by (auto simp: oldest_def split: list.splits)

lemma oldest_some: "ys \<noteq> [] \<Longrightarrow> oldest ys \<noteq> None"
  by (simp add: oldest_def split: list.splits)

lemma take_local_tick:
  assumes "take_local gl cl now c ss = ((False, w), xs)" and "in_order ss now"
    and "\<forall>s \<in> set ss. on_grid k (fst s)" and "on_grid k now"
  shows "1 / of_nat (Suc k) \<le> w"
proof -
  let ?gok = "gl \<le> 0 \<or> int (length xs) < gl"
  let ?cok = "cl \<le> 0 \<or> (if cl > 0 then int (length (of_cat c xs)) else 0) < cl"
  let ?ws = "waits now ?gok ?cok (oldest xs) (oldest (of_cat c xs))"
  have x: "xs = recent now ss" and w: "w = longest ?ws" and full: "\<not> (?gok \<and> ?cok)"
    using assms(1) trim_recent [OF in_order_sorted [OF assms(2)], of now]
    by (auto simp: take_local_def Let_def split: if_splits)
  have each: "0 < u \<and> on_grid k u" if u: "u \<in> set ?ws" for u
  proof -
    obtain t where t: "oldest xs = Some t \<or> oldest (of_cat c xs) = Some t" "u = t + 60 - now"
      using waits_mem [OF u] by blast
    then have "t \<in> fst ` set xs" using oldest_mem by (fastforce simp: of_cat_def)
    then show ?thesis using t(2) assms(3,4) on_grid_aged by (auto simp: x recent_def)
  qed
  have "xs \<noteq> []" if "\<not> ?gok" using that by auto
  moreover have "of_cat c xs \<noteq> []" if "\<not> ?cok" using that by (auto split: if_splits)
  ultimately have "?ws \<noteq> []"
    using full oldest_some [of xs] oldest_some [of "of_cat c xs"]
    by (cases ?gok; cases ?cok) (auto simp: waits_def split: option.splits)
  then obtain v vs where ws: "?ws = v # vs" by (cases ?ws) blast+
  let ?m = "foldl max v vs"
  have m: "?m \<in> set ?ws" using foldl_max_mem unfolding ws .
  then have "w = ?m" using each [OF m] unfolding w ws longest_def by simp
  then show ?thesis using grid_step each [OF m] by simp
qed

text \<open>What the state of the limiter holds at \<open>t\<close>: stamps and holds on the grid, and this
  process's own sends in the order of its monotonic clock.\<close>

definition timed :: "nat \<Rightarrow> rat \<Rightarrow> limiter \<Rightarrow> bool" where
  "timed k t st \<longleftrightarrow>
     in_order (sends st) t \<and> (\<forall>s \<in> set (sends st). on_grid k (fst s)) \<and>
     (\<forall>p u. lholds st p = Some u \<longrightarrow> on_grid k u) \<and>
     (\<forall>s \<in> set (rows (machine st)). on_grid k (fst s)) \<and>
     (\<forall>p u. holds (machine st) p = Some u \<longrightarrow> on_grid k u)"

lemma timed_later: "timed k t st \<Longrightarrow> t \<le> u \<Longrightarrow> timed k u st"
  by (auto simp: timed_def intro: in_order_later)

lemma timed_fields:
  "timed k t st \<Longrightarrow> sends st' = sends st \<Longrightarrow> lholds st' = lholds st
    \<Longrightarrow> rows (machine st') = rows (machine st) \<Longrightarrow> holds (machine st') = holds (machine st) \<Longrightarrow> timed k t st'"
  by (simp add: timed_def)

lemma timed_machine:
  "timed k t st \<Longrightarrow> rows m = rows (machine st) \<and> holds m = holds (machine st) \<Longrightarrow> timed k t (st\<lparr>machine := m\<rparr>)"
  by (simp add: timed_def)

lemma conn_fields: "conn now a s = (up, s1) \<Longrightarrow> rows s1 = rows s \<and> holds s1 = holds s"
  by (auto simp: conn_def failed_def split: if_splits)

lemma raised_fields [simp]: "rows (raised now a s) = rows s" "holds (raised now a s) = holds s"
  by (simp_all add: raised_def failed_def)

lemma served_fields [simp]: "rows (served s) = rows s" "holds (served s) = holds s"
  "rows (failed now s) = rows s" "holds (failed now s) = holds s"
  by (simp_all add: served_def failed_def)

lemma count_fields: "count now c a s = (n, s1) \<Longrightarrow> rows s1 = rows s \<and> holds s1 = holds s"
  by (auto simp: count_def Let_def dest: conn_fields split: prod.splits if_splits)

lemma timed_trim:
  assumes "timed k t st"
  shows "timed k t (st\<lparr>sends := trim_locked now (sends st)\<rparr>)"
proof -
  have "in_order (dropWhile p ss) t" if "in_order ss t" for p and ss :: "send list"
    using in_order_drop [OF that] by (metis dropWhile_eq_drop)
  then show ?thesis
    using assms by (auto simp: timed_def trim_locked_def dest: set_dropWhileD)
qed

lemma category_limit_timed:
  assumes "timed k t st" and "category_limit L c st = (r, st1)"
  shows "timed k t st1"
proof -
  have slots: "timed k t st2" if "compaction_slots L st = (n, st2)" for n st2
    using that assms(1) by (auto simp: compaction_slots_def Let_def split: prod.splits intro: timed_fields)
  have chats: "timed k t st3" if "chat_sends_recent L q = (n, st3)" "timed k t q" for n q st3
    using that by (auto simp: chat_sends_recent_def Let_def timed_trim split: prod.splits if_splits
        intro!: timed_machine dest: count_fields)
  have active: "timed k t st3" if "chat_active L q = (b, st3)" "timed k t q" for b q st3
    using that by (auto simp: chat_active_def Let_def split: prod.splits if_splits intro: chats)
  show ?thesis
    using assms by (auto simp: category_limit_def Let_def split: prod.splits if_splits intro: slots active)
qed

lemma take_any_timed:
  assumes "timed k (mono L) st" and "on_grid k (wall L)" and "on_grid k (mono L)" and "19 \<le> k"
    and "take_any L rpm c crpm st = ((False, w), st1)"
  shows "1 / of_nat (Suc k) \<le> w \<and> timed k (mono L) st1"
proof -
  let ?g = "if rpm > 0 then limit_of rpm else 0" and ?cl = "if crpm > 0 then limit_of crpm else 0"
  obtain got m where got: "(if enabled (lenv L) then take_store ?g (wall L) c ?cl (on_write L) (machine st)
      else (None, machine st)) = (got, m)" by fastforce
  show ?thesis
  proof (cases got)
    case None
    then have m: "rows m = rows (machine st) \<and> holds m = holds (machine st)"
      using got by (auto simp: take_store_def Let_def dest!: conn_fields split: if_splits prod.splits)
    obtain xs where xs: "take_local ?g ?cl (mono L) c (sends st) = ((False, w), xs)"
      and st1: "st1 = st\<lparr>machine := m, sends := xs\<rparr>"
      using assms(5) got None by (auto simp: take_any_def Let_def split: prod.splits)
    have "xs = trim_locked (mono L) (sends st)"
      using xs by (auto simp: take_local_def Let_def split: if_splits)
    then have "timed k (mono L) st1"
      using timed_trim [OF timed_machine [OF assms(1) m], of "mono L"] by (simp add: st1)
    moreover have "1 / of_nat (Suc k) \<le> w"
      using take_local_tick [OF xs _ _ assms(3)] assms(1) by (simp add: timed_def)
    ultimately show ?thesis by blast
  next
    case (Some r)
    then have r: "r = (False, w)" and st1: "st1 = st\<lparr>machine := m\<rparr>" and e: "enabled (lenv L)"
      using assms(5) got by (auto simp: take_any_def Let_def split: prod.splits if_splits)
    have store: "take_store ?g (wall L) c ?cl (on_write L) (machine st) = (Some (False, w), m)"
      using got e Some r by simp
    obtain up s1 where up: "conn (wall L) (on_write L) (machine st) = (up, s1)" by fastforce
    note cf = conn_fields [OF up]
    show ?thesis
    proof (cases "on_write L = Busy")
      case True
      then have w: "w = 5 / 100" and m: "m = s1"
        using store up by (auto simp: take_store_def Let_def split: if_splits)
      show ?thesis
        unfolding w m st1 using tick_small [OF assms(4)] timed_machine [OF assms(1) cf] by blast
    next
      case False
      then obtain xs where xs: "take_rows ?g ?cl (wall L) c (rows s1) = ((False, w), xs)"
        and m: "m = served (s1\<lparr>rows := xs\<rparr>)"
        using store up by (auto simp: take_store_def Let_def split: if_splits prod.splits)
      have "xs = prune (wall L) (rows s1)"
        using xs by (auto simp: take_rows_def Let_def split: if_splits)
      then have "timed k (mono L) st1"
        using assms(1) cf by (auto simp: timed_def st1 m prune_def)
      moreover have "1 / of_nat (Suc k) \<le> w"
        using take_rows_tick [OF xs _ assms(2)] assms(1) cf by (simp add: timed_def)
      ultimately show ?thesis by blast
    qed
  qed
qed

text \<open>A hold that is left is left for a tick at least.\<close>

definition tick_or_none :: "nat \<Rightarrow> rat \<Rightarrow> bool" where
  "tick_or_none k x \<longleftrightarrow> x \<le> 0 \<or> 1 / of_nat (Suc k) \<le> x"

lemma tick_or_none_max: "tick_or_none k x \<Longrightarrow> tick_or_none k y \<Longrightarrow> tick_or_none k (max x y)"
  by (auto simp: tick_or_none_def max_def)

lemma tick_or_none_zero [simp]: "tick_or_none k 0"
  by (simp add: tick_or_none_def)

lemma tick_or_none_grid: "on_grid k u \<Longrightarrow> on_grid k now \<Longrightarrow> tick_or_none k (u - now)"
  using grid_step [OF on_grid_diff] unfolding tick_or_none_def by (meson not_le)

lemma tick_or_none_ge: "1 \<le> y \<Longrightarrow> tick_or_none k y"
proof -
  assume "1 \<le> y"
  moreover have "(1 :: rat) / of_nat (Suc k) \<le> 1" by (simp del: of_nat_Suc)
  ultimately show ?thesis unfolding tick_or_none_def by linarith
qed

lemma tick_or_none_min: "tick_or_none k x \<Longrightarrow> 1 \<le> y \<Longrightarrow> tick_or_none k (min x y)"
  using tick_or_none_ge [of y k] by (simp add: min_def)

lemma cap_of_ge: "1 \<le> cap_of c"
  by (auto simp: cap_of_def Let_def default_cap_s_def max_hold_s_def min_def split: option.splits)

lemma hold_left_locked_tick:
  assumes "\<forall>p u. h p = Some u \<longrightarrow> on_grid k u" and "on_grid k now"
  shows "tick_or_none k (hold_left_locked now p h)"
  using assms
  by (auto simp: hold_left_locked_def split: option.splits intro!: tick_or_none_max tick_or_none_grid)

lemma hold_left_timed:
  assumes "\<forall>p u. holds s p = Some u \<longrightarrow> on_grid k u" and "on_grid k now"
    and "hold_left ks now cap a a' s = (got, s1)"
  shows "rows s1 = rows s \<and> (\<forall>p u. holds s1 p = Some u \<longrightarrow> on_grid k u) \<and>
    (\<forall>l. got = Some l \<longrightarrow> tick_or_none k l)"
proof -
  obtain up s2 where up: "conn now a s = (up, s2)" by fastforce
  have mh: "tick_or_none k (u - now)" if "max_hold h ks = Some u" "\<forall>p u. h p = Some u \<longrightarrow> on_grid k u" for h u
    using max_hold_mem [OF that(1)] that(2) assms(2) tick_or_none_grid by blast
  have late: "\<forall>p u. drop_late t (holds s) p = Some u \<longrightarrow> on_grid k u" for t
    using assms(1) by (auto simp: drop_late_def split: option.splits if_splits)
  show ?thesis
    using assms(1,3) up conn_fields [OF up] mh [OF _ assms(1)] mh [OF _ late] late cap_of_ge
    by (auto simp: hold_left_def drop_poisoned_hold_def Let_def tick_or_none_ge [OF cap_of_ge]
        split: if_splits option.splits intro!: tick_or_none_max tick_or_none_min)
qed

lemma held_for_timed:
  assumes "timed k (mono L) st" and "on_grid k (wall L)" and "on_grid k (mono L)"
    and "held_for L p st = (h, st1)"
  shows "tick_or_none k h \<and> timed k (mono L) st1"
proof -
  have mine: "tick_or_none k (max 0 (hold_left_locked (mono L) p (lholds st)))"
    using assms(1,3) by (intro tick_or_none_max hold_left_locked_tick) (auto simp: timed_def)
  show ?thesis
  proof (cases "enabled (lenv L)")
    case False
    then show ?thesis using assms(1,4) mine by (auto simp: held_for_def Let_def)
  next
    case True
    obtain got m where hl: "hold_left [any_provider, provider_key p] (wall L) (Some (hold_cap L))
        (on_hold L) (on_clean L) (machine st) = (got, m)" by fastforce
    have "\<forall>p u. holds (machine st) p = Some u \<longrightarrow> on_grid k u" using assms(1) by (simp add: timed_def)
    from hold_left_timed [OF this assms(2) hl] show ?thesis
      using assms(1,4) mine True hl
      by (auto simp: held_for_def timed_def Let_def tick_or_none_max split: option.splits)
  qed
qed

lemma acquire_pass_timed:
  assumes "timed k (mono L) st" and "on_grid k (wall L)" and "on_grid k (mono L)" and "19 \<le> k"
    and "acquire_pass L p c st = (v, st1)" and "\<not> done_now v"
  shows "1 / of_nat (Suc k) \<le> sleep_s v \<and> timed k (mono L) st1"
proof -
  obtain crpm s1 where cl: "category_limit L c st = (crpm, s1)" by fastforce
  obtain h s2 where h: "held_for L p s1 = (h, s2)" by fastforce
  obtain ok w s3 where t: "take_any L (global_rpm L) c crpm s2 = ((ok, w), s3)" by (metis prod.exhaust)
  note t1 = category_limit_timed [OF assms(1) cl]
  note t2 = held_for_timed [OF t1 assms(2,3) h]
  have take: "1 / of_nat (Suc k) \<le> w \<and> timed k (mono L) s3" if "\<not> ok"
    using take_any_timed [OF _ assms(2-4), of s2 "global_rpm L" c crpm w s3] t t2 that by simp
  show ?thesis
    using assms(5,6) cl h t t2 take
    by (auto simp: acquire_pass_def Let_def tick_or_none_def le_max_iff_disj split: if_splits)
qed

subsection \<open>The passes of a parked call\<close>

text \<open>
  \<open>clocked k world\<close>: the two clocks read multiples of a tick, of a twentieth of a second at
  most; the monotonic one does not run back; what other threads and processes write, they
  stamped with such clocks too, the threads of this process in order; and Stop stays pressed.
  How the stores answer, what the settings say and who else sends is open.
\<close>

definition clocked :: "nat \<Rightarrow> (nat \<Rightarrow> look) \<Rightarrow> bool" where
  "clocked k world \<longleftrightarrow> 19 \<le> k \<and>
     (\<forall>i. on_grid k (wall (world i)) \<and> on_grid k (mono (world i)) \<and> mono (world i) \<le> mono (world (Suc i)) \<and>
       (\<forall>st. timed k (mono (world i)) st \<longrightarrow> timed k (mono (world i)) (meddle (world i) st)) \<and>
       (\<forall>j. cancelled (world i) j \<longrightarrow> cancelled (world (Suc i)) 0))"

definition park_inv :: "nat \<Rightarrow> (nat \<Rightarrow> look) \<Rightarrow> rat \<Rightarrow> rat \<Rightarrow> nat \<Rightarrow> limiter \<Rightarrow> rat \<Rightarrow> bool" where
  "park_inv k world y mx i st w \<longleftrightarrow>
     clocked k world \<and> timed k (mono (world i)) st \<and> y \<le> w \<and> w \<le> max y mx"

definition park_rank :: "nat \<Rightarrow> (nat \<Rightarrow> look) \<Rightarrow> rat \<Rightarrow> nat \<Rightarrow> limiter \<Rightarrow> rat \<Rightarrow> nat" where
  "park_rank k world mx i st w = (if cancelled (world i) 0 then 0 else Suc (ticks k (mx - w)))"

lemma park_step:
  assumes "park_inv k world y mx i st w" and "gate_body world p c mx i st w = Inr (st', d)"
  shows "park_inv k world y mx (Suc i) st' (w + d)"
    and "park_rank k world mx (Suc i) st' (w + d) < park_rank k world mx i st w"
proof -
  have ck: "clocked k world" and tm: "timed k (mono (world i)) st"
    using assms(1) by (simp_all add: park_inv_def)
  have L: "19 \<le> k" "on_grid k (wall (world i))" "on_grid k (mono (world i))" "mono (world i) \<le> mono (world (Suc i))"
    and me: "timed k (mono (world i)) (meddle (world i) st)"
    and stop: "\<And>j. cancelled (world i) j \<Longrightarrow> cancelled (world (Suc i)) 0"
    using ck tm unfolding clocked_def by blast+
  obtain v where nc: "\<not> cancelled (world i) 0"
    and ps: "acquire_pass (world i) p c (meddle (world i) st) = (v, st')" "\<not> done_now v"
    and d: "sleep_s v \<le> 0 \<and> d = 0 \<or>
      0 < sleep_s v \<and> w + sleep_s v \<le> mx \<and> d = sleep_cancellable (world i) (min (sleep_s v) 5)"
    using gate_body_cases [OF assms(2)] by blast
  have tick: "1 / of_nat (Suc k) \<le> sleep_s v" and tm': "timed k (mono (world i)) st'"
    using acquire_pass_timed [OF me L(2,3,1) ps] by blast+
  have pos: "0 < (1::rat) / of_nat (Suc k)" by (simp del: of_nat_Suc)
  with tick d have dd: "0 < sleep_s v" "w + sleep_s v \<le> mx"
    "d = sleep_cancellable (world i) (min (sleep_s v) 5)" by linarith+
  show "park_inv k world y mx (Suc i) st' (w + d)"
    using assms(1) timed_later [OF tm' L(4)] gate_body_step [OF assms(2)] by (auto simp: park_inv_def)
  have "0 \<le> min (sleep_s v) 5" using dd(1) by simp
  from sleep_bounds [OF this, of "world i"] dd(3)
  have "d = min (sleep_s v) 5 \<or> (\<exists>j. cancelled (world i) j)" by auto
  then show "park_rank k world mx (Suc i) st' (w + d) < park_rank k world mx i st w"
  proof
    assume d5: "d = min (sleep_s v) 5"
    have "(1::rat) / of_nat (Suc k) \<le> 1" by (simp del: of_nat_Suc)
    then have "(1::rat) / of_nat (Suc k) \<le> 5" by linarith
    with tick have "1 / of_nat (Suc k) \<le> d" unfolding d5 by (rule min.boundedI)
    from ticks_step [OF this, of "mx - w"] dd show ?thesis
      using nc by (simp add: park_rank_def diff_diff_eq)
  next
    assume "\<exists>j. cancelled (world i) j"
    then show ?thesis using nc stop by (auto simp: park_rank_def)
  qed
qed

interpretation parks: patient "gate_body world p c mx" "park_inv k world y mx"
    "\<lambda>r. y \<le> fst r \<and> fst r \<le> max y mx" "park_rank k world mx" for world p c mx k y
proof
  fix i st w r
  assume "park_inv k world y mx i st w" "gate_body world p c mx i st w = Inl r"
  then show "y \<le> fst r \<and> fst r \<le> max y mx" by (simp add: gate_body_leaves park_inv_def)
qed (auto intro: park_step)

text \<open>C17. The ceiling delays and never fails: a parked call returns, after finitely many passes
  and with a wait of at most its budget, however the stores answer, whatever the settings say
  and however many sends and holds of others come in between, even when every pass is refused.
  It rests on the clocks alone: they tick in steps of \<open>1 / Suc k\<close> seconds, the monotonic one
  does not run back, others stamp with such clocks, and Stop stays pressed.\<close>

theorem park_returns:
  assumes "clocked k world" and "timed k (mono (world 0)) st" and "Suc (ticks k (mx - y)) < fuel"
  shows "\<exists>w st'. park fuel world p c mx y st = Some (w, st') \<and> y \<le> w \<and> w \<le> max y mx"
proof -
  have i: "park_inv k world y mx 0 (bump_waiting 1 st) y"
    using assms(1,2) by (simp add: park_inv_def timed_def bump_waiting_def)
  have "park_rank k world mx 0 (bump_waiting 1 st) y < fuel"
    using assms(3) by (simp add: park_rank_def)
  from parks.returns [OF i this] show ?thesis by (auto simp: park_def)
qed

text \<open>A machine on which another process always holds the store's lock.\<close>

definition busy_look :: look where
  "busy_look = \<lparr>wall = 0, mono = 0, settings = (\<lambda>_. Inl KeyError), lenv = (\<lambda>_. None),
     lhost = \<lparr>resolve = (\<lambda>_. Inl KeyError), registry = (\<lambda>_ _. Inr 0), stamp = None,
       parallel_setting = Inr 0, probe = (\<lambda>_ _. Inr 1), henv = (\<lambda>_. None), hclock = 0\<rparr>,
     on_write = Busy, on_count = Busy, on_hold = Busy, on_clean = Busy, disk = True, polls = None,
     meddle = (\<lambda>st. st)\<rparr>"

definition new_limiter :: limiter where
  "new_limiter = \<lparr>sends = [], lholds = (\<lambda>_. None), machine = new_store, waiting = 0, igate = new_gate,
     slot_memo = (\<lambda>_. None)\<rparr>"

lemma busy_clocked: "clocked 19 (\<lambda>_. busy_look)"
  by (simp add: clocked_def busy_look_def on_grid_def cancelled_def)

theorem park_returns_witness:
  "\<exists>w st'. park 200 (\<lambda>_. busy_look) None chat_cat 8 0 new_limiter = Some (w, st') \<and> 0 \<le> w \<and> w \<le> max 0 8"
  by (rule park_returns [OF busy_clocked])
    (simp_all add: timed_def new_limiter_def new_store_def ticks_def)

theorem acquire_within_budget_witness:
  "\<exists>w st'. acquire_global 2 busy_look (\<lambda>_. \<lparr>stopped = False, clock = 0, seen_gate = new_gate\<rparr>)
     (busy_look\<lparr>polls := Some (\<lambda>_. True)\<rparr>) (\<lambda>_. busy_look) 8 None None new_limiter = Some (w, st') \<and> w \<le> 8"
proof -
  let ?a = "acquire_global 2 busy_look (\<lambda>_. \<lparr>stopped = False, clock = 0, seen_gate = new_gate\<rparr>)
     (busy_look\<lparr>polls := Some (\<lambda>_. True)\<rparr>) (\<lambda>_. busy_look) 8 None None new_limiter"
  have b: "budget busy_look (category (lenv busy_look) None) 8 = 8"
    by (simp add: budget_def category_def chat_cat_def compaction_cat_def)
  have "\<exists>w st'. ?a = Some (w, st')"
    by (simp add: acquire_global_def cancelled_def busy_look_def priority_gate_def category_def
        chat_cat_def compaction_cat_def Let_def)
  then obtain w st' where a: "?a = Some (w, st')" by blast
  from acquire_within_budget [OF a] a show ?thesis by (simp add: b)
qed

section \<open>A yield is charged twice\<close>

text \<open>The seconds a background call stepped aside are taken off its budget and also counted
  as waited: once they are half the budget, the first refusal ends the wait and the call
  overruns the ceiling with the other half of the budget unused.\<close>

theorem yield_charged_twice:
  assumes "mx \<le> 2 * y" and "0 \<le> y" and "\<not> cancelled (world 0) 0"
    and "acquire_pass (world 0) p c (meddle (world 0) (bump_waiting 1 st)) = (v, st1)"
    and "\<not> done_now v" and "0 < sleep_s v"
  shows "park (Suc f) world p c (max 0 (mx - y)) y st =
    Some (y, bump_waiting (- 1) (overrun_through (world 0) (rpm_now v) c (crpm_now v) st1))"
proof -
  have "max 0 (mx - y) < y + sleep_s v" using assms(1,2,6) by auto
  then show ?thesis using assms(3-6) by (simp add: park_def gate_body_def Let_def)
qed

theorem yield_charged_twice_witness:
  "\<exists>st'. park 1 (\<lambda>_. busy_look) None chat_cat (max 0 (10 - 5)) 5 new_limiter = Some (5, st')"
proof -
  obtain v st1 where p: "acquire_pass busy_look None chat_cat (meddle busy_look (bump_waiting 1 new_limiter)) = (v, st1)"
    by fastforce
  have "enabled (\<lambda>_. None)" by code_simp
  with p have v: "\<not> done_now v" "0 < sleep_s v"
    by (auto simp: busy_look_def acquire_pass_def global_rpm_def rate_setting_def env_get_def
        default_global_rpm_def category_limit_def cat_rpm_def chat_cat_def compaction_cat_def
        default_chat_rpm_def held_for_def hold_left_locked_def hold_left_def conn_def cold_def
        raised_def take_any_def take_store_def Let_def bump_waiting_def new_limiter_def
        new_store_def new_health_def)
  show ?thesis
    using yield_charged_twice [of 10 5 "\<lambda>_. busy_look" None chat_cat new_limiter v st1 0] p v
    by (simp add: cancelled_def busy_look_def)
qed

end
