(* ===== verification/Sync_Merge.thy ===== *)
theory Sync_Merge
  imports Py_Values "HOL-Library.Char_ord" "HOL-Library.List_Lexorder" "HOL-Library.Product_Lexorder"
begin

text \<open>
  The merge rule of the memory sync, \<^verbatim>\<open>aiforge_core/memory/sync/merge.py\<close>. An entry of
  a manifest is a dictionary a peer may have written, so its fields are Python values; the
  text Python gives a float, a list or a dictionary is the argument \<open>rep\<close>. The library's
  lexicographic orders on characters, lists and products are Python's order on the tuples of
  \<^verbatim>\<open>_order\<close> (a UTF-8 text sorts as its code points do).

  Last section: what a pull does to what is held is the join of both sides, so two peers that
  pull from each other hold the same version of every identity.
\<close>

type_synonym entry = "(string \<times> pyval) list"

section \<open>Reading an entry\<close>

text \<open>\<^verbatim>\<open>int(value or 0)\<close>, and 0 for a value that is not a number.\<close>

definition as_rev :: "pyval \<Rightarrow> int" where
  "as_rev v = or_else (int_or0 v) 0"

text \<open>\<^verbatim>\<open>str(entry.get(k) or "")\<close>.\<close>

definition field :: "(pyval \<Rightarrow> string) \<Rightarrow> entry \<Rightarrow> string \<Rightarrow> string" where
  "field rep e k = py_str rep (por (dget e k) (PStr []))"

definition hash_of :: "(pyval \<Rightarrow> string) \<Rightarrow> entry \<Rightarrow> string" where
  "hash_of rep e = lower (strip (field rep e ''hash''))"

definition ident_of :: "(pyval \<Rightarrow> string) \<Rightarrow> entry \<Rightarrow> string \<times> string" where
  "ident_of rep e = (lower (field rep e ''origin''), lower (field rep e ''key''))"

type_synonym version = "int \<times> string \<times> string"

definition order_of :: "(pyval \<Rightarrow> string) \<Rightarrow> entry \<Rightarrow> version" where
  "order_of rep e = (as_rev (dget e ''rev''), field rep e ''updated_by'', hash_of rep e)"

definition is_kind :: "string \<Rightarrow> entry \<Rightarrow> bool" where
  "is_kind k e \<longleftrightarrow> dget e ''kind'' = PStr k"

section \<open>The plan\<close>

text \<open>\<^verbatim>\<open>_local_b_by_ident\<close>: the highest version held of each identity.\<close>

definition keep_best :: "(pyval \<Rightarrow> string) \<Rightarrow> (string \<times> string \<Rightarrow> entry option) \<Rightarrow> entry
    \<Rightarrow> (string \<times> string \<Rightarrow> entry option)" where
  "keep_best rep best e =
     (if \<not> is_kind ''B'' e then best
      else (case best (ident_of rep e) of
              None \<Rightarrow> best(ident_of rep e \<mapsto> e)
            | Some cur \<Rightarrow> if order_of rep e > order_of rep cur then best(ident_of rep e \<mapsto> e) else best))"

definition local_b_by_ident :: "(pyval \<Rightarrow> string) \<Rightarrow> entry list \<Rightarrow> (string \<times> string \<Rightarrow> entry option)" where
  "local_b_by_ident rep xs = foldl (keep_best rep) (\<lambda>_. None) xs"

text \<open>A list or a dictionary cannot be looked up in a set.\<close>

fun hashable :: "pyval \<Rightarrow> bool" where
  "hashable (PList _) = False"
| "hashable (PDict _) = False"
| "hashable _ = True"

record plan =
  want :: "entry list"
  conflict :: "(entry \<times> entry) list"

definition classify_remote ::
  "(pyval \<Rightarrow> string) \<Rightarrow> pyval list \<Rightarrow> (string \<times> string \<Rightarrow> entry option) \<Rightarrow> plan \<Rightarrow> entry \<Rightarrow> plan res" where
  "classify_remote rep have best p r =
     (let h = dget r ''hash'' in
      if \<not> truthy h then Inr p
      else if is_kind ''A'' r
      then (if \<not> hashable h then Inl TypeError
            else if h \<notin> set have then Inr (p\<lparr>want := want p @ [r]\<rparr>) else Inr p)
      else (case best (ident_of rep r) of
              None \<Rightarrow> Inr (p\<lparr>want := want p @ [r]\<rparr>)
            | Some cur \<Rightarrow>
                if dget cur ''hash'' = h then Inr p
                else (let p1 = (if as_rev (dget cur ''rev'') = as_rev (dget r ''rev'')
                                then p\<lparr>conflict := conflict p @ [(cur, r)]\<rparr> else p)
                      in Inr (if order_of rep r > order_of rep cur then p1\<lparr>want := want p1 @ [r]\<rparr> else p1))))"

fun classify_all ::
  "(pyval \<Rightarrow> string) \<Rightarrow> pyval list \<Rightarrow> (string \<times> string \<Rightarrow> entry option) \<Rightarrow> plan \<Rightarrow> entry list \<Rightarrow> plan res" where
  "classify_all rep have best p [] = Inr p"
| "classify_all rep have best p (r # rs) =
     ebind (classify_remote rep have best p r) (\<lambda>p1. classify_all rep have best p1 rs)"

text \<open>The hashes of the local captures are digests, so they can be put in a set.\<close>

definition plan_sync :: "(pyval \<Rightarrow> string) \<Rightarrow> entry list \<Rightarrow> entry list \<Rightarrow> plan res" where
  "plan_sync rep xs rs =
     (let have = filter truthy (map (\<lambda>e. dget e ''hash'') (filter (is_kind ''A'') xs));
          best = local_b_by_ident rep xs
      in classify_all rep have best \<lparr>want = [], conflict = []\<rparr> rs)"

section \<open>What is held\<close>

text \<open>The specification: the highest version of an identity among the entries, as one value
  that two sides can join.\<close>

fun join_opt :: "version option \<Rightarrow> version option \<Rightarrow> version option" where
  "join_opt None y = y"
| "join_opt x None = x"
| "join_opt (Some a) (Some b) = Some (max a b)"

lemma join_opt_assoc: "join_opt (join_opt x y) z = join_opt x (join_opt y z)"
  by (cases x; cases y; cases z) (auto simp: max.assoc)

lemma join_opt_comm: "join_opt x y = join_opt y x"
  by (cases x; cases y) (auto simp: max.commute)

lemma join_opt_None [simp]: "join_opt x None = x"
  by (cases x) auto

lemma join_opt_idem [simp]: "join_opt x x = x"
  by (cases x) auto

lemma join_opt_left_idem [simp]: "join_opt x (join_opt x y) = join_opt x y"
  by (simp flip: join_opt_assoc)

lemma join_opt_swap: "join_opt (join_opt x y) z = join_opt (join_opt x z) y"
  by (simp only: join_opt_assoc join_opt_comm [of y z])

definition holds_one :: "(pyval \<Rightarrow> string) \<Rightarrow> string \<times> string \<Rightarrow> entry \<Rightarrow> version option" where
  "holds_one rep i e = (if is_kind ''B'' e \<and> ident_of rep e = i then Some (order_of rep e) else None)"

fun held :: "(pyval \<Rightarrow> string) \<Rightarrow> entry list \<Rightarrow> string \<times> string \<Rightarrow> version option" where
  "held rep [] i = None"
| "held rep (e # es) i = join_opt (holds_one rep i e) (held rep es i)"

lemma held_append [simp]: "held rep (xs @ ys) i = join_opt (held rep xs i) (held rep ys i)"
  by (induction xs) (auto simp: join_opt_assoc)

lemma local_best_held: "map_option (order_of rep) (local_b_by_ident rep xs i) = held rep xs i"
  and local_best_mem: "local_b_by_ident rep xs i = Some e \<Longrightarrow> e \<in> set xs \<and> is_kind ''B'' e \<and> ident_of rep e = i"
proof -
  have "(\<forall>i. held rep xs i = map_option (order_of rep) (local_b_by_ident rep xs i)) \<and>
    (\<forall>i e. local_b_by_ident rep xs i = Some e \<longrightarrow> e \<in> set xs \<and> is_kind ''B'' e \<and> ident_of rep e = i)"
  proof (induction xs rule: rev_induct)
    case Nil
    then show ?case by (simp add: local_b_by_ident_def)
  next
    case (snoc x xs)
    have s: "local_b_by_ident rep (xs @ [x]) = keep_best rep (local_b_by_ident rep xs) x"
      by (simp add: local_b_by_ident_def)
    show ?case
      using snoc by (auto simp: s keep_best_def holds_one_def max_def not_less split: option.splits)
  qed
  then show "map_option (order_of rep) (local_b_by_ident rep xs i) = held rep xs i"
    and "local_b_by_ident rep xs i = Some e \<Longrightarrow> e \<in> set xs \<and> is_kind ''B'' e \<and> ident_of rep e = i"
    by (cases i, simp)+
qed

text \<open>
  A manifest that hashes what it describes: every entry has a digest, is of one of the two
  classes, and two records with one digest are one record, so they carry one version.
\<close>

definition honest_pair :: "(pyval \<Rightarrow> string) \<Rightarrow> entry list \<Rightarrow> entry list \<Rightarrow> bool" where
  "honest_pair rep xs rs \<longleftrightarrow>
     list_all (\<lambda>r. truthy (dget r ''hash'') \<and> (is_kind ''A'' r \<or> is_kind ''B'' r)) rs \<and>
     list_all (\<lambda>x. list_all (\<lambda>r. dget x ''hash'' = dget r ''hash'' \<longrightarrow> order_of rep x = order_of rep r) rs) xs"

lemma not_both_kinds: "is_kind ''A'' e \<Longrightarrow> \<not> is_kind ''B'' e"
  by (simp add: is_kind_def)

lemma classify_remote_join:
  assumes "classify_remote rep have (local_b_by_ident rep xs) p r = Inr p'"
    and "honest_pair rep xs [r]"
  shows "join_opt (held rep xs i) (held rep (want p') i) =
    join_opt (join_opt (held rep xs i) (held rep (want p) i)) (holds_one rep i r)"
proof -
  let ?best = "local_b_by_ident rep xs" and ?h = "dget r ''hash''"
  have t: "truthy ?h" and k: "is_kind ''A'' r \<or> is_kind ''B'' r"
    using assms(2) by (simp_all add: honest_pair_def)
  show ?thesis
  proof (cases "is_kind ''A'' r")
    case True
    then have "want p' = want p \<or> want p' = want p @ [r]"
      using assms(1) t by (auto simp: classify_remote_def Let_def split: if_splits)
    then show ?thesis using not_both_kinds [OF True] by (auto simp: holds_one_def)
  next
    case False
    then have B: "is_kind ''B'' r" using k by blast
    show ?thesis
    proof (cases "?best (ident_of rep r)")
      case None
      then have "want p' = want p @ [r]"
        using assms(1) t False by (auto simp: classify_remote_def Let_def)
      then show ?thesis by (simp add: join_opt_assoc)
    next
      case (Some cur)
      have cur: "cur \<in> set xs" "held rep xs (ident_of rep r) = Some (order_of rep cur)"
        using local_best_mem [OF Some] local_best_held [of rep xs "ident_of rep r"] Some by auto
      have w: "want p' = (if dget cur ''hash'' \<noteq> ?h \<and> order_of rep r > order_of rep cur
          then want p @ [r] else want p)"
        using assms(1) t False Some by (auto simp: classify_remote_def Let_def split: if_splits)
      show ?thesis
      proof (cases "dget cur ''hash'' \<noteq> ?h \<and> order_of rep r > order_of rep cur")
        case True
        then show ?thesis using w by (simp add: join_opt_assoc)
      next
        case le: False
        have "order_of rep r \<le> order_of rep cur"
          using le assms(2) cur(1) by (auto simp: honest_pair_def list_all_iff)
        then have "join_opt (held rep xs i) (holds_one rep i r) = held rep xs i"
          using cur(2) by (auto simp: holds_one_def max_def)
        moreover have "want p' = want p" using w le by (simp only: if_False)
        ultimately show ?thesis by (simp only: join_opt_swap)
      qed
    qed
  qed
qed

lemma classify_all_join:
  assumes "classify_all rep have (local_b_by_ident rep xs) p rs = Inr p'" and "honest_pair rep xs rs"
  shows "join_opt (held rep xs i) (held rep (want p') i) =
    join_opt (join_opt (held rep xs i) (held rep (want p) i)) (held rep rs i)"
  using assms
proof (induction rs arbitrary: p)
  case (Cons r rs)
  obtain p1 where p1: "classify_remote rep have (local_b_by_ident rep xs) p r = Inr p1"
    "classify_all rep have (local_b_by_ident rep xs) p1 rs = Inr p'"
    using Cons.prems(1) by (auto simp: ebind_Inr_iff)
  have h: "honest_pair rep xs [r]" "honest_pair rep xs rs"
    using Cons.prems(2) by (auto simp: honest_pair_def list_all_iff)
  show ?case
    unfolding Cons.IH [OF p1(2) h(2)] classify_remote_join [OF p1(1) h(1), of i]
    by (simp only: held.simps join_opt_assoc)
qed simp

section \<open>What a pull fetches\<close>

text \<open>
  The rule of the merge written out: the higher revision wins, then the higher writer, then the
  higher digest. A record is needed when no capture of its digest is held, or when it outranks
  every held version of its identity.
\<close>

definition outranks :: "(pyval \<Rightarrow> string) \<Rightarrow> entry \<Rightarrow> entry \<Rightarrow> bool" where
  "outranks rep r x \<longleftrightarrow>
     as_rev (dget r ''rev'') > as_rev (dget x ''rev'') \<or>
     as_rev (dget r ''rev'') = as_rev (dget x ''rev'') \<and>
       (field rep r ''updated_by'' > field rep x ''updated_by'' \<or>
        field rep r ''updated_by'' = field rep x ''updated_by'' \<and> hash_of rep r > hash_of rep x)"

definition needed :: "(pyval \<Rightarrow> string) \<Rightarrow> entry list \<Rightarrow> entry \<Rightarrow> bool" where
  "needed rep xs r \<longleftrightarrow>
     (if is_kind ''A'' r then list_all (\<lambda>x. is_kind ''A'' x \<longrightarrow> dget x ''hash'' \<noteq> dget r ''hash'') xs
      else list_all (\<lambda>x. is_kind ''B'' x \<and> ident_of rep x = ident_of rep r \<longrightarrow> outranks rep r x) xs)"

lemma outranks_iff: "outranks rep r x \<longleftrightarrow> order_of rep r > order_of rep x"
  by (auto simp: outranks_def order_of_def less_prod_def')

lemma held_ge:
  "x \<in> set xs \<Longrightarrow> is_kind ''B'' x \<Longrightarrow> \<exists>v. held rep xs (ident_of rep x) = Some v \<and> order_of rep x \<le> v"
proof (induction xs)
  case (Cons y ys)
  show ?case
  proof (cases "x = y")
    case True
    then show ?thesis using Cons.prems(2)
      by (cases "held rep ys (ident_of rep y)") (auto simp: holds_one_def)
  next
    case False
    then obtain v where "held rep ys (ident_of rep x) = Some v" "order_of rep x \<le> v"
      using Cons by auto
    then show ?thesis by (auto simp: holds_one_def max_def simp del: split_paired_Ex)
  qed
qed simp

lemma classify_remote_wants:
  assumes "classify_remote rep (filter truthy (map (\<lambda>e. dget e ''hash'') (filter (is_kind ''A'') xs)))
      (local_b_by_ident rep xs) p r = Inr p'"
    and "honest_pair rep xs [r]"
  shows "want p' = want p @ filter (needed rep xs) [r]"
proof -
  have t: "truthy (dget r ''hash'')" using assms(2) by (simp add: honest_pair_def)
  show ?thesis
  proof (cases "is_kind ''A'' r")
    case True
    have "needed rep xs r \<longleftrightarrow>
        dget r ''hash'' \<notin> set (filter truthy (map (\<lambda>e. dget e ''hash'') (filter (is_kind ''A'') xs)))"
      using True t by (auto simp: needed_def list_all_iff image_iff)
    then show ?thesis using assms(1) t True by (auto simp: classify_remote_def Let_def split: if_splits)
  next
    case False
    show ?thesis
    proof (cases "local_b_by_ident rep xs (ident_of rep r)")
      case None
      then have "held rep xs (ident_of rep r) = None"
        using local_best_held [of rep xs "ident_of rep r"] by simp
      then have "needed rep xs r"
        using held_ge [of _ xs rep] False by (force simp: needed_def list_all_iff)
      then show ?thesis using assms(1) t False None by (auto simp: classify_remote_def Let_def)
    next
      case (Some cur)
      note cur = local_best_mem [OF Some]
      have v: "held rep xs (ident_of rep r) = Some (order_of rep cur)"
        using local_best_held [of rep xs "ident_of rep r"] Some by simp
      have "needed rep xs r \<longleftrightarrow> order_of rep r > order_of rep cur"
        using cur held_ge [of _ xs rep] v False
        by (fastforce simp: needed_def list_all_iff outranks_iff)
      moreover have "dget cur ''hash'' = dget r ''hash'' \<Longrightarrow> \<not> order_of rep r > order_of rep cur"
        using assms(2) cur by (auto simp: honest_pair_def list_all_iff)
      ultimately show ?thesis
        using assms(1) t False Some by (auto simp: classify_remote_def Let_def split: if_splits)
    qed
  qed
qed

lemma classify_all_wants:
  assumes "classify_all rep (filter truthy (map (\<lambda>e. dget e ''hash'') (filter (is_kind ''A'') xs)))
      (local_b_by_ident rep xs) p rs = Inr p'"
    and "honest_pair rep xs rs"
  shows "want p' = want p @ filter (needed rep xs) rs"
  using assms
proof (induction rs arbitrary: p)
  case (Cons r rs)
  have h: "honest_pair rep xs [r]" "honest_pair rep xs rs"
    using Cons.prems(2) by (auto simp: honest_pair_def list_all_iff)
  show ?case
    using Cons.prems(1) classify_remote_wants [OF _ h(1)] Cons.IH [OF _ h(2)]
    by (fastforce simp: ebind_Inr_iff)
qed simp

lemma plan_sync_wants:
  "plan_sync rep xs rs = Inr p \<Longrightarrow> honest_pair rep xs rs \<Longrightarrow> want p = filter (needed rep xs) rs"
  using classify_all_wants [of rep xs "\<lparr>want = [], conflict = []\<rparr>" rs p] by (simp add: plan_sync_def Let_def)

text \<open>C5. A pull fetches exactly what the join needs. From a manifest that hashes what it
  describes it asks, in the order listed, for the captures whose digest is not held and for
  the records that outrank every held version of their identity - by revision, then writer,
  then digest - and for nothing else; what is held of an identity once they have arrived is
  the higher of what the two manifests hold.\<close>

theorem plan_is_join:
  assumes "plan_sync rep xs rs = Inr p" and "honest_pair rep xs rs"
  shows "want p = filter (needed rep xs) rs \<and>
    held rep (xs @ want p) i = join_opt (held rep xs i) (held rep rs i)"
  using classify_all_join [of rep _ xs _ rs p i] plan_sync_wants [OF assms] assms
  by (auto simp: plan_sync_def Let_def)

definition rec1 :: "int \<Rightarrow> string \<Rightarrow> string \<Rightarrow> entry" where
  "rec1 v w digest = [(''kind'', PStr ''B''), (''origin'', PStr ''ms''), (''key'', PStr ''K-01''),
     (''rev'', PInt v), (''updated_by'', PStr w), (''hash'', PStr digest)]"

theorem plan_is_join_witness:
  "\<exists>p. plan_sync (\<lambda>_. []) [rec1 2 ''ms'' ''aa''] [rec1 1 ''zz'' ''ff'', rec1 2 ''ms'' ''bb''] = Inr p \<and>
     want p = [rec1 2 ''ms'' ''bb''] \<and>
     held (\<lambda>_. []) ([rec1 2 ''ms'' ''aa''] @ want p) (''ms'', ''k-01'') = Some (2, ''ms'', ''bb'')"
proof -
  let ?x = "rec1 2 ''ms'' ''aa''" and ?old = "rec1 1 ''zz'' ''ff''" and ?new = "rec1 2 ''ms'' ''bb''"
  have h: "honest_pair (\<lambda>_. []) [?x] [?old, ?new]"
    by (simp add: honest_pair_def rec1_def is_kind_def)
  have p: "plan_sync (\<lambda>_. []) [?x] [?old, ?new] = Inr \<lparr>want = [?new], conflict = [(?x, ?new)]\<rparr>" by code_simp
  have w: "filter (needed (\<lambda>_. []) [?x]) [?old, ?new] = [?new]" by code_simp
  have "join_opt (held (\<lambda>_. []) [?x] (''ms'', ''k-01'')) (held (\<lambda>_. []) [?old, ?new] (''ms'', ''k-01''))
      = Some (2, ''ms'', ''bb'')"
    by code_simp
  with plan_is_join [OF p h, of "(''ms'', ''k-01'')"] p w show ?thesis by auto
qed

text \<open>The parts of two entries that tell two versions of one record apart.\<close>

definition same_version :: "(pyval \<Rightarrow> string) \<Rightarrow> entry \<Rightarrow> entry \<Rightarrow> bool" where
  "same_version rep e f \<longleftrightarrow>
     as_rev (dget e ''rev'') = as_rev (dget f ''rev'') \<and>
     field rep e ''updated_by'' = field rep f ''updated_by'' \<and>
     hash_of rep e = hash_of rep f"



section \<open>Two spellings of one digest\<close>

text \<open>A digest a peer spells in upper case is a conflict that no pull ends, though the
  normalised order of the two entries is the same: the equality test of the plan reads the
  hashes as they came.\<close>

theorem spelling_conflicts:
  assumes "is_kind ''B'' x" and "is_kind ''B'' r" and "ident_of rep x = ident_of rep r"
    and "order_of rep x = order_of rep r" and "dget x ''hash'' \<noteq> dget r ''hash''" and "truthy (dget r ''hash'')"
  shows "plan_sync rep [x] [r] = Inr \<lparr>want = [], conflict = [(x, r)]\<rparr>"
proof -
  have "\<not> is_kind ''A'' r" using assms(2) not_both_kinds by blast
  moreover have "as_rev (dget x ''rev'') = as_rev (dget r ''rev'')"
    using assms(4) by (simp add: order_of_def)
  ultimately show ?thesis
    using assms by (simp add: plan_sync_def local_b_by_ident_def keep_best_def classify_remote_def Let_def)
qed

theorem spelling_conflicts_witness:
  "plan_sync (\<lambda>_. []) [rec1 3 ''ms'' ''ab''] [rec1 3 ''ms'' ''AB''] =
     Inr \<lparr>want = [], conflict = [(rec1 3 ''ms'' ''ab'', rec1 3 ''ms'' ''AB'')]\<rparr>"
proof (rule spelling_conflicts)
  show "order_of (\<lambda>_. []) (rec1 3 ''ms'' ''ab'') = order_of (\<lambda>_. []) (rec1 3 ''ms'' ''AB'')" by code_simp
qed (simp_all add: rec1_def is_kind_def ident_of_def field_def)

end
