(* ===== verification/Sync_Paths.thy ===== *)
theory Sync_Paths
  imports Sync_Merge Json
begin

text \<open>
  The layout rule of the memory sync, \<^verbatim>\<open>aiforge_core/memory/sync/paths.py\<close>, with the
  identity of a machine (\<^verbatim>\<open>identity.py\<close>), the identity fields of a record
  (\<^verbatim>\<open>manifest.fields_of\<close>) and the readers of \<^verbatim>\<open>_io.py\<close>.

  The tree is an association list from paths, given as their components below the memory root,
  to the bytes of the file. It holds real files: a symbolic link, which \<^verbatim>\<open>is_syncable\<close>
  refuses and \<^verbatim>\<open>safe_target\<close> resolves, is not modelled. \<open>codec\<close> holds SHA-256 and the
  YAML front matter of a node (\<^verbatim>\<open>okf.nodes.parse_node\<close> over the PyYAML package), both
  functions of the bytes, and whether bytes are UTF-8.
\<close>

type_synonym path = "string list"
type_synonym tree = "(path, string) table"

record codec =
  sha256 :: "string \<Rightarrow> string"
  node_meta :: "string \<Rightarrow> entry"
  is_utf8 :: "string \<Rightarrow> bool"

section \<open>The identity alphabet\<close>

definition id_char :: "char \<Rightarrow> bool" where
  "id_char c = (is_word c \<or> c = CHR ''-'')"

text \<open>\<^verbatim>\<open>re.sub("[^A-Za-z0-9_-]+", "-", s)\<close>: a run of other characters becomes one dash.\<close>

fun unsafe_sub :: "bool \<Rightarrow> string \<Rightarrow> string" where
  "unsafe_sub run [] = []"
| "unsafe_sub run (c # s) =
     (if id_char c then c # unsafe_sub False s
      else if run then unsafe_sub True s
      else CHR ''-'' # unsafe_sub True s)"

definition sanitise :: "string \<Rightarrow> string \<Rightarrow> string" where
  "sanitise v fallback =
     (let s = strip_chars ''-'' (unsafe_sub False v) in if s = [] then fallback else s)"

definition component :: "string \<Rightarrow> string" where
  "component v = sanitise v ''_''"

definition fold_id :: "string \<Rightarrow> string" where
  "fold_id v = lower (component v)"

definition max_component :: nat where
  "max_component = 128"

definition is_addressable :: "string \<Rightarrow> bool" where
  "is_addressable v \<longleftrightarrow> v \<noteq> [] \<and> length v \<le> max_component \<and> component v = v"

text \<open>\<^verbatim>\<open>identity.self_id\<close>: the environment wins over the host name.\<close>

definition slug :: "string \<Rightarrow> string" where
  "slug v = lower (sanitise v ''peer'')"

definition self_id :: "env \<Rightarrow> string \<Rightarrow> string" where
  "self_id e hostname =
     (let v = strip (env_get e ''AIFORGE_PEER_ID'' []) in if v \<noteq> [] then slug v else slug hostname)"

section \<open>Directories\<close>

definition class_a_dirs :: "string list" where
  "class_a_dirs = [''captures'', ''compacted'']"

definition node_roots :: "string list" where
  "node_roots = [''okf'', ''peers'', ''mesh'']"

definition class_a_target :: "string \<Rightarrow> path option" where
  "class_a_target relative =
     (case split_char (CHR ''/'') relative of
        [d, name] \<Rightarrow>
          if d \<in> set class_a_dirs \<and> ends_with ''.md'' name \<and> is_addressable (take (length name - 3) name)
          then Some [d, name] else None
      | _ \<Rightarrow> None)"

definition tomb_path :: "string \<Rightarrow> string \<Rightarrow> path" where
  "tomb_path orig k = [''okf'', ''.tomb'', fold_id orig, component k @ ''.json'']"

definition peer_node_path :: "string \<Rightarrow> string \<Rightarrow> path" where
  "peer_node_path orig k = [''peers'', fold_id orig, component k @ ''.md'']"

definition mesh_node_path :: "string \<Rightarrow> string \<Rightarrow> path" where
  "mesh_node_path orig k = [''mesh'', fold_id orig, component k @ ''.md'']"

section \<open>Reading the tree\<close>

definition read_json :: "tree \<Rightarrow> path \<Rightarrow> entry" where
  "read_json t p =
     (case map_of t p of
        None \<Rightarrow> []
      | Some b \<Rightarrow> (case json_loads b of Some (PDict d) \<Rightarrow> d | _ \<Rightarrow> []))"

definition read_node_meta :: "codec \<Rightarrow> tree \<Rightarrow> path \<Rightarrow> entry" where
  "read_node_meta C t p =
     (case map_of t p of None \<Rightarrow> [] | Some b \<Rightarrow> if is_utf8 C b then node_meta C b else [])"

record id_fields =
  f_origin :: string
  f_key :: string
  f_rev :: int
  f_by :: string

definition fields_of :: "(pyval \<Rightarrow> string) \<Rightarrow> entry \<Rightarrow> id_fields" where
  "fields_of rep m =
     (let orig = field rep m ''origin'' in
      \<lparr>f_origin = orig,
       f_key = py_str rep (por (dget m ''id'') (por (dget m ''key'') (PStr []))),
       f_rev = as_rev (dget m ''rev''),
       f_by = py_str rep (por (dget m ''updated_by'') (PStr orig))\<rparr>)"

text \<open>A scan of a root, \<^verbatim>\<open>glob("**/*.md")\<close> without what a dotted name below it hides.\<close>

definition is_node_file :: "path \<Rightarrow> bool" where
  "is_node_file p =
     (case p of
        [] \<Rightarrow> False
      | d # rest \<Rightarrow> d \<in> set node_roots \<and> rest \<noteq> [] \<and> ends_with ''.md'' (List.last rest) \<and>
          list_all (\<lambda>c. \<not> starts_with ''.'' c) rest)"

definition carries :: "(pyval \<Rightarrow> string) \<Rightarrow> codec \<Rightarrow> tree \<Rightarrow> string \<Rightarrow> string \<Rightarrow> path \<Rightarrow> bool" where
  "carries rep C t orig k p \<longleftrightarrow>
     is_node_file p \<and> lower (List.last p) = fold_id k @ ''.md'' \<and> read_node_meta C t p \<noteq> [] \<and>
     fold_id (field rep (read_node_meta C t p) ''origin'') = fold_id orig"

definition node_paths :: "(pyval \<Rightarrow> string) \<Rightarrow> codec \<Rightarrow> tree \<Rightarrow> string \<Rightarrow> string \<Rightarrow> path list" where
  "node_paths rep C t orig k =
     (if \<not> is_addressable k then []
      else sort_key (\<lambda>p. (- as_rev (dget (read_node_meta C t p) ''rev''), join ''/'' p))
             (filter (carries rep C t orig k) (keys t)))"

text \<open>\<^verbatim>\<open>_is_ours\<close>: the file lies in \<open>okf/\<close>.\<close>

definition is_ours :: "path \<Rightarrow> bool" where
  "is_ours p = (case p of [] \<Rightarrow> False | d # _ \<Rightarrow> d = ''okf'')"

definition target_for :: "(pyval \<Rightarrow> string) \<Rightarrow> codec \<Rightarrow> tree \<Rightarrow> entry \<Rightarrow> path option" where
  "target_for rep C t e =
     (if is_kind ''A'' e then class_a_target (field rep e ''path'')
      else (let k = field rep e ''key''; orig = field rep e ''origin'' in
        if \<not> is_addressable k then None
        else if \<not> is_addressable orig then None
        else if truthy (dget e ''tomb'') then Some (tomb_path orig k)
        else (case filter (\<lambda>p. \<not> is_ours p) (node_paths rep C t orig k) of
                p # _ \<Rightarrow> Some p
              | [] \<Rightarrow> if field rep e ''derived'' = ''mesh'' then Some (mesh_node_path orig k)
                      else Some (peer_node_path orig k))))"

section \<open>Identities\<close>

lemma unsafe_sub_chars: "c \<in> set (unsafe_sub b s) \<Longrightarrow> id_char c"
  by (induction b s rule: unsafe_sub.induct) (auto simp: id_char_def split: if_splits)

lemma unsafe_sub_id: "list_all id_char s \<Longrightarrow> unsafe_sub b s = s"
  by (induction b s rule: unsafe_sub.induct) auto

lemma set_strip_by: "set (strip_by p s) \<subseteq> set s"
  by (auto simp: strip_by_def dest!: set_dropWhileD)

lemma sanitise_chars: "list_all id_char fb \<Longrightarrow> list_all id_char (sanitise v fb)"
  using set_strip_by [of _ "unsafe_sub False v"] unsafe_sub_chars
  by (fastforce simp: sanitise_def strip_chars_def list_all_iff Let_def)

lemma strip_by_id: "s \<noteq> [] \<Longrightarrow> \<not> p (hd s) \<Longrightarrow> \<not> p (List.last s) \<Longrightarrow> strip_by p s = s"
  using dropWhile_eq_self_iff [of p s] dropWhile_eq_self_iff [of p "rev s"]
  by (simp add: strip_by_def hd_rev)

lemma strip_by_ends:
  assumes "strip_by p s \<noteq> []"
  shows "\<not> p (hd (strip_by p s)) \<and> \<not> p (List.last (strip_by p s))"
proof -
  let ?t = "dropWhile p s" and ?u = "dropWhile p (rev (dropWhile p s))"
  have u: "?u \<noteq> []" using assms by (simp add: strip_by_def)
  then have l: "\<not> p (hd ?u)" by (rule hd_dropWhile)
  have t: "?t \<noteq> []" using u by (metis dropWhile.simps(1) rev.simps(1))
  have "List.last ?u = hd ?t"
  proof -
    have "\<exists>ws. rev ?t = ws @ ?u" by (metis takeWhile_dropWhile_id)
    then show ?thesis using u t by (metis hd_rev last_appendR rev_rev_ident last_rev)
  qed
  then show ?thesis using l t hd_dropWhile [OF t] u by (simp add: strip_by_def hd_rev last_rev)
qed

text \<open>A component is an identity exactly if it is a short non-empty word over letters,
  digits, \<open>_\<close> and \<open>-\<close> that neither starts nor ends with a dash: so it holds no separator, no
  dot and no glob character.\<close>

theorem addressable_exact:
  "is_addressable v \<longleftrightarrow>
     v \<noteq> [] \<and> length v \<le> 128 \<and> list_all id_char v \<and> hd v \<noteq> CHR ''-'' \<and> List.last v \<noteq> CHR ''-''"
proof
  assume a: "is_addressable v"
  then have c: "component v = v" "v \<noteq> []" "length v \<le> 128"
    by (simp_all add: is_addressable_def max_component_def)
  have "list_all id_char (component v)"
    unfolding component_def by (rule sanitise_chars) (simp add: id_char_def is_word_def)
  moreover have "hd v \<noteq> CHR ''-'' \<and> List.last v \<noteq> CHR ''-''"
  proof (cases "strip_chars ''-'' (unsafe_sub False v) = []")
    case True
    then have "v = ''_''" using c(1) by (simp add: component_def sanitise_def)
    then show ?thesis by simp
  next
    case False
    then have "v = strip_chars ''-'' (unsafe_sub False v)"
      using c(1) by (simp add: component_def sanitise_def Let_def)
    with strip_by_ends [of "\<lambda>c. c \<in> set ''-''" "unsafe_sub False v"] False show ?thesis
      by (simp add: strip_chars_def)
  qed
  ultimately show "v \<noteq> [] \<and> length v \<le> 128 \<and> list_all id_char v \<and> hd v \<noteq> CHR ''-'' \<and> List.last v \<noteq> CHR ''-''"
    using c by simp
next
  assume a: "v \<noteq> [] \<and> length v \<le> 128 \<and> list_all id_char v \<and> hd v \<noteq> CHR ''-'' \<and> List.last v \<noteq> CHR ''-''"
  then have "strip_chars ''-'' (unsafe_sub False v) = v"
    by (simp add: strip_chars_def unsafe_sub_id strip_by_id)
  then show "is_addressable v"
    using a by (simp add: is_addressable_def component_def sanitise_def max_component_def)
qed

end
