(* ===== verification/Sync_Apply.thy ===== *)
theory Sync_Apply
  imports Sync_Paths
begin

text \<open>
  Placing a fetched record in the tree, \<^verbatim>\<open>aiforge_core/memory/sync/apply.py\<close>; deleting one,
  \<^verbatim>\<open>tombstone.py\<close>; and what the admin accepts from a spoke and serves to it,
  \<^verbatim>\<open>inbox.py\<close>, with the selection of a push (\<^verbatim>\<open>push._mine\<close>). Every operation returns
  the new tree. An operating system error while a file is written, and log lines, are not
  modelled; the outbound filter (\<^verbatim>\<open>redact.review\<close>) is an argument.
\<close>

section \<open>Verification of a record\<close>

definition ident_fields :: "id_fields \<Rightarrow> string \<times> string \<times> int \<times> string" where
  "ident_fields f = (fold_id (f_origin f), fold_id (f_key f), f_rev f, fold_id (f_by f))"

text \<open>\<^verbatim>\<open>_body_fields\<close>: the identity the bytes state.\<close>

definition body_fields :: "(pyval \<Rightarrow> string) \<Rightarrow> codec \<Rightarrow> entry \<Rightarrow> string \<Rightarrow> id_fields option" where
  "body_fields rep C e body =
     (if \<not> is_utf8 C body then None
      else if truthy (dget e ''tomb'')
      then (case json_loads body of Some (PDict d) \<Rightarrow> Some (fields_of rep d) | _ \<Rightarrow> None)
      else Some (fields_of rep (node_meta C body)))"

definition order_on_disk ::
  "(pyval \<Rightarrow> string) \<Rightarrow> codec \<Rightarrow> tree \<Rightarrow> path \<Rightarrow> bool \<Rightarrow> version option" where
  "order_on_disk rep C t p tomb =
     (case map_of t p of
        None \<Rightarrow> None
      | Some b \<Rightarrow>
          (let m = (if tomb then read_json t p else read_node_meta C t p) in
           if m = [] then None
           else (let f = fields_of rep m in Some (f_rev f, f_by f, sha256 C b))))"

definition accept_class_a :: "tree \<Rightarrow> path \<Rightarrow> bool" where
  "accept_class_a t p = (map_of t p = None)"

definition accept_class_b ::
  "(pyval \<Rightarrow> string) \<Rightarrow> codec \<Rightarrow> string \<Rightarrow> entry \<Rightarrow> string \<Rightarrow> string \<Rightarrow> bool" where
  "accept_class_b rep C me e body peer =
     (let d = fields_of rep e in
      fold_id (f_origin d) \<noteq> me \<and> fold_id (f_origin d) = fold_id peer \<and>
      (case body_fields rep C e body of None \<Rightarrow> False | Some f \<Rightarrow> ident_fields f = ident_fields d))"

section \<open>Writing\<close>

text \<open>\<^verbatim>\<open>Path.stem\<close>: the name without its last suffix.\<close>

definition stem :: "string \<Rightarrow> string" where
  "stem name = (case rfind_char (CHR ''.'') name of
     None \<Rightarrow> name | Some i \<Rightarrow> if i = 0 \<or> Suc i = length name then name else take i name)"

definition sidecar :: "path \<Rightarrow> path" where
  "sidecar p = butlast p @ [stem (List.last p) @ ''.conflict.md'']"

text \<open>\<^verbatim>\<open>keep_conflict\<close>; \<open>None\<close> keeps the file's own bytes.\<close>

definition keep_conflict :: "path \<Rightarrow> string option \<Rightarrow> tree \<Rightarrow> tree" where
  "keep_conflict p body t =
     (case map_of t p of
        None \<Rightarrow> t
      | Some b \<Rightarrow> set_at t (sidecar p) (case body of None \<Rightarrow> b | Some x \<Rightarrow> x))"

definition incoming_order :: "(pyval \<Rightarrow> string) \<Rightarrow> entry \<Rightarrow> version" where
  "incoming_order rep e =
     (as_rev (dget e ''rev''),
      py_str rep (por (dget e ''updated_by'') (por (dget e ''origin'') (PStr []))),
      hash_of rep e)"

definition target_is_older ::
  "(pyval \<Rightarrow> string) \<Rightarrow> codec \<Rightarrow> entry \<Rightarrow> path \<Rightarrow> string \<Rightarrow> tree \<Rightarrow> bool \<times> tree" where
  "target_is_older rep C e p body t =
     (case order_on_disk rep C t p (truthy (dget e ''tomb'')) of
        None \<Rightarrow> (True, t)
      | Some cur \<Rightarrow>
          if snd (snd cur) = snd (snd (incoming_order rep e)) then (False, t)
          else if cur < incoming_order rep e then (True, t)
          else (False, if truthy (dget e ''tomb'') then t else keep_conflict p (Some body) t))"

definition unlink :: "path \<Rightarrow> tree \<Rightarrow> tree" where
  "unlink p t = drop_key p t"

definition enforce_invariant :: "(pyval \<Rightarrow> string) \<Rightarrow> codec \<Rightarrow> entry \<Rightarrow> tree \<Rightarrow> tree" where
  "enforce_invariant rep C e t =
     (if \<not> is_kind ''B'' e then t
      else (let k = field rep e ''key''; orig = field rep e ''origin'' in
        if k = [] then t
        else if truthy (dget e ''tomb'') then fold unlink (node_paths rep C t orig k) t
        else unlink (tomb_path orig k) t))"

text \<open>\<^verbatim>\<open>assert_not_ours\<close>: inside \<open>okf/\<close> only the tombstones may be written.\<close>

definition authored :: "path \<Rightarrow> bool" where
  "authored p = (case p of [] \<Rightarrow> False | d # rest \<Rightarrow> d = ''okf'' \<and> ''.tomb'' \<notin> set rest)"

definition apply_blob ::
  "(pyval \<Rightarrow> string) \<Rightarrow> codec \<Rightarrow> string \<Rightarrow> entry \<Rightarrow> string \<Rightarrow> string \<Rightarrow> tree \<Rightarrow> bool \<times> tree" where
  "apply_blob rep C me e body peer t =
     (if sha256 C body \<noteq> hash_of rep e then (False, t)
      else if is_kind ''B'' e \<and> \<not> accept_class_b rep C me e body peer then (False, t)
      else (case target_for rep C t e of
              None \<Rightarrow> (False, t)
            | Some p \<Rightarrow>
                (let (ok, t1) = (if is_kind ''B'' e then target_is_older rep C e p body t
                                 else (accept_class_a t p, t))
                 in if \<not> ok then (False, t1)
                    else if authored p then (False, t1)
                    else (True, enforce_invariant rep C e (set_at t1 p body)))))"

section \<open>Deleting\<close>

text \<open>\<^verbatim>\<open>json.dumps\<close> of a tombstone is the argument \<open>dumps\<close>.\<close>

definition tomb_record :: "string \<Rightarrow> string \<Rightarrow> string \<Rightarrow> int \<Rightarrow> entry" where
  "tomb_record me orig k v =
     [(''origin'', PStr orig), (''key'', PStr k), (''rev'', PInt (v + 1)),
      (''updated_by'', PStr me), (''tomb'', PBool True)]"

definition record_tomb ::
  "(entry \<Rightarrow> string) \<Rightarrow> string \<Rightarrow> string \<Rightarrow> string \<Rightarrow> int \<Rightarrow> tree \<Rightarrow> tree" where
  "record_tomb dumps me orig k v t =
     set_at t (tomb_path orig k) (dumps (tomb_record me orig k v))"

definition delete_node ::
  "(pyval \<Rightarrow> string) \<Rightarrow> codec \<Rightarrow> (entry \<Rightarrow> string) \<Rightarrow> string \<Rightarrow> string \<Rightarrow> string \<Rightarrow> tree \<Rightarrow> bool \<times> tree" where
  "delete_node rep C dumps me orig k t =
     (let found = node_paths rep C t orig k in
      if found = [] then (False, t)
      else (let top_rev = foldl (\<lambda>r p. max r (as_rev (dget (read_node_meta C t p) ''rev''))) 0 found
            in (True, record_tomb dumps me orig k top_rev (fold unlink found t))))"

definition mark_deleted ::
  "(pyval \<Rightarrow> string) \<Rightarrow> codec \<Rightarrow> (entry \<Rightarrow> string) \<Rightarrow> string \<Rightarrow> string \<Rightarrow> string \<Rightarrow> pyval \<Rightarrow> tree \<Rightarrow> bool \<times> tree" where
  "mark_deleted rep C dumps me orig k v t =
     (if orig = [] \<or> k = [] then (False, t)
      else if fold_id orig \<noteq> fold_id me then (False, t)
      else if node_paths rep C t orig k \<noteq> [] then (False, t)
      else (True, record_tomb dumps me orig k (as_rev v) t))"

section \<open>The admin's side of a push\<close>

definition max_blob_bytes :: nat where
  "max_blob_bytes = 8 * 1024 * 1024"

definition max_offer_entries :: nat where
  "max_offer_entries = 20000"

text \<open>What a spoke offers are Python values; one that is no dictionary is left out.\<close>

definition normal_row :: "(pyval \<Rightarrow> string) \<Rightarrow> entry \<Rightarrow> entry" where
  "normal_row rep d = set_at d ''hash'' (PStr (hash_of rep d))"

definition offered_rows :: "(pyval \<Rightarrow> string) \<Rightarrow> pyval list \<Rightarrow> entry list" where
  "offered_rows rep vs = List.map_filter (\<lambda>v. case v of PDict d \<Rightarrow> Some (normal_row rep d) | _ \<Rightarrow> None) vs"

definition wanted :: "(pyval \<Rightarrow> string) \<Rightarrow> entry list \<Rightarrow> pyval list \<Rightarrow> entry list res" where
  "wanted rep manifest vs =
     (let rows = offered_rows rep vs in
      if length rows > max_offer_entries then Inr []
      else ebind (plan_sync rep manifest (filter (\<lambda>r. \<not> truthy (dget r ''derived'')) rows))
             (\<lambda>p. Inr (want p)))"

definition accept_push ::
  "(pyval \<Rightarrow> string) \<Rightarrow> codec \<Rightarrow> (string \<Rightarrow> bool) \<Rightarrow> string \<Rightarrow> string \<Rightarrow> pyval \<Rightarrow> string \<Rightarrow> tree \<Rightarrow> bool \<times> tree" where
  "accept_push rep C passes me peer v body t =
     (case v of
        PDict e \<Rightarrow>
          if length body > max_blob_bytes then (False, t)
          else if strip (field rep e ''derived'') \<noteq> [] then (False, t)
          else if is_kind ''B'' e \<and> \<not> truthy (dget e ''tomb'') \<and> \<not> passes body then (False, t)
          else apply_blob rep C me e body peer t
      | _ \<Rightarrow> (False, t))"

definition downstream :: "(pyval \<Rightarrow> string) \<Rightarrow> string \<Rightarrow> entry list \<Rightarrow> entry list" where
  "downstream rep me manifest =
     filter (\<lambda>e. fold_id (field rep e ''origin'') = fold_id me \<and>
        (field rep e ''derived'' = ''mesh'' \<or> truthy (dget e ''tomb''))) manifest"

definition push_mine :: "(pyval \<Rightarrow> string) \<Rightarrow> string \<Rightarrow> entry list \<Rightarrow> entry list" where
  "push_mine rep me entries =
     filter (\<lambda>e. is_kind ''B'' e \<and> strip (field rep e ''derived'') = [] \<and>
        fold_id (field rep e ''origin'') = fold_id me) entries"

section \<open>What a record can touch\<close>

lemma set_node_paths: "set (node_paths rep C t orig k) \<subseteq> {p. carries rep C t orig k p \<and> map_of t p \<noteq> None}"
  by (auto simp: node_paths_def map_of_eq_None_iff)

lemma map_of_unlink [simp]: "map_of (unlink p t) q = (if q = p then None else map_of t q)"
  by (simp add: unlink_def map_of_drop_key)

lemma map_of_fold_unlink: "map_of (fold unlink ps t) q = (if q \<in> set ps then None else map_of t q)"
  by (induction ps arbitrary: t) auto

lemma class_a_target_cases:
  assumes "class_a_target s = Some p"
  shows "\<exists>d name. p = [d, name] \<and> (d = ''captures'' \<or> d = ''compacted'')"
  using assms by (auto simp: class_a_target_def class_a_dirs_def split: list.splits if_splits) (metis)+

text \<open>Where a record can land: a capture, a tombstone, or a node outside \<open>okf/\<close>.\<close>

lemma target_cases:
  assumes "target_for rep C t e = Some p"
  obtains (class_a) d name where "is_kind ''A'' e" "p = [d, name]" "d = ''captures'' \<or> d = ''compacted''"
    | (tomb) "\<not> is_kind ''A'' e" "truthy (dget e ''tomb'')"
        "p = tomb_path (field rep e ''origin'') (field rep e ''key'')"
    | (node) d rest where "\<not> is_kind ''A'' e" "\<not> truthy (dget e ''tomb'')" "p = d # rest" "rest \<noteq> []"
        "d = ''peers'' \<or> d = ''mesh''"
proof (cases "is_kind ''A'' e")
  case True
  then show thesis
    using assms class_a [OF True] class_a_target_cases [of "field rep e ''path''" p]
    by (simp add: target_for_def) blast
next
  case False
  show thesis
  proof (cases "truthy (dget e ''tomb'')")
    case True
    then show thesis using assms False tomb by (auto simp: target_for_def Let_def split: if_splits)
  next
    case nt: False
    let ?ps = "filter (\<lambda>p. \<not> is_ours p) (node_paths rep C t (field rep e ''origin'') (field rep e ''key''))"
    consider (old) rs where "?ps = p # rs"
      | (mesh) "p = mesh_node_path (field rep e ''origin'') (field rep e ''key'')"
      | (peer) "p = peer_node_path (field rep e ''origin'') (field rep e ''key'')"
      using assms False nt by (auto simp: target_for_def Let_def split: if_splits list.splits)
    then show thesis
    proof cases
      case old
      then have m: "p \<in> set ?ps" by simp
      then have "p \<in> set (node_paths rep C t (field rep e ''origin'') (field rep e ''key''))" "\<not> is_ours p"
        by simp_all
      then have "is_node_file p" "\<not> is_ours p"
        using set_node_paths [of rep C t "field rep e ''origin''" "field rep e ''key''"]
        by (auto simp: carries_def)
      then show thesis
        using node [OF False nt]
        by (auto simp: is_node_file_def is_ours_def node_roots_def split: list.splits)
    next
      case mesh
      then show thesis using node [OF False nt] by (simp add: mesh_node_path_def)
    next
      case peer
      then show thesis using node [OF False nt] by (simp add: peer_node_path_def)
    qed
  qed
qed

lemma tomb_not_authored: "\<not> authored (tomb_path orig k)"
  by (simp add: authored_def tomb_path_def)

lemma target_not_authored: "target_for rep C t e = Some p \<Longrightarrow> \<not> authored p"
  by (erule target_cases) (simp_all add: tomb_not_authored, auto simp: authored_def)

lemma sidecar_hd: "p = d # rest \<Longrightarrow> rest \<noteq> [] \<Longrightarrow> \<exists>rest'. sidecar p = d # rest' \<and> rest' \<noteq> []"
  by (cases rest) (auto simp: sidecar_def)

lemma target_is_older_tree:
  assumes "target_is_older rep C e p body t = (ok, t1)"
  shows "t1 = t \<or> (\<not> ok \<and> \<not> truthy (dget e ''tomb'') \<and> map_of t p \<noteq> None \<and> t1 = set_at t (sidecar p) body)"
  using assms
  by (auto simp: target_is_older_def keep_conflict_def order_on_disk_def split: option.splits if_splits)

lemma apply_cases:
  assumes "apply_blob rep C me e body peer t = (ok, t1)"
  obtains (refused) "\<not> ok" "t1 = t"
    | (lost) p where "\<not> ok" "is_kind ''B'' e" "target_for rep C t e = Some p" "\<not> truthy (dget e ''tomb'')"
        "map_of t p \<noteq> None" "t1 = set_at t (sidecar p) body"
    | (kept) p where "ok" "target_for rep C t e = Some p" "t1 = enforce_invariant rep C e (set_at t p body)"
        "is_kind ''B'' e \<longrightarrow> accept_class_b rep C me e body peer \<and> fst (target_is_older rep C e p body t)"
        "\<not> is_kind ''B'' e \<longrightarrow> map_of t p = None"
proof (cases "sha256 C body \<noteq> hash_of rep e \<or> is_kind ''B'' e \<and> \<not> accept_class_b rep C me e body peer")
  case True
  then show thesis using assms refused by (auto simp: apply_blob_def split: if_splits)
next
  case False
  show thesis
  proof (cases "target_for rep C t e")
    case None
    then show thesis using assms False refused by (auto simp: apply_blob_def split: if_splits)
  next
    case (Some p)
    have na: "\<not> authored p" by (rule target_not_authored [OF Some])
    show thesis
    proof (cases "is_kind ''B'' e")
      case B: True
      obtain o2 t2 where o: "target_is_older rep C e p body t = (o2, t2)" by fastforce
      have r: "(ok, t1) = (if o2 then (True, enforce_invariant rep C e (set_at t2 p body)) else (False, t2))"
        using assms False Some B o na by (cases o2) (auto simp: apply_blob_def)
      show thesis
        using target_is_older_tree [OF o] r o B Some False kept [OF _ Some] lost [OF _ B Some] refused
        by (cases o2) auto
    next
      case nB: False
      then show thesis
        using assms False Some na kept [OF _ Some] refused
        by (auto simp: apply_blob_def accept_class_a_def split: if_splits)
    qed
  qed
qed

lemma enforce_tree:
  assumes "map_of (enforce_invariant rep C e t) q \<noteq> map_of t q"
  shows "is_kind ''B'' e \<and> map_of (enforce_invariant rep C e t) q = None \<and>
    (q = tomb_path (field rep e ''origin'') (field rep e ''key'') \<or>
     carries rep C t (field rep e ''origin'') (field rep e ''key'') q)"
  using assms set_node_paths [of rep C t "field rep e ''origin''" "field rep e ''key''"]
  by (auto simp: enforce_invariant_def Let_def map_of_fold_unlink split: if_splits)

text \<open>C2. What this machine authored is out of reach of its peers. A file of \<open>okf/\<close> that is not one of
  the tombstones under \<open>okf/.tomb\<close> - those a record may write and clear - is never written by a
  record a peer serves: if the record changes it at all it deletes it, and then the file's own
  front matter named as its origin the peer that served the record, never us.\<close>

theorem authored_tree_safe:
  assumes "apply_blob rep C me e body peer t = (ok, t1)" and "authored q" and "map_of t1 q \<noteq> map_of t q"
  shows "map_of t1 q = None \<and>
    fold_id (field rep (read_node_meta C t q) ''origin'') = fold_id peer \<and>
    fold_id (field rep (read_node_meta C t q) ''origin'') \<noteq> me"
  using assms(1)
proof (cases rule: apply_cases)
  case refused
  then show ?thesis using assms(3) by simp
next
  case (lost p)
  then obtain d rest where "p = d # rest" "rest \<noteq> []" "d = ''peers'' \<or> d = ''mesh''"
    by (auto elim: target_cases simp: is_kind_def)
  then obtain rest' where "sidecar p = d # rest'" "d \<noteq> ''okf''" using sidecar_hd by blast
  then have "q \<noteq> sidecar p" using assms(2) by (auto simp: authored_def)
  then show ?thesis using lost assms(3) by simp
next
  case (kept p)
  have qp: "q \<noteq> p" using target_not_authored [OF kept(2)] assms(2) by blast
  have "map_of (enforce_invariant rep C e (set_at t p body)) q \<noteq> map_of (set_at t p body) q"
    using kept(3) assms(3) qp by simp
  from enforce_tree [OF this] have B: "is_kind ''B'' e" "map_of t1 q = None"
    and c: "carries rep C (set_at t p body) (field rep e ''origin'') (field rep e ''key'') q"
    using kept(3) assms(2) tomb_not_authored by auto
  have m: "read_node_meta C (set_at t p body) q = read_node_meta C t q"
    using qp by (simp add: read_node_meta_def)
  have "accept_class_b rep C me e body peer" using kept(4) B by blast
  then have "fold_id (field rep e ''origin'') = fold_id peer" "fold_id (field rep e ''origin'') \<noteq> me"
    by (auto simp: accept_class_b_def fields_of_def Let_def)
  moreover have "fold_id (field rep (read_node_meta C t q) ''origin'') = fold_id (field rep e ''origin'')"
    using c unfolding carries_def m by blast
  ultimately show ?thesis using B(2) by simp
qed

text \<open>A capture or a brief is written once: whatever a peer sends, a file of \<open>captures/\<close> or
  \<open>compacted/\<close> that is there stays byte for byte.\<close>

theorem class_a_immutable:
  assumes "apply_blob rep C me e body peer t = (ok, t1)"
    and "q = d # rest" and "d = ''captures'' \<or> d = ''compacted''" and "map_of t q = Some b"
  shows "map_of t1 q = Some b"
  using assms(1)
proof (cases rule: apply_cases)
  case refused
  then show ?thesis using assms(4) by simp
next
  case (lost p)
  then obtain d' rs where "p = d' # rs" "rs \<noteq> []" "d' = ''peers'' \<or> d' = ''mesh''"
    by (auto elim: target_cases simp: is_kind_def)
  then obtain rs' where "sidecar p = d' # rs'" "d' \<noteq> d" using sidecar_hd assms(3) by blast
  then show ?thesis using lost assms(2,4) by simp
next
  case (kept p)
  have "q \<noteq> p"
  proof
    assume "q = p"
    then have "is_kind ''B'' e" using kept(5) assms(4) by auto
    with kept(2) \<open>q = p\<close> assms(2,3) show False
      by (auto elim!: target_cases simp: is_kind_def tomb_path_def)
  qed
  then have t: "map_of (set_at t p body) q = Some b" using assms(4) by simp
  show ?thesis
  proof (rule ccontr)
    assume "map_of t1 q \<noteq> Some b"
    then have "map_of (enforce_invariant rep C e (set_at t p body)) q \<noteq> map_of (set_at t p body) q"
      using kept(3) t by simp
    from enforce_tree [OF this] show False
      using assms(2,3) by (auto simp: tomb_path_def carries_def is_node_file_def node_roots_def)
  qed
qed

lemma apply_accepted:
  assumes "apply_blob rep C me e body peer t = (True, t1)" and "is_kind ''B'' e"
  obtains p where "target_for rep C t e = Some p" and "t1 = enforce_invariant rep C e (set_at t p body)"
    and "accept_class_b rep C me e body peer" and "fst (target_is_older rep C e p body t)"
  using assms(1)
proof (cases rule: apply_cases)
  case (kept p)
  then show thesis using that assms(2) by blast
qed simp_all


section \<open>Nodes and tombstones are not compared\<close>

text \<open>The check before the write reads only the file at the record's own path, which for a
  tombstone is the tombstone's. So a tombstone that an earlier plan asked for deletes the nodes
  of its identity whatever their revision is by now - and a node clears a tombstone likewise.\<close>

lemma accepted_class_b:
  assumes "is_kind ''B'' e" and "sha256 C body = hash_of rep e" and "accept_class_b rep C me e body peer"
    and "target_for rep C t e = Some p" and "map_of t p = None"
  shows "apply_blob rep C me e body peer t = (True, enforce_invariant rep C e (set_at t p body))"
  using assms target_not_authored [OF assms(4)]
  by (simp add: apply_blob_def target_is_older_def order_on_disk_def)

lemma class_b_target:
  assumes "is_kind ''B'' e" and "is_addressable (field rep e ''key'')" and "truthy (dget e ''tomb'')"
    and "is_addressable (field rep e ''origin'')"
  shows "target_for rep C t e = Some (tomb_path (field rep e ''origin'') (field rep e ''key''))"
  using assms by (simp add: target_for_def is_kind_def Let_def)

theorem stale_tombstone_deletes:
  assumes "is_kind ''B'' e" and "truthy (dget e ''tomb'')" and "sha256 C body = hash_of rep e"
    and "accept_class_b rep C me e body peer" and "is_addressable (field rep e ''key'')"
    and "is_addressable (field rep e ''origin'')"
    and "map_of t (tomb_path (field rep e ''origin'') (field rep e ''key'')) = None"
    and "q \<in> set (node_paths rep C t (field rep e ''origin'') (field rep e ''key''))"
  shows "\<exists>t1. apply_blob rep C me e body peer t = (True, t1) \<and> map_of t1 q = None"
proof -
  let ?o = "field rep e ''origin''" and ?k = "field rep e ''key''"
  let ?t = "set_at t (tomb_path ?o ?k) body"
  note r = accepted_class_b [OF assms(1,3,4) class_b_target [OF assms(1,5,2,6)] assms(7)]
  have c: "carries rep C t ?o ?k q" and some: "map_of t q \<noteq> None"
    using set_node_paths assms(8) by fastforce+
  have ne: "q \<noteq> tomb_path ?o ?k" using some assms(7) by auto
  have "read_node_meta C ?t q = read_node_meta C t q" using ne by (simp add: read_node_meta_def)
  then have "carries rep C ?t ?o ?k q" using c by (simp add: carries_def)
  moreover have "q \<in> set (keys ?t)"
    using some ne by (metis map_of_eq_None_iff list.set_map map_of_set_at)
  ultimately have "q \<in> set (node_paths rep C ?t ?o ?k)"
    using assms(5) by (simp add: node_paths_def)
  moreover have "?k \<noteq> []" using assms(5) by (auto simp: is_addressable_def)
  ultimately show ?thesis
    using r assms(1,2) by (simp add: enforce_invariant_def Let_def map_of_fold_unlink)
qed

section \<open>A concrete peer\<close>

definition toy_codec :: codec where
  "toy_codec = \<lparr>sha256 = (\<lambda>b. ''aa''),
     node_meta = (\<lambda>b. if b = ''mine'' then [(''origin'', PStr ''ms''), (''id'', PStr ''K-01''), (''rev'', PInt 1)]
       else [(''origin'', PStr ''nuc''), (''id'', PStr ''K-01''), (''rev'', PInt 5)]),
     is_utf8 = (\<lambda>_. True)\<rparr>"

definition nuc_entry :: entry where
  "nuc_entry = [(''kind'', PStr ''B''), (''origin'', PStr ''nuc''), (''key'', PStr ''K-01''),
     (''rev'', PInt 5), (''hash'', PStr ''aa'')]"


text \<open>A tombstone of revision 1 deletes a node that is at revision 5.\<close>

theorem stale_tombstone_deletes_witness:
  "\<exists>t1. apply_blob (\<lambda>_. []) toy_codec ''ms''
      [(''kind'', PStr ''B''), (''tomb'', PBool True), (''origin'', PStr ''nuc''), (''key'', PStr ''K-01''),
       (''rev'', PInt 1), (''hash'', PStr ''aa'')]
      ''{\"origin\": \"nuc\", \"key\": \"K-01\", \"rev\": 1}'' ''nuc''
      [([''peers'', ''nuc'', ''K-01.md''], ''theirs'')] = (True, t1)
    \<and> dget (read_node_meta toy_codec [([''peers'', ''nuc'', ''K-01.md''], ''theirs'')]
        [''peers'', ''nuc'', ''K-01.md'']) ''rev'' = PInt 5
    \<and> map_of t1 [''peers'', ''nuc'', ''K-01.md''] = None"
proof -
  let ?e = "[(''kind'', PStr ''B''), (''tomb'', PBool True), (''origin'', PStr ''nuc''), (''key'', PStr ''K-01''),
       (''rev'', PInt 1), (''hash'', PStr ''aa'')]"
  let ?b = "''{\"origin\": \"nuc\", \"key\": \"K-01\", \"rev\": 1}''" and ?q = "[''peers'', ''nuc'', ''K-01.md'']"
  let ?t = "[(?q, ''theirs'')]"
  have acc: "accept_class_b (\<lambda>_. []) toy_codec ''ms'' ?e ?b ''nuc''" by code_simp
  have f: "field (\<lambda>_. []) ?e ''origin'' = ''nuc''" "field (\<lambda>_. []) ?e ''key'' = ''K-01''"
    by (simp_all add: field_def)
  have q: "?q \<in> set (node_paths (\<lambda>_. []) toy_codec ?t (field (\<lambda>_. []) ?e ''origin'') (field (\<lambda>_. []) ?e ''key''))"
    unfolding f by code_simp
  have rev: "dget (read_node_meta toy_codec ?t ?q) ''rev'' = PInt 5" by code_simp
  have a: "is_addressable (field (\<lambda>_. []) ?e ''key'')" "is_addressable (field (\<lambda>_. []) ?e ''origin'')"
    unfolding f by code_simp+
  have none: "map_of ?t (tomb_path (field (\<lambda>_. []) ?e ''origin'') (field (\<lambda>_. []) ?e ''key'')) = None"
    by (simp add: tomb_path_def)
  have h: "sha256 toy_codec ?b = hash_of (\<lambda>_. []) ?e" by code_simp
  show ?thesis
    using stale_tombstone_deletes [OF _ _ h acc a none q] rev by (simp add: is_kind_def)
qed

theorem class_a_immutable_witness:
  "map_of (snd (apply_blob (\<lambda>_. []) toy_codec ''ms''
      [(''kind'', PStr ''A''), (''path'', PStr ''captures/note-1.md''), (''hash'', PStr ''aa'')] ''other'' ''nuc''
      [([''captures'', ''note-1.md''], ''ours'')])) [''captures'', ''note-1.md''] = Some ''ours''"
  by (rule class_a_immutable [OF prod.collapse [symmetric] refl]) simp_all

theorem authored_tree_safe_witness:
  "\<exists>t1. apply_blob (\<lambda>_. []) toy_codec ''ms''
      ((''tomb'', PBool True) # nuc_entry) ''{\"origin\": \"nuc\", \"key\": \"K-01\", \"rev\": 5}'' ''nuc''
      [([''okf'', ''K-01.md''], ''stray'')] = (True, t1) \<and> map_of t1 [''okf'', ''K-01.md''] = None"
proof -
  let ?e = "(''tomb'', PBool True) # nuc_entry" and ?q = "[''okf'', ''K-01.md'']"
  let ?b = "''{\"origin\": \"nuc\", \"key\": \"K-01\", \"rev\": 5}''"
  let ?r = "apply_blob (\<lambda>_. []) toy_codec ''ms'' ?e ?b ''nuc'' [(?q, ''stray'')]"
  have r: "?r = (True, snd ?r)" by code_simp
  have a: "authored ?q" by (simp add: authored_def)
  have c: "map_of (snd ?r) ?q \<noteq> map_of [(?q, ''stray'')] ?q" by code_simp
  from authored_tree_safe [OF r a c] r show ?thesis by blast
qed

section \<open>A record of no class\<close>

text \<open>Only \<open>A\<close> and \<open>B\<close> are classes, yet a record of any other kind is applied without the
  checks of either: whoever serves it, whatever identity it claims and whatever its bytes say, it
  is written wherever a node or a tombstone of that identity would go, if nothing is there.\<close>

theorem unknown_kind_unchecked:
  assumes "\<not> is_kind ''A'' e" and "\<not> is_kind ''B'' e" and "sha256 C body = hash_of rep e"
    and "target_for rep C t e = Some p" and "map_of t p = None"
  shows "apply_blob rep C me e body peer t = (True, set_at t p body)"
  using assms target_not_authored [OF assms(4)]
  by (simp add: apply_blob_def accept_class_a_def enforce_invariant_def)

text \<open>So an approved peer can plant a tombstone of a node we authored.\<close>

theorem unknown_kind_unchecked_witness:
  "apply_blob (\<lambda>_. []) toy_codec ''ms''
      [(''kind'', PStr ''C''), (''tomb'', PBool True), (''origin'', PStr ''ms''), (''key'', PStr ''K-01''),
       (''hash'', PStr ''aa'')] ''forged'' ''nuc'' [([''okf'', ''K-01.md''], ''mine'')] =
    (True, [([''okf'', ''K-01.md''], ''mine''), (tomb_path ''ms'' ''K-01'', ''forged'')])"
proof -
  let ?e = "[(''kind'', PStr ''C''), (''tomb'', PBool True), (''origin'', PStr ''ms''), (''key'', PStr ''K-01''),
       (''hash'', PStr ''aa'')]"
  have "target_for (\<lambda>_. []) toy_codec [([''okf'', ''K-01.md''], ''mine'')] ?e = Some (tomb_path ''ms'' ''K-01'')"
    by code_simp
  from unknown_kind_unchecked [OF _ _ _ this, where body = "''forged''"] show ?thesis
    by (simp add: is_kind_def toy_codec_def hash_of_def field_def tomb_path_def) code_simp
qed

text \<open>A caller that does not say who served a record (an empty peer) is meant to be refused
  every record of class B; the empty id and the id \<open>_\<close> fold to one name.\<close>

lemma unattributed_accepted:
  "accept_class_b (\<lambda>_. []) (toy_codec\<lparr>node_meta := (\<lambda>_. [(''origin'', PStr ''_''), (''id'', PStr ''K-01'')])\<rparr>)
     ''ms'' [(''kind'', PStr ''B''), (''origin'', PStr ''_''), (''key'', PStr ''K-01'')] ''text'' []"
  by code_simp

end
