(* ===== verification/Sync_Manifest.thy ===== *)
theory Sync_Manifest
  imports Sync_Apply
begin

text \<open>
  What a machine advertises, \<^verbatim>\<open>aiforge_core/memory/sync/manifest.py\<close>: the entry of a capture,
  of a node and of a tombstone, one entry per identity, and the file a digest names. The
  memo of \<^verbatim>\<open>build\<close> (keyed by a fingerprint of the tree) is not modelled: the manifest is
  computed from the tree.
\<close>

section \<open>Scanning\<close>

definition class_a_files :: "tree \<Rightarrow> path list" where
  "class_a_files t =
     concat (map (\<lambda>d. sort (filter (\<lambda>p. case p of
         [a, name] \<Rightarrow> a = d \<and> ends_with ''.md'' name \<and> \<not> starts_with ''.'' name
       | _ \<Rightarrow> False) (keys t))) class_a_dirs)"

definition iter_nodes :: "tree \<Rightarrow> path list" where
  "iter_nodes t =
     concat (map (\<lambda>d. sort (filter (\<lambda>p. is_node_file p \<and> hd p = d) (keys t))) node_roots)"

definition tomb_files :: "tree \<Rightarrow> path list" where
  "tomb_files t =
     sort (filter (\<lambda>p. case p of
         a # b # rest \<Rightarrow> a = ''okf'' \<and> b = ''.tomb'' \<and> rest \<noteq> [] \<and> ends_with ''.json'' (List.last rest) \<and>
           list_all (\<lambda>c. \<not> starts_with ''.'' c) rest
       | _ \<Rightarrow> False) (keys t))"

section \<open>Entries\<close>

definition digest_at :: "codec \<Rightarrow> tree \<Rightarrow> path \<Rightarrow> string option" where
  "digest_at C t p = map_option (sha256 C) (map_of t p)"

definition class_a_entries :: "codec \<Rightarrow> tree \<Rightarrow> entry list" where
  "class_a_entries C t =
     List.map_filter (\<lambda>p. map_option (\<lambda>h.
        [(''path'', PStr (join ''/'' p)), (''hash'', PStr h), (''kind'', PStr ''A'')]) (digest_at C t p))
       (class_a_files t)"

definition class_b_entry ::
  "(pyval \<Rightarrow> string) \<Rightarrow> codec \<Rightarrow> tree \<Rightarrow> path \<Rightarrow> entry \<Rightarrow> bool \<Rightarrow> entry option" where
  "class_b_entry rep C t p m tomb =
     (let f = fields_of rep m in
      if f_key f = [] then None
      else if f_origin f = [] then None
      else if \<not> is_addressable (f_key f) \<or> \<not> is_addressable (f_origin f) then None
      else (case digest_at C t p of
              None \<Rightarrow> None
            | Some h \<Rightarrow>
                (let derived = strip (field rep m ''derived'') in
                 Some ([(''path'', PStr (join ''/'' p)), (''hash'', PStr h), (''kind'', PStr ''B''),
                        (''origin'', PStr (f_origin f)), (''key'', PStr (f_key f)),
                        (''rev'', PInt (f_rev f)), (''updated_by'', PStr (f_by f))] @
                       (if tomb then [(''tomb'', PBool True)] else []) @
                       (if derived \<noteq> [] then [(''derived'', PStr derived)] else [])))))"

definition entry_for_node :: "(pyval \<Rightarrow> string) \<Rightarrow> codec \<Rightarrow> tree \<Rightarrow> path \<Rightarrow> entry option" where
  "entry_for_node rep C t p = class_b_entry rep C t p (read_node_meta C t p) False"

definition entry_for_json :: "(pyval \<Rightarrow> string) \<Rightarrow> codec \<Rightarrow> tree \<Rightarrow> path \<Rightarrow> entry option" where
  "entry_for_json rep C t p =
     class_b_entry rep C t p (read_json t p) (truthy (dget (read_json t p) ''tomb''))"

definition ident_raw :: "(pyval \<Rightarrow> string) \<Rightarrow> entry \<Rightarrow> string \<times> string" where
  "ident_raw rep e = (field rep e ''origin'', field rep e ''key'')"

definition rank :: "(pyval \<Rightarrow> string) \<Rightarrow> entry \<Rightarrow> version" where
  "rank rep e = (as_rev (dget e ''rev''), field rep e ''updated_by'', field rep e ''hash'')"

definition dedupe_step ::
  "(pyval \<Rightarrow> string) \<Rightarrow> (string \<times> string, entry) table \<Rightarrow> entry \<Rightarrow> (string \<times> string, entry) table" where
  "dedupe_step rep best e =
     (case map_of best (ident_raw rep e) of
        None \<Rightarrow> set_at best (ident_raw rep e) e
      | Some cur \<Rightarrow> set_at best (ident_raw rep e) (if rank rep e > rank rep cur then e else cur))"

definition dedupe :: "(pyval \<Rightarrow> string) \<Rightarrow> entry list \<Rightarrow> entry list" where
  "dedupe rep es = map snd (foldl (dedupe_step rep) [] es)"

definition skipped :: "path \<Rightarrow> bool" where
  "skipped p = (List.last p = ''index.md'' \<or> ends_with ''.conflict.md'' (List.last p))"

definition class_b_entries :: "(pyval \<Rightarrow> string) \<Rightarrow> codec \<Rightarrow> tree \<Rightarrow> entry list" where
  "class_b_entries rep C t =
     dedupe rep
       (List.map_filter (entry_for_node rep C t) (filter (\<lambda>p. \<not> skipped p) (iter_nodes t)) @
        List.map_filter (entry_for_json rep C t) (tomb_files t))"

definition build :: "(pyval \<Rightarrow> string) \<Rightarrow> codec \<Rightarrow> tree \<Rightarrow> entry list" where
  "build rep C t = sort_key (\<lambda>e. field rep e ''path'') (class_a_entries C t @ class_b_entries rep C t)"

text \<open>\<^verbatim>\<open>path_for_hash\<close>: the path of the entry is looked up below the root and hashed again.\<close>

definition path_for_hash :: "(pyval \<Rightarrow> string) \<Rightarrow> codec \<Rightarrow> tree \<Rightarrow> string \<Rightarrow> path option" where
  "path_for_hash rep C t digest =
     (let d = lower (strip digest) in
      if d = [] then None
      else map_option (\<lambda>e. split_char (CHR ''/'') (field rep e ''path''))
             (List.find (\<lambda>e. field rep e ''hash'' = d \<and>
                digest_at C t (split_char (CHR ''/'') (field rep e ''path'')) = Some d) (build rep C t)))"

section \<open>One entry per identity\<close>

lemma map_of_dedupe_step:
  "map_of (dedupe_step rep best e) i =
     (if i = ident_raw rep e
      then Some (case map_of best i of None \<Rightarrow> e | Some cur \<Rightarrow> if rank rep e > rank rep cur then e else cur)
      else map_of best i)"
  by (auto simp: dedupe_step_def split: option.splits)

lemma distinct_dedupe_step: "distinct (keys best) \<Longrightarrow> distinct (keys (dedupe_step rep best e))"
  by (auto simp: dedupe_step_def distinct_set_at split: option.splits)

lemma dedupe_invariant:
  "distinct (keys (foldl (dedupe_step rep) [] es)) \<and>
   (\<forall>i e. map_of (foldl (dedupe_step rep) [] es) i = Some e \<longrightarrow>
      e \<in> set es \<and> ident_raw rep e = i \<and> (\<forall>x \<in> set es. ident_raw rep x = i \<longrightarrow> rank rep x \<le> rank rep e)) \<and>
   (\<forall>x \<in> set es. map_of (foldl (dedupe_step rep) [] es) (ident_raw rep x) \<noteq> None)"
proof (induction es rule: rev_induct)
  case (snoc y ys)
  let ?b = "foldl (dedupe_step rep) [] ys"
  have s: "foldl (dedupe_step rep) [] (ys @ [y]) = dedupe_step rep ?b y" by simp
  have IH: "distinct (keys ?b)"
    "\<And>i e. map_of ?b i = Some e \<Longrightarrow> e \<in> set ys \<and> ident_raw rep e = i \<and>
       (\<forall>x \<in> set ys. ident_raw rep x = i \<longrightarrow> rank rep x \<le> rank rep e)"
    "\<And>x. x \<in> set ys \<Longrightarrow> map_of ?b (ident_raw rep x) \<noteq> None"
    using snoc by blast+
  have best: "e \<in> set (ys @ [y]) \<and> ident_raw rep e = i \<and>
      (\<forall>x \<in> set (ys @ [y]). ident_raw rep x = i \<longrightarrow> rank rep x \<le> rank rep e)"
    if e: "map_of (dedupe_step rep ?b y) i = Some e" for i e
  proof (cases "i = ident_raw rep y")
    case False
    then show ?thesis using e IH(2) [of i e] by (auto simp: map_of_dedupe_step)
  next
    case True
    show ?thesis
    proof (cases "map_of ?b i")
      case None
      then have "e = y" using e True by (simp add: map_of_dedupe_step)
      moreover have "\<forall>x \<in> set ys. ident_raw rep x \<noteq> i" using None IH(3) by blast
      ultimately show ?thesis using True by auto
    next
      case (Some cur)
      from IH(2) [OF this] e True Some show ?thesis
        by (auto simp: map_of_dedupe_step split: if_splits)
    qed
  qed
  have "map_of (dedupe_step rep ?b y) (ident_raw rep x) \<noteq> None" if "x \<in> set (ys @ [y])" for x
    using that IH(3) [of x] by (auto simp: map_of_dedupe_step)
  then show ?case unfolding s using distinct_dedupe_step [OF IH(1)] best by blast
qed simp

lemma dedupe_mem: "e \<in> set (dedupe rep es) \<longleftrightarrow> (\<exists>i. map_of (foldl (dedupe_step rep) [] es) i = Some e)"
proof -
  have "distinct (keys (foldl (dedupe_step rep) [] es))" using dedupe_invariant by blast
  from map_of_eq_Some_iff [OF this] show ?thesis by (force simp: dedupe_def)
qed

text \<open>Of one identity exactly one entry is advertised, its highest version: the deduplicated
  entries have distinct identities, cover every identity, and none is outranked.\<close>

theorem dedupe_one_winner:
  "distinct (map (ident_raw rep) (dedupe rep es)) \<and>
   ident_raw rep ` set (dedupe rep es) = ident_raw rep ` set es \<and>
   list_all (\<lambda>e. e \<in> set es \<and>
       list_all (\<lambda>x. rank rep x \<le> rank rep e) (filter (\<lambda>x. ident_raw rep x = ident_raw rep e) es))
     (dedupe rep es)"
proof -
  let ?b = "foldl (dedupe_step rep) [] es"
  have I: "distinct (keys ?b)" "\<And>i e. map_of ?b i = Some e \<Longrightarrow> e \<in> set es \<and> ident_raw rep e = i \<and>
       (\<forall>x \<in> set es. ident_raw rep x = i \<longrightarrow> rank rep x \<le> rank rep e)"
    "\<And>x. x \<in> set es \<Longrightarrow> map_of ?b (ident_raw rep x) \<noteq> None"
    using dedupe_invariant [of rep es] by blast+
  have "map (ident_raw rep) (dedupe rep es) = keys ?b"
    using I(1,2) by (auto simp: dedupe_def map_of_eq_Some_iff)
  then have "distinct (map (ident_raw rep) (dedupe rep es))" using I(1) by simp
  moreover have "ident_raw rep ` set (dedupe rep es) = ident_raw rep ` set es"
  proof
    show "ident_raw rep ` set (dedupe rep es) \<subseteq> ident_raw rep ` set es"
      using I(2) dedupe_mem by blast
    show "ident_raw rep ` set es \<subseteq> ident_raw rep ` set (dedupe rep es)"
    proof
      fix i
      assume "i \<in> ident_raw rep ` set es"
      then obtain e where "map_of ?b i = Some e" using I(3) by blast
      then show "i \<in> ident_raw rep ` set (dedupe rep es)" using I(2) dedupe_mem by blast
    qed
  qed
  moreover have "list_all (\<lambda>e. e \<in> set es \<and>
      list_all (\<lambda>x. rank rep x \<le> rank rep e) (filter (\<lambda>x. ident_raw rep x = ident_raw rep e) es)) (dedupe rep es)"
  proof (unfold list_all_iff, rule ballI)
    fix e
    assume "e \<in> set (dedupe rep es)"
    then obtain i where "map_of ?b i = Some e" using dedupe_mem by blast
    from I(2) [OF this] show "e \<in> set es \<and>
        (\<forall>x \<in> set (filter (\<lambda>x. ident_raw rep x = ident_raw rep e) es). rank rep x \<le> rank rep e)" by simp
  qed
  ultimately show ?thesis by blast
qed

section \<open>What is advertised is what is accepted\<close>

lemma py_str_field [simp]: "py_str rep (por (PStr s) (PStr d)) = (if s = [] then d else s)"
  by (simp add: por_def)

lemma as_rev_PInt [simp]: "as_rev (PInt n) = n"
  by (simp add: as_rev_def)

text \<open>The text of a Python value that is not empty is not empty.\<close>

definition rep_ok :: "(pyval \<Rightarrow> string) \<Rightarrow> bool" where
  "rep_ok rep \<longleftrightarrow> (\<forall>v. rep v \<noteq> [])"

lemma py_str_truthy: "rep_ok rep \<Longrightarrow> truthy v \<Longrightarrow> py_str rep v \<noteq> []"
  by (cases v) (auto simp: rep_ok_def)

text \<open>The entry carries the identity fields of the record it was made from.\<close>

lemma entry_fields:
  assumes "class_b_entry rep C t p m tomb = Some e" and "rep_ok rep"
  shows "fields_of rep e = fields_of rep m" and "is_kind ''B'' e" and "truthy (dget e ''tomb'') \<longleftrightarrow> tomb"
    and "digest_at C t p = Some (field rep e ''hash'')" and "field rep e ''derived'' = strip (field rep m ''derived'')"
proof -
  let ?f = "fields_of rep m"
  obtain h where h: "digest_at C t p = Some h"
    and e: "e = [(''path'', PStr (join ''/'' p)), (''hash'', PStr h), (''kind'', PStr ''B''),
        (''origin'', PStr (f_origin ?f)), (''key'', PStr (f_key ?f)),
        (''rev'', PInt (f_rev ?f)), (''updated_by'', PStr (f_by ?f))] @
       (if tomb then [(''tomb'', PBool True)] else []) @
       (if strip (field rep m ''derived'') \<noteq> [] then [(''derived'', PStr (strip (field rep m ''derived'')))] else [])"
    and ne: "f_key ?f \<noteq> []" "f_origin ?f \<noteq> []"
    using assms by (auto simp: class_b_entry_def Let_def split: if_splits option.splits)
  have fb: "f_by ?f \<noteq> []"
    using ne(2) py_str_truthy [OF assms(2)] by (simp add: fields_of_def por_def Let_def)
  show "fields_of rep e = fields_of rep m"
    using ne fb by (cases ?f) (auto simp: e fields_of_def [of rep e] fields_of_def [of rep "_ # _"] field_def Let_def)
  show "is_kind ''B'' e" "truthy (dget e ''tomb'') \<longleftrightarrow> tomb" "digest_at C t p = Some (field rep e ''hash'')"
    "field rep e ''derived'' = strip (field rep m ''derived'')"
    using h by (auto simp: e is_kind_def field_def)
qed

text \<open>C20. What one machine advertises of its own nodes every other machine's checks accept: the
  entry made from a node, sent with the node's bytes by the machine it names as origin to a
  machine of another name, passes the hash test and \<^verbatim>\<open>_accept_class_b\<close>.\<close>

theorem advertised_is_accepted:
  assumes "entry_for_node rep C t p = Some e" and "map_of t p = Some body" and "rep_ok rep"
    and "fold_id (field rep e ''origin'') = fold_id peer" and "fold_id peer \<noteq> me"
    and "lower (strip (sha256 C body)) = sha256 C body"
  shows "sha256 C body = hash_of rep e \<and> accept_class_b rep C me e body peer"
proof -
  let ?m = "read_node_meta C t p"
  have ce: "class_b_entry rep C t p ?m False = Some e" using assms(1) by (simp add: entry_for_node_def)
  note E = entry_fields [OF ce assms(3)]
  have utf: "is_utf8 C body"
  proof (rule ccontr)
    assume "\<not> is_utf8 C body"
    then have "?m = []" using assms(2) by (simp add: read_node_meta_def)
    then show False using ce by (simp add: class_b_entry_def fields_of_def field_def Let_def)
  qed
  then have m: "?m = node_meta C body" using assms(2) by (simp add: read_node_meta_def)
  have "f_origin (fields_of rep e) = field rep e ''origin''" by (simp add: fields_of_def Let_def)
  moreover have "body_fields rep C e body = Some (fields_of rep e)"
    using utf E(1,3) m by (simp add: body_fields_def)
  moreover have "field rep e ''hash'' = sha256 C body"
    using E(4) assms(2) by (simp add: digest_at_def)
  ultimately show ?thesis
    using assms(4-6) by (simp add: accept_class_b_def hash_of_def Let_def)
qed

theorem advertised_is_accepted_witness:
  "\<exists>e. entry_for_node (\<lambda>_. ''v'') toy_codec [([''okf'', ''K-01.md''], ''mine'')] [''okf'', ''K-01.md''] = Some e \<and>
     accept_class_b (\<lambda>_. ''v'') toy_codec ''admin'' e ''mine'' ''ms''"
proof -
  let ?t = "[([''okf'', ''K-01.md''], ''mine'')]" and ?p = "[''okf'', ''K-01.md'']"
  have n: "entry_for_node (\<lambda>_. ''v'') toy_codec ?t ?p \<noteq> None" by code_simp
  then obtain e where e: "entry_for_node (\<lambda>_. ''v'') toy_codec ?t ?p = Some e" by blast
  have f: "map_option (\<lambda>e. fold_id (field (\<lambda>_. ''v'') e ''origin'')) (entry_for_node (\<lambda>_. ''v'') toy_codec ?t ?p) = Some (fold_id ''ms'')"
    by code_simp
  have g: "fold_id ''ms'' \<noteq> ''admin''" "lower (strip (sha256 toy_codec ''mine'')) = sha256 toy_codec ''mine''"
    by code_simp+
  have "rep_ok (\<lambda>_. ''v'')" by (simp add: rep_ok_def)
  with advertised_is_accepted [OF e _ this _ g] e f show ?thesis by simp
qed

section \<open>What is served was advertised\<close>

lemma mem_map_filter: "y \<in> set (List.map_filter f xs) \<longleftrightarrow> (\<exists>x \<in> set xs. f x = Some y)"
  by (induction xs) (auto simp: List.map_filter_def split: option.splits)

text \<open>A digest asked for over the network names a file only if that file's bytes have this
  digest now and the manifest advertises it.\<close>

theorem served_was_advertised:
  assumes "path_for_hash rep C t digest = Some p"
  shows "digest_at C t p = Some (lower (strip digest)) \<and>
    (\<exists>e \<in> set (build rep C t). field rep e ''hash'' = lower (strip digest) \<and> split_char (CHR ''/'') (field rep e ''path'') = p)"
  using assms by (auto simp: path_for_hash_def Let_def find_Some_iff split: if_splits)

theorem served_was_advertised_witness:
  "digest_at toy_codec [([''captures'', ''n-1.md''], ''text'')] [''captures'', ''n-1.md''] = Some (lower (strip ''AA''))"
proof -
  have "path_for_hash (\<lambda>_. ''v'') toy_codec [([''captures'', ''n-1.md''], ''text'')] ''AA'' = Some [''captures'', ''n-1.md'']"
    by code_simp
  from served_was_advertised [OF this] show ?thesis by blast
qed

end
