(* ===== verification/Sync_Role.thy ===== *)
theory Sync_Role
  imports Sync_Paths
begin

text \<open>
  Which machine is the admin, \<^verbatim>\<open>aiforge_core/memory/sync/role.py\<close>, and the stamp of a local
  write, \<^verbatim>\<open>identity.stamp\<close>. The state is the record in \<^verbatim>\<open>admin.json\<close>; the environment, the
  host name and the text of a Python value are arguments.
\<close>

definition url_schemes :: "string list" where
  "url_schemes = [''http://'', ''https://'']"

definition env_word :: "env \<Rightarrow> string \<Rightarrow> string" where
  "env_word e k = strip (env_get e k [])"

definition admin_url :: "(pyval \<Rightarrow> string) \<Rightarrow> env \<Rightarrow> entry \<Rightarrow> string" where
  "admin_url rep e rec =
     (let pinned = env_word e ''AIFORGE_ADMIN_URL'' in
      if pinned \<noteq> [] then rstrip_chars ''/'' pinned
      else rstrip_chars ''/'' (strip (field rep rec ''url'')))"

definition set_admin_url :: "(pyval \<Rightarrow> string) \<Rightarrow> env \<Rightarrow> string \<Rightarrow> entry \<Rightarrow> (string \<times> entry) res" where
  "set_admin_url rep e url rec =
     (let u = rstrip_chars ''/'' (strip url) in
      if u \<noteq> [] \<and> lower (env_word e ''AIFORGE_ROLE'') = ''admin'' then Inl ValueError
      else if u \<noteq> [] \<and> \<not> list_ex (\<lambda>s. starts_with s u) url_schemes then Inl ValueError
      else (let saved = (if u \<noteq> [] then set_at rec ''url'' (PStr u) else drop_key ''url'' rec)
            in Inr (admin_url rep e saved, saved)))"

datatype machine_role = Admin | Spoke

definition role :: "(pyval \<Rightarrow> string) \<Rightarrow> env \<Rightarrow> entry \<Rightarrow> machine_role" where
  "role rep e rec =
     (let explicit = lower (env_word e ''AIFORGE_ROLE'') in
      if explicit = ''admin'' then Admin
      else if explicit = ''spoke'' then Spoke
      else if admin_url rep e rec \<noteq> [] then Spoke else Admin)"

definition may_merge :: "(pyval \<Rightarrow> string) \<Rightarrow> env \<Rightarrow> entry \<Rightarrow> bool" where
  "may_merge rep e rec \<longleftrightarrow> role rep e rec = Admin"

definition admin_id :: "(pyval \<Rightarrow> string) \<Rightarrow> env \<Rightarrow> string \<Rightarrow> entry \<Rightarrow> string" where
  "admin_id rep e hostname rec =
     (let pinned = env_word e ''AIFORGE_ADMIN_ID'' in
      if pinned \<noteq> [] then fold_id pinned
      else if role rep e rec = Admin then fold_id (self_id e hostname)
      else field rep rec ''id'')"

definition remember_admin_id ::
  "(pyval \<Rightarrow> string) \<Rightarrow> env \<Rightarrow> string \<Rightarrow> string \<Rightarrow> entry \<Rightarrow> string \<times> entry" where
  "remember_admin_id rep e hostname v rec =
     (let pinned = env_word e ''AIFORGE_ADMIN_ID''; s = fold_id v in
      if pinned \<noteq> [] then (fold_id pinned, rec)
      else if v = [] \<or> \<not> is_addressable s then (admin_id rep e hostname rec, rec)
      else if s \<noteq> field rep rec ''id'' then (s, set_at rec ''id'' (PStr s))
      else (s, rec))"

text \<open>\<^verbatim>\<open>identity.stamp\<close>: \<open>int(rev or 0)\<close> may raise.\<close>

definition stamp :: "(pyval \<Rightarrow> string) \<Rightarrow> string \<Rightarrow> entry \<Rightarrow> entry res" where
  "stamp rep me meta =
     (let out = set_at meta ''origin'' (PStr (py_str rep (por (dget meta ''origin'') (PStr me)))) in
      ebind (int_or0 (dget out ''rev''))
        (\<lambda>n. Inr (set_at (set_at out ''rev'' (PInt (n + 1))) ''updated_by'' (PStr me))))"

section \<open>Facts\<close>

lemma field_set_at [simp]: "field rep (set_at d k (PStr v)) j = (if j = k then v else field rep d j)"
  by (simp add: field_def por_def)

lemma dropWhile_no: "list_all (\<lambda>c. \<not> p c) s \<Longrightarrow> dropWhile p s = s"
  by (cases s) auto

lemma strip_no_space: "list_all (\<lambda>c. \<not> is_space c) s \<Longrightarrow> strip s = s"
  by (simp add: strip_def strip_by_def dropWhile_no)

lemma rstrip_subset: "set (rstrip_chars cs s) \<subseteq> set s"
  by (auto simp: rstrip_chars_def dest: set_dropWhileD)

lemma rstrip_idem [simp]: "rstrip_chars cs (rstrip_chars cs s) = rstrip_chars cs s"
proof -
  have "dropWhile p (dropWhile p xs) = dropWhile p xs" for p and xs :: string
    by (induction xs) auto
  then show ?thesis by (simp add: rstrip_chars_def)
qed

text \<open>An address saved from the settings screen is the address in effect afterwards: with no
  address pinned in the environment, saving one without white space is read back without its
  trailing slashes, makes the machine a spoke unless its role is pinned, and survives learning
  the admin's id; saving the empty one makes it the admin again.\<close>

theorem saved_url_in_effect:
  assumes "set_admin_url rep e url rec = Inr (u, saved)" and "env_word e ''AIFORGE_ADMIN_URL'' = []"
    and "list_all (\<lambda>c. \<not> is_space c) url"
  shows "u = rstrip_chars ''/'' url \<and>
    admin_url rep e (snd (remember_admin_id rep e hostname v saved)) = u \<and>
    (role rep e saved = Spoke \<longleftrightarrow> lower (env_word e ''AIFORGE_ROLE'') = ''spoke'' \<or> u \<noteq> [])"
proof -
  let ?u = "rstrip_chars ''/'' url"
  have s: "strip url = url" "strip ?u = ?u"
    using assms(3) rstrip_subset [of "''/''" url]
    by (simp_all add: strip_no_space list_all_iff subset_iff)
  have r: "saved = (if ?u \<noteq> [] then set_at rec ''url'' (PStr ?u) else drop_key ''url'' rec)"
    and u: "u = admin_url rep e saved" and a: "?u \<noteq> [] \<Longrightarrow> lower (env_word e ''AIFORGE_ROLE'') \<noteq> ''admin''"
    using assms(1) by (auto simp: set_admin_url_def s Let_def split: if_splits)
  have f: "field rep saved ''url'' = ?u"
    unfolding r by (auto simp: field_def)
  have u2: "u = ?u" using u f s by (simp add: admin_url_def assms(2) s)
  have "field rep (snd (remember_admin_id rep e hostname v saved)) ''url'' = ?u"
    using f by (auto simp: remember_admin_id_def Let_def)
  then have "admin_url rep e (snd (remember_admin_id rep e hostname v saved)) = ?u"
    using s by (simp add: admin_url_def assms(2))
  then show ?thesis
    using u u2 a by (auto simp: role_def Let_def)
qed

theorem saved_url_in_effect_witness:
  "admin_url (\<lambda>_. []) (\<lambda>_. None)
     (snd (remember_admin_id (\<lambda>_. []) (\<lambda>_. None) ''box'' ''Rig'' [(''url'', PStr ''http://rig:8799'')])) = ''http://rig:8799''"
proof -
  have s: "set_admin_url (\<lambda>_. []) (\<lambda>_. None) ''http://rig:8799/'' [] = Inr (''http://rig:8799'', [(''url'', PStr ''http://rig:8799'')])"
    by code_simp
  have "env_word (\<lambda>_. None) ''AIFORGE_ADMIN_URL'' = []" "list_all (\<lambda>c. \<not> is_space c) ''http://rig:8799/''"
    by code_simp+
  from saved_url_in_effect [OF s this] show ?thesis by blast
qed

end
