(* ===== verification/Failure_Chain.thy ===== *)
theory Failure_Chain
  imports Py_Values
begin

text \<open>
  A failed model call: the exceptions of its cause chain, as
  \<^verbatim>\<open>aiforge_core/llm/model_outage.py\<close> and \<^verbatim>\<open>endpoint_breaker.py\<close> read them. An exception
  names the ones it wraps by their address in a heap, so a chain may run in a circle.
\<close>

datatype errno =
    ECONNREFUSED | EHOSTUNREACH | ENETUNREACH | EHOSTDOWN | ETIMEDOUT | ECONNABORTED
  | ECONNRESET | EPIPE | Other_errno int

text \<open>
  What the code reads of an exception: the name of its class, the names of the classes it is
  an instance of, its \<^verbatim>\<open>str\<close>, the body of the HTTP answer, the status attributes (\<open>PNone\<close> where
  there is none), the error number, whether there was a response, and the
  marks the client sets.
\<close>

record exn =
  x_class :: string
  x_bases :: "string list"
  x_str :: string
  x_body :: string
  x_code :: pyval
  x_status_code :: pyval
  x_status :: pyval
  x_errno :: "errno option"
  x_response :: bool
  x_shipped :: bool
  x_missing :: bool
  x_served :: pyval
  x_waited :: bool
  x_transport :: "nat option"
  x_reason :: "nat option"
  x_cause :: "nat option"
  x_context :: "nat option"

type_synonym heap = "nat \<Rightarrow> exn"

definition isa :: "exn \<Rightarrow> string \<Rightarrow> bool" where
  "isa x c \<longleftrightarrow> c \<in> set (x_bases x)"

definition any_in :: "string list \<Rightarrow> string \<Rightarrow> bool" where
  "any_in ms text \<longleftrightarrow> list_ex (\<lambda>m. contains m text) ms"

text \<open>\<^verbatim>\<open>a or b\<close> on links: an exception is true.\<close>

definition or_link :: "nat option \<Rightarrow> nat option \<Rightarrow> nat option" where
  "or_link a b = (case a of None \<Rightarrow> b | Some _ \<Rightarrow> a)"

definition next_link :: "exn \<Rightarrow> nat option" where
  "next_link x =
     (let nxt = (case x_transport x of
                   None \<Rightarrow> if isa x ''URLError'' then x_reason x else None
                 | Some t \<Rightarrow> Some t)
      in or_link nxt (or_link (x_cause x) (x_context x)))"

text \<open>The first argument is the number of links that still fit under the limit.\<close>

fun chain_from :: "nat \<Rightarrow> heap \<Rightarrow> nat list \<Rightarrow> nat option \<Rightarrow> nat list" where
  "chain_from 0 H seen x = seen"
| "chain_from (Suc n) H seen None = seen"
| "chain_from (Suc n) H seen (Some i) =
     (if i \<in> set seen then seen else chain_from n H (seen @ [i]) (next_link (H i)))"

definition chain :: "heap \<Rightarrow> nat option \<Rightarrow> exn list" where
  "chain H x = map H (chain_from 8 H [] x)"

definition text_of :: "exn \<Rightarrow> string" where
  "text_of x = lower (x_class x @ '' '' @ x_str x @ '' '' @ (if isa x ''HTTPError'' then x_body x else []))"

definition http_code :: "pyval \<Rightarrow> int option" where
  "http_code v = (case int_value v of None \<Rightarrow> None | Some n \<Rightarrow> if 100 \<le> n \<and> n < 600 then Some n else None)"

definition status_of :: "exn \<Rightarrow> int option" where
  "status_of x =
     (case http_code (x_code x) of
        Some n \<Rightarrow> Some n
      | None \<Rightarrow> (case http_code (x_status_code x) of
          Some n \<Rightarrow> Some n
        | None \<Rightarrow> http_code (x_status x)))"

definition plain :: "string \<Rightarrow> string list \<Rightarrow> string \<Rightarrow> exn" where
  "plain c bs s =
     \<lparr>x_class = c, x_bases = bs, x_str = s, x_body = [], x_code = PNone, x_status_code = PNone,
      x_status = PNone, x_errno = None, x_response = False, x_shipped = False, x_missing = False,
      x_served = PNone, x_waited = False, x_transport = None, x_reason = None, x_cause = None, x_context = None\<rparr>"

section \<open>The chain\<close>

lemma chain_from_prefix: "\<exists>ys. chain_from n H seen x = seen @ ys \<and> length ys \<le> n"
proof (induction n H seen x rule: chain_from.induct)
  case (3 n H seen i)
  show ?case
  proof (cases "i \<in> set seen")
    case False
    with 3 obtain ys where "chain_from n H (seen @ [i]) (next_link (H i)) = (seen @ [i]) @ ys" "length ys \<le> n"
      by blast
    with False show ?thesis by (intro exI [of _ "i # ys"]) simp
  qed simp
qed simp_all

lemma chain_from_distinct: "distinct seen \<Longrightarrow> distinct (chain_from n H seen x)"
  by (induction n H seen x rule: chain_from.induct) auto

lemma chain_length: "length (chain H x) \<le> 8"
  using chain_from_prefix [of 8 H "[]" x] by (auto simp: chain_def)

lemma chain_None [simp]: "chain H None = []"
  by (simp add: chain_def eval_nat_numeral)

lemma chain_Cons: "\<exists>xs. chain H (Some i) = H i # xs"
  using chain_from_prefix [of 7 H "[i]" "next_link (H i)"]
  by (auto simp: chain_def eval_nat_numeral)

end
