(* ===== verification/Endpoint_Breaker.thy ===== *)
theory Endpoint_Breaker
  imports Failure_Chain Stuck_Policy
begin

text \<open>
  The circuit breaker of the model endpoints, from \<^verbatim>\<open>aiforge_core/llm/endpoint_breaker.py\<close>:
  the key of an address (with the parts of \<^verbatim>\<open>urllib.parse\<close> it reads), the recorded failures,
  whether an endpoint is skipped, and which failure is one to connect. The validation
  \<^verbatim>\<open>urlsplit\<close> makes of a host in brackets or outside ASCII is the argument \<open>vet\<close>.
\<close>

section \<open>Settings\<close>

definition default_fails :: rat where "default_fails = 2"
definition default_cooldown_s :: rat where "default_cooldown_s = 30"

definition env_float :: "env \<Rightarrow> string \<Rightarrow> rat \<Rightarrow> rat" where
  "env_float e k dflt =
     (let raw = env_get e k [] in
      if raw = [] then dflt else (case float_of_str raw of None \<Rightarrow> dflt | Some x \<Rightarrow> x))"

text \<open>\<^verbatim>\<open>int\<close> of a float rounds towards zero.\<close>

definition trunc :: "rat \<Rightarrow> int" where
  "trunc r = (if r < 0 then - \<lfloor>- r\<rfloor> else \<lfloor>r\<rfloor>)"

definition cooldown_s :: "env \<Rightarrow> rat" where
  "cooldown_s e = max 0 (env_float e ''AIFORGE_LLM_BREAKER_COOLDOWN_S'' default_cooldown_s)"

definition fails_to_open :: "env \<Rightarrow> int" where
  "fails_to_open e = max 1 (trunc (env_float e ''AIFORGE_LLM_BREAKER_FAILS'' default_fails))"

section \<open>The key of an address\<close>

text \<open>\<^verbatim>\<open>s.partition(c)\<close>: whether \<open>c\<close> occurs, what is before its first place, and what is behind.\<close>

fun partition_at :: "char \<Rightarrow> string \<Rightarrow> bool \<times> string \<times> string" where
  "partition_at c [] = (False, [], [])"
| "partition_at c (x # s) =
     (if x = c then (True, [], s)
      else (let r = partition_at c s in (fst r, x # fst (snd r), snd (snd r))))"

definition rpartition_tail :: "char \<Rightarrow> string \<Rightarrow> string" where
  "rpartition_tail c s = rev (takeWhile (\<lambda>x. x \<noteq> c) (rev s))"

definition scheme_char :: "char \<Rightarrow> bool" where
  "scheme_char c \<longleftrightarrow> is_digit c \<or> c \<in> set ''+-.'' \<or>
     (let n = (of_char c :: nat) in (65 \<le> n \<and> n \<le> 90) \<or> (97 \<le> n \<and> n \<le> 122))"

definition is_alpha :: "char \<Rightarrow> bool" where
  "is_alpha c = (let n = (of_char c :: nat) in (65 \<le> n \<and> n \<le> 90) \<or> (97 \<le> n \<and> n \<le> 122))"

text \<open>The scheme and the network location of \<^verbatim>\<open>urlsplit\<close>; \<open>None\<close> where it raises.\<close>

definition url_clean :: "string \<Rightarrow> string" where
  "url_clean u = filter (\<lambda>c. c \<notin> {CHR 0x09, CHR 0x0A, CHR 0x0D}) (dropWhile (\<lambda>c. of_char c \<le> (32 :: nat)) u)"

definition split_scheme :: "string \<Rightarrow> string \<times> string" where
  "split_scheme u =
     (let (found, s, rest) = partition_at (CHR '':'') u in
      if found \<and> s \<noteq> [] \<and> is_alpha (hd s) \<and> list_all scheme_char s then (lower s, rest) else ([], u))"

definition url_split :: "(string \<Rightarrow> bool) \<Rightarrow> string \<Rightarrow> (string \<times> string) option" where
  "url_split vet url =
     (let (scheme, rest) = split_scheme (url_clean url) in
      if \<not> starts_with ''//'' rest then Some (scheme, [])
      else (let netloc = takeWhile (\<lambda>c. c \<notin> set ''/?#'') (drop 2 rest);
                opening = CHR ''['' \<in> set netloc; closing = CHR '']'' \<in> set netloc
            in if opening \<noteq> closing then None
               else if (opening \<or> list_ex (\<lambda>c. of_char c \<ge> (128 :: nat)) netloc) \<and> \<not> vet netloc then None
               else Some (scheme, netloc)))"

definition host_info :: "string \<Rightarrow> string \<times> string" where
  "host_info netloc =
     (let info = rpartition_tail (CHR ''@'') netloc;
          (br, _, inside) = partition_at (CHR ''['') info
      in if br then (let (_, h, after) = partition_at (CHR '']'') inside
                     in (h, snd (snd (partition_at (CHR '':'') after))))
         else (let (_, h, p) = partition_at (CHR '':'') info in (h, p)))"

definition host_name :: "string \<Rightarrow> string" where
  "host_name h = (let (pc, a, z) = partition_at (CHR ''%'') h in lower a @ (if pc then CHR ''%'' # z else []))"

text \<open>\<open>None\<close> where reading the port raises; the port that is not given is \<open>0\<close> (both are false).\<close>

definition port_of :: "string \<Rightarrow> int option" where
  "port_of p =
     (if p = [] then Some 0
      else if list_all is_digit p
      then (let n = foldl (\<lambda>a c. 10 * a + digit_val c) 0 p in if n \<le> 65535 then Some n else None)
      else None)"

definition endpoint_key :: "(string \<Rightarrow> bool) \<Rightarrow> string \<Rightarrow> string option" where
  "endpoint_key vet url =
     (case url_split vet url of
        None \<Rightarrow> None
      | Some (scheme, netloc) \<Rightarrow>
          (let (h, p) = host_info netloc in
           if host_name h = [] then None
           else (case port_of p of
                   None \<Rightarrow> None
                 | Some n \<Rightarrow>
                     (let port = (if n \<noteq> 0 then n else if scheme = ''https'' then 443 else 80)
                      in Some (host_name h @ '':'' @ str_of_int port)))))"

section \<open>The breaker\<close>

record breaker =
  b_fails :: int
  b_until :: rat
  b_reason :: string

type_synonym breakers = "string \<Rightarrow> breaker option"

text \<open>\<^verbatim>\<open>is_open\<close>: the facts of the message it builds, or \<open>None\<close> to go ahead.\<close>

definition is_open ::
  "env \<Rightarrow> (string \<Rightarrow> bool) \<Rightarrow> breakers \<Rightarrow> rat \<Rightarrow> string \<Rightarrow> (string \<times> int \<times> string \<times> rat) option" where
  "is_open e vet bs now url =
     (if cooldown_s e \<le> 0 then None
      else (case endpoint_key vet url of
              None \<Rightarrow> None
            | Some k \<Rightarrow> (case bs k of
                None \<Rightarrow> None
              | Some st \<Rightarrow>
                  if b_until st \<le> 0 then None
                  else if b_until st - now \<le> 0 then None
                  else Some (k, b_fails st, b_reason st, b_until st - now))))"

definition record_failure ::
  "env \<Rightarrow> (string \<Rightarrow> bool) \<Rightarrow> string \<Rightarrow> string \<Rightarrow> rat \<Rightarrow> breakers \<Rightarrow> breakers" where
  "record_failure e vet url reason now bs =
     (case endpoint_key vet url of
        None \<Rightarrow> bs
      | Some k \<Rightarrow>
          if cooldown_s e \<le> 0 then bs
          else
            (let st = (case bs k of None \<Rightarrow> \<lparr>b_fails = 0, b_until = 0, b_reason = []\<rparr> | Some st \<Rightarrow> st);
                 n = b_fails st + 1;
                 st1 = st\<lparr>b_fails := n, b_reason := take 160 (if reason = [] then ''connect failed'' else reason)\<rparr>
             in bs(k \<mapsto> (if fails_to_open e \<le> n then st1\<lparr>b_until := now + cooldown_s e\<rparr> else st1))))"

definition record_success :: "(string \<Rightarrow> bool) \<Rightarrow> string \<Rightarrow> breakers \<Rightarrow> breakers" where
  "record_success vet url bs = (case endpoint_key vet url of None \<Rightarrow> bs | Some k \<Rightarrow> bs(k := None))"

definition reset_breakers :: "breakers \<Rightarrow> breakers" where
  "reset_breakers bs = (\<lambda>_. None)"

section \<open>Which failure is one to connect\<close>

definition connect_errnos :: "errno list" where
  "connect_errnos = [ECONNREFUSED, EHOSTUNREACH, ENETUNREACH, EHOSTDOWN, ETIMEDOUT, ECONNABORTED]"

definition connect_phrases :: "string list" where
  "connect_phrases =
     [''connection refused'', ''no route to host'', ''network is unreachable'', ''host is down'',
      ''name or service not known'', ''nodename nor servname'',
      ''temporary failure in name resolution'', ''failed to establish a new connection'',
      ''connection timed out'', ''connect timeout'', ''connecttimeout'', ''endpoint unreachable'']"

definition reached_phrases :: "string list" where
  "reached_phrases =
     [''read timed out'', ''readtimeout'', ''read timeout'', ''remote end closed'', ''incomplete read'']"

definition connect_classes :: "string list" where
  "connect_classes = [''connecterror'', ''connecttimeout'']"

definition one_is_connect :: "exn \<Rightarrow> bool option" where
  "one_is_connect x =
     (if isa x ''ConnectionRefusedError'' then Some True
      else if isa x ''OSError'' \<and> (case x_errno x of None \<Rightarrow> False | Some n \<Rightarrow> n \<in> set connect_errnos)
      then Some True
      else if any_in reached_phrases (lower (x_str x)) then Some False
      else if lower (x_class x) \<in> set connect_classes then Some True
      else if any_in connect_phrases (lower (x_str x)) then Some True
      else None)"

fun connect_walk :: "nat \<Rightarrow> heap \<Rightarrow> nat option \<Rightarrow> bool" where
  "connect_walk 0 H x = False"
| "connect_walk (Suc n) H None = False"
| "connect_walk (Suc n) H (Some i) =
     (case one_is_connect (H i) of
        Some b \<Rightarrow> b
      | None \<Rightarrow> connect_walk n H (or_link (x_cause (H i)) (x_context (H i))))"

definition is_connect_error :: "heap \<Rightarrow> nat option \<Rightarrow> bool" where
  "is_connect_error H x = connect_walk 8 H x"

section \<open>When an endpoint is skipped\<close>

text \<open>What happened to the endpoints, newest first, and the failures of one key since its last
  success.\<close>

datatype contact = Failed string string rat | Reached string

primrec contact_step :: "env \<Rightarrow> (string \<Rightarrow> bool) \<Rightarrow> contact \<Rightarrow> breakers \<Rightarrow> breakers" where
  "contact_step e vet (Failed url why t) bs = record_failure e vet url why t bs"
| "contact_step e vet (Reached url) bs = record_success vet url bs"

fun since_success :: "(string \<Rightarrow> bool) \<Rightarrow> string \<Rightarrow> contact list \<Rightarrow> (rat \<times> string) list" where
  "since_success vet k [] = []"
| "since_success vet k (Failed url why t # cs) =
     (if endpoint_key vet url = Some k then (t, why) # since_success vet k cs else since_success vet k cs)"
| "since_success vet k (Reached url # cs) =
     (if endpoint_key vet url = Some k then [] else since_success vet k cs)"

definition shown_reason :: "string \<Rightarrow> string" where
  "shown_reason why = take 160 (if why = [] then ''connect failed'' else why)"

fun breaker_of :: "env \<Rightarrow> (rat \<times> string) list \<Rightarrow> breaker option" where
  "breaker_of e [] = None"
| "breaker_of e ((t, why) # fs) =
     Some \<lparr>b_fails = int (length fs) + 1,
           b_until = (if fails_to_open e \<le> int (length fs) + 1 then t + cooldown_s e else 0),
           b_reason = shown_reason why\<rparr>"

lemma fails_to_open_pos: "1 \<le> fails_to_open e"
  by (simp add: fails_to_open_def)

lemma breakers_track:
  assumes "0 < cooldown_s e"
  shows "foldr (contact_step e vet) cs (\<lambda>_. None) k = breaker_of e (since_success vet k cs)"
proof (induction cs)
  case (Cons c cs)
  show ?case
  proof (cases c)
    case (Failed url why t)
    let ?fs = "since_success vet k cs"
    have "breaker_of e ?fs = None \<or> (\<exists>t' why' fs. ?fs = (t', why') # fs)"
      by (cases ?fs) auto
    then show ?thesis using assms Cons.IH Failed
      by (cases ?fs) (auto simp: record_failure_def shown_reason_def Let_def split: option.splits)
  next
    case (Reached url)
    then show ?thesis using Cons.IH
      by (auto simp: record_success_def split: option.splits)
  qed
qed simp

text \<open>C23. The breaker skips an endpoint exactly while it should: after any history of failed and
  successful connects to any addresses, the endpoint is skipped if and only if its failures since
  its last success have reached the threshold and the cooldown counted from the newest of them has
  not run out; the message then reports their number, the newest reason and the time left.
  Connects to other endpoints do not matter.\<close>

theorem breaker_exact:
  assumes "0 < cooldown_s e" and "endpoint_key vet url = Some k"
    and "\<forall>(t, why) \<in> set (since_success vet k cs). 0 \<le> t"
  shows "is_open e vet (foldr (contact_step e vet) cs (\<lambda>_. None)) now url =
    (case since_success vet k cs of
       [] \<Rightarrow> None
     | (t, why) # fs \<Rightarrow>
         if fails_to_open e \<le> int (length fs) + 1 \<and> now < t + cooldown_s e
         then Some (k, int (length fs) + 1, shown_reason why, t + cooldown_s e - now)
         else None)"
proof (cases "since_success vet k cs")
  case (Cons f fs)
  then show ?thesis using assms breakers_track [OF assms(1), of vet cs k]
    by (cases f) (auto simp: is_open_def)
next
  case Nil
  then show ?thesis using assms breakers_track [OF assms(1), of vet cs k] by (simp add: is_open_def)
qed

theorem breaker_exact_witness:
  "is_open (\<lambda>_. None) (\<lambda>_. True)
     (foldr (contact_step (\<lambda>_. None) (\<lambda>_. True))
        [Failed ''http://box:1234/v1'' [] 10, Reached ''http://other'', Failed ''http://u@BOX:1234'' ''no route'' 5,
         Reached ''http://box:1234'', Failed ''http://box:1234'' [] 1] (\<lambda>_. None)) 20 ''HTTP://box:1234/''
   = Some (''box:1234'', 2, ''connect failed'', 20)"
proof -
  have k: "endpoint_key (\<lambda>_. True) ''HTTP://box:1234/'' = Some ''box:1234''" by code_simp
  have e: "cooldown_s (\<lambda>_. None) = 30" "fails_to_open (\<lambda>_. None) = 2" by code_simp+
  have s: "since_success (\<lambda>_. True) ''box:1234''
      [Failed ''http://box:1234/v1'' [] 10, Reached ''http://other'', Failed ''http://u@BOX:1234'' ''no route'' 5,
       Reached ''http://box:1234'', Failed ''http://box:1234'' [] 1] = [(10, []), (5, ''no route'')]" by code_simp
  have c: "0 < cooldown_s (\<lambda>_. None)" by (simp add: e)
  note fact = breaker_exact [OF c k, of "[Failed ''http://box:1234/v1'' [] 10, Reached ''http://other'',
      Failed ''http://u@BOX:1234'' ''no route'' 5, Reached ''http://box:1234'', Failed ''http://box:1234'' [] 1]" 20,
      unfolded s]
  show ?thesis by (rule trans [OF fact]) (simp_all add: e shown_reason_def)
qed

end
