(* ===== verification/Model_Outage.thy ===== *)
theory Model_Outage
  imports Endpoint_Breaker
begin

text \<open>
  Whether a failed model call is an outage to wait for, from
  \<^verbatim>\<open>aiforge_core/llm/model_outage.py\<close>: the verdict of one exception of the cause chain, the
  verdict of the chain, and the questions the waiter asks of it.
\<close>

datatype outage_verdict = Outage | Config | Shipped | Cancelled | Other_failure | Llm_issue

definition outage_status :: "int list" where "outage_status = [408, 502, 503, 504]"
definition auth_status :: "int list" where "auth_status = [401, 403]"
definition config_status :: "int list" where "config_status = [400, 404, 405, 413, 422]"

definition loading_markers :: "string list" where
  "loading_markers =
     [''no models loaded'', ''model not loaded'', ''not loaded'', ''model is loading'',
      ''loading model'', ''model not ready'', ''still loading'', ''unloaded'',
      ''model loading'', ''is being loaded'']"

definition unknown_model_markers :: "string list" where
  "unknown_model_markers =
     [''model not found'', ''model_not_found'', ''does not exist'', ''unknown model'', ''invalid model'']"

definition reset_errnos :: "errno list" where
  "reset_errnos = [ECONNRESET, EPIPE, ECONNABORTED]"

definition down_phrases :: "string list" where
  "down_phrases =
     [''connection reset'', ''connection aborted'', ''remote end closed connection'',
      ''remotedisconnected'', ''server disconnected'', ''broken pipe'',
      ''service unavailable'', ''serviceunavailable'', ''bad gateway'',
      ''gateway timeout'', ''temporarily unavailable'', ''overloaded'', ''endpoint unreachable'']"

definition outage_classes :: "string list" where
  "outage_classes = [''serviceunavailableerror'', ''llmstreamstalled'']"

definition config_classes :: "string list" where
  "config_classes =
     [''authenticationerror'', ''permissiondeniederror'', ''notfounderror'', ''badrequesterror'',
      ''contextwindowexceedederror'', ''unprocessableentityerror'']"

definition quota_markers :: "string list" where
  "quota_markers =
     [''quota exceeded'', ''insufficient_quota'', ''insufficient quota'',
      ''exceeded your current quota'', ''requests per day'', ''requests per hour'',
      ''billing'', ''credit balance'']"

section \<open>The verdict\<close>

definition is_cancel :: "exn \<Rightarrow> bool" where
  "is_cancel x \<longleftrightarrow> x_class x \<in> {''_LLMCancelled'', ''ModelWaitCancelled'', ''CancelledError''}"

definition request_failing :: "exn \<Rightarrow> bool" where
  "request_failing x \<longleftrightarrow> isa x ''LLMRequestFailing''"

definition dropped :: "exn \<Rightarrow> bool" where
  "dropped x \<longleftrightarrow> isa x ''ConnectionResetError'' \<or> isa x ''ConnectionAbortedError'' \<or> isa x ''BrokenPipeError''"

definition status_verdict :: "int \<Rightarrow> string \<Rightarrow> outage_verdict option" where
  "status_verdict status text =
     (if status \<in> set auth_status then Some Config
      else if status = 429 then Some (if any_in quota_markers text then Config else Outage)
      else if status \<in> set outage_status then Some Outage
      else if any_in loading_markers text then Some Outage
      else if status \<in> set config_status \<or> (400 \<le> status \<and> status < 500) then Some Config
      else None)"

text \<open>The rest of \<^verbatim>\<open>_link_verdict\<close>, for a link whose status decides nothing.\<close>

definition named_verdict :: "heap \<Rightarrow> nat \<Rightarrow> outage_verdict option" where
  "named_verdict H i =
     (let x = H i; text = text_of x; cls = lower (x_class x) in
      if cls \<in> set config_classes then Some (if any_in loading_markers text then Outage else Config)
      else if cls = ''_modelreloading'' \<or> any_in loading_markers text then Some Outage
      else if any_in unknown_model_markers text then Some Config
      else if cls \<in> set outage_classes then Some Outage
      else if is_connect_error H (Some i) then Some Outage
      else if dropped x then Some Outage
      else if isa x ''OSError'' \<and> (case x_errno x of None \<Rightarrow> False | Some n \<Rightarrow> n \<in> set reset_errnos)
      then Some Outage
      else if any_in down_phrases text then Some Outage
      else if isa x ''TimeoutError'' \<or> cls \<in> {''timeout'', ''readtimeout'', ''connecttimeout''} then Some Outage
      else None)"

definition link_verdict :: "heap \<Rightarrow> nat \<Rightarrow> outage_verdict option" where
  "link_verdict H i =
     (let x = H i in
      if x_missing x then Some (if x_served x = PList [] then Outage else Config)
      else (case status_of x of
              None \<Rightarrow> named_verdict H i
            | Some st \<Rightarrow> (case status_verdict st (text_of x) of
                Some v \<Rightarrow> Some v
              | None \<Rightarrow> named_verdict H i)))"

fun first_verdict :: "heap \<Rightarrow> nat list \<Rightarrow> outage_verdict" where
  "first_verdict H [] = Other_failure"
| "first_verdict H (i # is) = (case link_verdict H i of Some v \<Rightarrow> v | None \<Rightarrow> first_verdict H is)"

definition classify :: "heap \<Rightarrow> nat option \<Rightarrow> outage_verdict" where
  "classify H x =
     (case x of
        None \<Rightarrow> Other_failure
      | Some i \<Rightarrow>
          (let links = chain H x in
           if list_ex is_cancel (take 1 links) then Cancelled
           else if list_ex request_failing links then Llm_issue
           else if list_ex x_shipped links then Shipped
           else first_verdict H (chain_from 8 H [] x)))"

section \<open>The questions about a chain\<close>

definition overflow_markers :: "string list" where
  "overflow_markers =
     [''context_length_exceeded'', ''maximum context length'', ''context length'',
      ''context window'', ''contextwindowexceedederror'', ''exceeds the available context'',
      ''exceed_context_size'', ''exceeds context'', ''exceeded context'',
      ''prompt is too long'', ''prompt too long'', ''input is too long'',
      ''too many tokens'', ''maximum prompt length'', ''prompt length exceeds'',
      ''requested tokens exceed'', ''n_ctx'']"

definition is_context_overflow :: "heap \<Rightarrow> nat option \<Rightarrow> bool" where
  "is_context_overflow H x \<longleftrightarrow> list_ex (\<lambda>e. any_in overflow_markers (text_of e)) (chain H x)"

definition is_outage :: "heap \<Rightarrow> nat option \<Rightarrow> bool" where
  "is_outage H x \<longleftrightarrow> classify H x = Outage"

definition llm_issue_of :: "heap \<Rightarrow> nat option \<Rightarrow> exn option" where
  "llm_issue_of H x = find request_failing (chain H x)"

definition stall_budget_spent :: "heap \<Rightarrow> nat option \<Rightarrow> bool" where
  "stall_budget_spent H x \<longleftrightarrow> list_ex (\<lambda>e. isa e ''LLMStallBudget'') (chain H x)"

definition busy_status :: "int list" where "busy_status = [429, 503]"

definition has_status :: "int list \<Rightarrow> exn \<Rightarrow> bool" where
  "has_status cs x = (case status_of x of None \<Rightarrow> False | Some n \<Rightarrow> n \<in> set cs)"

definition explicit_busy :: "heap \<Rightarrow> nat option \<Rightarrow> bool" where
  "explicit_busy H x \<longleftrightarrow>
     list_ex (\<lambda>e. has_status busy_status e
         \<or> lower (x_class e) \<in> {''serviceunavailableerror'', ''ratelimiterror'', ''_modelreloading''}
         \<or> any_in loading_markers (text_of e)) (chain H x)"

definition is_stall :: "heap \<Rightarrow> nat option \<Rightarrow> bool" where
  "is_stall H x \<longleftrightarrow> list_ex (\<lambda>e. x_class e = ''LLMStreamStalled'') (chain H x)"

definition bound_link :: "exn \<Rightarrow> bool" where
  "bound_link x \<longleftrightarrow>
     x_class x = ''LLMStreamStalled'' \<or> has_status [408, 502, 504] x \<or> dropped x
     \<or> any_in [''connection reset'', ''connection aborted'', ''remote end closed'',
               ''remotedisconnected'', ''server disconnected'', ''broken pipe''] (text_of x)
     \<or> (lower (x_class x) \<in> {''timeout'', ''apitimeouterror'', ''readtimeout''}
         \<and> \<not> contains ''connect'' (text_of x))"

definition request_bound :: "heap \<Rightarrow> nat option \<Rightarrow> bool" where
  "request_bound H x \<longleftrightarrow> list_ex bound_link (chain H x)"

definition crash_link :: "exn \<Rightarrow> bool" where
  "crash_link x \<longleftrightarrow>
     dropped x \<or> x_class x \<in> {''RemoteDisconnected'', ''IncompleteRead''}
     \<or> any_in [''connection reset'', ''remote end closed'', ''server disconnected'',
               ''connection aborted'', ''peer closed'', ''incomplete read''] (text_of x)"

definition crash_evidence :: "heap \<Rightarrow> nat option \<Rightarrow> bool" where
  "crash_evidence H x \<longleftrightarrow>
     (let links = chain H x in
      if list_ex (has_status [408, 429, 502, 503, 504]) links then False
      else if is_stall H x \<or> list_ex (\<lambda>e. x_class e = ''LLMConnectionDead'') links then False
      else if is_connect_error H x then False
      else list_ex crash_link links)"

definition names_loading :: "heap \<Rightarrow> nat option \<Rightarrow> bool" where
  "names_loading H x \<longleftrightarrow> list_ex (\<lambda>e. any_in loading_markers (text_of e)) (chain H x)"

text \<open>\<^verbatim>\<open>_wait_scope.was_waited\<close>: a layer below waited this failure out to its bound.\<close>

definition was_waited :: "heap \<Rightarrow> nat option \<Rightarrow> bool" where
  "was_waited H x \<longleftrightarrow> list_ex x_waited (chain H x)"

end
