(* ===== verification/Request_Health.thy ===== *)
theory Request_Health
  imports Model_Outage
begin

text \<open>
  What is known of one logical request and of the turn it belongs to, from
  \<^verbatim>\<open>aiforge_core/llm/request_health.py\<close>: stalls and failures, the silence of a turn, the
  answers and the prefill speed of an endpoint. \<open>time.monotonic()\<close> is an argument.
\<close>

section \<open>Settings\<close>

definition env_num :: "env \<Rightarrow> string \<Rightarrow> rat \<Rightarrow> rat \<Rightarrow> rat" where
  "env_num e k dflt low =
     (let raw = env_get e k [] in
      if raw = [] then max low dflt else (case float_of_str raw of None \<Rightarrow> dflt | Some x \<Rightarrow> max low x))"

definition crash_resends :: "env \<Rightarrow> int" where
  "crash_resends e = trunc (env_num e ''AIFORGE_LLM_CRASH_RESENDS'' 0 0)"

definition crash_warn_after :: "env \<Rightarrow> int" where
  "crash_warn_after e = trunc (env_num e ''AIFORGE_LLM_CRASH_WARN'' 3 1)"

definition crash_window_s :: "env \<Rightarrow> rat" where
  "crash_window_s e = env_num e ''AIFORGE_LLM_CRASH_WINDOW_S'' 15 0"

definition same_request_fails :: "env \<Rightarrow> int" where
  "same_request_fails e =
     (let raw = env_get e ''AIFORGE_LLM_SAME_REQUEST_FAILS'' [] in
      if raw = [] then 4 else (case int_of_str raw of None \<Rightarrow> 4 | Some n \<Rightarrow> max 1 n))"

definition stall_budget_s :: "env \<Rightarrow> rat" where
  "stall_budget_s e = env_num e ''AIFORGE_LLM_STALL_BUDGET_S'' 1200 0"

section \<open>The request\<close>

definition max_doublings :: int where "max_doublings = 8"

record health =
  stalls :: int
  stall_s :: rat
  stalls_seen :: int
  stalls_counted :: int
  fails :: int
  crashes :: int
  crash_at :: "rat option"
  up_at :: "rat option"
  sent_at :: "rat option"

definition new_health :: health where
  "new_health = \<lparr>stalls = 0, stall_s = 0, stalls_seen = 0, stalls_counted = 0, fails = 0, crashes = 0,
                 crash_at = None, up_at = None, sent_at = None\<rparr>"

definition counted :: "health \<Rightarrow> int" where
  "counted h = stalls_counted h + fails h"

definition scale :: "health \<Rightarrow> rat" where
  "scale h = 2 powi (min (stalls h) max_doublings)"

definition stall_scale :: "health option \<Rightarrow> rat" where
  "stall_scale b = (case b of None \<Rightarrow> 1 | Some h \<Rightarrow> scale h)"

section \<open>The turn\<close>

record turn =
  spent :: rat
  last_end :: rat
  last_add :: rat
  turn_sends :: int

definition bind_turn :: turn where
  "bind_turn = \<lparr>spent = 0, last_end = 0, last_add = 0, turn_sends = 0\<rparr>"

definition stall_of_turn :: "rat \<Rightarrow> rat \<Rightarrow> turn \<Rightarrow> turn" where
  "stall_of_turn now secs t =
     (let add = max 0 (now - max (now - secs) (last_end t))
      in t\<lparr>spent := spent t + add, last_add := add, last_end := max (last_end t) now,
           turn_sends := turn_sends t + 1\<rparr>)"

definition note_stall :: "rat \<Rightarrow> rat \<Rightarrow> health option \<times> turn option \<Rightarrow> health option \<times> turn option" where
  "note_stall now seconds ht =
     (let secs = max 0 seconds
      in (map_option (\<lambda>h. h\<lparr>stalls := stalls h + 1, stall_s := stall_s h + secs\<rparr>) (fst ht),
          map_option (stall_of_turn now secs) (snd ht)))"

definition note_turn_answer :: "turn option \<Rightarrow> turn option" where
  "note_turn_answer b = map_option (\<lambda>t. t\<lparr>spent := 0, turn_sends := 0\<rparr>) b"

definition refund_last :: "health option \<times> turn option \<Rightarrow> health option \<times> turn option" where
  "refund_last ht =
     (map_option (\<lambda>h. if stall_s h \<noteq> 0 then h\<lparr>stall_s := 0\<rparr> else h) (fst ht),
      map_option (\<lambda>t. t\<lparr>spent := max 0 (spent t - last_add t), last_add := 0\<rparr>) (snd ht))"

definition stalled_sends :: "health option \<times> turn option \<Rightarrow> int" where
  "stalled_sends ht = (case snd ht of Some t \<Rightarrow> turn_sends t
     | None \<Rightarrow> (case fst ht of None \<Rightarrow> 0 | Some h \<Rightarrow> stalls h))"

definition stalled_seconds :: "health option \<times> turn option \<Rightarrow> rat" where
  "stalled_seconds ht = (case snd ht of Some t \<Rightarrow> spent t
     | None \<Rightarrow> (case fst ht of None \<Rightarrow> 0 | Some h \<Rightarrow> stall_s h))"

section \<open>The endpoints\<close>

record endpoints =
  answered :: "string \<Rightarrow> rat option"
  tracked :: "string list"
  prefill :: "string \<Rightarrow> rat option"

definition no_endpoints :: endpoints where
  "no_endpoints = \<lparr>answered = (\<lambda>_. None), tracked = [], prefill = (\<lambda>_. None)\<rparr>"

definition ep :: "string \<Rightarrow> string" where
  "ep url = rstrip_chars ''/'' url"

definition note_answer :: "rat \<Rightarrow> string \<Rightarrow> endpoints \<Rightarrow> endpoints" where
  "note_answer now url E =
     (if url = [] then E
      else E\<lparr>answered := (answered E)(ep url \<mapsto> now), tracked := removeAll (ep url) (tracked E)\<rparr>)"

definition last_answer :: "string \<Rightarrow> endpoints \<Rightarrow> rat option" where
  "last_answer url E = answered E (ep url)"

definition track_crashes :: "string \<Rightarrow> bool \<Rightarrow> endpoints \<Rightarrow> endpoints" where
  "track_crashes url on E =
     E\<lparr>tracked := (if on then List.insert (ep url) (tracked E) else removeAll (ep url) (tracked E))\<rparr>"

definition crashes_tracked :: "endpoints \<Rightarrow> bool" where
  "crashes_tracked E \<longleftrightarrow> tracked E \<noteq> []"

definition note_prefill :: "string \<Rightarrow> rat \<Rightarrow> rat \<Rightarrow> endpoints \<Rightarrow> endpoints" where
  "note_prefill url tokens seconds E =
     (if url = [] \<or> tokens < 2000 \<or> seconds < 2 then E
      else (let tps = tokens / seconds
            in E\<lparr>prefill := (prefill E)(url \<mapsto>
                   (case prefill E url of None \<Rightarrow> tps | Some old \<Rightarrow> 6 / 10 * old + 4 / 10 * tps))\<rparr>))"

definition prefill_tps :: "string \<Rightarrow> endpoints \<Rightarrow> rat option" where
  "prefill_tps url E = prefill E url"

section \<open>The silence of a turn\<close>

definition stalls_of :: "(rat \<times> rat) list \<Rightarrow> turn" where
  "stalls_of xs = foldl (\<lambda>t x. stall_of_turn (fst x) (snd x) t) bind_turn xs"

lemma same_request_fails_pos: "1 \<le> same_request_fails e"
  by (simp add: same_request_fails_def Let_def split: option.splits)

lemma stall_of_turn_spent:
  assumes "t0 \<le> now - secs" and "0 \<le> t0" and "0 \<le> spent t \<and> spent t \<le> max t0 (last_end t) - t0"
  shows "0 \<le> spent (stall_of_turn now secs t) \<and>
    spent (stall_of_turn now secs t) \<le> max t0 (last_end (stall_of_turn now secs t)) - t0"
  using assms by (auto simp: stall_of_turn_def Let_def max_def split: if_splits)

text \<open>The silence charged to a turn never exceeds the time the turn has lasted: whatever stalls
  its parallel work reports, in whatever order, if none began before the turn then their total lies
  between zero and the time from the start of the turn to the latest of their ends.\<close>

theorem stall_time_bounded:
  assumes "0 \<le> t0" and "\<forall>(now, secs) \<in> set xs. t0 \<le> now - secs \<and> now \<le> t1" and "t0 \<le> t1"
  shows "0 \<le> spent (stalls_of xs) \<and> spent (stalls_of xs) \<le> t1 - t0"
proof -
  have "0 \<le> spent (stalls_of xs) \<and> spent (stalls_of xs) \<le> max t0 (last_end (stalls_of xs)) - t0
      \<and> last_end (stalls_of xs) \<le> t1"
    using assms(2)
  proof (induction xs rule: rev_induct)
    case Nil
    show ?case using assms(1,3) by (simp add: stalls_of_def bind_turn_def)
  next
    case (snoc x xs)
    let ?t = "stalls_of xs"
    have IH: "0 \<le> spent ?t \<and> spent ?t \<le> max t0 (last_end ?t) - t0" "last_end ?t \<le> t1"
      using snoc by auto
    have x: "t0 \<le> fst x - snd x" "fst x \<le> t1" using snoc.prems by (auto simp: case_prod_beta)
    have "stalls_of (xs @ [x]) = stall_of_turn (fst x) (snd x) ?t" by (simp add: stalls_of_def)
    then show ?case using stall_of_turn_spent [OF x(1) assms(1) IH(1)] IH(2) x(2)
      by (simp add: stall_of_turn_def Let_def)
  qed
  then show ?thesis using assms(3) by (auto simp: max_def split: if_splits)
qed

theorem stall_time_bounded_witness:
  "spent (stalls_of [(110, 10), (120, 15), (115, 5)]) \<le> (20 :: rat)"
  using stall_time_bounded [of 100 "[(110, 10), (120, 15), (115, 5)]" 120] by simp

text \<open>Of two overlapping stalls the one reported second is charged only from the end of the
  first: when it began earlier, the time before the first one began is never charged.\<close>

theorem overlap_undercounts:
  assumes "0 \<le> c" and "c < a" and "a \<le> b" and "b \<le> d"
  shows "spent (stalls_of [(b, b - a), (d, d - c)]) = d - a \<and>
    spent (stalls_of [(b, b - a), (d, d - c)]) < spent (stalls_of [(d, d - c)])"
proof -
  have "max (0::rat) a = a" "max 0 c = c" "max 0 b = b" "max c b = b" using assms by auto
  then show ?thesis using assms by (simp add: stalls_of_def stall_of_turn_def bind_turn_def Let_def max_def)
qed

theorem overlap_undercounts_witness:
  "spent (stalls_of [(110, 10), (180, 180)]) < spent (stalls_of [(180, 180)])"
  using overlap_undercounts [of 0 100 110 180] by simp

end
