(* ===== verification/Model_Probe.thy ===== *)
theory Model_Probe
  imports Model_Outage
begin

text \<open>
  The one-token completion that tells whether a model is there, from
  \<^verbatim>\<open>aiforge_core/llm/_probe_states.py\<close> and \<^verbatim>\<open>_model_probe.py\<close>: what an answer or a failure
  says, the latency seen of a model and the bound learned from it, and the cache of recent
  successes. The wire is an argument: what a POST, or the provider's library, came to.
\<close>

section \<open>States\<close>

datatype pstate = OK | Inconclusive | Busy | Refused | Down

type_synonym probe_state = "pstate \<times> int"

definition busy_text :: "string list" where
  "busy_text = [''loading'', ''pulling'', ''swapping'', ''unavailable'', ''starting'', ''not loaded'',
                ''not ready'', ''no model'', ''warming'']"

definition auth_text :: "string list" where
  "auth_text = [''auth'', ''api key'', ''api-key'', ''apikey'', ''x-api-key'', ''token'', ''credential'',
                ''forbidden'', ''permission'', ''unauthorized'', ''not allowed'', ''access denied'']"

definition status_state :: "int \<Rightarrow> string \<Rightarrow> probe_state" where
  "status_state code text =
     (let t = lower text in
      if 200 \<le> code \<and> code < 300 then (OK, code)
      else if code = 502 then (Down, code)
      else if 500 \<le> code \<or> code \<in> {408, 429} then (Busy, code)
      else if any_in busy_text t then (Busy, code)
      else if contains ''not found'' t \<and> contains ''model'' t then (Busy, code)
      else (Inconclusive, code))"

text \<open>\<^verbatim>\<open>_links\<close>: breadth first over the reason, the cause and the context.\<close>

function links_from :: "heap \<Rightarrow> nat list \<Rightarrow> nat option list \<Rightarrow> nat list" where
  "links_from H out [] = out"
| "links_from H out (x # todo) =
     (if 8 \<le> length out then out
      else (case x of
              None \<Rightarrow> links_from H out todo
            | Some i \<Rightarrow>
                if i \<in> set out then links_from H out todo
                else links_from H (out @ [i]) (todo @ [x_reason (H i), x_cause (H i), x_context (H i)])))"
  by pat_completeness auto
termination
  by (relation "measures [\<lambda>(H, out, todo). 8 - length out, \<lambda>(H, out, todo). length todo]") auto

definition exc_state :: "heap \<Rightarrow> nat \<Rightarrow> probe_state" where
  "exc_state H i =
     (let links = map H (links_from H [] [Some i]);
          names = join '' '' (map (\<lambda>x. lower (x_class x)) links);
          text = join '' '' (map (\<lambda>x. lower (x_str x)) links);
          answered = (\<not> contains ''connection'' names \<or> x_response (H i))
      in case (http_code (x_status_code (H i)), answered) of
           (Some c, True) \<Rightarrow> status_state c text
         | _ \<Rightarrow>
             if list_ex (\<lambda>x. isa x ''TimeoutError'') links \<or> contains ''timeout'' names
                \<or> contains ''timed out'' text then (Busy, 0)
             else if list_ex (\<lambda>x. isa x ''ConnectionRefusedError'' \<or> isa x ''ConnectionResetError'') links
                \<or> contains ''connection refused'' text \<or> contains ''connection reset'' text then (Refused, 0)
             else (Down, 0))"

definition is_auth :: "int \<Rightarrow> string \<Rightarrow> bool" where
  "is_auth code text \<longleftrightarrow> code \<in> {401, 403} \<and> any_in auth_text (lower text)"

definition same_client_error :: "int \<Rightarrow> int option list \<Rightarrow> bool" where
  "same_client_error probe_code request_codes \<longleftrightarrow>
     400 \<le> probe_code \<and> probe_code < 500 \<and>
     (if probe_code \<in> {401, 403} then Some 401 \<in> set request_codes \<or> Some 403 \<in> set request_codes
      else Some probe_code \<in> set request_codes)"

section \<open>What was learned of a model\<close>

record probes =
  lat :: "string \<times> string \<Rightarrow> rat list option"
  ok_at :: "string \<times> string \<times> string \<Rightarrow> rat option"
  send_kw :: "string \<times> string \<Rightarrow> (string \<times> pyval) list option"

definition base_s :: "env \<Rightarrow> rat" where
  "base_s e =
     (let raw = env_get e ''AIFORGE_LLM_LIVE_PROBE_S'' [] in
      if raw = [] then 10 else (case float_of_str raw of None \<Rightarrow> 10 | Some x \<Rightarrow> max (1 / 2) x))"

definition cache_s :: "env \<Rightarrow> rat" where
  "cache_s e =
     (let raw = env_get e ''AIFORGE_LLM_PROBE_CACHE_S'' [] in
      if raw = [] then 5 else (case float_of_str raw of None \<Rightarrow> 5 | Some x \<Rightarrow> max 0 x))"

definition wire_prefixes :: "string list" where
  "wire_prefixes = [''openai/'', ''hosted_vllm/'', ''lm_studio/'', ''openai_like/'', ''custom_openai/'']"

definition bare_model :: "string \<Rightarrow> string" where
  "bare_model m = (case find (\<lambda>p. starts_with p m) wire_prefixes of None \<Rightarrow> m | Some p \<Rightarrow> drop (length p) m)"

definition no_slash :: "string \<Rightarrow> string" where
  "no_slash u = rstrip_chars ''/'' u"

definition live_timeout_s :: "env \<Rightarrow> probes \<Rightarrow> string \<Rightarrow> string \<Rightarrow> rat" where
  "live_timeout_s e P url model =
     (case lat P (no_slash url, bare_model model) of
        None \<Rightarrow> base_s e
      | Some [] \<Rightarrow> base_s e
      | Some (x # xs) \<Rightarrow> min (6 * base_s e) (max (base_s e) (4 * foldl min x xs)))"

definition note_latency :: "string \<Rightarrow> string \<Rightarrow> rat \<Rightarrow> probes \<Rightarrow> probes" where
  "note_latency url model secs P =
     (let k = (no_slash url, bare_model model);
          old = (case lat P k of None \<Rightarrow> [] | Some xs \<Rightarrow> xs)
      in P\<lparr>lat := (lat P)(k \<mapsto> deque_append 20 old secs)\<rparr>)"

definition send_keys :: "string list" where
  "send_keys = [''ssl_verify'', ''extra_headers'', ''api_version'', ''custom_llm_provider'', ''headers'',
                ''organization'']"

definition register_send :: "string \<Rightarrow> string \<Rightarrow> (string \<times> pyval) list \<Rightarrow> probes \<Rightarrow> probes" where
  "register_send url model kwargs P =
     P\<lparr>send_kw := (send_kw P)((no_slash url, model) \<mapsto>
         map (\<lambda>k. (k, dget kwargs k)) (filter (\<lambda>k. dget kwargs k \<noteq> PNone) send_keys))\<rparr>"

definition send_kw_of :: "string \<Rightarrow> string \<Rightarrow> probes \<Rightarrow> (string \<times> pyval) list" where
  "send_kw_of url model P = (case send_kw P (no_slash url, model) of None \<Rightarrow> [] | Some d \<Rightarrow> d)"

section \<open>The probe\<close>

text \<open>\<^verbatim>\<open>wire\<close>: the POST of a body naming its token parameter (\<open>Inl\<close>: it raised the exception at
  that address of the heap), the completion of the provider's library, and the provider.\<close>

datatype token_param = Max_tokens | Max_completion_tokens

record wire =
  post :: "token_param \<Rightarrow> nat + int \<times> string"
  whp :: heap
  litellm_missing :: bool
  litellm_call :: "nat option"
  known_providers :: "string list"

definition openai_wire :: "string list" where
  "openai_wire = [''openai'', ''hosted_vllm'', ''lm_studio'', ''openai_like'', ''custom_openai'',
                  ''text-completion-openai'']"

definition provider :: "wire \<Rightarrow> string \<Rightarrow> string \<Rightarrow> string" where
  "provider W m custom =
     (if CHR ''/'' \<notin> set m \<and> custom = [] then []
      else (let pre = (if custom \<noteq> [] then custom else takeWhile (\<lambda>c. c \<noteq> CHR ''/'') m) in
            if pre = [] \<or> pre \<in> set openai_wire then []
            else if litellm_missing W then []
            else if pre \<in> set (known_providers W) then pre else []))"

definition litellm_probe :: "wire \<Rightarrow> probe_state" where
  "litellm_probe W =
     (if litellm_missing W then (Inconclusive, 0)
      else (case litellm_call W of None \<Rightarrow> (OK, 200) | Some x \<Rightarrow> exc_state (whp W) x))"

definition names_token_param :: "string \<Rightarrow> bool" where
  "names_token_param text \<longleftrightarrow> contains ''max_tokens'' (lower text) \<or> contains ''max_completion_tokens'' (lower text)"

definition http_probe :: "wire \<Rightarrow> probe_state" where
  "http_probe W =
     (case post W Max_tokens of
        Inl x \<Rightarrow> exc_state (whp W) x
      | Inr (code, text) \<Rightarrow>
          if code = 400 \<and> names_token_param text
          then (case post W Max_completion_tokens of
                  Inl x \<Rightarrow> exc_state (whp W) x
                | Inr (code2, text2) \<Rightarrow> status_state code2 text2)
          else status_state code text)"

text \<open>\<open>secs\<close> is what the probe took.\<close>

definition completion_probe ::
  "(pyval \<Rightarrow> string) \<Rightarrow> wire \<Rightarrow> string \<Rightarrow> string \<Rightarrow> bool \<Rightarrow> rat \<Rightarrow> probes \<Rightarrow> probe_state \<times> probes" where
  "completion_probe rep W url model learn secs P =
     (let base = no_slash url;
          prov = provider W model (py_str rep (por (dget (send_kw_of base model P) ''custom_llm_provider'') (PStr [])))
      in if base = [] \<and> prov = [] then ((Down, 0), P)
         else (let st = (if prov \<noteq> [] then litellm_probe W else http_probe W)
               in (st, if fst st = OK \<and> learn then note_latency base model secs P else P)))"

definition probe :: "(pyval \<Rightarrow> string) \<Rightarrow> wire \<Rightarrow> string \<Rightarrow> string \<Rightarrow> rat \<Rightarrow> probes \<Rightarrow> bool \<times> probes" where
  "probe rep W url model secs P =
     (let (st, P1) = completion_probe rep W url model False secs P
      in (fst st \<in> {OK, Inconclusive}, P1))"

text \<open>\<open>tag\<close> is the shortened digest of the API key; \<open>now\<close> and \<open>done\<close> are the clock before and
  after, \<open>secs\<close> what the probe took.\<close>

definition live_state ::
  "env \<Rightarrow> (pyval \<Rightarrow> string) \<Rightarrow> wire \<Rightarrow> string \<Rightarrow> string \<Rightarrow> string \<Rightarrow> bool \<Rightarrow> rat \<Rightarrow> rat \<Rightarrow> rat
     \<Rightarrow> probes \<Rightarrow> probe_state \<times> probes" where
  "live_state e rep W url tag model fresh now secs done_at P =
     (let k = (no_slash url, model, tag) in
      if \<not> fresh \<and> (case ok_at P k of None \<Rightarrow> False | Some t \<Rightarrow> now - t < cache_s e) then ((OK, 200), P)
      else (let (st, P1) = completion_probe rep W url model True secs P
            in (st, P1\<lparr>ok_at := (ok_at P1)(k := (if fst st = OK then Some done_at else None))\<rparr>)))"

section \<open>Facts\<close>

lemma base_s_pos: "0 < base_s e"
  by (simp add: base_s_def Let_def less_max_iff_disj split: option.splits)

lemma live_timeout_bounds: "base_s e \<le> live_timeout_s e P url model \<and> live_timeout_s e P url model \<le> 6 * base_s e"
  using base_s_pos [of e] by (simp add: live_timeout_s_def split: option.splits list.splits)

end
