(* ===== verification/Model_Wait.thy ===== *)
theory Model_Wait
  imports Request_Health Model_Probe Waiting
begin

text \<open>
  Waiting for a model that is down, from \<^verbatim>\<open>aiforge_core/llm/model_wait.py\<close>,
  \<^verbatim>\<open>_wait_scope.py\<close> and \<^verbatim>\<open>_crash_watch.py\<close>: the waiter of one call, the judgement that
  counts a failure against the request only on clear evidence, the crash watch, the loop of
  probes, and \<^verbatim>\<open>call_with_wait\<close> around the sends of a request.

  What a wait meets outside its state comes as records: \<open>glance\<close> is one slice of a sleep,
  \<open>cycle\<close> one probe of the loop, \<open>episode\<close> one failed call, \<open>attempt\<close> one send. The texts of the
  status lines are output; which line is said when is kept in \<open>log\<close>.
\<close>

section \<open>Settings\<close>

definition schedule :: "rat list" where "schedule = [2, 5, 10, 30]"
definition slice_s :: rat where "slice_s = 1 / 4"

definition wait_max_s :: "env \<Rightarrow> rat" where
  "wait_max_s e = env_float e ''AIFORGE_LLM_WAIT_MAX_S'' 0"

definition probe_max_s :: "env \<Rightarrow> rat" where
  "probe_max_s e = max 1 (env_float e ''AIFORGE_LLM_WAIT_PROBE_MAX_S'' 30)"

definition status_every_s :: "env \<Rightarrow> rat" where
  "status_every_s e = max 30 (env_float e ''AIFORGE_LLM_WAIT_STATUS_S'' 300)"

text \<open>The \<open>k\<close>-th value the generator \<^verbatim>\<open>delays(cap)\<close> yields.\<close>

definition delays :: "rat \<Rightarrow> nat \<Rightarrow> rat" where
  "delays cap k = (let ds = takeWhile (\<lambda>d. d < cap) schedule in if k < length ds then ds ! k else cap)"

section \<open>Cancelling\<close>

record sources =
  shutting_down :: bool
  scopes :: "(bool \<times> string) list"
  client_token :: bool
  stop_requested :: bool

definition cancel_reason :: "sources \<Rightarrow> string option" where
  "cancel_reason c =
     (if shutting_down c then Some ''shutting down''
      else (case find fst (scopes c) of
              Some s \<Rightarrow> Some (snd s)
            | None \<Rightarrow> if client_token c then Some ''stopped''
                      else if stop_requested c then Some ''stopped'' else None))"

text \<open>\<^verbatim>\<open>why = cancel_reason(); if why:\<close> an empty reason does not cancel.\<close>

definition why_now :: "sources \<Rightarrow> string option" where
  "why_now c = (case cancel_reason c of None \<Rightarrow> None | Some w \<Rightarrow> if w = [] then None else Some w)"

record glance =
  g_src :: sources
  g_switch :: bool
  g_late :: rat

datatype nap_end = Slept | Cut string | Switch_seen

text \<open>\<^verbatim>\<open>_sleep_cancellable\<close>: a slice lasts what was asked and \<open>g_late\<close> more.\<close>

function sleep_slices :: "(nat \<Rightarrow> glance) \<Rightarrow> nat \<Rightarrow> rat \<Rightarrow> nap_end" where
  "sleep_slices p j left =
     (case why_now (g_src (p j)) of
        Some why \<Rightarrow> Cut why
      | None \<Rightarrow>
          if left \<le> 0 then Slept
          else if g_switch (p j) then Switch_seen
          else sleep_slices p (Suc j) (left - (min slice_s left + max 0 (g_late (p j)))))"
  by pat_completeness auto
termination
proof (relation "measure (\<lambda>(p, j, left). ticks 3 left)")
  fix p :: "nat \<Rightarrow> glance" and j :: nat and left :: rat
  assume "\<not> left \<le> 0"
  let ?d = "min slice_s left + max 0 (g_late (p j))"
  have "ticks 3 (left - ?d) < ticks 3 left"
  proof (cases "1 / 4 \<le> left")
    case True
    then have "1 / of_nat (Suc 3) \<le> ?d" by (simp add: slice_s_def)
    then show ?thesis using ticks_step \<open>\<not> left \<le> 0\<close> by simp
  next
    case False
    then have "left - ?d \<le> 0" by (simp add: slice_s_def)
    then show ?thesis using ticks_pos [of left 3] \<open>\<not> left \<le> 0\<close> ticks_mono [of "left - ?d" 0 3]
      by (simp add: ticks_def)
  qed
  then show "((p, Suc j, left - ?d), p, j, left) \<in> measure (\<lambda>(p, j, left). ticks 3 left)" by simp
qed simp

declare sleep_slices.simps [simp del]

section \<open>The waiter\<close>

datatype line = Waiting_line | Back_line | Gave_up_line | Cancelled_line | Crashing_line | Resend_line

datatype event = Said line rat | On_wait | On_back

record waiter =
  w_url :: string
  w_model :: string
  started :: "rat option"
  waited :: rat
  n_probes :: int
  gaps :: nat
  cur_gap :: rat
  last_emit :: rat
  last_gap :: rat
  switch_hit :: bool
  log :: "event list"

definition new_waiter :: "string \<Rightarrow> string \<Rightarrow> waiter" where
  "new_waiter url model =
     \<lparr>w_url = url, w_model = model, started = None, waited = 0, n_probes = 0, gaps = 0, cur_gap = 0,
      last_emit = 0, last_gap = - 1, switch_hit = False, log = []\<rparr>"

record wait_st =
  wt :: waiter
  hl :: health
  bks :: breakers
  eps :: endpoints

text \<open>How a wait, or the judgement before it, ends: the failure was counted against the request
  or the model is back (or another one was picked), the exception itself is raised again (marked as
  waited out or not), the wait is cancelled, or the request is found failing (its crashes or
  refusals or not).\<close>

datatype issue_cause = Same_request | Bad_config int | Crashes_server

datatype wait_end =
    Re_send bool
  | Re_raised bool
  | Wait_stopped string
  | Request_fails int issue_cause

definition emit :: "env \<Rightarrow> rat \<Rightarrow> line \<Rightarrow> rat \<Rightarrow> bool \<Rightarrow> waiter \<Rightarrow> waiter" where
  "emit e now st next_s force w =
     (if st = Waiting_line \<and> \<not> force
         \<and> \<not> (next_s \<noteq> last_gap w \<or> status_every_s e \<le> now - last_emit w)
      then w
      else w\<lparr>last_emit := now, last_gap := next_s, log := log w @ [Said st next_s]\<rparr>)"

definition model_is_missing :: "string list option \<Rightarrow> string \<Rightarrow> string list option" where
  "model_is_missing served model =
     (case served of
        None \<Rightarrow> None
      | Some ids \<Rightarrow> if model = [] then None else if model \<in> set ids then None else Some ids)"

text \<open>\<^verbatim>\<open>bool(missing)\<close>: an empty list of served models is false.\<close>

definition id_is_wrong :: "heap \<Rightarrow> nat \<Rightarrow> string list option \<Rightarrow> waiter \<Rightarrow> bool" where
  "id_is_wrong H x served w \<longleftrightarrow>
     w_model w \<noteq> [] \<and> w_url w \<noteq> [] \<and> names_loading H (Some x) \<and>
     (case model_is_missing served (w_model w) of None \<Rightarrow> False | Some ids \<Rightarrow> ids \<noteq> [])"

definition waitable :: "env \<Rightarrow> bool \<Rightarrow> heap \<Rightarrow> nat \<Rightarrow> string list option \<Rightarrow> waiter \<Rightarrow> bool" where
  "waitable e optional H x served w =
     (let b = wait_max_s e in
      if optional \<or> b < 0 then False
      else if 0 < b \<and> b < delays (probe_max_s e) 0 then False
      else if classify H (Some x) \<noteq> Outage then False
      else \<not> id_is_wrong H x served w)"

text \<open>\<^verbatim>\<open>_next_gap\<close>.\<close>

definition next_gap :: "env \<Rightarrow> rat \<Rightarrow> sources \<Rightarrow> waiter \<Rightarrow> (wait_end + rat) \<times> waiter" where
  "next_gap e now src w0 =
     (let w = (if started w0 = None then w0\<lparr>started := Some now\<rparr> else w0) in
      case why_now src of
        Some why \<Rightarrow> (Inl (Wait_stopped why), emit e now Cancelled_line 0 True w)
      | None \<Rightarrow>
          (let gap = delays (probe_max_s e) (gaps w); w1 = w\<lparr>gaps := Suc (gaps w)\<rparr>; b = wait_max_s e
           in if 0 < b \<and> b < waited w1 + gap
              then (Inl (Re_raised True), emit e now Gave_up_line 0 True w1)
              else (Inr gap, emit e now Waiting_line gap False (w1\<lparr>cur_gap := gap\<rparr>))))"

definition after_probe :: "(string \<Rightarrow> bool) \<Rightarrow> bool \<Rightarrow> wait_st \<Rightarrow> wait_st" where
  "after_probe vet up s =
     s\<lparr>wt := (wt s)\<lparr>n_probes := n_probes (wt s) + 1\<rparr>,
       bks := (if up then record_success vet (w_url (wt s)) (bks s) else bks s)\<rparr>"

definition recovered :: "env \<Rightarrow> rat \<Rightarrow> wait_st \<Rightarrow> wait_st" where
  "recovered e now s =
     (let w = wt s; w1 = (if started w = None then w else emit e now Back_line 0 True w) in
      s\<lparr>wt := w1\<lparr>started := None, waited := 0, gaps := 0, last_gap := - 1\<rparr>,
        eps := (if crashes_tracked (eps s) then note_answer now (w_url w) (eps s) else eps s)\<rparr>)"

section \<open>The judgement\<close>

text \<open>The failure being judged: the heap and the address of the exception, the clock when it is
  judged, the state of the tiny completion (by whether a fresh one is asked for), and the clock
  when a crash is counted.\<close>

record episode =
  e_heap :: heap
  e_exn :: nat
  e_optional :: bool
  e_served :: "string list option"
  e_failed_at :: rat
  e_live :: "bool \<Rightarrow> probe_state"
  e_crash_at :: rat
  e_naps :: "nat \<Rightarrow> glance"

text \<open>\<^verbatim>\<open>_crash_watch.judge\<close>.\<close>

definition crash_judge :: "env \<Rightarrow> episode \<Rightarrow> rat option \<Rightarrow> wait_st \<Rightarrow> wait_end option \<times> wait_st" where
  "crash_judge e E sent s =
     (let h = hl s in
      if sent = None \<or> crash_window_s e < e_failed_at E - the sent \<or> \<not> crash_evidence (e_heap E) (Some (e_exn E))
      then (None, s\<lparr>hl := h\<lparr>crashes := 0\<rparr>\<rparr>)
      else
        (let a = last_answer (w_url (wt s)) (eps s);
             since = (case (a, crash_at h) of (Some t, Some c) \<Rightarrow> c < t | _ \<Rightarrow> False);
             n = (if since then 0 else crashes h) + 1;
             s1 = s\<lparr>hl := h\<lparr>crashes := n, crash_at := Some (e_crash_at E)\<rparr>,
                    eps := track_crashes (w_url (wt s)) True (eps s)\<rparr>;
             stop_at = crash_resends e
         in if stop_at = 0 \<or> n < stop_at
            then (None, if n = crash_warn_after e
                        then s1\<lparr>wt := emit e (e_crash_at E) Crashing_line 0 True (wt s1)\<rparr> else s1)
            else (Some (Request_fails n Crashes_server), s1)))"

text \<open>The tiny completion was refused with the client error the request had.\<close>

definition config_refusal :: "episode \<Rightarrow> bool \<Rightarrow> bool" where
  "config_refusal E fresh \<longleftrightarrow> fst (e_live E fresh) = Inconclusive \<and>
     same_client_error (snd (e_live E fresh)) (map status_of (chain (e_heap E) (Some (e_exn E))))"

text \<open>When the request went out, as far as the crash window is concerned.\<close>

definition sent_of :: "health \<Rightarrow> rat option" where
  "sent_of h = (case (up_at h, sent_at h) of (Some r, Some t) \<Rightarrow> if r \<le> t then Some t else up_at h | _ \<Rightarrow> up_at h)"

text \<open>The model did not answer.\<close>

definition judge_down :: "env \<Rightarrow> episode \<Rightarrow> bool \<Rightarrow> rat option \<Rightarrow> wait_st \<Rightarrow> (wait_end + bool) \<times> wait_st" where
  "judge_down e E fresh sent s =
     (if fst (e_live E fresh) = Refused \<and> fresh
      then (let rs = crash_judge e E sent s
            in (case fst rs of None \<Rightarrow> Inr False | Some f \<Rightarrow> Inl f, snd rs))
      else (Inr False, s\<lparr>hl := (hl s)\<lparr>crashes := 0\<rparr>\<rparr>))"

text \<open>The model answered: the failure is counted.\<close>

definition count_failure :: "bool \<Rightarrow> health \<Rightarrow> health" where
  "count_failure stall h0 =
     (let h = h0\<lparr>crashes := 0\<rparr>
      in if stall then h\<lparr>stalls_counted := stalls_counted h + 1\<rparr> else h\<lparr>fails := fails h + 1\<rparr>)"

definition judge_up :: "env \<Rightarrow> episode \<Rightarrow> bool \<Rightarrow> bool \<Rightarrow> wait_st \<Rightarrow> (wait_end + bool) \<times> wait_st" where
  "judge_up e E fresh stall s0 =
     (let s = s0\<lparr>hl := count_failure stall (hl s0)\<rparr>; n = counted (hl s)
      in if same_request_fails e \<le> n
         then (Inl (Request_fails n (if config_refusal E fresh then Bad_config (snd (e_live E fresh))
                                     else Same_request)), s)
         else (Inr True, s))"

text \<open>\<^verbatim>\<open>_judge\<close>: \<open>Inr True\<close> when the failure was counted.\<close>

definition judge :: "env \<Rightarrow> (string \<Rightarrow> bool) \<Rightarrow> episode \<Rightarrow> wait_st \<Rightarrow> (wait_end + bool) \<times> wait_st" where
  "judge e vet E s =
     (let H = e_heap E; x = Some (e_exn E);
          fresh = (up_at (hl s) \<noteq> None);
          sent = sent_of (hl s);
          h = (hl s)\<lparr>up_at := None\<rparr>
      in if explicit_busy H x \<or> \<not> request_bound H x
         then (Inr False, s\<lparr>hl := h\<lparr>crashes := 0\<rparr>\<rparr>)
         else
           (let stall = (is_stall H x \<and> stalls_seen h < stalls h);
                h1 = (if stall then h\<lparr>stalls_seen := stalls h\<rparr> else h);
                up = (fst (e_live E fresh) = OK \<or> config_refusal E fresh);
                s1 = after_probe vet up (s\<lparr>hl := h1\<rparr>)
            in if up then judge_up e E fresh stall s1 else judge_down e E fresh sent s1))"

definition resend_gap :: "env \<Rightarrow> episode \<Rightarrow> wait_st \<Rightarrow> rat \<times> wait_st" where
  "resend_gap e E s =
     ((if is_stall (e_heap E) (Some (e_exn E)) then 0
       else min (probe_max_s e) (delays (probe_max_s e) 0 * of_int (max 1 (fails (hl s))))),
      s\<lparr>wt := emit e (e_failed_at E) Resend_line 0 True (wt s)\<rparr>)"

section \<open>The wait\<close>

text \<open>One probe of the loop: the clock and the cancel sources when the gap is taken, the slices
  of its sleep, whether another model was picked by its end, whether the model answered, and the
  clock after that.\<close>

record cycle =
  c_now :: rat
  c_src :: sources
  c_naps :: "nat \<Rightarrow> glance"
  c_switched :: bool
  c_up :: bool
  c_done :: rat

definition wait_body ::
  "env \<Rightarrow> (string \<Rightarrow> bool) \<Rightarrow> (nat \<Rightarrow> cycle) \<Rightarrow> nat \<Rightarrow> wait_st \<Rightarrow> rat \<Rightarrow> (wait_end \<times> wait_st) + wait_st \<times> rat" where
  "wait_body e vet world i s w =
     (let C = world i in
      case next_gap e (c_now C) (c_src C) (wt s) of
        (Inl r, w1) \<Rightarrow> Inl (r, s\<lparr>wt := w1\<rparr>)
      | (Inr gap, w1) \<Rightarrow>
          (case sleep_slices (c_naps C) 0 gap of
             Cut why \<Rightarrow> Inl (Wait_stopped why, s\<lparr>wt := emit e (c_now C) Cancelled_line 0 True w1\<rparr>)
           | nap \<Rightarrow>
               (let w2 = w1\<lparr>waited := waited w1 + gap\<rparr> in
                if switch_hit w2 \<or> nap = Switch_seen \<or> c_switched C
                then Inl (Re_send False, s\<lparr>wt := w2\<lparr>switch_hit := False\<rparr>\<rparr>)
                else (let s2 = after_probe vet (c_up C) (s\<lparr>wt := w2\<rparr>) in
                      if c_up C then Inl (Re_send False, s2\<lparr>hl := (hl s2)\<lparr>up_at := Some (c_done C)\<rparr>\<rparr>)
                      else Inr (s2, gap)))))"

definition said :: "event \<Rightarrow> wait_st \<Rightarrow> wait_st" where
  "said ev s = s\<lparr>wt := (wt s)\<lparr>log := log (wt s) @ [ev]\<rparr>\<rparr>"

text \<open>\<^verbatim>\<open>wait(exc)\<close>: \<open>None\<close> when the fuel did not reach the end of the loop of probes.\<close>

definition wait ::
  "env \<Rightarrow> (string \<Rightarrow> bool) \<Rightarrow> nat \<Rightarrow> episode \<Rightarrow> (nat \<Rightarrow> cycle) \<Rightarrow> wait_st \<Rightarrow> (wait_end \<times> wait_st) option" where
  "wait e vet fuel E world s =
     (if \<not> waitable e (e_optional E) (e_heap E) (e_exn E) (e_served E) (wt s)
      then Some (Re_raised False, s)
      else (case judge e vet E s of
              (Inl r, s1) \<Rightarrow> Some (r, s1)
            | (Inr True, s1) \<Rightarrow>
                (let (gap, s2) = resend_gap e E s1 in
                 case sleep_slices (e_naps E) 0 gap of
                   Cut why \<Rightarrow> Some (Wait_stopped why,
                                s2\<lparr>wt := emit e (e_failed_at E) Cancelled_line 0 True (wt s2)\<rparr>)
                 | nap \<Rightarrow> Some (Re_send True, s2\<lparr>wt := (wt s2)\<lparr>switch_hit := switch_hit (wt s2) \<or> nap = Switch_seen\<rparr>\<rparr>))
            | (Inr False, s1) \<Rightarrow>
                map_option (\<lambda>r. (fst r, said On_back (snd r)))
                  (wait_run (wait_body e vet world) fuel 0 (said On_wait s1) 0)))"

text \<open>\<^verbatim>\<open>await_wait\<close>: the event loop's form knows no switch of the model and has no hooks.\<close>

definition no_switch :: "(nat \<Rightarrow> glance) \<Rightarrow> nat \<Rightarrow> glance" where
  "no_switch p j = (p j)\<lparr>g_switch := False\<rparr>"

definition await_body ::
  "env \<Rightarrow> (string \<Rightarrow> bool) \<Rightarrow> (nat \<Rightarrow> cycle) \<Rightarrow> nat \<Rightarrow> wait_st \<Rightarrow> rat \<Rightarrow> (wait_end \<times> wait_st) + wait_st \<times> rat" where
  "await_body e vet world i s w =
     (let C = world i in
      case next_gap e (c_now C) (c_src C) (wt s) of
        (Inl r, w1) \<Rightarrow> Inl (r, s\<lparr>wt := w1\<rparr>)
      | (Inr gap, w1) \<Rightarrow>
          (case sleep_slices (no_switch (c_naps C)) 0 gap of
             Cut why \<Rightarrow> Inl (Wait_stopped why, s\<lparr>wt := emit e (c_now C) Cancelled_line 0 True w1\<rparr>)
           | _ \<Rightarrow>
               (let s2 = after_probe vet (c_up C) (s\<lparr>wt := w1\<lparr>waited := waited w1 + gap\<rparr>\<rparr>) in
                if c_up C then Inl (Re_send False, s2\<lparr>hl := (hl s2)\<lparr>up_at := Some (c_done C)\<rparr>\<rparr>)
                else Inr (s2, gap))))"

definition await_wait ::
  "env \<Rightarrow> (string \<Rightarrow> bool) \<Rightarrow> nat \<Rightarrow> episode \<Rightarrow> (nat \<Rightarrow> cycle) \<Rightarrow> wait_st \<Rightarrow> (wait_end \<times> wait_st) option" where
  "await_wait e vet fuel E world s =
     (if \<not> waitable e (e_optional E) (e_heap E) (e_exn E) (e_served E) (wt s)
      then Some (Re_raised False, s)
      else (case judge e vet E s of
              (Inl r, s1) \<Rightarrow> Some (r, s1)
            | (Inr True, s1) \<Rightarrow>
                (let (gap, s2) = resend_gap e E s1 in
                 case sleep_slices (no_switch (e_naps E)) 0 gap of
                   Cut why \<Rightarrow> Some (Wait_stopped why,
                                s2\<lparr>wt := emit e (e_failed_at E) Cancelled_line 0 True (wt s2)\<rparr>)
                 | _ \<Rightarrow> Some (Re_send True, s2))
            | (Inr False, s1) \<Rightarrow> wait_run (await_body e vet world) fuel 0 s1 0))"

section \<open>A request that is sent until it is answered\<close>

text \<open>One send: when it went out, the stalls the stream watch noted meanwhile, the answer or the
  failure, the probes a wait after it would meet, the address of the endpoint asked for after a
  failure, the step counter after the call, and the clock after an answer.\<close>

record 'v attempt =
  a_sent :: rat
  a_stalls :: "rat list"
  a_out :: "'v + episode"
  a_cycles :: "nat \<Rightarrow> cycle"
  a_endpoint :: "(string \<times> string) option"
  a_count :: int
  a_end :: rat

record call_st =
  k_waiter :: "waiter option"
  k_url :: string
  k_model :: string
  k_health :: health
  k_bks :: breakers
  k_eps :: endpoints
  k_spent :: int
  k_counter :: "int option"

definition new_call :: "string \<Rightarrow> string \<Rightarrow> breakers \<Rightarrow> endpoints \<Rightarrow> int option \<Rightarrow> call_st" where
  "new_call url model bs E counter =
     \<lparr>k_waiter = None, k_url = url, k_model = model, k_health = new_health, k_bks = bs, k_eps = E,
      k_spent = (case counter of None \<Rightarrow> 0 | Some n \<Rightarrow> n), k_counter = counter\<rparr>"

text \<open>What the send itself did to the health record and the step counter.\<close>

definition during_send :: "'v attempt \<Rightarrow> call_st \<Rightarrow> call_st" where
  "during_send A k =
     (let h = (k_health k)\<lparr>sent_at := Some (a_sent A)\<rparr>;
          h1 = foldl (\<lambda>h s. h\<lparr>stalls := stalls h + 1, stall_s := stall_s h + max 0 s\<rparr>) h (a_stalls A)
      in k\<lparr>k_health := h1, k_counter := map_option (\<lambda>_. a_count A) (k_counter k)\<rparr>)"

definition waiter_for :: "'v attempt \<Rightarrow> call_st \<Rightarrow> call_st \<times> waiter" where
  "waiter_for A k =
     (let k1 = (case a_endpoint A of None \<Rightarrow> k | Some um \<Rightarrow> k\<lparr>k_url := fst um, k_model := snd um\<rparr>)
      in (k1, case k_waiter k1 of
                None \<Rightarrow> new_waiter (k_url k1) (k_model k1)
              | Some w \<Rightarrow> if (w_url w, w_model w) = (k_url k1, k_model k1) then w
                          else new_waiter (k_url k1) (k_model k1)))"

definition settle :: "wait_end \<Rightarrow> wait_st \<Rightarrow> call_st \<Rightarrow> call_st" where
  "settle r s k =
     (let k1 = k\<lparr>k_waiter := Some (wt s), k_health := hl s, k_bks := bks s, k_eps := eps s\<rparr> in
      case r of
        Re_send True \<Rightarrow> k1\<lparr>k_spent := (case k_counter k of None \<Rightarrow> 0 | Some n \<Rightarrow> n)\<rparr>
      | Re_send False \<Rightarrow> k1\<lparr>k_counter := map_option (\<lambda>_. k_spent k) (k_counter k)\<rparr>
      | _ \<Rightarrow> k1)"

text \<open>The end of a call that was answered: the waiter is told, and the crash count of the endpoint
  starts again.\<close>

definition answered_call :: "env \<Rightarrow> 'v attempt \<Rightarrow> call_st \<Rightarrow> call_st" where
  "answered_call e A k =
     (case k_waiter k of
        Some w \<Rightarrow>
          (let s = recovered e (a_end A) \<lparr>wt = w, hl = k_health k, bks = k_bks k, eps = k_eps k\<rparr>
           in k\<lparr>k_waiter := Some (wt s),
                k_eps := (if crashes_tracked (eps s) then note_answer (a_end A) (w_url w) (eps s) else eps s)\<rparr>)
      | None \<Rightarrow>
          (let url = (if k_url k \<noteq> [] then k_url k
                      else (case a_endpoint A of None \<Rightarrow> [] | Some um \<Rightarrow> fst um))
           in k\<lparr>k_eps := (if crashes_tracked (k_eps k) then note_answer (a_end A) url (k_eps k) else k_eps k)\<rparr>))"

text \<open>\<^verbatim>\<open>call_with_wait\<close>: \<open>Inl\<close> the answer, \<open>Inr\<close> how it failed for good. The fuel bounds the
  sends; \<open>inner\<close> bounds the probes of each wait.\<close>

fun call_loop ::
  "env \<Rightarrow> (string \<Rightarrow> bool) \<Rightarrow> nat \<Rightarrow> (nat \<Rightarrow> 'v attempt) \<Rightarrow> nat \<Rightarrow> nat \<Rightarrow> call_st
     \<Rightarrow> (('v + wait_end) \<times> nat \<times> call_st) option" where
  "call_loop e vet inner world 0 i k = None"
| "call_loop e vet inner world (Suc f) i k =
     (let A = world i; k1 = during_send A k in
      case a_out A of
        Inl v \<Rightarrow> Some (Inl v, i, answered_call e A k1)
      | Inr E \<Rightarrow>
          (let (k2, w) = waiter_for A k1 in
           case wait e vet inner E (a_cycles A) \<lparr>wt = w, hl = k_health k2, bks = k_bks k2, eps = k_eps k2\<rparr> of
             None \<Rightarrow> None
           | Some (r, s) \<Rightarrow>
               (case r of
                  Re_send b \<Rightarrow> call_loop e vet inner world f (Suc i) (settle r s k2)
                | _ \<Rightarrow> Some (Inr r, i, settle r s k2))))"

section \<open>How a wait ends\<close>

lemma takeWhile_schedule: "0 < cap \<Longrightarrow> 0 < delays cap k"
  by (auto simp: delays_def schedule_def nth_Cons split: nat.splits)

lemma delays_ge: "1 \<le> cap \<Longrightarrow> 1 \<le> delays cap k"
  by (auto simp: delays_def schedule_def nth_Cons split: nat.splits)

lemma probe_max_ge: "1 \<le> probe_max_s e"
  by (simp add: probe_max_s_def)

lemma why_now_text: "why_now c = Some why \<Longrightarrow> why \<noteq> []"
  by (auto simp: why_now_def split: option.splits if_splits)

lemma sleep_cut: "sleep_slices p j left = Cut why \<Longrightarrow> why \<noteq> []"
  by (induction p j left rule: sleep_slices.induct)
    (subst (asm) (2) sleep_slices.simps, auto dest: why_now_text split: option.splits if_splits)

lemma sleep_switch: "sleep_slices p j left = Switch_seen \<Longrightarrow> \<exists>k. g_switch (p k)"
  by (induction p j left rule: sleep_slices.induct)
    (subst (asm) (2) sleep_slices.simps, auto split: option.splits if_splits)

lemma emit_fields [simp]:
  "waited (emit e now st g b w) = waited w" "gaps (emit e now st g b w) = gaps w"
  "w_url (emit e now st g b w) = w_url w" "w_model (emit e now st g b w) = w_model w"
  "switch_hit (emit e now st g b w) = switch_hit w"
  by (simp_all add: emit_def)

lemma begun_fields [simp]:
  "waited (if b then w\<lparr>started := x\<rparr> else w) = waited w"
  "gaps (if b then w\<lparr>started := x\<rparr> else w) = gaps w"
  by simp_all

lemma next_gap_cases:
  obtains (cut) why w1 where "next_gap e now src w = (Inl (Wait_stopped why), w1)" "why \<noteq> []" "waited w1 = waited w"
  | (spent) w1 where "next_gap e now src w = (Inl (Re_raised True), w1)" "waited w1 = waited w"
      "0 < wait_max_s e"
  | (gap) g w1 where "next_gap e now src w = (Inr g, w1)" "waited w1 = waited w" "1 \<le> g"
      "switch_hit w1 = switch_hit w" "0 < wait_max_s e \<Longrightarrow> waited w + g \<le> wait_max_s e"
proof (cases "why_now src")
  case (Some why)
  then show thesis using cut why_now_text [OF Some] by (simp add: next_gap_def Let_def)
next
  case None
  let ?g = "delays (probe_max_s e) (gaps w)"
  have g: "1 \<le> ?g" by (rule delays_ge [OF probe_max_ge])
  show thesis
  proof (cases "0 < wait_max_s e \<and> wait_max_s e < waited w + ?g")
    case True
    then show thesis using None spent by (simp add: next_gap_def Let_def)
  next
    case False
    then have "0 < wait_max_s e \<Longrightarrow> waited w + ?g \<le> wait_max_s e" by auto
    with False None g gap [of ?g] show thesis by (simp add: next_gap_def Let_def)
  qed
qed

text \<open>Another model was picked: before the wait, or by the end of probe \<open>i\<close>.\<close>

definition picked :: "(nat \<Rightarrow> cycle) \<Rightarrow> waiter \<Rightarrow> nat \<Rightarrow> bool" where
  "picked world w i \<longleftrightarrow> switch_hit w \<or> c_switched (world i) \<or> (\<exists>j. g_switch (c_naps (world i) j))"

text \<open>One probe of the loop, in the terms the properties need.\<close>

lemma wait_body_cases:
  obtains (ends) s' where "wait_body e vet world i s w = Inl (Re_send False, s')"
      "0 < wait_max_s e \<Longrightarrow> waited (wt s') \<le> wait_max_s e" "counted (hl s') = counted (hl s)"
      "c_up (world i) \<or> picked world (wt s) i"
  | (cut) why s' where "wait_body e vet world i s w = Inl (Wait_stopped why, s')" "why \<noteq> []"
      "waited (wt s') = waited (wt s)" "hl s' = hl s"
  | (spent) s' where "wait_body e vet world i s w = Inl (Re_raised True, s')" "0 < wait_max_s e"
      "waited (wt s') = waited (wt s)" "hl s' = hl s"
  | (again) s' g where "wait_body e vet world i s w = Inr (s', g)" "1 \<le> g" "\<not> c_up (world i)"
      "waited (wt s') = waited (wt s) + g" "0 < wait_max_s e \<Longrightarrow> waited (wt s') \<le> wait_max_s e"
      "hl s' = hl s" "switch_hit (wt s') = switch_hit (wt s)"
proof (cases e "c_now (world i)" "c_src (world i)" "wt s" rule: next_gap_cases)
  case (cut why w1)
  then show thesis using that(2) by (simp add: wait_body_def Let_def)
next
  case (spent w1)
  then show thesis using that(3) by (simp add: wait_body_def Let_def)
next
  case (gap g w1)
  show thesis
  proof (cases "sleep_slices (c_naps (world i)) 0 g")
    case (Cut why)
    then show thesis using gap that(2) sleep_cut [OF Cut] by (simp add: wait_body_def Let_def)
  next
    case Slept
    then show thesis using gap that(1,4)
      by (cases "switch_hit w1 \<or> c_switched (world i)"; cases "c_up (world i)")
        (auto simp: wait_body_def Let_def after_probe_def counted_def picked_def)
  next
    case Switch_seen
    then show thesis using gap that(1) sleep_switch [OF Switch_seen]
      by (simp add: wait_body_def Let_def counted_def picked_def)
  qed
qed

text \<open>What ends the wait: the first probe that was answered, or another model picked.\<close>

definition over_at :: "(nat \<Rightarrow> cycle) \<Rightarrow> waiter \<Rightarrow> nat \<Rightarrow> bool" where
  "over_at world w j \<longleftrightarrow> (\<forall>k < j. \<not> c_up (world k)) \<and> (c_up (world j) \<or> picked world w j)"

lemma picked_cong: "switch_hit w = switch_hit w' \<Longrightarrow> picked world w i = picked world w' i"
  by (simp add: picked_def)

interpretation till_up: patient "wait_body e vet world"
    "\<lambda>i s w. i \<le> n \<and> c_up (world n) \<and> (\<forall>k < i. \<not> c_up (world k)) \<and> switch_hit (wt s) = switch_hit w0"
    "\<lambda>r. fst r = Re_send False \<longrightarrow> (\<exists>j \<le> n. over_at world w0 j)"
    "\<lambda>i s w. Suc n - i" for e vet world n w0
proof unfold_locales
  fix i s w r
  assume a: "i \<le> n \<and> c_up (world n) \<and> (\<forall>k < i. \<not> c_up (world k)) \<and> switch_hit (wt s) = switch_hit w0"
    and "wait_body e vet world i s w = Inl r"
  then have "fst r = Re_send False \<longrightarrow> c_up (world i) \<or> picked world (wt s) i"
    by (cases rule: wait_body_cases [of e vet world i s w]) auto
  then show "fst r = Re_send False \<longrightarrow> (\<exists>j \<le> n. over_at world w0 j)"
    using a picked_cong [of "wt s" w0 world i] by (auto simp: over_at_def)
next
  fix i s w s' d
  assume "i \<le> n \<and> c_up (world n) \<and> (\<forall>k < i. \<not> c_up (world k)) \<and> switch_hit (wt s) = switch_hit w0"
    "wait_body e vet world i s w = Inr (s', d)"
  then have "i < n \<and> c_up (world n) \<and> (\<forall>k < Suc i. \<not> c_up (world k)) \<and> switch_hit (wt s') = switch_hit w0"
    by (cases rule: wait_body_cases [of e vet world i s w]) (auto simp: le_less less_Suc_eq)
  then show "Suc i \<le> n \<and> c_up (world n) \<and> (\<forall>k < Suc i. \<not> c_up (world k)) \<and> switch_hit (wt s') = switch_hit w0"
    "Suc n - Suc i < Suc n - i" by auto
qed

interpretation until_bound: patient "wait_body e vet world"
    "\<lambda>i s w. 0 < wait_max_s e \<and> waited (wt s) \<le> wait_max_s e"
    "\<lambda>r. waited (wt (snd r)) \<le> wait_max_s e"
    "\<lambda>i s w. ticks 0 (wait_max_s e - waited (wt s))" for e vet world
proof unfold_locales
  fix i s w r
  assume "0 < wait_max_s e \<and> waited (wt s) \<le> wait_max_s e" "wait_body e vet world i s w = Inl r"
  then show "waited (wt (snd r)) \<le> wait_max_s e"
    by (cases rule: wait_body_cases [of e vet world i s w]) auto
next
  fix i s w s' d
  assume a: "0 < wait_max_s e \<and> waited (wt s) \<le> wait_max_s e" "wait_body e vet world i s w = Inr (s', d)"
  then have "1 \<le> d \<and> waited (wt s') = waited (wt s) + d \<and> waited (wt s') \<le> wait_max_s e"
    by (cases rule: wait_body_cases [of e vet world i s w]) auto
  then show "0 < wait_max_s e \<and> waited (wt s') \<le> wait_max_s e"
    "ticks 0 (wait_max_s e - waited (wt s')) < ticks 0 (wait_max_s e - waited (wt s))"
    using a(1) ticks_step [of 0 d "wait_max_s e - waited (wt s)"] by (auto simp: diff_diff_eq)
qed

interpretation unbounded: honest "wait_body e vet world" "\<lambda>i s w. wait_max_s e = 0"
    "\<lambda>r. fst r = Re_send False \<or> (\<exists>why. fst r = Wait_stopped why \<and> why \<noteq> [])" for e vet world
proof unfold_locales
  fix i s w r
  assume "wait_max_s e = 0" "wait_body e vet world i s w = Inl r"
  then show "fst r = Re_send False \<or> (\<exists>why. fst r = Wait_stopped why \<and> why \<noteq> [])"
    by (cases rule: wait_body_cases [of e vet world i s w]) auto
qed simp

section \<open>What the judgement does\<close>

text \<open>The tiny completion is a clear answer: it succeeded, or it was refused like the request.\<close>

definition clear_answer :: "episode \<Rightarrow> bool" where
  "clear_answer E \<longleftrightarrow> (\<exists>b. fst (e_live E b) = OK \<or> config_refusal E b)"

lemma after_probe_fields [simp]:
  "hl (after_probe vet up s) = hl s" "eps (after_probe vet up s) = eps s"
  "waited (wt (after_probe vet up s)) = waited (wt s)"
  "w_url (wt (after_probe vet up s)) = w_url (wt s)" "w_model (wt (after_probe vet up s)) = w_model (wt s)"
  by (simp_all add: after_probe_def)

lemma crash_judge_counts:
  "crash_judge e E sent s = (r, s') \<Longrightarrow>
    counted (hl s') = counted (hl s) \<and> waited (wt s') = waited (wt s) \<and>
    (\<forall>x. r = Some x \<longrightarrow> crash_resends e \<noteq> 0 \<and> (\<exists>n. x = Request_fails n Crashes_server))"
  by (auto simp: crash_judge_def Let_def counted_def split: if_splits)

lemma judge_down_cases:
  "\<exists>r s'. judge_down e E b sent s = (r, s') \<and> counted (hl s') = counted (hl s) \<and>
    waited (wt s') = waited (wt s) \<and>
    (r = Inr False \<or> crash_resends e \<noteq> 0 \<and> (\<exists>n. r = Inl (Request_fails n Crashes_server)))"
proof (cases "fst (e_live E b) = Refused \<and> b")
  case True
  then show ?thesis using crash_judge_counts [of e E sent s "fst (crash_judge e E sent s)" "snd (crash_judge e E sent s)"]
    by (auto simp: judge_down_def Let_def split: option.splits)
qed (auto simp: judge_down_def counted_def)

lemma emit_hit [simp]: "switch_hit (wt (s\<lparr>wt := emit e now st g b (wt s)\<rparr>)) = switch_hit (wt s)"
  by simp

lemma crash_judge_hit: "switch_hit (wt (snd (crash_judge e E sent s))) = switch_hit (wt s)"
  by (auto simp: crash_judge_def Let_def)

lemma judge_hit: "switch_hit (wt (snd (judge e vet E s))) = switch_hit (wt s)"
  by (simp add: judge_def judge_up_def judge_down_def crash_judge_hit after_probe_def Let_def)

lemma count_failure_counted [simp]: "counted (count_failure stall h) = counted h + 1"
  by (simp add: count_failure_def counted_def Let_def)

lemma judge_cases:
  obtains (waits) s' where "judge e vet E s = (Inr False, s')" "counted (hl s') = counted (hl s)"
      "waited (wt s') = waited (wt s)"
  | (crash) n s' where "judge e vet E s = (Inl (Request_fails n Crashes_server), s')" "crash_resends e \<noteq> 0"
      "counted (hl s') = counted (hl s)" "waited (wt s') = waited (wt s)"
  | (fails) c s' where "judge e vet E s = (Inl (Request_fails (counted (hl s')) c), s')" "clear_answer E"
      "same_request_fails e \<le> counted (hl s')" "counted (hl s') = counted (hl s) + 1"
      "waited (wt s') = waited (wt s)"
  | (counts) s' where "judge e vet E s = (Inr True, s')" "clear_answer E"
      "counted (hl s') < same_request_fails e" "counted (hl s') = counted (hl s) + 1"
      "waited (wt s') = waited (wt s)"
proof -
  let ?x = "Some (e_exn E)" and ?b = "up_at (hl s) \<noteq> None"
  let ?h = "(hl s)\<lparr>up_at := None\<rparr>"
  let ?stall = "is_stall (e_heap E) ?x \<and> stalls_seen ?h < stalls ?h"
  let ?h1 = "if ?stall then ?h\<lparr>stalls_seen := stalls ?h\<rparr> else ?h"
  let ?up = "fst (e_live E ?b) = OK \<or> config_refusal E ?b"
  let ?s1 = "after_probe vet ?up (s\<lparr>hl := ?h1\<rparr>)"
  have c: "counted (hl ?s1) = counted (hl s)" "waited (wt ?s1) = waited (wt s)"
    by (simp_all add: counted_def)
  show thesis
  proof (cases "explicit_busy (e_heap E) ?x \<or> \<not> request_bound (e_heap E) ?x")
    case True
    then show thesis using waits by (simp add: judge_def Let_def counted_def)
  next
    case bound: False
    show thesis
    proof (cases ?up)
      case True
      then have j: "judge e vet E s = judge_up e E ?b ?stall ?s1" and "clear_answer E"
        using bound unfolding judge_def Let_def clear_answer_def by (simp only: if_False if_True, blast)
      then show thesis using fails counts c unfolding j
        by (cases "same_request_fails e \<le> counted (hl s) + 1") (simp_all add: judge_up_def Let_def)
    next
      case False
      then have j: "judge e vet E s = judge_down e E ?b (sent_of (hl s)) ?s1"
        using bound unfolding judge_def Let_def by (simp only: if_False)
      then show thesis using judge_down_cases [of e E ?b "sent_of (hl s)" ?s1] waits crash c unfolding j
        by auto
    qed
  qed
qed

section \<open>Properties of a wait\<close>

lemma resend_fields [simp]:
  "hl (snd (resend_gap e E s)) = hl s" "waited (wt (snd (resend_gap e E s))) = waited (wt s)"
  by (simp_all add: resend_gap_def)

lemma said_fields [simp]:
  "hl (said ev s) = hl s" "waited (wt (said ev s)) = waited (wt s)"
  by (simp_all add: said_def)

lemma wait_judged:
  assumes "waitable e (e_optional E) (e_heap E) (e_exn E) (e_served E) (wt s)"
  shows "judge e vet E s = (Inl r, s1) \<Longrightarrow> wait e vet fuel E world s = Some (r, s1)"
    and "judge e vet E s = (Inr False, s1) \<Longrightarrow> wait e vet fuel E world s =
      map_option (\<lambda>r. (fst r, said On_back (snd r))) (wait_run (wait_body e vet world) fuel 0 (said On_wait s1) 0)"
    and "judge e vet E s = (Inr True, s1) \<Longrightarrow>
      \<exists>r s'. wait e vet fuel E world s = Some (r, s') \<and> hl s' = hl s1 \<and> waited (wt s') = waited (wt s1) \<and>
        (r = Re_send True \<or> (\<exists>why. r = Wait_stopped why \<and> why \<noteq> []))"
proof -
  show "wait e vet fuel E world s = Some (r, s1)" if "judge e vet E s = (Inl r, s1)"
    using assms that by (simp add: wait_def)
  show "wait e vet fuel E world s =
      map_option (\<lambda>r. (fst r, said On_back (snd r))) (wait_run (wait_body e vet world) fuel 0 (said On_wait s1) 0)"
    if "judge e vet E s = (Inr False, s1)"
    using assms that by (simp add: wait_def)
  show "\<exists>r s'. wait e vet fuel E world s = Some (r, s') \<and> hl s' = hl s1 \<and> waited (wt s') = waited (wt s1) \<and>
        (r = Re_send True \<or> (\<exists>why. r = Wait_stopped why \<and> why \<noteq> []))"
    if "judge e vet E s = (Inr True, s1)"
    using assms that sleep_cut [of "e_naps E" 0 "fst (resend_gap e E s1)"] resend_fields [of e E s1]
    by (auto simp: wait_def case_prod_beta simp del: resend_fields split: nap_end.splits)
qed

text \<open>C22. With no bound on waiting, and no limit on the crashes of a server, an outage is waited out:
  the wait returns once the model answers a probe, and not before. It ends with a re-send only
  when a probe was answered for the first time, or another model was picked, or the failure was
  counted against the request on a clear answer of the model; else it was cancelled for a named
  reason, or the request was found failing on a clear answer. The outage itself is never raised.\<close>

theorem outage_waited_out:
  assumes "wait_max_s e = 0" and "waitable e (e_optional E) (e_heap E) (e_exn E) (e_served E) (wt s)"
    and "c_up (world n)" and "n < fuel" and "crash_resends e = 0"
  shows "\<exists>r s'. wait e vet (Suc fuel) E world s = Some (r, s') \<and>
    (r = Re_send False \<and> (\<exists>j \<le> n. over_at world (wt s) j) \<or>
     r = Re_send True \<and> clear_answer E \<or>
     (\<exists>why. r = Wait_stopped why \<and> why \<noteq> []) \<or>
     (\<exists>k c. r = Request_fails k c \<and> clear_answer E))"
proof (cases e vet E s rule: judge_cases)
  case (waits s1)
  have hit: "switch_hit (wt (said On_wait s1)) = switch_hit (wt s)"
    using judge_hit [of e vet E s] waits(1) by (simp add: said_def)
  have "Suc n - 0 < Suc fuel" using assms(4) by simp
  then obtain r where r: "wait_run (wait_body e vet world) (Suc fuel) 0 (said On_wait s1) 0 = Some r"
    and j: "fst r = Re_send False \<longrightarrow> (\<exists>j \<le> n. over_at world (wt s) j)"
    using till_up.returns [where n = n and world = world and i = 0 and ?w0.0 = "wt s"] assms(3) hit by blast
  have "fst r = Re_send False \<or> (\<exists>why. fst r = Wait_stopped why \<and> why \<noteq> [])"
    using unbounded.sound [OF assms(1) r] .
  then show ?thesis using wait_judged(2) [OF assms(2) waits(1)] r j by auto
next
  case (crash k s1)
  then show ?thesis using assms(5) by simp
next
  case (fails c s1)
  then show ?thesis using wait_judged(1) [OF assms(2) fails(1)] by auto
next
  case (counts s1)
  then show ?thesis using wait_judged(3) [OF assms(2) counts(1), of "Suc fuel" world] by auto
qed

text \<open>A bound on waiting is kept: the wait returns, whatever the probes answer, and the gaps it
  slept add up to no more than the bound.\<close>

theorem wait_within_bound:
  assumes "0 < wait_max_s e" and "waited (wt s) \<le> wait_max_s e" and "ticks 0 (wait_max_s e - waited (wt s)) < fuel"
  shows "\<exists>r s'. wait e vet fuel E world s = Some (r, s') \<and> waited (wt s') \<le> wait_max_s e"
proof (cases "waitable e (e_optional E) (e_heap E) (e_exn E) (e_served E) (wt s)")
  case True
  show ?thesis
  proof (cases e vet E s rule: judge_cases)
    case (waits s1)
    have "0 < wait_max_s e \<and> waited (wt (said On_wait s1)) \<le> wait_max_s e"
      "ticks 0 (wait_max_s e - waited (wt (said On_wait s1))) < fuel"
      using assms waits by simp_all
    from until_bound.returns [OF this] obtain r where
      "wait_run (wait_body e vet world) fuel 0 (said On_wait s1) 0 = Some r" "waited (wt (snd r)) \<le> wait_max_s e"
      by blast
    then show ?thesis using wait_judged(2) [OF True waits(1)] by simp
  next
    case (crash k s1)
    then show ?thesis using assms wait_judged(1) [OF True crash(1)] by auto
  next
    case (fails c s1)
    then show ?thesis using assms wait_judged(1) [OF True fails(1)] by auto
  next
    case (counts s1)
    from wait_judged(3) [OF True counts(1), of fuel world] counts(3-) assms(2) show ?thesis by auto
  qed
next
  case False
  then show ?thesis using assms by (simp add: wait_def)
qed

section \<open>Properties of a request\<close>

interpretation uncounted: honest "wait_body e vet world" "\<lambda>i s w. counted (hl s) = m"
    "\<lambda>r. counted (hl (snd r)) = m \<and> (\<forall>n c. fst r \<noteq> Request_fails n c)" for e vet world m
proof unfold_locales
  fix i s w r
  assume "counted (hl s) = m" "wait_body e vet world i s w = Inl r"
  then show "counted (hl (snd r)) = m \<and> (\<forall>n c. fst r \<noteq> Request_fails n c)"
    by (cases rule: wait_body_cases [of e vet world i s w]) auto
next
  fix i s w s' d
  assume "counted (hl s) = m" "wait_body e vet world i s w = Inr (s', d)"
  then show "counted (hl s') = m"
    by (cases rule: wait_body_cases [of e vet world i s w]) auto
qed

lemma wait_counts:
  assumes "wait e vet fuel E world s = Some (r, s')"
  shows "counted (hl s') \<le> counted (hl s) + of_bool (clear_answer E) \<and>
    (\<forall>n c. r = Request_fails n c \<longrightarrow> crash_resends e \<noteq> 0 \<or> n = counted (hl s') \<and> same_request_fails e \<le> n)"
proof (cases "waitable e (e_optional E) (e_heap E) (e_exn E) (e_served E) (wt s)")
  case True
  show ?thesis
  proof (cases e vet E s rule: judge_cases)
    case (waits s1)
    then obtain x where "wait_run (wait_body e vet world) fuel 0 (said On_wait s1) 0 = Some x"
      "r = fst x" "hl s' = hl (snd x)"
      using assms wait_judged(2) [OF True waits(1)] by auto
    then show ?thesis using uncounted.sound [of "said On_wait s1" "counted (hl s)"] waits(2) by fastforce
  next
    case (crash k s1)
    then show ?thesis using assms wait_judged(1) [OF True crash(1)] by auto
  next
    case (fails c s1)
    then show ?thesis using assms wait_judged(1) [OF True fails(1)] by auto
  next
    case (counts s1)
    then show ?thesis using assms wait_judged(3) [OF True counts(1), of fuel world] by auto
  qed
qed (use assms in \<open>auto simp: wait_def\<close>)

text \<open>Sends up to the \<open>i\<close>-th after whose failure the model gave a clear answer.\<close>

definition clear_failure :: "'v attempt \<Rightarrow> bool" where
  "clear_failure A \<longleftrightarrow> (case a_out A of Inl _ \<Rightarrow> False | Inr E \<Rightarrow> clear_answer E)"

lemma during_send_counted [simp]: "counted (k_health (during_send A k)) = counted (k_health k)"
proof -
  have "counted (foldl (\<lambda>h s. h\<lparr>stalls := stalls h + 1, stall_s := stall_s h + max 0 s\<rparr>) h xs) = counted h" for h xs
    by (induction xs arbitrary: h) (simp_all add: counted_def)
  then show ?thesis by (simp add: during_send_def Let_def counted_def)
qed

lemma waiter_for_health [simp]: "k_health (fst (waiter_for A k)) = k_health k"
  by (simp add: waiter_for_def Let_def split: option.splits)

lemma settle_health [simp]: "k_health (settle r s k) = hl s"
  by (simp add: settle_def Let_def split: wait_end.splits bool.splits)

lemma call_loop_counts:
  assumes "call_loop e vet inner world f i k = Some (Inr (Request_fails n c), m, k')"
    and "counted (k_health k) \<le> int (length (filter (\<lambda>j. clear_failure (world j)) [0..<i]))"
    and "crash_resends e = 0"
  shows "same_request_fails e \<le> n \<and> n \<le> int (length (filter (\<lambda>j. clear_failure (world j)) [0..<Suc m]))"
  using assms(1,2)
proof (induction f arbitrary: i k)
  case (Suc f)
  let ?k1 = "during_send (world i) k"
  obtain k2 w where k2: "waiter_for (world i) ?k1 = (k2, w)" by fastforce
  obtain E where E: "a_out (world i) = Inr E" using Suc.prems(1) by (auto simp: Let_def split: sum.splits)
  let ?s = "\<lparr>wt = w, hl = k_health k2, bks = k_bks k2, eps = k_eps k2\<rparr>"
  obtain r s where w: "wait e vet inner E (a_cycles (world i)) ?s = Some (r, s)"
    using Suc.prems(1) E k2 by (auto simp: Let_def split: option.splits)
  have "k_health k2 = k_health ?k1" using waiter_for_health [of "world i" ?k1] k2 by simp
  then have c: "counted (hl s) \<le> int (length (filter (\<lambda>j. clear_failure (world j)) [0..<Suc i]))"
    "\<And>n c. r = Request_fails n c \<Longrightarrow> n = counted (hl s) \<and> same_request_fails e \<le> n"
    using wait_counts [OF w] Suc.prems(2) assms(3) E by (auto simp: clear_failure_def of_bool_def split: if_splits)
  show ?case
  proof (cases "\<exists>b. r = Re_send b")
    case True
    then obtain b where "r = Re_send b" by blast
    then have "call_loop e vet inner world f (Suc i) (settle r s k2) = Some (Inr (Request_fails n c), m, k')"
      using Suc.prems(1) E k2 w by (simp add: Let_def)
    then show ?thesis using Suc.IH c(1) by simp
  next
    case False
    then have "r = Request_fails n c \<and> m = i" using Suc.prems(1) E k2 w by (auto simp: Let_def split: wait_end.splits)
    then show ?thesis using c by auto
  qed
qed simp

text \<open>Anything ambiguous is waited for and never counted: a request is found failing only when the
  configured number of its sends at least failed while the model gave a clear answer straight
  afterwards (with crash counting off, the default).\<close>

theorem failing_needs_evidence:
  assumes "call_loop e vet inner world f 0 (new_call url model bs Es cnt) = Some (Inr (Request_fails n c), i, k)"
    and "crash_resends e = 0"
  shows "same_request_fails e \<le> n \<and> n \<le> int (length (filter (\<lambda>j. clear_failure (world j)) [0..<Suc i]))"
  using call_loop_counts [OF assms(1) _ assms(2)] by (simp add: new_call_def new_health_def counted_def)

text \<open>A failure of the request itself: the server took the request, it is up, it is not the wording
  of a busy server, and nobody cancels.\<close>

definition hopeless :: "episode \<Rightarrow> bool" where
  "hopeless E \<longleftrightarrow> \<not> e_optional E \<and> e_served E = None \<and>
     classify (e_heap E) (Some (e_exn E)) = Outage \<and> \<not> explicit_busy (e_heap E) (Some (e_exn E)) \<and>
     request_bound (e_heap E) (Some (e_exn E)) \<and> (\<forall>b. fst (e_live E b) = OK) \<and>
     (\<forall>j. why_now (g_src (e_naps E j)) = None)"

lemma sleep_uncut: "(\<And>j. why_now (g_src (p j)) = None) \<Longrightarrow> sleep_slices p j left \<noteq> Cut why"
  by (induction p j left rule: sleep_slices.induct) (subst sleep_slices.simps, auto)

lemma counted_update [simp]:
  "counted (h\<lparr>up_at := u\<rparr>) = counted h" "counted (h\<lparr>stalls_seen := n\<rparr>) = counted h"
  by (simp_all add: counted_def)

lemma judge_hopeless:
  assumes "hopeless E"
  shows "\<exists>s'. counted (hl s') = counted (hl s) + 1 \<and>
    judge e vet E s = (if same_request_fails e \<le> counted (hl s) + 1
       then Inl (Request_fails (counted (hl s) + 1) Same_request) else Inr True, s')"
proof -
  have "\<not> config_refusal E b" "fst (e_live E b) = OK" for b using assms by (auto simp: hopeless_def config_refusal_def)
  then show ?thesis using assms
    by (auto simp: judge_def judge_up_def hopeless_def Let_def)
qed

lemma wait_hopeless:
  assumes "hopeless E" and "wait_max_s e = 0"
  shows "\<exists>s'. counted (hl s') = counted (hl s) + 1 \<and>
    wait e vet fuel E world s = Some (if same_request_fails e \<le> counted (hl s) + 1
       then Request_fails (counted (hl s) + 1) Same_request else Re_send True, s')"
proof -
  have w: "waitable e (e_optional E) (e_heap E) (e_exn E) (e_served E) (wt s)"
    using assms by (simp add: waitable_def hopeless_def id_is_wrong_def model_is_missing_def)
  obtain s1 where j: "counted (hl s1) = counted (hl s) + 1"
    "judge e vet E s = (if same_request_fails e \<le> counted (hl s) + 1
       then Inl (Request_fails (counted (hl s) + 1) Same_request) else Inr True, s1)"
    using judge_hopeless [OF assms(1)] by blast
  show ?thesis
  proof (cases "same_request_fails e \<le> counted (hl s) + 1")
    case True
    then show ?thesis using wait_judged(1) [OF w] j by auto
  next
    case False
    then have "judge e vet E s = (Inr True, s1)" using j by simp
    moreover have "sleep_slices (e_naps E) 0 g \<noteq> Cut why" for g why
      using assms(1) sleep_uncut by (auto simp: hopeless_def)
    ultimately show ?thesis using w False j(1) resend_fields [of e E s1]
      by (auto simp: wait_def case_prod_beta simp del: resend_fields split: nap_end.splits)
  qed
qed

lemma call_loop_hopeless:
  assumes "wait_max_s e = 0" and "\<forall>i. \<exists>E. a_out (world i) = Inr E \<and> hopeless E"
  shows "counted (k_health k) + int f = same_request_fails e \<Longrightarrow> 0 < f \<Longrightarrow>
    \<exists>k'. call_loop e vet inner world f i k =
      Some (Inr (Request_fails (same_request_fails e) Same_request), i + f - 1, k')"
proof (induction f arbitrary: i k)
  case (Suc f)
  let ?k1 = "during_send (world i) k"
  obtain k2 w where k2: "waiter_for (world i) ?k1 = (k2, w)" by fastforce
  have h: "k_health k2 = k_health ?k1" using waiter_for_health [of "world i" ?k1] k2 by simp
  obtain E where E: "a_out (world i) = Inr E" "hopeless E" using assms(2) by blast
  let ?s = "\<lparr>wt = w, hl = k_health k2, bks = k_bks k2, eps = k_eps k2\<rparr>"
  let ?c = "counted (k_health k)"
  obtain s where s: "counted (hl s) = ?c + 1"
    "wait e vet inner E (a_cycles (world i)) ?s = Some (if same_request_fails e \<le> ?c + 1
       then Request_fails (?c + 1) Same_request else Re_send True, s)"
    using wait_hopeless [OF E(2) assms(1), of ?s vet inner "a_cycles (world i)"] h by auto
  show ?case
  proof (cases "f = 0")
    case True
    then have "?c + 1 = same_request_fails e" using Suc.prems(1) by simp
    then show ?thesis using True E k2 s by (simp add: Let_def)
  next
    case False
    then have "\<not> same_request_fails e \<le> ?c + 1" using Suc.prems(1) by simp
    then have "call_loop e vet inner world (Suc f) i k = call_loop e vet inner world f (Suc i) (settle (Re_send True) s k2)"
      using E k2 s by (simp add: Let_def)
    moreover have "counted (k_health (settle (Re_send True) s k2)) + int f = same_request_fails e"
      using Suc.prems(1) s(1) by simp
    ultimately show ?thesis using Suc.IH [of "settle (Re_send True) s k2" "Suc i"] False by auto
  qed
qed simp

text \<open>A request the model keeps failing while it is up ends, after exactly the configured number of
  sends: it is neither given up earlier nor sent again for ever.\<close>

theorem failing_request_stops:
  assumes "wait_max_s e = 0" and "\<forall>i. \<exists>E. a_out (world i) = Inr E \<and> hopeless E"
  shows "\<exists>k. call_loop e vet inner world (nat (same_request_fails e)) 0 (new_call url model bs Es cnt) =
    Some (Inr (Request_fails (same_request_fails e) Same_request), nat (same_request_fails e) - 1, k)"
  using call_loop_hopeless [OF assms, of "new_call url model bs Es cnt" "nat (same_request_fails e)" vet inner 0]
    same_request_fails_pos [of e]
  by (simp add: new_call_def new_health_def counted_def)

section \<open>Instances\<close>

definition calm :: sources where
  "calm = \<lparr>shutting_down = False, scopes = [], client_token = False, stop_requested = False\<rparr>"

definition calm_nap :: "nat \<Rightarrow> glance" where
  "calm_nap = (\<lambda>_. \<lparr>g_src = calm, g_switch = False, g_late = 0\<rparr>)"

definition dropped_send :: "pstate \<Rightarrow> episode" where
  "dropped_send p =
     \<lparr>e_heap = (\<lambda>_. plain ''ConnectionResetError'' [''ConnectionResetError'', ''OSError''] ''reset by peer''),
      e_exn = 0, e_optional = False, e_served = None, e_failed_at = 100, e_live = (\<lambda>_. (p, 0)),
      e_crash_at = 100, e_naps = calm_nap\<rparr>"

definition probe_at :: "nat \<Rightarrow> nat \<Rightarrow> cycle" where
  "probe_at n i = \<lparr>c_now = of_nat i * 40, c_src = calm, c_naps = calm_nap, c_switched = False,
                   c_up = (i = n), c_done = of_nat i * 40 + 31\<rparr>"

definition dropped_attempt :: "pstate \<Rightarrow> nat attempt" where
  "dropped_attempt p = \<lparr>a_sent = 90, a_stalls = [], a_out = Inr (dropped_send p), a_cycles = probe_at 1,
                        a_endpoint = None, a_count = 1, a_end = 200\<rparr>"

definition idle_wait :: wait_st where
  "idle_wait = \<lparr>wt = new_waiter ''http://box/v1'' ''m'', hl = new_health, bks = (\<lambda>_. None), eps = no_endpoints\<rparr>"

lemma calm_why [simp]: "why_now calm = None"
  by (simp add: calm_def why_now_def cancel_reason_def)

lemma dropped_facts:
  "classify (e_heap (dropped_send p)) (Some (e_exn (dropped_send p))) = Outage"
  "\<not> explicit_busy (e_heap (dropped_send p)) (Some (e_exn (dropped_send p)))"
  "request_bound (e_heap (dropped_send p)) (Some (e_exn (dropped_send p)))"
  by code_simp+

lemma env0: "wait_max_s (\<lambda>_. None) = 0" "crash_resends (\<lambda>_. None) = 0" "same_request_fails (\<lambda>_. None) = 4"
  by code_simp+

lemma dropped_waitable: "wait_max_s e = 0 \<Longrightarrow>
  waitable e (e_optional (dropped_send p)) (e_heap (dropped_send p)) (e_exn (dropped_send p))
    (e_served (dropped_send p)) w"
  using dropped_facts(1) [of p] by (simp add: waitable_def id_is_wrong_def model_is_missing_def dropped_send_def)

lemma dropped_hopeless: "hopeless (dropped_send OK)"
  unfolding hopeless_def using dropped_facts [of OK] by (simp add: dropped_send_def calm_nap_def)

lemma idle_never_up: "\<not> clear_answer (dropped_send Down)"
  using dropped_facts [of Down] by (simp add: clear_answer_def config_refusal_def dropped_send_def)

text \<open>A dropped connection and a model that answers the second probe only.\<close>

theorem outage_waited_out_witness:
  "\<exists>r s'. wait (\<lambda>_. None) (\<lambda>_. True) 3 (dropped_send Down) (probe_at 1) idle_wait = Some (r, s') \<and>
     (r = Re_send False \<and> over_at (probe_at 1) (wt idle_wait) 1 \<or> (\<exists>why. r = Wait_stopped why \<and> why \<noteq> []))"
proof -
  have only: "over_at (probe_at 1) (wt idle_wait) j \<Longrightarrow> j \<le> 1 \<Longrightarrow> j = 1" for j
    by (cases j) (auto simp: over_at_def picked_def probe_at_def idle_wait_def new_waiter_def calm_nap_def)
  have up: "c_up (probe_at 1 1)" "(1::nat) < 2" by (simp_all add: probe_at_def)
  note outage_waited_out [where world = "probe_at 1" and n = 1 and fuel = 2 and vet = "\<lambda>_. True",
      OF env0(1) dropped_waitable [OF env0(1), of Down "wt idle_wait"] up env0(2)]
  then show ?thesis using idle_never_up only by (auto simp: eval_nat_numeral)
qed

theorem wait_within_bound_witness:
  "\<exists>r s'. wait (\<lambda>k. if k = ''AIFORGE_LLM_WAIT_MAX_S'' then Some ''10'' else None) (\<lambda>_. True) 11
      (dropped_send Down) (probe_at 100) idle_wait = Some (r, s') \<and> waited (wt s') \<le> 10"
proof -
  let ?e = "\<lambda>k. if k = ''AIFORGE_LLM_WAIT_MAX_S'' then Some ''10'' else None"
  have e: "wait_max_s ?e = 10" by code_simp
  have s: "waited (wt idle_wait) = 0" by (simp add: idle_wait_def new_waiter_def)
  show ?thesis
    using wait_within_bound [where e = ?e and s = idle_wait and fuel = 11 and vet = "\<lambda>_. True"
        and E = "dropped_send Down" and world = "probe_at 100"]
    by (simp add: e s ticks_def)
qed

theorem failing_needs_evidence_witness:
  "4 \<le> length (filter (\<lambda>j. clear_failure (dropped_attempt OK)) [0..<Suc 3])"
proof -
  have "counted (k_health (new_call [] [] (\<lambda>_. None) no_endpoints None)) + int 4 = same_request_fails (\<lambda>_. None)"
    by (simp add: env0(3) new_call_def new_health_def counted_def)
  moreover have "\<forall>i::nat. \<exists>E. a_out (dropped_attempt OK) = Inr E \<and> hopeless E"
    using dropped_hopeless by (simp add: dropped_attempt_def)
  ultimately obtain k where "call_loop (\<lambda>_. None) (\<lambda>_. True) 0 (\<lambda>_. dropped_attempt OK) 4 0
      (new_call [] [] (\<lambda>_. None) no_endpoints None) = Some (Inr (Request_fails 4 Same_request), 3, k)"
    using call_loop_hopeless [OF env0(1), of "\<lambda>_. dropped_attempt OK" "new_call [] [] (\<lambda>_. None) no_endpoints None"
        4 "\<lambda>_. True" 0 0] by (auto simp: env0(3))
  from failing_needs_evidence [OF this env0(2)] show ?thesis by linarith
qed

theorem failing_request_stops_witness:
  "\<exists>k. call_loop (\<lambda>_. None) (\<lambda>_. True) 0 (\<lambda>_. dropped_attempt OK) 4 0
      (new_call ''http://box/v1'' ''m'' (\<lambda>_. None) no_endpoints None) =
    Some (Inr (Request_fails 4 Same_request), 3, k)"
  using failing_request_stops [OF env0(1), of "\<lambda>_. dropped_attempt OK" "\<lambda>_. True" 0] dropped_hopeless
  by (simp add: env0(3) dropped_attempt_def)

end
