(* ===== verification/Retry_Policy.thy ===== *)
theory Retry_Policy
  imports Model_Wait
begin

text \<open>
  When, how often and for how long a failed model call is tried again, from
  \<^verbatim>\<open>aiforge_core/llm/retry_policy.py\<close>: the knobs, the sweep of re-sends within the budget of a
  step, the outage wait, the persist rounds, and \<^verbatim>\<open>run_with_policy\<close>, which applies them in order.

  The hooks of the caller come as a stream of rounds: what Stop, the pause and the send of the
  \<open>i\<close>-th round answer, and the clock. The lines the generator yields are output.
\<close>

section \<open>The knobs\<close>

definition persist_gap :: "nat \<Rightarrow> rat" where
  "persist_gap k = (if k < 4 then [5, 10, 20, 30] ! k else 30)"

definition config_rounds :: nat where "config_rounds = 5"
definition big :: nat where "big = 10 ^ 9"

definition float_knob :: "env \<Rightarrow> string \<Rightarrow> rat \<Rightarrow> rat" where
  "float_knob e k dflt =
     (case e k of None \<Rightarrow> dflt | Some s \<Rightarrow> (case float_of_str s of None \<Rightarrow> dflt | Some x \<Rightarrow> x))"

definition int_knob_or :: "env \<Rightarrow> string \<Rightarrow> int \<Rightarrow> int" where
  "int_knob_or e k dflt =
     (case e k of None \<Rightarrow> dflt | Some s \<Rightarrow> (case int_of_str s of None \<Rightarrow> dflt | Some n \<Rightarrow> n))"

definition transport_attempts :: "env \<Rightarrow> int" where
  "transport_attempts e = max 1 (int_knob_or e ''AIFORGE_LLM_RETRY_MAX'' 3)"

definition empty_attempts :: "env \<Rightarrow> int" where
  "empty_attempts e = max 0 (int_knob_or e ''AIFORGE_LLM_EMPTY_RETRIES'' 3)"

definition sweeps :: "env \<Rightarrow> int" where
  "sweeps e = max 0 (int_knob_or e ''AIFORGE_CHAT_LLM_RETRIES'' 8)"

definition generation_budget :: "env \<Rightarrow> int" where
  "generation_budget e =
     (let v = int_knob_or e ''AIFORGE_CHAT_MAX_GENERATIONS_PER_STEP'' 10 in if 0 \<le> v then v else 10)"

definition persist_s :: "env \<Rightarrow> bool \<Rightarrow> rat" where
  "persist_s e pipeline =
     float_knob e (if pipeline then ''AIFORGE_PIPELINE_PERSIST_S'' else ''AIFORGE_CHAT_PERSIST_S'') 0"

definition persist_other_s :: "env \<Rightarrow> bool \<Rightarrow> rat" where
  "persist_other_s e pipeline =
     max 1 (float_knob e (if pipeline then ''AIFORGE_PIPELINE_PERSIST_OTHER_S''
                          else ''AIFORGE_CHAT_PERSIST_OTHER_S'') 1800)"

definition attempt_retries :: "env \<Rightarrow> int" where
  "attempt_retries e = max 1 (int_knob_or e ''AIFORGE_LLM_ATTEMPT_RETRIES'' 1)"

definition demote_after :: "env \<Rightarrow> int" where
  "demote_after e = max 1 (int_knob_or e ''AIFORGE_PRIMARY_DEMOTE_AFTER'' 2)"

definition attempt_backoff_s :: "nat \<Rightarrow> rat" where
  "attempt_backoff_s n = min 8 (1 / 2 * 2 ^ n) + 1 / 10"

record policy =
  q_transport :: int
  q_empty :: int
  q_sweeps :: int
  q_budget :: int
  q_wait_max :: rat
  q_persist :: rat
  q_persist_other :: rat
  q_attempts :: int
  q_demote :: int

definition from_env :: "env \<Rightarrow> bool \<Rightarrow> policy" where
  "from_env e pipeline =
     \<lparr>q_transport = transport_attempts e, q_empty = empty_attempts e, q_sweeps = sweeps e,
      q_budget = generation_budget e, q_wait_max = wait_max_s e, q_persist = persist_s e pipeline,
      q_persist_other = persist_other_s e pipeline, q_attempts = attempt_retries e,
      q_demote = demote_after e\<rparr>"

section \<open>What may still be tried\<close>

definition outage_waitable :: "heap \<Rightarrow> nat \<Rightarrow> bool" where
  "outage_waitable H x \<longleftrightarrow> classify H (Some x) = Outage \<and> \<not> was_waited H (Some x)"

definition will_wait :: "env \<Rightarrow> rat option \<Rightarrow> bool" where
  "will_wait e w =
     (case w of None \<Rightarrow> False
      | Some s \<Rightarrow> if s < 0 then False else s = 0 \<or> delays (probe_max_s e) 0 \<le> s)"

text \<open>\<^verbatim>\<open>text.split(sep, 1)[-1]\<close>.\<close>

fun after_first :: "string \<Rightarrow> string \<Rightarrow> string option" where
  "after_first sep [] = (if sep = [] then Some [] else None)"
| "after_first sep (c # s) =
     (if starts_with sep (c # s) then Some (drop (length sep) (c # s)) else after_first sep s)"

definition config_text :: "string \<Rightarrow> string" where
  "config_text s =
     strip (case after_first ('' '' @ em_dash @ '' '') s of None \<Rightarrow> s | Some t \<Rightarrow> t)"

record plan =
  retries :: nat
  budget :: int
  cfg_error :: string
  spent0 :: int

definition sweep_plan :: "policy \<Rightarrow> heap \<Rightarrow> nat \<Rightarrow> int option \<Rightarrow> plan" where
  "sweep_plan q H x calls =
     (let used = (case calls of None \<Rightarrow> 0 | Some n \<Rightarrow> n);
          left = max 0 (q_budget q - used);
          r0 = (if 0 < q_budget q \<and> 0 < left then min (q_sweeps q) left else q_sweeps q);
          r1 = (if x_shipped (H x) then 0 else r0)
      in if x_missing (H x)
         then \<lparr>retries = 0, budget = q_budget q, cfg_error = config_text (x_str (H x)), spent0 = used\<rparr>
         else \<lparr>retries = nat r1, budget = q_budget q, cfg_error = [], spent0 = used\<rparr>)"

definition over_budget :: "plan \<Rightarrow> int option \<Rightarrow> bool" where
  "over_budget P calls =
     (case calls of
        None \<Rightarrow> False
      | Some used \<Rightarrow>
          if budget P \<le> 0 then False
          else if spent0 P < budget P then budget P \<le> used
          else spent0 P + int (retries P) \<le> used)"

definition persist_caps :: "policy \<Rightarrow> heap \<Rightarrow> nat \<Rightarrow> nat \<times> rat" where
  "persist_caps q H x =
     (case classify H (Some x) of
        Outage \<Rightarrow> (big, 0)
      | Config \<Rightarrow> (config_rounds, 0)
      | Shipped \<Rightarrow> (2, 0)
      | _ \<Rightarrow> if stall_budget_spent H (Some x) then (0, 0)
             else if llm_issue_of H (Some x) \<noteq> None then (6, 0)
             else (big, q_persist_other q))"

definition pipeline_persist_gap :: "policy \<Rightarrow> heap \<Rightarrow> nat option \<Rightarrow> nat \<Rightarrow> rat \<Rightarrow> sources \<Rightarrow> rat option" where
  "pipeline_persist_gap q H x rounds elapsed src =
     (let gap = persist_gap (min rounds 3) in
      if q_persist q < 0 then None
      else if q_persist_other q < elapsed then None
      else if why_now src \<noteq> None then None
      else if 0 < q_persist q \<and> q_persist q < elapsed + gap then None
      else if x = None then Some gap
      else if llm_issue_of H x \<noteq> None then None
      else if classify H x \<in> {Config, Cancelled} then None
      else if classify H x = Shipped \<and> 2 \<le> rounds then None
      else Some gap)"

section \<open>The rounds\<close>

datatype 'v reply = Answered 'v | Cut_off | Raised nat
datatype pause_end = Elapsed | Stop_pressed | Typed

record 'v round =
  r_cancelled :: bool
  r_src :: sources
  r_elapsed :: rat
  r_later :: rat
  r_pause :: pause_end
  r_reply :: "'v reply"
  r_calls :: "int option"

datatype 'v outcome = Answer 'v | Stopped | Steered | Issue exn | Failed string

text \<open>The sends of a recovery, and the times the prompt was made smaller for its size (at the first
  refusal, and at the second in a row).\<close>

record trail =
  sends :: nat
  soft_shrinks :: nat
  hard_shrinks :: nat

definition sent_one :: "trail \<Rightarrow> trail" where
  "sent_one tr = tr\<lparr>sends := sends tr + 1\<rparr>"

definition answer_of :: "'v reply \<Rightarrow> 'v outcome option" where
  "answer_of r = (case r of Answered v \<Rightarrow> Some (Answer v) | Cut_off \<Rightarrow> Some Stopped | Raised _ \<Rightarrow> None)"

section \<open>The sweep\<close>

datatype 'v sweep_end = Ended "'v outcome" | Got 'v | Was_cut | Still nat

text \<open>Before a send: the refusals for size in a row so far, and what is done about them.\<close>

definition sized :: "bool \<Rightarrow> nat \<Rightarrow> trail \<Rightarrow> nat \<times> trail" where
  "sized has_hook over tr =
     (if over = 1 \<and> has_hook then (over, tr\<lparr>soft_shrinks := soft_shrinks tr + 1\<rparr>)
      else if 2 \<le> over then (0, tr\<lparr>hard_shrinks := hard_shrinks tr + 1\<rparr>)
      else (over, tr))"

fun sweep ::
  "heap \<Rightarrow> (nat \<Rightarrow> 'v round) \<Rightarrow> plan \<Rightarrow> bool \<Rightarrow> nat \<Rightarrow> nat \<Rightarrow> nat \<Rightarrow> nat \<Rightarrow> trail \<Rightarrow> 'v sweep_end \<times> trail" where
  "sweep H W P hf 0 rn over x tr = (Still x, tr)"
| "sweep H W P hf (Suc n) rn over x tr =
     (let R = W rn in
      if r_cancelled R then (Ended Stopped, tr)
      else if over_budget P (r_calls R) then (Still x, tr)
      else
        (let (over1, tr1) = sized hf over tr in
         case r_pause R of
           Stop_pressed \<Rightarrow> (Ended Stopped, tr1)
         | Typed \<Rightarrow> (Ended Steered, tr1)
         | Elapsed \<Rightarrow>
             (case r_reply R of
                Answered v \<Rightarrow> (Got v, sent_one tr1)
              | Cut_off \<Rightarrow> (Was_cut, sent_one tr1)
              | Raised y \<Rightarrow>
                  sweep H W P hf n (Suc rn) (if is_context_overflow H (Some y) then over1 + 1 else 0) y
                    (sent_one tr1))))"

section \<open>The outage wait and the persist rounds\<close>

type_synonym 'v rest = "'v outcome option \<times> nat \<times> trail"

definition outage_body ::
  "env \<Rightarrow> heap \<Rightarrow> (nat \<Rightarrow> 'v round) \<Rightarrow> rat \<Rightarrow> nat \<Rightarrow> nat \<times> trail \<Rightarrow> rat \<Rightarrow> 'v rest + (nat \<times> trail) \<times> rat" where
  "outage_body e H W wait_s i s w =
     (let R = W i; gap = delays (probe_max_s e) i; (x, tr) = s in
      if 0 < wait_s \<and> wait_s < w + gap then Inl (None, x, tr)
      else (case (if r_pause R = Elapsed \<and> why_now (r_src R) \<noteq> None then Stop_pressed else r_pause R) of
              Stop_pressed \<Rightarrow> Inl (Some Stopped, x, tr)
            | Typed \<Rightarrow> Inl (Some Steered, x, tr)
            | Elapsed \<Rightarrow>
                (case r_reply R of
                   Raised y \<Rightarrow> if outage_waitable H y then Inr ((y, sent_one tr), gap)
                               else Inl (None, y, sent_one tr)
                 | r \<Rightarrow> Inl (answer_of r, x, sent_one tr))))"

text \<open>The first argument is whether Stop was pressed before the wait began.\<close>

definition wait_out_outage ::
  "bool \<Rightarrow> env \<Rightarrow> heap \<Rightarrow> (nat \<Rightarrow> 'v round) \<Rightarrow> nat \<Rightarrow> nat \<Rightarrow> rat \<Rightarrow> trail \<Rightarrow> 'v rest option" where
  "wait_out_outage stop e H W fuel x wait_s tr =
     (if stop then Some (Some Stopped, x, tr)
      else wait_run (outage_body e H W wait_s) fuel 0 (x, tr) 0)"

definition persist_body ::
  "policy \<Rightarrow> heap \<Rightarrow> (nat \<Rightarrow> 'v round) \<Rightarrow> rat \<Rightarrow> nat \<Rightarrow> nat \<times> trail \<Rightarrow> rat \<Rightarrow> 'v rest + (nat \<times> trail) \<times> rat" where
  "persist_body q H W limit i s w =
     (let R = W i; gap = persist_gap i; (x, tr) = s; caps = persist_caps q H x in
      if 0 < limit \<and> limit < r_elapsed R + gap then Inl (None, x, tr)
      else if r_cancelled R then Inl (Some Stopped, x, tr)
      else if fst caps < Suc i \<or> (snd caps \<noteq> 0 \<and> snd caps < r_later R) then Inl (None, x, tr)
      else if why_now (r_src R) \<noteq> None then Inl (Some Stopped, x, tr)
      else (case r_pause R of
              Stop_pressed \<Rightarrow> Inl (Some Stopped, x, tr)
            | Typed \<Rightarrow> Inl (Some Steered, x, tr)
            | Elapsed \<Rightarrow>
                (case r_reply R of
                   Raised y \<Rightarrow> Inr ((y, sent_one tr), gap)
                 | r \<Rightarrow> Inl (answer_of r, x, sent_one tr))))"

definition persist_until_answer ::
  "policy \<Rightarrow> heap \<Rightarrow> (nat \<Rightarrow> 'v round) \<Rightarrow> nat \<Rightarrow> nat \<Rightarrow> trail \<Rightarrow> 'v rest option" where
  "persist_until_answer q H W fuel x tr = wait_run (persist_body q H W (q_persist q)) fuel 0 (x, tr) 0"

section \<open>The policy\<close>

text \<open>The rounds of each phase, whether Stop was pressed when the outage wait began, and whether the
  caller can learn from a first refusal for size.\<close>

record 'v course =
  sweep_w :: "nat \<Rightarrow> 'v round"
  issue_w :: "nat \<Rightarrow> 'v round"
  outage_w :: "nat \<Rightarrow> 'v round"
  last_w :: "nat \<Rightarrow> 'v round"
  outage_stop :: bool
  has_first :: bool

text \<open>The failure that is left after the sweep, the persist rounds of an issue, and the outage wait.\<close>

definition last_resort ::
  "policy \<Rightarrow> heap \<Rightarrow> 'v course \<Rightarrow> nat \<Rightarrow> string \<Rightarrow> nat \<Rightarrow> trail \<Rightarrow> ('v outcome \<times> trail) option" where
  "last_resort q H C fuel cfg x tr =
     (if cfg = [] \<and> 0 \<le> q_persist q
      then (case persist_until_answer q H (last_w C) fuel x tr of
              None \<Rightarrow> None
            | Some (Some r, _, tr1) \<Rightarrow> Some (r, tr1)
            | Some (None, _, tr1) \<Rightarrow> Some (Failed cfg, tr1))
      else Some (Failed cfg, tr))"

definition after_issue ::
  "env \<Rightarrow> policy \<Rightarrow> heap \<Rightarrow> 'v course \<Rightarrow> nat \<Rightarrow> rat option \<Rightarrow> string \<Rightarrow> nat \<Rightarrow> trail \<Rightarrow> ('v outcome \<times> trail) option" where
  "after_issue e q H C fuel wait_s cfg x tr =
     (case llm_issue_of H (Some x) of
        Some f \<Rightarrow> Some (Issue f, tr)
      | None \<Rightarrow>
          if will_wait e wait_s \<and> outage_waitable H x
          then (case wait_out_outage (outage_stop C) e H (outage_w C) fuel x (the wait_s) tr of
                  None \<Rightarrow> None
                | Some (Some r, _, tr1) \<Rightarrow> Some (r, tr1)
                | Some (None, y, tr1) \<Rightarrow>
                    (case llm_issue_of H (Some y) of
                       Some f \<Rightarrow> Some (Issue f, tr1)
                     | None \<Rightarrow> last_resort q H C fuel cfg y tr1))
          else last_resort q H C fuel cfg x tr)"

definition after_sweep ::
  "env \<Rightarrow> policy \<Rightarrow> heap \<Rightarrow> 'v course \<Rightarrow> nat \<Rightarrow> rat option \<Rightarrow> string \<Rightarrow> nat \<Rightarrow> trail \<Rightarrow> ('v outcome \<times> trail) option" where
  "after_sweep e q H C fuel wait_s cfg x tr =
     (if llm_issue_of H (Some x) \<noteq> None \<and> cfg = [] \<and> 0 \<le> q_persist q
      then (case persist_until_answer q H (issue_w C) fuel x tr of
              None \<Rightarrow> None
            | Some (Some r, _, tr1) \<Rightarrow> Some (r, tr1)
            | Some (None, y, tr1) \<Rightarrow> after_issue e q H C fuel wait_s cfg y tr1)
      else after_issue e q H C fuel wait_s cfg x tr)"

definition no_trail :: trail where
  "no_trail = \<lparr>sends = 0, soft_shrinks = 0, hard_shrinks = 0\<rparr>"

definition run_with_policy ::
  "env \<Rightarrow> policy \<Rightarrow> heap \<Rightarrow> 'v course \<Rightarrow> nat \<Rightarrow> nat \<Rightarrow> int option \<Rightarrow> rat option \<Rightarrow> ('v outcome \<times> trail) option" where
  "run_with_policy e q H C fuel x calls wait_s =
     (case llm_issue_of H (Some x) of
        Some f \<Rightarrow>
          if 0 \<le> q_persist q
          then (case persist_until_answer q H (issue_w C) fuel x no_trail of
                  None \<Rightarrow> None
                | Some (Some r, _, tr) \<Rightarrow> Some (r, tr)
                | Some (None, y, tr) \<Rightarrow>
                    Some (case llm_issue_of H (Some y) of None \<Rightarrow> Failed [] | Some g \<Rightarrow> Issue g, tr))
          else Some (Issue f, no_trail)
      | None \<Rightarrow>
          (let P = sweep_plan q H x calls;
               n = (if will_wait e wait_s \<and> (outage_waitable H x \<or> was_waited H (Some x)) then 0 else retries P);
               over = (if is_context_overflow H (Some x) then 1 else 0)
           in case sweep H (sweep_w C) P (has_first C) n 0 over x no_trail of
                (Ended r, tr) \<Rightarrow> Some (r, tr)
              | (Got v, tr) \<Rightarrow> Some (Answer v, tr)
              | (Was_cut, tr) \<Rightarrow> Some (Stopped, tr)
              | (Still y, tr) \<Rightarrow> after_sweep e q H C fuel wait_s (cfg_error P) y tr))"

section \<open>The sweep stays within the budget\<close>

lemma sent_one_sends [simp]: "sends (sent_one tr) = Suc (sends tr)"
  by (simp add: sent_one_def)

lemma sized_sends [simp]: "sends (snd (sized hf over tr)) = sends tr"
  by (simp add: sized_def)

lemma sweep_sends:
  "sweep H W P hf n rn over x tr = (r, tr') \<Longrightarrow>
    sends tr \<le> sends tr' \<and> sends tr' - sends tr \<le> n \<and>
    (\<forall>i < sends tr' - sends tr. \<not> over_budget P (r_calls (W (rn + i))))"
proof (induction n arbitrary: rn over x tr)
  case (Suc n)
  let ?R = "W rn"
  obtain ov tr1 where z: "sized hf over tr = (ov, tr1)" by fastforce
  have t: "sends tr1 = sends tr" using sized_sends [of hf over tr] z by simp
  show ?case
  proof (cases "r_cancelled ?R \<or> over_budget P (r_calls ?R) \<or> r_pause ?R \<noteq> Elapsed")
    case True
    then have "sends tr' = sends tr"
      using Suc.prems z t by (cases "r_pause ?R") (auto simp: Let_def split: if_splits)
    then show ?thesis by simp
  next
    case False
    then have go: "\<not> r_cancelled ?R" "\<not> over_budget P (r_calls ?R)" "r_pause ?R = Elapsed" by auto
    show ?thesis
    proof (cases "r_reply ?R")
      case (Raised y)
      then have "sweep H W P hf n (Suc rn) (if is_context_overflow H (Some y) then ov + 1 else 0) y (sent_one tr1)
          = (r, tr')"
        using Suc.prems go z by (simp add: Let_def)
      from Suc.IH [OF this] have IH: "Suc (sends tr) \<le> sends tr'" "sends tr' - Suc (sends tr) \<le> n"
        "\<forall>i < sends tr' - Suc (sends tr). \<not> over_budget P (r_calls (W (Suc rn + i)))" using t by auto
      have "\<not> over_budget P (r_calls (W (rn + i)))" if "i < sends tr' - sends tr" for i
        using that IH(3) go(2) by (cases i) auto
      then show ?thesis using IH(1,2) by auto
    qed (use Suc.prems go t z in \<open>auto simp: Let_def\<close>)
  qed
qed simp

text \<open>No send of a sweep begins once the step has spent its generation budget, however many
  generations the layers below spend on each: there are at most as many sends as were planned, and
  when each of them begins the counter of the step is still below the budget (below the planned
  allowance on top of it, when the first send alone had filled it).\<close>

theorem sweep_within_budget:
  assumes "sweep H W P hf (retries P) 0 over x no_trail = (r, tr)" and "0 < budget P"
    and "\<forall>i. r_calls (W i) = Some (c i)"
  shows "sends tr \<le> retries P \<and>
    (\<forall>i < sends tr. c i < (if spent0 P < budget P then budget P else spent0 P + int (retries P)))"
  using sweep_sends [OF assms(1)] assms(2,3) by (auto simp: no_trail_def over_budget_def)

section \<open>What persisting is for\<close>

lemma outage_no_issue: "classify H (Some x) = Outage \<Longrightarrow> llm_issue_of H (Some x) = None"
  by (auto simp: classify_def llm_issue_of_def find_None_iff list_ex_iff Let_def split: if_splits)

definition outages_only :: "heap \<Rightarrow> (nat \<Rightarrow> 'v round) \<Rightarrow> bool" where
  "outages_only H W \<longleftrightarrow> (\<forall>i y. r_reply (W i) = Raised y \<longrightarrow> classify H (Some y) = Outage)"

lemma persist_caps_outage: "classify H (Some x) = Outage \<Longrightarrow> persist_caps q H x = (big, 0)"
  by (simp add: persist_caps_def)

lemma persist_body_cases:
  obtains (leaves) r where "persist_body q H W limit i (x, tr) w = Inl (Some r, x, tr)" "r = Stopped \<or> r = Steered"
  | (gives_up) "persist_body q H W limit i (x, tr) w = Inl (None, x, tr)"
      "0 < limit \<and> limit < r_elapsed (W i) + persist_gap i \<or> fst (persist_caps q H x) \<le> i \<or>
       (snd (persist_caps q H x) \<noteq> 0 \<and> snd (persist_caps q H x) < r_later (W i))"
  | (ends) r where "persist_body q H W limit i (x, tr) w = Inl (Some r, x, sent_one tr)"
      "r = Stopped \<or> (\<exists>v. r = Answer v)"
  | (again) y where "persist_body q H W limit i (x, tr) w = Inr ((y, sent_one tr), persist_gap i)"
      "r_reply (W i) = Raised y" "\<not> (0 < limit \<and> limit < r_elapsed (W i) + persist_gap i)"
proof -
  let ?R = "W i" and ?caps = "persist_caps q H x"
  show thesis
  proof (cases "0 < limit \<and> limit < r_elapsed ?R + persist_gap i")
    case True
    then show thesis using gives_up by (simp add: persist_body_def Let_def)
  next
    case a: False
    show thesis
    proof (cases "r_cancelled ?R")
      case True
      then show thesis using a leaves by (simp add: persist_body_def Let_def)
    next
      case b: False
      show thesis
      proof (cases "fst ?caps < Suc i \<or> (snd ?caps \<noteq> 0 \<and> snd ?caps < r_later ?R)")
        case True
        then have "persist_body q H W limit i (x, tr) w = Inl (None, x, tr)"
          using a b by (auto simp: persist_body_def Let_def)
        then show thesis using gives_up True by auto
      next
        case c: False
        show thesis
        proof (cases "why_now (r_src ?R) \<noteq> None \<or> r_pause ?R \<noteq> Elapsed")
          case True
          then show thesis using a b c leaves [of Stopped] leaves [of Steered]
            by (cases "r_pause ?R"; cases "why_now (r_src ?R)") (auto simp: persist_body_def Let_def)
        next
          case False
          then have "persist_body q H W limit i (x, tr) w =
            (case r_reply ?R of Raised y \<Rightarrow> Inr ((y, sent_one tr), persist_gap i)
               | r \<Rightarrow> Inl (answer_of r, x, sent_one tr))"
            using a b c by (auto simp: persist_body_def Let_def)
          then show thesis using a ends again by (cases "r_reply ?R") (auto simp: answer_of_def)
        qed
      qed
    qed
  qed
qed

interpretation undaunted: honest "persist_body q H W 0"
    "\<lambda>i s w. outages_only H W \<and> classify H (Some (fst s)) = Outage \<and> i \<le> sends (snd s)"
    "\<lambda>r. (\<forall>o1. fst r = Some o1 \<longrightarrow> o1 = Stopped \<or> o1 = Steered \<or> (\<exists>v. o1 = Answer v)) \<and>
         (fst r = None \<longrightarrow> big \<le> sends (snd (snd r)))" for q H W
proof unfold_locales
  fix i and s :: "nat \<times> trail" and w and r :: "'a rest"
  assume a: "outages_only H W \<and> classify H (Some (fst s)) = Outage \<and> i \<le> sends (snd s)"
    "persist_body q H W 0 i s w = Inl r"
  then have "persist_caps q H (fst s) = (big, 0)" by (simp add: persist_caps_outage)
  then show "(\<forall>o1. fst r = Some o1 \<longrightarrow> o1 = Stopped \<or> o1 = Steered \<or> (\<exists>v. o1 = Answer v)) \<and>
         (fst r = None \<longrightarrow> big \<le> sends (snd (snd r)))"
    using a by (cases rule: persist_body_cases [of q H W 0 i "fst s" "snd s" w]) auto
next
  fix i and s :: "nat \<times> trail" and w and s' and d
  assume a: "outages_only H W \<and> classify H (Some (fst s)) = Outage \<and> i \<le> sends (snd s)"
    "persist_body q H W 0 i s w = Inr (s', d)"
  then show "outages_only H W \<and> classify H (Some (fst s')) = Outage \<and> Suc i \<le> sends (snd s')"
    by (cases rule: persist_body_cases [of q H W 0 i "fst s" "snd s" w]) (auto simp: outages_only_def)
qed

interpretation steadfast: honest "outage_body e H W wait_s"
    "\<lambda>i s w. outages_only H W \<and> classify H (Some (fst s)) = Outage"
    "\<lambda>r. (\<forall>o1. fst r = Some o1 \<longrightarrow> o1 = Stopped \<or> o1 = Steered \<or> (\<exists>v. o1 = Answer v)) \<and>
         classify H (Some (fst (snd r))) = Outage" for e H W wait_s
  by unfold_locales
    (auto simp: outage_body_def outages_only_def answer_of_def Let_def
      split: if_splits pause_end.splits reply.splits prod.splits)

lemma sweep_outage:
  assumes "outages_only H W"
  shows "classify H (Some x) = Outage \<Longrightarrow> sweep H W P hf n rn over x tr = (r, tr') \<Longrightarrow>
    (\<forall>o1. r = Ended o1 \<longrightarrow> o1 = Stopped \<or> o1 = Steered) \<and> (\<forall>y. r = Still y \<longrightarrow> classify H (Some y) = Outage)"
proof (induction n arbitrary: rn over x tr)
  case (Suc n)
  let ?R = "W rn"
  obtain ov tr1 where z: "sized hf over tr = (ov, tr1)" by fastforce
  show ?case
  proof (cases "\<not> r_cancelled ?R \<and> \<not> over_budget P (r_calls ?R) \<and> r_pause ?R = Elapsed \<and> (\<exists>y. r_reply ?R = Raised y)")
    case True
    then obtain y where y: "r_reply ?R = Raised y" by blast
    then have "classify H (Some y) = Outage" using assms by (auto simp: outages_only_def)
    from Suc.IH [OF this] show ?thesis using Suc.prems True y z by (simp add: Let_def)
  next
    case False
    then show ?thesis using Suc.prems z
      by (cases "r_pause ?R"; cases "r_reply ?R") (auto simp: Let_def split: if_splits)
  qed
qed auto

text \<open>A recovery that did not give up: an answer, or the user.\<close>

definition not_lost :: "'v outcome \<times> trail \<Rightarrow> bool" where
  "not_lost r \<longleftrightarrow> fst r = Stopped \<or> fst r = Steered \<or> (\<exists>v. fst r = Answer v) \<or> big \<le> sends (snd r)"

lemma last_resort_outage:
  assumes "q_persist q = 0" and "outages_only H (last_w C)" and "classify H (Some x) = Outage"
    and "last_resort q H C fuel [] x tr = Some r"
  shows "not_lost r"
proof -
  obtain a y tr1 where p: "persist_until_answer q H (last_w C) fuel x tr = Some (a, y, tr1)"
    using assms(1,4) by (auto simp: last_resort_def split: option.splits)
  have "outages_only H (last_w C) \<and> classify H (Some (fst (x, tr))) = Outage \<and> 0 \<le> sends (snd (x, tr))"
    using assms(2,3) by simp
  from undaunted.sound [OF this] p assms(1) have
    "(\<forall>o1. a = Some o1 \<longrightarrow> o1 = Stopped \<or> o1 = Steered \<or> (\<exists>v. o1 = Answer v)) \<and> (a = None \<longrightarrow> big \<le> sends tr1)"
    by (fastforce simp: persist_until_answer_def)
  then show ?thesis using assms(1,4) p by (cases a) (auto simp: last_resort_def not_lost_def)
qed

lemma after_issue_outage:
  assumes "q_persist q = 0" and "outages_only H (last_w C)" and "outages_only H (outage_w C)"
    and "classify H (Some x) = Outage" and "after_issue e q H C fuel wait_s [] x tr = Some r"
  shows "not_lost r"
proof (cases "will_wait e wait_s \<and> outage_waitable H x")
  case True
  then obtain a y tr1 where w: "wait_out_outage (outage_stop C) e H (outage_w C) fuel x (the wait_s) tr = Some (a, y, tr1)"
    using assms(5) outage_no_issue [OF assms(4)] by (auto simp: after_issue_def split: option.splits)
  have "outages_only H (outage_w C) \<and> classify H (Some (fst (x, tr))) = Outage" using assms(3,4) by simp
  from steadfast.sound [OF this] w assms(4) have
    o1: "(\<forall>o1. a = Some o1 \<longrightarrow> o1 = Stopped \<or> o1 = Steered \<or> (\<exists>v. o1 = Answer v)) \<and> classify H (Some y) = Outage"
    by (fastforce simp: wait_out_outage_def split: if_splits)
  show ?thesis
  proof (cases a)
    case None
    then have "last_resort q H C fuel [] y tr1 = Some r"
      using assms(5) True w outage_no_issue [OF assms(4)] o1 outage_no_issue [of H y] by (simp add: after_issue_def)
    then show ?thesis using last_resort_outage assms(1,2) o1 by blast
  next
    case (Some o2)
    then show ?thesis using assms(5) True w outage_no_issue [OF assms(4)] o1
      by (auto simp: after_issue_def not_lost_def)
  qed
next
  case False
  then have "last_resort q H C fuel [] x tr = Some r"
    using assms(5) outage_no_issue [OF assms(4)] by (auto simp: after_issue_def)
  then show ?thesis using last_resort_outage assms(1,2,4) by blast
qed

text \<open>A model that is down does not fail a chat: when every failure is an outage and persisting has
  no bound (the default), the recovery ends only with an answer, with Stop or with a typed message;
  short of a thousand million sends it never gives up, whatever bound the outage wait has.\<close>

theorem outage_never_fails:
  assumes "run_with_policy e q H C fuel x calls wait_s = Some r"
    and "classify H (Some x) = Outage" and "\<not> x_missing (H x)" and "q_persist q = 0"
    and "list_all (outages_only H) [sweep_w C, outage_w C, last_w C]"
  shows "fst r = Stopped \<or> fst r = Steered \<or> (\<exists>v. fst r = Answer v) \<or> 10 ^ 9 \<le> sends (snd r)"
proof -
  let ?P = "sweep_plan q H x calls"
  let ?n = "if will_wait e wait_s \<and> (outage_waitable H x \<or> was_waited H (Some x)) then 0 else retries ?P"
  let ?over = "if is_context_overflow H (Some x) then 1 else 0"
  obtain a tr where s: "sweep H (sweep_w C) ?P (has_first C) ?n 0 ?over x no_trail = (a, tr)" by fastforce
  have o1: "outages_only H (sweep_w C)" "outages_only H (outage_w C)" "outages_only H (last_w C)"
    using assms(5) by simp_all
  have cfg: "cfg_error ?P = []" using assms(3) by (simp add: sweep_plan_def Let_def)
  have "not_lost r"
  proof (cases a)
    case (Still y)
    then have y: "classify H (Some y) = Outage" using sweep_outage [OF o1(1) assms(2) s] by simp
    have "after_sweep e q H C fuel wait_s [] y tr = Some r"
      using assms(1) s Still outage_no_issue [OF assms(2)] cfg by (simp add: run_with_policy_def Let_def)
    then have "after_issue e q H C fuel wait_s [] y tr = Some r"
      using outage_no_issue [OF y] by (simp add: after_sweep_def)
    then show ?thesis using after_issue_outage assms(4) o1 y by blast
  next
    case (Ended o2)
    then show ?thesis using assms(1) s outage_no_issue [OF assms(2)] sweep_outage [OF o1(1) assms(2) s]
      by (auto simp: run_with_policy_def Let_def not_lost_def)
  next
    case (Got v)
    then show ?thesis using assms(1) s outage_no_issue [OF assms(2)]
      by (auto simp: run_with_policy_def Let_def not_lost_def)
  next
    case Was_cut
    then show ?thesis using assms(1) s outage_no_issue [OF assms(2)]
      by (auto simp: run_with_policy_def Let_def not_lost_def)
  qed
  then show ?thesis by (simp add: not_lost_def big_def)
qed

section \<open>What gives up, and when\<close>

text \<open>A round in which nobody interrupts and the send fails again.\<close>

definition fails_with :: "'v round \<Rightarrow> nat \<Rightarrow> bool" where
  "fails_with R y \<longleftrightarrow> \<not> r_cancelled R \<and> why_now (r_src R) = None \<and> r_pause R = Elapsed \<and> r_reply R = Raised y"

lemma persist_rounds:
  assumes "\<forall>i. fails_with (W i) (y i)" and "\<forall>i. persist_caps q H (y i) = (n, 0)"
  shows "persist_caps q H x = (n, 0) \<Longrightarrow> i \<le> n \<Longrightarrow> n - i < f \<Longrightarrow>
    \<exists>z. wait_run (persist_body q H W 0) f i (x, tr) w = Some (None, z, tr\<lparr>sends := sends tr + (n - i)\<rparr>)"
proof (induction f arbitrary: i x tr w)
  case (Suc f)
  show ?case
  proof (cases "i = n")
    case True
    then show ?thesis using Suc.prems assms(1) by (auto simp: persist_body_def fails_with_def Let_def)
  next
    case False
    then have "Suc i \<le> n" using Suc.prems by simp
    then obtain z where "wait_run (persist_body q H W 0) f (Suc i) (y i, sent_one tr) (w + persist_gap i) =
        Some (None, z, (sent_one tr)\<lparr>sends := sends (sent_one tr) + (n - Suc i)\<rparr>)"
      using Suc.IH [of "y i" "Suc i" "sent_one tr" "w + persist_gap i"] Suc.prems assms(2) by fastforce
    moreover have "persist_body q H W 0 i (x, tr) w = Inr ((y i, sent_one tr), persist_gap i)"
      using assms(1) Suc.prems \<open>Suc i \<le> n\<close> by (auto simp: persist_body_def fails_with_def Let_def)
    moreover have "sends (sent_one tr) + (n - Suc i) = sends tr + (n - i)" using \<open>Suc i \<le> n\<close> by simp
    ultimately show ?thesis by (auto simp: sent_one_def)
  qed
qed simp

text \<open>A request the server rejects is not sent for ever: when every failure is a configuration error,
  persisting without a bound sends the request five times more, and gives up; for a request the model
  received, twice.\<close>

theorem rejected_request_rounds:
  assumes "v = Config \<and> n = 5 \<or> v = Shipped \<and> n = 2"
    and "\<forall>i. fails_with (W i) (y i) \<and> classify H (Some (y i)) = v" and "classify H (Some x) = v"
    and "q_persist q = 0"
  shows "\<exists>z. persist_until_answer q H W (Suc n) x no_trail = Some (None, z, no_trail\<lparr>sends := n\<rparr>)"
proof -
  have c: "persist_caps q H z = (n, 0)" if "classify H (Some z) = v" for z
    using assms(1) that by (auto simp: persist_caps_def config_rounds_def)
  have "\<forall>i. fails_with (W i) (y i)" "\<forall>i. persist_caps q H (y i) = (n, 0)" "persist_caps q H x = (n, 0)"
    using assms(2,3) c by auto
  from persist_rounds [OF this, of 0 "Suc n" no_trail 0] show ?thesis
    by (simp add: persist_until_answer_def assms(4) no_trail_def)
qed

text \<open>The pauses of the rounds take their time.\<close>

definition timed :: "(nat \<Rightarrow> 'v round) \<Rightarrow> bool" where
  "timed W \<longleftrightarrow> (\<forall>i. 5 * of_nat i \<le> r_elapsed (W i))"

lemma persist_gap_ge: "5 \<le> persist_gap k"
proof -
  have "k < 4 \<Longrightarrow> k = 0 \<or> k = 1 \<or> k = 2 \<or> k = 3" by auto
  then show ?thesis by (auto simp: persist_gap_def)
qed

interpretation persists: patient "persist_body q H W limit" "\<lambda>i s w. 0 < limit \<and> timed W" "\<lambda>r. True"
    "\<lambda>i s w. nat \<lfloor>limit / 5\<rfloor> - i" for q H W limit
proof unfold_locales
  fix i and s :: "nat \<times> trail" and w and s' and d
  assume a: "0 < limit \<and> timed W" "persist_body q H W limit i s w = Inr (s', d)"
  then have "\<not> limit < r_elapsed (W i) + persist_gap i"
    by (cases rule: persist_body_cases [of q H W limit i "fst s" "snd s" w]) auto
  moreover have "5 * of_nat i \<le> r_elapsed (W i)" using a(1) by (simp add: timed_def)
  ultimately have "of_nat (Suc i) \<le> limit / 5" using persist_gap_ge [of i] by simp
  then have "int (Suc i) \<le> \<lfloor>limit / 5\<rfloor>" by (simp add: le_floor_iff)
  then show "nat \<lfloor>limit / 5\<rfloor> - Suc i < nat \<lfloor>limit / 5\<rfloor> - i" by linarith
qed simp_all

interpretation waits_out: patient "outage_body e H W wait_s" "\<lambda>i s w. 0 < wait_s \<and> w \<le> wait_s" "\<lambda>r. True"
    "\<lambda>i s w. ticks 0 (wait_s - w)" for e H W wait_s
proof unfold_locales
  fix i and s :: "nat \<times> trail" and w and s' and d
  assume a: "0 < wait_s \<and> w \<le> wait_s" "outage_body e H W wait_s i s w = Inr (s', d)"
  then have d: "d = delays (probe_max_s e) i" "w + d \<le> wait_s"
    by (auto simp: outage_body_def Let_def answer_of_def split: if_splits pause_end.splits reply.splits prod.splits)
  then have "1 \<le> d" using delays_ge [OF probe_max_ge] by simp
  then show "ticks 0 (wait_s - (w + d)) < ticks 0 (wait_s - w)"
    using ticks_step [of 0 d "wait_s - w"] d(2) by (simp add: diff_diff_eq)
  show "0 < wait_s \<and> w + d \<le> wait_s" using a(1) d(2) by simp
qed simp

lemma persist_returns:
  assumes "0 < q_persist q" and "timed W" and "nat \<lfloor>q_persist q / 5\<rfloor> < fuel"
  shows "\<exists>r. persist_until_answer q H W fuel x tr = Some r"
  using persists.returns [of "q_persist q" W 0 fuel q H "(x, tr)" 0] assms by (auto simp: persist_until_answer_def)

lemma outage_returns:
  assumes "0 < wait_s" and "ticks 0 wait_s < fuel"
  shows "\<exists>r. wait_out_outage stop e H W fuel x wait_s tr = Some r"
  using waits_out.returns [where wait_s = wait_s and w = 0 and f = fuel and i = 0] assms by (auto simp: wait_out_outage_def)

text \<open>With bounds on persisting and on the outage wait the recovery returns, whatever the model
  answers and whatever the user does.\<close>

theorem recovery_returns:
  assumes "0 < q_persist q" and "list_all timed [issue_w C, last_w C]"
    and "wait_s = None \<or> wait_s = Some b \<and> 0 < b" and "nat \<lfloor>q_persist q / 5\<rfloor> < fuel" and "ticks 0 b < fuel"
  shows "\<exists>r. run_with_policy e q H C fuel x calls wait_s = Some r"
proof -
  have l: "\<exists>r. last_resort q H C fuel cfg z tr = Some r" for cfg z tr
    using persist_returns [of q "last_w C" fuel H z tr] assms(1,2,4)
    by (auto simp: last_resort_def split: option.splits prod.splits)
  have i: "\<exists>r. after_issue e q H C fuel wait_s cfg z tr = Some r" for cfg z tr
  proof (cases "llm_issue_of H (Some z) = None \<and> will_wait e wait_s \<and> outage_waitable H z")
    case True
    then have "wait_s = Some b" "0 < b" using assms(3) by (auto simp: will_wait_def)
    then obtain a y t where "wait_out_outage (outage_stop C) e H (outage_w C) fuel z b tr = Some (a, y, t)"
      using outage_returns [OF _ assms(5), of "outage_stop C" e H "outage_w C" z tr] by auto
    then show ?thesis using True \<open>wait_s = Some b\<close> l
      by (cases a; cases "llm_issue_of H (Some y)") (auto simp: after_issue_def)
  next
    case False
    then show ?thesis using l by (auto simp: after_issue_def split: option.splits)
  qed
  have p: "\<exists>a y t. persist_until_answer q H (issue_w C) fuel z tr = Some (a, y, t)" for z tr
    using persist_returns [of q "issue_w C" fuel H z tr] assms(1,2,4) by auto
  have a: "\<exists>r. after_sweep e q H C fuel wait_s cfg z tr = Some r" for cfg z tr
  proof -
    obtain o1 y t where "persist_until_answer q H (issue_w C) fuel z tr = Some (o1, y, t)" using p by blast
    then show ?thesis using i by (cases o1) (auto simp: after_sweep_def)
  qed
  show ?thesis
  proof (cases "llm_issue_of H (Some x)")
    case None
    then show ?thesis using a by (auto simp: run_with_policy_def Let_def split: prod.splits sweep_end.splits)
  next
    case (Some f)
    obtain o1 y t where "persist_until_answer q H (issue_w C) fuel x no_trail = Some (o1, y, t)" using p by blast
    then show ?thesis using Some by (cases o1) (auto simp: run_with_policy_def)
  qed
qed

section \<open>Instances\<close>

definition failing_round :: "nat \<Rightarrow> nat round" where
  "failing_round i = \<lparr>r_cancelled = False, r_src = calm, r_elapsed = 40 * of_nat i, r_later = 40 * of_nat i,
                      r_pause = Elapsed, r_reply = Raised 0, r_calls = Some (2 * int i)\<rparr>"

definition answering_round :: "nat \<Rightarrow> nat round" where
  "answering_round i = (failing_round i)\<lparr>r_reply := (if i = 1 then Answered 7 else Raised 0)\<rparr>"

definition course_of :: "(nat \<Rightarrow> nat round) \<Rightarrow> nat course" where
  "course_of W = \<lparr>sweep_w = W, issue_w = W, outage_w = W, last_w = W, outage_stop = False, has_first = True\<rparr>"

definition refused_heap :: heap where
  "refused_heap = (\<lambda>_. plain ''ConnectionRefusedError'' [''ConnectionRefusedError'', ''OSError''] ''refused'')"

definition rejected_heap :: heap where
  "rejected_heap = (\<lambda>_. (plain ''HTTPError'' [''HTTPError'', ''URLError'', ''OSError''] ''Bad Request'')\<lparr>x_code := PInt 400\<rparr>)"

definition no_env :: env where "no_env = (\<lambda>_. None)"

lemma instance_verdicts:
  "classify refused_heap (Some 0) = Outage" "classify rejected_heap (Some 0) = Config"
  "x_missing (refused_heap 0) = False"
  by code_simp+

lemma instance_rounds:
  "fails_with (failing_round i) 0" "timed failing_round"
  "outages_only refused_heap failing_round" "outages_only refused_heap answering_round"
  using instance_verdicts
  by (auto simp: fails_with_def timed_def outages_only_def failing_round_def answering_round_def split: if_splits)

definition lasting :: policy where
  "lasting = (from_env no_env False)\<lparr>q_sweeps := 3\<rparr>"

lemma lasting_persists: "q_persist lasting = 0"
  by code_simp

theorem sweep_within_budget_witness:
  "sends (snd (sweep refused_heap failing_round \<lparr>retries = 3, budget = 4, cfg_error = [], spent0 = 0\<rparr> True 3 0 0 0
     no_trail)) \<le> 3"
proof -
  let ?P = "\<lparr>retries = 3, budget = 4, cfg_error = [], spent0 = 0\<rparr> :: plan"
  obtain r tr where s: "sweep refused_heap failing_round ?P True (retries ?P) 0 0 0 no_trail = (r, tr)" by fastforce
  have "\<forall>i. r_calls (failing_round i) = Some (2 * int i)" by (simp add: failing_round_def)
  from sweep_within_budget [OF s _ this] s show ?thesis by simp
qed

theorem outage_never_fails_witness:
  "\<exists>r. run_with_policy no_env lasting refused_heap (course_of answering_round) 9 0 None (Some 0) = Some r \<and>
    (fst r = Stopped \<or> fst r = Steered \<or> (\<exists>v. fst r = Answer v) \<or> 10 ^ 9 \<le> sends (snd r))"
proof -
  have "run_with_policy no_env lasting refused_heap (course_of answering_round) 9 0 None (Some 0) \<noteq> None"
    by code_simp
  then obtain r where r: "run_with_policy no_env lasting refused_heap (course_of answering_round) 9 0 None (Some 0) = Some r"
    by blast
  from outage_never_fails [OF this instance_verdicts(1) _ lasting_persists] r instance_verdicts(3) instance_rounds(4)
  show ?thesis by (simp add: course_of_def)
qed

theorem rejected_request_rounds_witness:
  "\<exists>z. persist_until_answer lasting rejected_heap failing_round 6 0 no_trail = Some (None, z, no_trail\<lparr>sends := 5\<rparr>)"
  using rejected_request_rounds [of Config 5 failing_round "\<lambda>_. 0" rejected_heap 0 lasting]
    instance_rounds(1) instance_verdicts(2) lasting_persists by simp

theorem recovery_returns_witness:
  "\<exists>r. run_with_policy no_env (lasting\<lparr>q_persist := 60\<rparr>) refused_heap (course_of failing_round) 70 0 None (Some 30)
     = Some r"
  using recovery_returns [of "lasting\<lparr>q_persist := 60\<rparr>" "course_of failing_round" "Some 30" 30 70] instance_rounds(2)
  by (simp add: course_of_def ticks_def)

end
