(* ===== verification/Approvals.thy ===== *)
theory Approvals
  imports Py_Strings
begin

text \<open>
  The registry of approvals of a chat, \<^verbatim>\<open>runtime/chat_approve.py\<close>. A gated tool call opens a
  request, sends its card to the user and blocks until a click, a stop, the end of the run, a newer
  request or a timeout decides it. The requests are objects other threads hold on to, so the
  registry has a heap of them; the threads that ask, click, stop and finish interleave, and every
  move below is one critical section (or one unlocked access) of the code.
\<close>

section \<open>The registry\<close>

text \<open>\<^verbatim>\<open>_Pending\<close>: its event is a flag.\<close>

record pending =
  p_set :: bool
  p_decision :: string
  p_note :: string
  p_seq :: int
  p_expired :: bool

definition fresh_pending :: "int \<Rightarrow> pending" where
  "fresh_pending n =
     \<lparr>p_set = False, p_decision = ''reject'', p_note = [], p_seq = n, p_expired = False\<rparr>"

text \<open>The module's tables. A registered emitter is some callable, \<open>'f\<close>.\<close>

record 'f registry =
  entries :: "pending list"
  pending_of :: "int \<Rightarrow> nat option"
  last_seq :: "int \<Rightarrow> int option"
  held_edits :: "int \<Rightarrow> bool option"
  mode_of :: "int \<Rightarrow> string option"
  emitter_of :: "int \<Rightarrow> 'f option"

definition empty_registry :: "'f registry" where
  "empty_registry = \<lparr>entries = [], pending_of = Map.empty, last_seq = Map.empty,
     held_edits = Map.empty, mode_of = Map.empty, emitter_of = Map.empty\<rparr>"

section \<open>Flags, modes and emitters of a session\<close>

definition set_review_edits :: "int option \<Rightarrow> bool \<Rightarrow> 'f registry \<Rightarrow> 'f registry" where
  "set_review_edits sid on r =
     (case sid of None \<Rightarrow> r
      | Some s \<Rightarrow> r\<lparr>held_edits := (held_edits r)(s := (if on then Some True else None))\<rparr>)"

definition review_edits :: "int option \<Rightarrow> 'f registry \<Rightarrow> bool" where
  "review_edits sid r = (case sid of None \<Rightarrow> False | Some s \<Rightarrow> held_edits r s = Some True)"

definition set_mode :: "int option \<Rightarrow> string \<Rightarrow> 'f registry \<Rightarrow> 'f registry" where
  "set_mode sid mode r =
     (case sid of None \<Rightarrow> r
      | Some s \<Rightarrow> (let m = lower (strip mode) in
          r\<lparr>mode_of := (mode_of r)(s \<mapsto> (if m = [] then ''simple'' else m))\<rparr>))"

definition get_mode :: "int option \<Rightarrow> 'f registry \<Rightarrow> string" where
  "get_mode sid r =
     (case sid of None \<Rightarrow> []
      | Some s \<Rightarrow> (case mode_of r s of None \<Rightarrow> [] | Some m \<Rightarrow> m))"

text \<open>\<^verbatim>\<open>approvals_required\<close>: \<open>required\<close> is \<^verbatim>\<open>approval_settings.required\<close>, which may raise.\<close>

definition approvals_required :: "(string \<Rightarrow> int \<Rightarrow> bool res) \<Rightarrow> int option \<Rightarrow> 'f registry \<Rightarrow> bool" where
  "approvals_required required sid r =
     (case sid of None \<Rightarrow> True | Some s \<Rightarrow> or_else (required (get_mode sid r) s) True)"

definition set_emitter :: "int \<Rightarrow> 'f \<Rightarrow> 'f registry \<Rightarrow> 'f registry" where
  "set_emitter s f r = r\<lparr>emitter_of := (emitter_of r)(s \<mapsto> f)\<rparr>"

definition clear_emitter :: "int \<Rightarrow> 'f registry \<Rightarrow> 'f registry" where
  "clear_emitter s r = r\<lparr>emitter_of := (emitter_of r)(s := None)\<rparr>"

definition has_emitter :: "int option \<Rightarrow> 'f registry \<Rightarrow> bool" where
  "has_emitter sid r = (case sid of None \<Rightarrow> False | Some s \<Rightarrow> emitter_of r s \<noteq> None)"

text \<open>\<open>call f e\<close> is what the callable does with the event: it may raise.\<close>

definition emit :: "('f \<Rightarrow> 'e \<Rightarrow> unit res) \<Rightarrow> int \<Rightarrow> 'e \<Rightarrow> 'f registry \<Rightarrow> bool" where
  "emit call s e r =
     (case emitter_of r s of None \<Rightarrow> False | Some f \<Rightarrow> (case call f e of Inl _ \<Rightarrow> False | Inr _ \<Rightarrow> True))"

definition timeout_s :: "(string \<Rightarrow> string option) \<Rightarrow> rat" where
  "timeout_s e =
     (case float_of_str (env_get e ''AIFORGE_CHAT_APPROVAL_TIMEOUT_S'' ''900'') of
        None \<Rightarrow> 900 | Some r \<Rightarrow> r)"

section \<open>Requests and their resolution\<close>

definition refuse :: "string \<Rightarrow> pending \<Rightarrow> pending" where
  "refuse note p = p\<lparr>p_decision := ''reject'', p_note := note, p_set := True\<rparr>"

definition on_entry :: "nat \<Rightarrow> (pending \<Rightarrow> pending) \<Rightarrow> 'f registry \<Rightarrow> 'f registry" where
  "on_entry a f r = r\<lparr>entries := (entries r)[a := f (entries r ! a)]\<rparr>"

definition open_at :: "'f registry \<Rightarrow> nat \<Rightarrow> bool" where
  "open_at r a = (\<not> p_set (entries r ! a))"

definition request :: "int \<Rightarrow> 'f registry \<Rightarrow> int \<times> 'f registry" where
  "request s r =
     (let n = (case last_seq r s of None \<Rightarrow> 0 | Some k \<Rightarrow> k) + 1;
          r1 = (case pending_of r s of None \<Rightarrow> r
                | Some a \<Rightarrow> if open_at r a then on_entry a (refuse ''superseded'') r else r)
      in (n, r1\<lparr>last_seq := (last_seq r)(s \<mapsto> n),
                entries := entries r1 @ [fresh_pending n],
                pending_of := (pending_of r)(s \<mapsto> length (entries r1))\<rparr>))"

definition says_yes :: "string \<Rightarrow> bool" where
  "says_yes d \<longleftrightarrow> lower d \<in> {''approve'', ''approved'', ''yes'', ''ok'', ''allow''}"

definition decide_entry :: "string \<Rightarrow> string \<Rightarrow> pending \<Rightarrow> pending" where
  "decide_entry d note p =
     p\<lparr>p_decision := (if says_yes d then ''approve'' else ''reject''), p_note := note, p_set := True\<rparr>"

text \<open>Does a click with this number reach the entry?\<close>

definition reaches :: "int option \<Rightarrow> pending \<Rightarrow> bool" where
  "reaches sq p \<longleftrightarrow> (case sq of None \<Rightarrow> True | Some n \<Rightarrow> n = p_seq p) \<and> \<not> p_expired p"

definition resolve :: "int \<Rightarrow> string \<Rightarrow> string \<Rightarrow> int option \<Rightarrow> 'f registry \<Rightarrow> bool \<times> 'f registry" where
  "resolve s d note sq r =
     (case pending_of r s of None \<Rightarrow> (False, r)
      | Some a \<Rightarrow> if reaches sq (entries r ! a) then (True, on_entry a (decide_entry d note) r)
                  else (False, r))"

definition cancel :: "int \<Rightarrow> 'f registry \<Rightarrow> 'f registry" where
  "cancel s r =
     (case pending_of r s of None \<Rightarrow> r
      | Some a \<Rightarrow> if open_at r a then on_entry a (refuse ''cancelled'') r else r)"

text \<open>\<^verbatim>\<open>finish\<close> drops the session's entries under the lock and wakes the waiter after it.\<close>

definition finish_drop :: "int \<Rightarrow> 'f registry \<Rightarrow> nat option \<times> 'f registry" where
  "finish_drop s r =
     (pending_of r s,
      r\<lparr>pending_of := (pending_of r)(s := None), held_edits := (held_edits r)(s := None),
        mode_of := (mode_of r)(s := None)\<rparr>)"

definition finish_wake :: "nat option \<Rightarrow> 'f registry \<Rightarrow> 'f registry" where
  "finish_wake p r =
     (case p of None \<Rightarrow> r
      | Some a \<Rightarrow> if open_at r a then on_entry a (refuse ''run finished'') r else r)"

text \<open>The end of a wait whose time ran out, under the lock: the entry expires unless it was
  decided meanwhile.\<close>

definition wait_expire :: "nat \<Rightarrow> 'f registry \<Rightarrow> bool \<times> 'f registry" where
  "wait_expire a r =
     (if open_at r a then (True, on_entry a (\<lambda>p. p\<lparr>p_expired := True, p_set := True\<rparr>) r)
      else (False, r))"

section \<open>Threads\<close>

text \<open>
  A thread that asks has opened its request (\<open>Asked\<close>, with its number), looked its entry up
  (\<open>Waiting\<close>), been woken (\<open>Woken\<close>) or run out of time (\<open>Timed\<close>), read the decision (\<open>Read\<close>) and
  then the note (\<open>Answered\<close>). A thread that finishes a session wakes the entry it dropped
  (\<open>Finishing\<close>). The moves call no emitter, so which callables are registered is left out.
\<close>

datatype thread =
    Asked int int
  | Waiting int int nat
  | Timed int int nat
  | Woken int int nat
  | Read int int nat string
  | Answered int int string string
  | Finishing "nat option"
  | Gone

datatype move =
    Ask nat int
  | Look nat
  | Wake nat
  | Give_up nat
  | Expire nat
  | Read_decision nat
  | Read_note nat
  | Click int string string "int option"
  | Stop int
  | Finish nat int
  | Release nat

record world =
  reg :: "unit registry"
  threads :: "nat \<Rightarrow> thread option"

definition idle_world :: "world" where
  "idle_world = \<lparr>reg = empty_registry, threads = Map.empty\<rparr>"

abbreviation put_thread :: "nat \<Rightarrow> thread \<Rightarrow> world \<Rightarrow> world" where
  "put_thread t x w \<equiv> w\<lparr>threads := (threads w)(t \<mapsto> x)\<rparr>"

text \<open>One move; \<open>None\<close> when the thread is not at that point.\<close>

fun act :: "move \<Rightarrow> world \<Rightarrow> world option" where
  "act (Ask t s) w =
     (case threads w t of Some _ \<Rightarrow> None
      | None \<Rightarrow> (let q = request s (reg w) in
          Some (put_thread t (Asked s (fst q)) (w\<lparr>reg := snd q\<rparr>))))"
| "act (Look t) w =
     (case threads w t of
        Some (Asked s n) \<Rightarrow>
          Some (put_thread t (case pending_of (reg w) s of
                                None \<Rightarrow> Answered s n ''reject'' ''no pending approval''
                              | Some a \<Rightarrow> Waiting s n a) w)
      | _ \<Rightarrow> None)"
| "act (Wake t) w =
     (case threads w t of
        Some (Waiting s n a) \<Rightarrow> if open_at (reg w) a then None else Some (put_thread t (Woken s n a) w)
      | _ \<Rightarrow> None)"
| "act (Give_up t) w =
     (case threads w t of
        Some (Waiting s n a) \<Rightarrow> if open_at (reg w) a then Some (put_thread t (Timed s n a) w) else None
      | _ \<Rightarrow> None)"
| "act (Expire t) w =
     (case threads w t of
        Some (Timed s n a) \<Rightarrow> (let x = wait_expire a (reg w) in
          Some (put_thread t (if fst x then Answered s n ''reject'' ''approval timed out''
                              else Woken s n a) (w\<lparr>reg := snd x\<rparr>)))
      | _ \<Rightarrow> None)"
| "act (Read_decision t) w =
     (case threads w t of
        Some (Woken s n a) \<Rightarrow> Some (put_thread t (Read s n a (p_decision (entries (reg w) ! a))) w)
      | _ \<Rightarrow> None)"
| "act (Read_note t) w =
     (case threads w t of
        Some (Read s n a d) \<Rightarrow> Some (put_thread t (Answered s n d (p_note (entries (reg w) ! a))) w)
      | _ \<Rightarrow> None)"
| "act (Click s d note sq) w = Some (w\<lparr>reg := snd (resolve s d note sq (reg w))\<rparr>)"
| "act (Stop s) w = Some (w\<lparr>reg := cancel s (reg w)\<rparr>)"
| "act (Finish t s) w =
     (case threads w t of Some _ \<Rightarrow> None
      | None \<Rightarrow> (let x = finish_drop s (reg w) in
          Some (put_thread t (Finishing (fst x)) (w\<lparr>reg := snd x\<rparr>))))"
| "act (Release t) w =
     (case threads w t of
        Some (Finishing p) \<Rightarrow> Some (put_thread t Gone (w\<lparr>reg := finish_wake p (reg w)\<rparr>))
      | _ \<Rightarrow> None)"

text \<open>The runs of the system, the moves in order.\<close>

inductive run :: "move list \<Rightarrow> world \<Rightarrow> bool" where
  run_start: "run [] idle_world"
| run_move: "run ms w \<Longrightarrow> act m w = Some w' \<Longrightarrow> run (ms @ [m]) w'"

fun exec :: "world \<Rightarrow> move list \<Rightarrow> world option" where
  "exec w [] = Some w"
| "exec w (m # ms) = (case act m w of None \<Rightarrow> None | Some w' \<Rightarrow> exec w' ms)"

lemma run_exec: "run ps w \<Longrightarrow> exec w ms = Some w' \<Longrightarrow> run (ps @ ms) w'"
proof (induction ms arbitrary: ps w)
  case (Cons m ms)
  then obtain u where "act m w = Some u" "exec u ms = Some w'" by (auto split: option.splits)
  from Cons.IH [OF run_move [OF Cons.prems(1) this(1)] this(2)] show ?case by simp
qed simp

lemma run_idle: "exec idle_world ms = Some w \<Longrightarrow> run ms w"
  using run_exec [OF run_start, of ms w] by simp

section \<open>Who owns an entry, and its number\<close>

text \<open>The entries are made by the \<open>Ask\<close> moves, in their order.\<close>

definition askers :: "move list \<Rightarrow> int list" where
  "askers ms = concat (map (\<lambda>m. case m of Ask t s \<Rightarrow> [s] | _ \<Rightarrow> []) ms)"

text \<open>The number of an entry: which request of its session it is.\<close>

definition ticket :: "int list \<Rightarrow> nat \<Rightarrow> int" where
  "ticket os a = int (count_list (take (Suc a) os) (os ! a))"

lemma askers_snoc: "askers (ms @ [m]) = askers ms @ (case m of Ask t s \<Rightarrow> [s] | _ \<Rightarrow> [])"
  by (simp add: askers_def)

lemma ticket_append: "a < length os \<Longrightarrow> ticket (os @ ps) a = ticket os a"
  by (simp add: ticket_def nth_append)

lemma ticket_last: "ticket (os @ [s]) (length os) = int (count_list os s) + 1"
  by (simp add: ticket_def)

lemma ticket_le: "a < length os \<Longrightarrow> ticket os a \<le> int (count_list os (os ! a))"
proof -
  have "count_list os (os ! a) = count_list (take (Suc a) os @ drop (Suc a) os) (os ! a)" by simp
  then show ?thesis unfolding ticket_def count_list_append by linarith
qed

lemma ticket_pos: "a < length os \<Longrightarrow> 0 < count_list os (os ! a)"
  by (metis count_list_0_iff gr0I nth_mem)

lemma ticket_mono:
  assumes "a < b" and "b < length os" and "os ! a = os ! b"
  shows "ticket os a < ticket os b"
proof -
  have "take (Suc b) os = take b os @ [os ! b]" using assms(2) by (rule take_Suc_conv_app_nth)
  moreover have "take b os = take (Suc a) os @ drop (Suc a) (take b os)"
    using assms(1) by (metis append_take_drop_id min.absorb1 Suc_leI take_take)
  ultimately have "take (Suc b) os = take (Suc a) os @ drop (Suc a) (take b os) @ [os ! b]"
    by (metis append.assoc)
  then have "count_list (take (Suc b) os) (os ! b) =
      count_list (take (Suc a) os) (os ! b) + count_list (drop (Suc a) (take b os)) (os ! b) + 1"
    by (simp only: count_list_append) simp
  then show ?thesis by (simp add: ticket_def assms(3))
qed

section \<open>Invariant of the registry\<close>

text \<open>\<open>os\<close> are the sessions that asked, \<open>A\<close> the entries a click approved.\<close>

definition entry_ok :: "int list \<Rightarrow> (nat \<Rightarrow> bool) \<Rightarrow> nat \<Rightarrow> pending \<Rightarrow> bool" where
  "entry_ok os A a p \<longleftrightarrow> p_seq p = ticket os a \<and>
     (p_decision p = ''reject'' \<or> p_decision p = ''approve'' \<and> A a)"

definition reg_ok :: "int list \<Rightarrow> (nat \<Rightarrow> bool) \<Rightarrow> 'f registry \<Rightarrow> bool" where
  "reg_ok os A r \<longleftrightarrow>
     length (entries r) = length os \<and>
     (\<forall>s. last_seq r s = (if count_list os s = 0 then None else Some (int (count_list os s)))) \<and>
     (\<forall>s a. pending_of r s = Some a \<longrightarrow> a < length os \<and> os ! a = s \<and> ticket os a = int (count_list os s)) \<and>
     (\<forall>a < length os. entry_ok os A a (entries r ! a))"

lemma on_entry_at:
  "b < length (entries r) \<Longrightarrow>
     entries (on_entry a f r) ! b = (if a = b then f (entries r ! b) else entries r ! b)"
  by (simp add: on_entry_def nth_list_update)

lemma on_entry_fields [simp]:
  "pending_of (on_entry a f r) = pending_of r" "last_seq (on_entry a f r) = last_seq r"
  "length (entries (on_entry a f r)) = length (entries r)"
  by (simp_all add: on_entry_def)

lemma reg_ok_on_entry:
  assumes "reg_ok os A r"
    and "entry_ok os A a (entries r ! a) \<Longrightarrow> entry_ok os A a (f (entries r ! a))"
  shows "reg_ok os A (on_entry a f r)"
  using assms unfolding reg_ok_def by (auto simp: on_entry_at)

lemma reg_ok_mono: "reg_ok os A r \<Longrightarrow> (\<And>a. A a \<Longrightarrow> B a) \<Longrightarrow> reg_ok os B r"
  unfolding reg_ok_def entry_ok_def by blast

lemma reg_ok_refuse: "reg_ok os A r \<Longrightarrow> reg_ok os A (on_entry a (refuse note) r)"
  by (rule reg_ok_on_entry) (simp_all add: refuse_def entry_ok_def)

lemma reg_ok_cancel: "reg_ok os A r \<Longrightarrow> reg_ok os A (cancel s r)"
  by (auto simp: cancel_def reg_ok_refuse split: option.split)

lemma reg_ok_finish_wake: "reg_ok os A r \<Longrightarrow> reg_ok os A (finish_wake p r)"
  by (auto simp: finish_wake_def reg_ok_refuse split: option.split)

lemma reg_ok_finish_drop: "reg_ok os A r \<Longrightarrow> reg_ok os A (snd (finish_drop s r))"
  by (auto simp: finish_drop_def reg_ok_def)

lemma reg_ok_expire: "reg_ok os A r \<Longrightarrow> reg_ok os A (snd (wait_expire a r))"
  by (auto simp: wait_expire_def entry_ok_def intro!: reg_ok_on_entry)

lemma reg_ok_resolve:
  assumes "reg_ok os A r"
    and "\<And>a. pending_of r s = Some a \<Longrightarrow> says_yes d \<Longrightarrow> reaches sq (entries r ! a) \<Longrightarrow> A a"
  shows "reg_ok os A (snd (resolve s d note sq r))"
proof (cases "pending_of r s")
  case (Some a)
  then show ?thesis
    using assms(1) assms(2) [OF Some]
    by (simp add: resolve_def) (intro impI reg_ok_on_entry; simp add: decide_entry_def entry_ok_def)
qed (simp add: resolve_def assms(1))

lemma reg_ok_request:
  assumes "reg_ok os A r"
  shows "reg_ok (os @ [s]) A (snd (request s r))"
    and "fst (request s r) = ticket (os @ [s]) (length os)"
proof -
  define r1 where "r1 = (case pending_of r s of None \<Rightarrow> r
                | Some a \<Rightarrow> if open_at r a then on_entry a (refuse ''superseded'') r else r)"
  have ok: "reg_ok os A r1"
    using assms by (auto simp: r1_def reg_ok_refuse split: option.split)
  have same: "pending_of r1 = pending_of r" "last_seq r1 = last_seq r"
    by (auto simp: r1_def split: option.split)
  define n where "n = int (count_list os s) + 1"
  have q: "request s r = (n, r1\<lparr>last_seq := (last_seq r)(s \<mapsto> n),
      entries := entries r1 @ [fresh_pending n], pending_of := (pending_of r)(s \<mapsto> length (entries r1))\<rparr>)"
    using assms unfolding request_def r1_def [symmetric] n_def by (auto simp: reg_ok_def Let_def)
  have len: "length (entries r1) = length os" using ok by (simp add: reg_ok_def)
  show "fst (request s r) = ticket (os @ [s]) (length os)"
    by (simp add: q n_def ticket_last)
  show "reg_ok (os @ [s]) A (snd (request s r))"
    using ok len unfolding q reg_ok_def
    by (auto simp: nth_append less_Suc_eq ticket_append ticket_last fresh_pending_def entry_ok_def n_def same)
qed

section \<open>Invariant of the runs\<close>

text \<open>A click that meant yes reached the entry \<open>a\<close> of session \<open>s\<close>.\<close>

definition approved :: "move list \<Rightarrow> int \<Rightarrow> nat \<Rightarrow> bool" where
  "approved ms s a \<longleftrightarrow>
     (\<exists>pre d note sq post w. ms = pre @ Click s d note sq # post \<and> run pre w \<and> says_yes d \<and>
        pending_of (reg w) s = Some a \<and> reaches sq (entries (reg w) ! a))"

abbreviation clicked :: "move list \<Rightarrow> nat \<Rightarrow> bool" where
  "clicked ms a \<equiv> \<exists>s. approved ms s a"

lemma approved_more: "approved ms s a \<Longrightarrow> approved (ms @ [m]) s a"
  unfolding approved_def by (metis append_Cons append_assoc)

lemma approved_now:
  "run ms w \<Longrightarrow> says_yes d \<Longrightarrow> pending_of (reg w) s = Some a \<Longrightarrow> reaches sq (entries (reg w) ! a)
     \<Longrightarrow> approved (ms @ [Click s d note sq]) s a"
  unfolding approved_def by blast

text \<open>What a thread knows. With \<open>own\<close>, it waits for the card it sent.\<close>

fun thread_ok :: "bool \<Rightarrow> int list \<Rightarrow> (nat \<Rightarrow> bool) \<Rightarrow> thread \<Rightarrow> bool" where
  "thread_ok own os A (Asked s n) = (own \<longrightarrow> n = int (count_list os s))"
| "thread_ok own os A (Waiting s n a) = (a < length os \<and> os ! a = s \<and> (own \<longrightarrow> ticket os a = n))"
| "thread_ok own os A (Timed s n a) = (a < length os \<and> os ! a = s \<and> (own \<longrightarrow> ticket os a = n))"
| "thread_ok own os A (Woken s n a) = (a < length os \<and> os ! a = s \<and> (own \<longrightarrow> ticket os a = n))"
| "thread_ok own os A (Read s n a d) =
     (a < length os \<and> os ! a = s \<and> (own \<longrightarrow> ticket os a = n) \<and> (d = ''approve'' \<longrightarrow> A a))"
| "thread_ok own os A (Answered s n d note) =
     (d = ''approve'' \<longrightarrow> (\<exists>a < length os. os ! a = s \<and> (own \<longrightarrow> ticket os a = n) \<and> A a))"
| "thread_ok own os A (Finishing p) = (\<forall>a. p = Some a \<longrightarrow> a < length os)"
| "thread_ok own os A Gone = True"

definition world_ok :: "bool \<Rightarrow> int list \<Rightarrow> (nat \<Rightarrow> bool) \<Rightarrow> world \<Rightarrow> bool" where
  "world_ok own os A w \<longleftrightarrow>
     reg_ok os A (reg w) \<and> (\<forall>t x. threads w t = Some x \<longrightarrow> thread_ok own os A x)"

lemma thread_ok_mono: "thread_ok own os A x \<Longrightarrow> (\<And>a. A a \<Longrightarrow> B a) \<Longrightarrow> thread_ok own os B x"
  by (cases x) auto

lemma thread_ok_append:
  assumes "thread_ok own os A x" and "\<And>n. own \<Longrightarrow> x \<noteq> Asked s n"
  shows "thread_ok own (os @ [s]) A x"
  using assms
proof (cases x)
  case (Answered s' n d m)
  have "\<exists>a < length (os @ [s]). (os @ [s]) ! a = s' \<and> (own \<longrightarrow> ticket (os @ [s]) a = n) \<and> A a"
    if "a < length os" "os ! a = s'" "own \<longrightarrow> ticket os a = n" "A a" for a
    using that by (intro exI [of _ a]) (simp add: nth_append ticket_append)
  then show ?thesis using assms(1) Answered by auto
qed (auto simp: nth_append ticket_append)

lemma world_ok_mono: "world_ok own os A w \<Longrightarrow> (\<And>a. A a \<Longrightarrow> B a) \<Longrightarrow> world_ok own os B w"
  unfolding world_ok_def using reg_ok_mono thread_ok_mono by blast

lemma world_ok_put:
  "world_ok own os A w \<Longrightarrow> reg_ok os A r \<Longrightarrow> thread_ok own os A x
     \<Longrightarrow> world_ok own os A (w\<lparr>reg := r, threads := (threads w)(t \<mapsto> x)\<rparr>)"
  unfolding world_ok_def by auto

lemma world_ok_thread: "world_ok own os A w \<Longrightarrow> threads w t = Some x \<Longrightarrow> thread_ok own os A x"
  unfolding world_ok_def by blast

lemma world_ok_reg: "world_ok own os A w \<Longrightarrow> reg_ok os A (reg w)"
  unfolding world_ok_def by blast

lemma world_ok_same:
  "world_ok own os A w \<Longrightarrow> thread_ok own os A x \<Longrightarrow> world_ok own os A (put_thread t x w)"
  unfolding world_ok_def by auto

lemma world_ok_regs: "world_ok own os A w \<Longrightarrow> reg_ok os A r \<Longrightarrow> world_ok own os A (w\<lparr>reg := r\<rparr>)"
  unfolding world_ok_def by auto

lemma reg_ok_pending:
  "reg_ok os A r \<Longrightarrow> pending_of r s = Some a \<Longrightarrow> a < length os \<and> os ! a = s \<and> ticket os a = int (count_list os s)"
  unfolding reg_ok_def by blast

lemma reg_ok_approve:
  "reg_ok os A r \<Longrightarrow> a < length os \<Longrightarrow> p_decision (entries r ! a) = ''approve'' \<Longrightarrow> A a"
  unfolding reg_ok_def entry_ok_def by force

lemma reg_ok_entry: "reg_ok os A r \<Longrightarrow> a < length os \<Longrightarrow> entry_ok os A a (entries r ! a)"
  unfolding reg_ok_def by blast

lemma world_ok_ask:
  assumes ok: "world_ok own os A w" and act: "act (Ask t s) w = Some w'"
    and alone: "\<And>u n. own \<Longrightarrow> threads w u \<noteq> Some (Asked s n)"
  shows "world_ok own (os @ [s]) A w'"
proof -
  have w': "w' = put_thread t (Asked s (fst (request s (reg w)))) (w\<lparr>reg := snd (request s (reg w))\<rparr>)"
    using act by (simp add: Let_def split: option.splits)
  have "thread_ok own (os @ [s]) A x" if "threads w u = Some x" for u x
    by (rule thread_ok_append [OF world_ok_thread [OF ok that]]) (use alone that in auto)
  moreover have "reg_ok (os @ [s]) A (snd (request s (reg w)))"
    by (rule reg_ok_request(1) [OF world_ok_reg [OF ok]])
  moreover have "fst (request s (reg w)) = int (count_list (os @ [s]) s)"
    using reg_ok_request(2) [OF world_ok_reg [OF ok], of s] by (simp add: ticket_last)
  ultimately show ?thesis unfolding w' world_ok_def by auto
qed

text \<open>Every other move keeps the invariant; a click that reaches an entry is recorded.\<close>

lemma world_ok_act:
  assumes ok: "world_ok own os A w" and act: "act m w = Some w'"
    and other: "\<And>t s. m \<noteq> Ask t s"
    and rec: "\<And>s d note sq a. m = Click s d note sq \<Longrightarrow> says_yes d \<Longrightarrow> pending_of (reg w) s = Some a
      \<Longrightarrow> reaches sq (entries (reg w) ! a) \<Longrightarrow> A a"
  shows "world_ok own os A w'"
proof (cases m)
  case (Ask t s)
  then show ?thesis using other by blast
next
  case (Look t)
  then show ?thesis
    using act ok world_ok_thread [OF ok, of t] reg_ok_pending [OF world_ok_reg [OF ok]]
    by (auto split: option.splits thread.splits intro!: world_ok_same)
next
  case (Expire t)
  then show ?thesis
    using act ok world_ok_thread [OF ok, of t]
    by (auto simp: Let_def split: option.splits thread.splits if_splits
        intro!: world_ok_put reg_ok_expire world_ok_reg [OF ok])
next
  case (Read_decision t)
  then show ?thesis
    using act ok world_ok_thread [OF ok, of t] reg_ok_approve [OF world_ok_reg [OF ok]]
    by (auto split: option.splits thread.splits intro!: world_ok_same)
next
  case (Click s d m' sq)
  then show ?thesis
    using act ok rec [OF Click] by (auto intro!: world_ok_regs reg_ok_resolve world_ok_reg [OF ok])
next
  case (Finish t s)
  then show ?thesis
    using act ok reg_ok_pending [OF world_ok_reg [OF ok]]
    by (auto simp: Let_def finish_drop_def [THEN arg_cong [where f = fst]] split: option.splits
        intro!: world_ok_put reg_ok_finish_drop world_ok_reg [OF ok])
next
  case (Release t)
  then show ?thesis
    using act ok by (auto split: option.splits thread.splits
        intro!: world_ok_put reg_ok_finish_wake world_ok_reg [OF ok])
next
  case (Stop s)
  then show ?thesis
    using act ok by (auto intro!: world_ok_regs reg_ok_cancel world_ok_reg [OF ok])
qed (use act ok world_ok_thread [OF ok] in
    \<open>force split: option.splits thread.splits if_splits intro!: world_ok_same\<close>)+

lemma run_ok: "run ms w \<Longrightarrow> world_ok False (askers ms) (clicked ms) w"
proof (induction rule: run.induct)
  case run_start
  show ?case
    by (simp add: world_ok_def reg_ok_def idle_world_def empty_registry_def askers_def)
next
  case (run_move ms w m w')
  have ok: "world_ok False (askers ms) (clicked (ms @ [m])) w"
    by (rule world_ok_mono [OF run_move.IH]) (blast intro: approved_more)
  show ?case
  proof (cases "\<exists>t s. m = Ask t s")
    case True
    then show ?thesis using world_ok_ask [OF ok] run_move.hyps(2) by (auto simp: askers_snoc)
  next
    case False
    then have "askers (ms @ [m]) = askers ms" by (auto simp: askers_snoc split: move.split)
    moreover have "world_ok False (askers ms) (clicked (ms @ [m])) w'"
      by (rule world_ok_act [OF ok run_move.hyps(2)]) (use False approved_now [OF run_move.hyps(1)] in blast)+
    ultimately show ?thesis by simp
  qed
qed

text \<open>The runs in which a session asks for one thing at a time: nobody asks between another's
  request and its wait.\<close>

inductive serial_run :: "move list \<Rightarrow> world \<Rightarrow> bool" where
  serial_start: "serial_run [] idle_world"
| serial_move: "serial_run ms w \<Longrightarrow> act m w = Some w'
    \<Longrightarrow> (\<And>t s u n. m = Ask t s \<Longrightarrow> threads w u \<noteq> Some (Asked s n)) \<Longrightarrow> serial_run (ms @ [m]) w'"

lemma serial_is_run: "serial_run ms w \<Longrightarrow> run ms w"
  by (induction rule: serial_run.induct) (auto intro: run.intros)

lemma serial_ok: "serial_run ms w \<Longrightarrow> world_ok True (askers ms) (clicked ms) w"
proof (induction rule: serial_run.induct)
  case serial_start
  show ?case
    by (simp add: world_ok_def reg_ok_def idle_world_def empty_registry_def askers_def)
next
  case (serial_move ms w m w')
  have ok: "world_ok True (askers ms) (clicked (ms @ [m])) w"
    by (rule world_ok_mono [OF serial_move.IH]) (blast intro: approved_more)
  show ?case
  proof (cases "\<exists>t s. m = Ask t s")
    case True
    then show ?thesis
      using world_ok_ask [OF ok] serial_move.hyps(2,3) by (auto simp: askers_snoc)
  next
    case False
    then have "askers (ms @ [m]) = askers ms" by (auto simp: askers_snoc split: move.split)
    moreover have "world_ok True (askers ms) (clicked (ms @ [m])) w'"
      by (rule world_ok_act [OF ok serial_move.hyps(2)])
        (use False approved_now [OF serial_is_run [OF serial_move.hyps(1)]] in blast)+
    ultimately show ?thesis by simp
  qed
qed

text \<open>The click that approved an entry, with the entry's number.\<close>

lemma approved_click:
  assumes "clicked ms a"
  shows "\<exists>pre d m sq post. ms = pre @ Click (askers ms ! a) d m sq # post \<and> says_yes d \<and>
    (sq = None \<or> sq = Some (ticket (askers ms) a))"
proof -
  obtain s pre d n sq post w where ms: "ms = pre @ Click s d n sq # post" and run: "run pre w"
    and d: "says_yes d" and p: "pending_of (reg w) s = Some a" and sq: "reaches sq (entries (reg w) ! a)"
    using assms unfolding approved_def by blast
  note reg = world_ok_reg [OF run_ok [OF run]]
  have a: "a < length (askers pre)" "askers pre ! a = s" using reg_ok_pending [OF reg p] by auto
  have os: "askers ms = askers pre @ askers post" by (simp add: ms askers_def)
  have "p_seq (entries (reg w) ! a) = ticket (askers ms) a"
    using reg_ok_entry [OF reg a(1)] a(1) by (simp add: entry_ok_def os ticket_append)
  then have "sq = None \<or> sq = Some (ticket (askers ms) a)"
    using sq by (auto simp: reaches_def split: option.splits)
  moreover have "askers ms ! a = s" using a by (simp add: os nth_append)
  ultimately show ?thesis using ms d
    by (intro exI [of _ pre] exI [of _ d] exI [of _ n] exI [of _ sq] exI [of _ post]) simp
qed

text \<open>The click as it was met: by the session's open request, which had not expired, and with its
  number or none.\<close>

definition accepted_yes :: "move list \<Rightarrow> int \<Rightarrow> string \<Rightarrow> int option \<Rightarrow> bool" where
  "accepted_yes pre s d sq \<longleftrightarrow> says_yes d \<and>
     (\<exists>u a. run pre u \<and> pending_of (reg u) s = Some a \<and> \<not> p_expired (entries (reg u) ! a) \<and>
        (sq = None \<or> sq = Some (p_seq (entries (reg u) ! a))))"

lemma approved_accepted:
  assumes "clicked ms a"
  shows "\<exists>pre d m sq post. ms = pre @ Click (askers ms ! a) d m sq # post \<and> accepted_yes pre (askers ms ! a) d sq"
proof -
  obtain s pre d n sq post w where ms: "ms = pre @ Click s d n sq # post" and run: "run pre w"
    and d: "says_yes d" and p: "pending_of (reg w) s = Some a" and sq: "reaches sq (entries (reg w) ! a)"
    using assms unfolding approved_def by blast
  have a: "a < length (askers pre)" "askers pre ! a = s"
    using reg_ok_pending [OF world_ok_reg [OF run_ok [OF run]] p] by auto
  then have "askers ms ! a = s" by (simp add: ms askers_def nth_append)
  moreover have "accepted_yes pre s d sq"
    using run d p sq unfolding accepted_yes_def reaches_def by (fastforce split: option.splits)
  ultimately show ?thesis using ms by blast
qed

text \<open>What the evaluation of a concrete run unfolds.\<close>

lemmas eval_defs = idle_world_def empty_registry_def request_def resolve_def cancel_def reaches_def
  on_entry_def open_at_def refuse_def decide_entry_def fresh_pending_def says_yes_def lower_def
  lower_char_def finish_drop_def finish_wake_def wait_expire_def

section \<open>No action without a click\<close>

text \<open>C26. Whatever clicks, stops, timeouts, new requests and ends of runs interleave, an ask is
  answered "approve" only if a yes was accepted in its session: the click met the request
  that session had pending then, which had not expired, and carried the number of that very card,
  or none. Without such a yes, a timeout, a stop, the end of the run, a missing entry, an expired
  card and a click on another card all refuse.\<close>

theorem approval_needs_click:
  assumes "run ms w" and "threads w t = Some (Answered s n ''approve'' note)"
  shows "\<exists>pre d m sq post. ms = pre @ Click s d m sq # post \<and> accepted_yes pre s d sq"
proof -
  obtain a where "a < length (askers ms)" "askers ms ! a = s" "clicked ms a"
    using world_ok_thread [OF run_ok [OF assms(1)] assms(2)] by auto
  then show ?thesis using approved_accepted [of ms a] by metis
qed

text \<open>When a session asks one thing at a time, the yes that lets an action run was given on the
  card of that action: the click carried its number, or none.\<close>

theorem own_card_approved:
  assumes "serial_run ms w" and "threads w t = Some (Answered s n ''approve'' note)"
  shows "\<exists>pre d m sq post. ms = pre @ Click s d m sq # post \<and> says_yes d \<and> (sq = None \<or> sq = Some n)"
proof -
  obtain a where "askers ms ! a = s" "ticket (askers ms) a = n" "clicked ms a"
    using world_ok_thread [OF serial_ok [OF assms(1)] assms(2)] by auto
  then show ?thesis using approved_click [of ms a] by metis
qed

definition clicked_cards :: "move list \<Rightarrow> int option list" where
  "clicked_cards ms = concat (map (\<lambda>m. case m of Click s d n sq \<Rightarrow> [sq] | _ \<Rightarrow> []) ms)"

text \<open>The session must ask one thing at a time for that: an ask whose request is superseded before
  it waits looks the newer entry up, and the yes given on the newer card, number 2, runs the action
  of card 1, which nobody approved.\<close>

theorem superseded_ask_approved:
  "\<exists>ms w n. run ms w \<and> threads w 1 = Some (Answered s 1 ''approve'' n) \<and>
     clicked_cards ms = [Some 2]"
proof -
  let ?ms = "[Ask 1 s, Ask 2 s, Look 1, Look 2, Click s ''approve'' [] (Some 2), Wake 1, Read_decision 1, Read_note 1]"
  have "\<exists>w n. exec idle_world ?ms = Some w \<and> threads w 1 = Some (Answered s 1 ''approve'' n)"
    by (simp add: eval_defs)
  then obtain w n where "run ?ms w" "threads w 1 = Some (Answered s 1 ''approve'' n)"
    using run_idle by blast
  then show ?thesis by (intro exI [of _ ?ms] exI [of _ w] exI [of _ n]) (simp add: clicked_cards_def)
qed

theorem approval_needs_click_witness:
  "\<exists>(w :: world) n. threads w 1 = Some (Answered 7 1 ''approve'' n) \<and>
     (\<exists>pre d m sq post. [Ask 1 7, Look 1, Click 7 ''no'' [] (Some 2), Click 7 ''yes'' [] (Some 1), Wake 1, Read_decision 1, Read_note 1]
        = pre @ Click 7 d m sq # post \<and> accepted_yes pre 7 d sq)"
proof -
  let ?ms = "[Ask 1 7, Look 1, Click 7 ''no'' [] (Some 2), Click 7 ''yes'' [] (Some 1), Wake 1, Read_decision 1, Read_note 1]"
  have "\<exists>w n. exec idle_world ?ms = Some w \<and> threads w 1 = Some (Answered 7 1 ''approve'' n)"
    by (simp add: eval_defs)
  then obtain w n where w: "run ?ms w" "threads w 1 = Some (Answered 7 1 ''approve'' n)"
    using run_idle by blast
  show ?thesis by (intro exI [of _ w] exI [of _ n] conjI w(2) approval_needs_click [OF w])
qed

text \<open>A run in which only the first move asks is serial.\<close>

lemma serial_quiet:
  "serial_run ps w \<Longrightarrow> exec w ms = Some w' \<Longrightarrow> askers ms = [] \<Longrightarrow> serial_run (ps @ ms) w'"
proof (induction ms arbitrary: ps w)
  case (Cons m ms)
  then obtain u where u: "act m w = Some u" "exec u ms = Some w'" by (auto split: option.splits)
  have quiet: "m \<noteq> Ask t s" for t s using Cons.prems(3) by (auto simp: askers_def)
  have "serial_run (ps @ [m]) u" by (rule serial_move [OF Cons.prems(1) u(1)]) (simp add: quiet)
  from Cons.IH [OF this u(2)] Cons.prems(3) show ?case by (simp add: askers_def)
qed simp

lemma serial_exec_all:
  assumes "exec idle_world (m # ms) = Some w" and "askers ms = []"
  shows "serial_run (m # ms) w"
proof -
  obtain u where u: "act m idle_world = Some u" "exec u ms = Some w"
    using assms(1) by (auto split: option.splits)
  have "serial_run ([] @ [m]) u"
    by (rule serial_move [OF serial_start u(1)]) (simp add: idle_world_def)
  from serial_quiet [OF this u(2) assms(2)] show ?thesis by simp
qed

theorem own_card_approved_witness:
  "\<exists>(w :: world) n. threads w 1 = Some (Answered 7 1 ''approve'' n) \<and>
     (\<exists>pre d m sq post. [Ask 1 7, Look 1, Click 7 ''ok'' [] (Some 1), Wake 1, Read_decision 1, Read_note 1]
        = pre @ Click 7 d m sq # post \<and> says_yes d \<and> (sq = None \<or> sq = Some 1))"
proof -
  let ?ms = "[Ask 1 7, Look 1, Click 7 ''ok'' [] (Some 1), Wake 1, Read_decision 1, Read_note 1]"
  have "\<exists>w n. exec idle_world ?ms = Some w \<and> threads w 1 = Some (Answered 7 1 ''approve'' n)"
    by (simp add: eval_defs)
  moreover have "serial_run ?ms w" if "exec idle_world ?ms = Some w" for w
    by (rule serial_exec_all [OF that]) (simp add: askers_def)
  ultimately obtain w n where w: "serial_run ?ms w" "threads w 1 = Some (Answered 7 1 ''approve'' n)"
    by blast
  show ?thesis by (intro exI [of _ w] exI [of _ n] conjI w(2) own_card_approved [OF w])
qed

text \<open>An answer is not final until the waiter has read it: a yes that arrives after the stop of the
  run, and before the waiter is scheduled, turns the refusal into an approval.\<close>

theorem late_yes_undoes_stop:
  "\<exists>w n. run [Ask t s, Look t, Stop s, Click s ''approve'' [] (Some 1), Wake t, Read_decision t, Read_note t] w \<and>
     threads w t = Some (Answered s 1 ''approve'' n)"
proof -
  let ?ms = "[Ask t s, Look t, Stop s, Click s ''approve'' [] (Some 1), Wake t, Read_decision t, Read_note t]"
  have "\<exists>w n. exec idle_world ?ms = Some w \<and> threads w t = Some (Answered s 1 ''approve'' n)"
    by (simp add: eval_defs)
  then obtain w n where w: "run ?ms w" "threads w t = Some (Answered s 1 ''approve'' n)"
    using run_idle by blast
  show ?thesis by (intro exI [of _ w] exI [of _ n] conjI w)
qed

section \<open>Old cards and expired cards\<close>

text \<open>A numbered click does something only on the newest card of its session, and only while that
  card is open to it: the card of a session that asked again, or that finished, is dead.\<close>

theorem newest_card_only:
  assumes "run ms w" and "fst (resolve s d m (Some n) (reg w))"
  shows "last_seq (reg w) s = Some n \<and> n = int (count_list (askers ms) s)"
proof -
  note reg = world_ok_reg [OF run_ok [OF assms(1)]]
  obtain a where p: "pending_of (reg w) s = Some a" and n: "n = p_seq (entries (reg w) ! a)"
    using assms(2) by (auto simp: resolve_def reaches_def split: option.splits if_splits)
  have a: "a < length (askers ms)" "askers ms ! a = s" "ticket (askers ms) a = int (count_list (askers ms) s)"
    using reg_ok_pending [OF reg p] by auto
  have "n = int (count_list (askers ms) s)"
    using reg_ok_entry [OF reg a(1)] a(3) n by (simp add: entry_ok_def)
  moreover have "count_list (askers ms) s \<noteq> 0" using ticket_pos [OF a(1)] a(2) by simp
  ultimately show ?thesis using reg by (simp add: reg_ok_def)
qed

theorem newest_card_only_witness:
  "\<exists>w. run [Ask 1 7, Ask 2 7] w \<and> fst (resolve 7 ''no'' [] (Some 2) (reg w)) \<and> last_seq (reg w) 7 = Some 2"
proof -
  have "\<exists>w. exec idle_world [Ask 1 7, Ask 2 7] = Some w \<and> fst (resolve 7 ''no'' [] (Some 2) (reg w))"
    by (simp add: eval_defs)
  then obtain w where w: "run [Ask 1 7, Ask 2 7] w" "fst (resolve 7 ''no'' [] (Some 2) (reg w))"
    using run_idle by blast
  show ?thesis using w newest_card_only [OF w] by blast
qed

text \<open>An entry that expired is final.\<close>

definition dead :: "pending \<Rightarrow> bool" where
  "dead p \<longleftrightarrow> p_expired p \<and> p_set p"

lemma frozen_on_entry:
  assumes "a < length (entries r)" and "dead (entries r ! a)" and "b \<noteq> a"
  shows "entries (on_entry b f r) ! a = entries r ! a"
  using assms by (simp add: on_entry_def)

lemma frozen_act:
  assumes act: "act m w = Some w'" and a: "a < length (entries (reg w))" and d: "dead (entries (reg w) ! a)"
  shows "entries (reg w') ! a = entries (reg w) ! a \<and> a < length (entries (reg w'))"
proof -
  have shut: "\<not> open_at (reg w) a" "\<not> reaches sq (entries (reg w) ! a)" for sq
    using d by (simp_all add: dead_def open_at_def reaches_def)
  have other: "entries (on_entry b f (reg w)) ! a = entries (reg w) ! a"
    if "open_at (reg w) b \<or> reaches sq (entries (reg w) ! b)" for b f sq
    using that shut by (intro frozen_on_entry [OF a d]) auto
  have "entries (snd (request s (reg w))) ! a = entries (reg w) ! a" for s
    using a other by (auto simp: request_def Let_def nth_append split: option.splits)
  moreover have "length (entries (snd (request s (reg w)))) = Suc (length (entries (reg w)))" for s
    by (auto simp: request_def Let_def split: option.splits)
  moreover have "entries (snd (resolve s dd n sq (reg w))) ! a = entries (reg w) ! a" for s dd n sq
    using other by (auto simp: resolve_def split: option.splits)
  moreover have "length (entries (snd (resolve s dd n sq (reg w)))) = length (entries (reg w))" for s dd n sq
    by (auto simp: resolve_def split: option.splits)
  ultimately show ?thesis
    using act a other
    by (cases m) (auto simp: cancel_def finish_drop_def finish_wake_def wait_expire_def Let_def
        split: option.splits thread.splits if_splits)
qed

text \<open>Once a request has timed out nothing changes it, whatever happens afterwards: a late yes on
  its card is lost.\<close>

theorem expired_stays_refused:
  assumes "exec w ms = Some w'" and "a < length (entries (reg w))" and "dead (entries (reg w) ! a)"
  shows "entries (reg w') ! a = entries (reg w) ! a"
  using assms
proof (induction ms arbitrary: w)
  case (Cons m ms)
  then obtain u where u: "act m w = Some u" "exec u ms = Some w'" by (auto split: option.splits)
  from frozen_act [OF u(1) Cons.prems(2,3)] Cons.IH [OF u(2)] Cons.prems(3) show ?case by simp
qed simp

text \<open>The timeout of an ask makes its entry dead.\<close>

theorem expired_stays_refused_witness:
  "\<exists>w w'. exec idle_world [Ask 1 7, Look 1, Give_up 1, Expire 1] = Some w \<and>
     exec w [Click 7 ''approve'' [] (Some 1), Ask 2 7, Stop 7] = Some w' \<and>
     entries (reg w') ! 0 = entries (reg w) ! 0 \<and> p_decision (entries (reg w') ! 0) = ''reject''"
proof -
  have "\<exists>w w'. exec idle_world [Ask 1 7, Look 1, Give_up 1, Expire 1] = Some w \<and>
     exec w [Click 7 ''approve'' [] (Some 1), Ask 2 7, Stop 7] = Some w' \<and> 0 < length (entries (reg w)) \<and>
     dead (entries (reg w) ! 0) \<and> p_decision (entries (reg w) ! 0) = ''reject''"
    by (simp add: eval_defs dead_def)
  then obtain w w' where w: "exec idle_world [Ask 1 7, Look 1, Give_up 1, Expire 1] = Some w"
    "exec w [Click 7 ''approve'' [] (Some 1), Ask 2 7, Stop 7] = Some w'" "0 < length (entries (reg w))"
    "dead (entries (reg w) ! 0)" "p_decision (entries (reg w) ! 0) = ''reject''" by blast
  show ?thesis using w expired_stays_refused [OF w(2-4)] by auto
qed

section \<open>Nobody waits for ever\<close>

text \<open>An entry nobody decided is the current one of its session, or a finishing thread holds it.\<close>

definition attended :: "world \<Rightarrow> bool" where
  "attended w \<longleftrightarrow> (\<forall>a < length (entries (reg w)). open_at (reg w) a \<longrightarrow>
     (\<exists>s. pending_of (reg w) s = Some a) \<or> (\<exists>t. threads w t = Some (Finishing (Some a))))"

lemma open_on_entry:
  "p_set (f (entries r ! b)) \<Longrightarrow> a < length (entries r) \<Longrightarrow>
     open_at (on_entry b f r) a \<longleftrightarrow> a \<noteq> b \<and> open_at r a"
  by (cases "a = b") (auto simp: open_at_def on_entry_def)

lemma refuse_sets [simp]: "p_set (refuse m p)" "p_set (decide_entry d m p)"
  by (simp_all add: refuse_def decide_entry_def)

lemma attended_ask:
  assumes "attended w" and "act (Ask t s) w = Some w'"
  shows "attended w'"
proof -
  let ?r = "snd (request s (reg w))"
  have w': "w' = put_thread t (Asked s (fst (request s (reg w)))) (w\<lparr>reg := ?r\<rparr>)" "threads w t = None"
    using assms(2) by (simp_all add: Let_def split: option.splits)
  have len: "length (entries ?r) = Suc (length (entries (reg w)))"
    by (auto simp: request_def Let_def split: option.splits)
  have new: "pending_of ?r s = Some (length (entries (reg w)))" "\<And>u. u \<noteq> s \<Longrightarrow> pending_of ?r u = pending_of (reg w) u"
    by (auto simp: request_def Let_def split: option.splits)
  have old: "open_at (reg w) a \<and> pending_of (reg w) s \<noteq> Some a" if "open_at ?r a" "a < length (entries (reg w))" for a
    using that by (cases "pending_of (reg w) s = Some a")
      (auto simp: request_def Let_def open_at_def nth_append on_entry_def refuse_def
        split: option.splits if_splits)
  show ?thesis unfolding attended_def
  proof (intro allI impI)
    fix a assume "a < length (entries (reg w'))" and op: "open_at (reg w') a"
    then consider "a = length (entries (reg w))" | "a < length (entries (reg w))" using len w' by fastforce
    then show "(\<exists>s. pending_of (reg w') s = Some a) \<or> (\<exists>t. threads w' t = Some (Finishing (Some a)))"
    proof cases
      case 1
      then show ?thesis using new(1) w'(1) by auto
    next
      case 2
      then show ?thesis
        using old [of a] op assms(1) new(2) w' unfolding attended_def
        by (simp add: fun_upd_apply) (metis option.distinct(1))
    qed
  qed
qed

lemma attended_step:
  assumes "attended w" and "pending_of (reg w') = pending_of (reg w)"
    and "length (entries (reg w')) = length (entries (reg w))"
    and "\<And>a. a < length (entries (reg w)) \<Longrightarrow> open_at (reg w') a \<Longrightarrow> open_at (reg w) a"
    and "\<And>u a. a < length (entries (reg w)) \<Longrightarrow> open_at (reg w') a
      \<Longrightarrow> threads w u = Some (Finishing (Some a)) \<Longrightarrow> threads w' u = Some (Finishing (Some a))"
  shows "attended w'"
  using assms unfolding attended_def by (metis (no_types, lifting))

lemma attended_act:
  assumes at: "attended w" and act: "act m w = Some w'"
  shows "attended w'"
proof (cases m)
  case (Ask t s)
  then show ?thesis using attended_ask [OF at] act by blast
next
  case (Finish t s)
  have "threads w t = None"
    and w': "w' = put_thread t (Finishing (pending_of (reg w) s)) (w\<lparr>reg := snd (finish_drop s (reg w))\<rparr>)"
    using act Finish by (auto simp: finish_drop_def Let_def split: option.splits)
  then show ?thesis
    using at unfolding attended_def w' by (auto simp: finish_drop_def open_at_def) (metis option.distinct(1))
next
  case (Release t)
  then show ?thesis
    using act by (intro attended_step [OF at])
      (auto simp: finish_wake_def open_on_entry split: option.splits thread.splits if_splits)
next
  case (Click s d m sq)
  then show ?thesis
    using act by (intro attended_step [OF at]) (auto simp: resolve_def open_on_entry split: option.splits if_splits)
next
  case (Stop s)
  then show ?thesis
    using act by (intro attended_step [OF at]) (auto simp: cancel_def open_on_entry split: option.splits if_splits)
next
  case (Expire t)
  then show ?thesis
    using act by (intro attended_step [OF at])
      (auto simp: wait_expire_def open_on_entry Let_def split: option.splits thread.splits if_splits)
qed (use act in \<open>force intro!: attended_step [OF at] split: option.splits thread.splits if_splits\<close>)+

lemma run_attended: "run ms w \<Longrightarrow> attended w"
proof (induction rule: run.induct)
  case run_start
  show ?case by (simp add: attended_def idle_world_def empty_registry_def)
qed (rule attended_act)

text \<open>The end of a run frees every thread that waits in its session: once the finishing thread has
  dropped the entry and woken it, each of them can wake and reach an answer by its own moves, unless
  another thread is still finishing what the waiter waits for.\<close>

theorem finish_frees_waiters:
  assumes "run ms w" and "exec w [Finish f s, Release f] = Some w'"
    and "threads w' t = Some (Waiting s n a)"
    and "\<And>u. threads w' u \<noteq> Some (Finishing (Some a))"
  shows "\<exists>u d m. exec w' [Wake t, Read_decision t, Read_note t] = Some u \<and>
    threads u t = Some (Answered s n d m)"
proof -
  have run': "run (ms @ [Finish f s, Release f]) w'" by (rule run_exec [OF assms(1,2)])
  have a: "a < length (askers (ms @ [Finish f s, Release f]))" "askers (ms @ [Finish f s, Release f]) ! a = s"
    using world_ok_thread [OF run_ok [OF run'] assms(3)] by auto
  note reg = world_ok_reg [OF run_ok [OF run']]
  have none: "pending_of (reg w') s = None"
    using assms(2) by (auto simp: finish_drop_def finish_wake_def Let_def
        split: option.splits thread.splits if_splits)
  have "\<not> open_at (reg w') a"
  proof
    assume op: "open_at (reg w') a"
    have "a < length (entries (reg w'))" using reg a(1) by (simp add: reg_ok_def)
    then obtain s' where p: "pending_of (reg w') s' = Some a"
      using run_attended [OF run'] op assms(4) unfolding attended_def by blast
    then have "s' = s" using reg_ok_pending [OF reg p] a(2) by simp
    then show False using p none by simp
  qed
  then show ?thesis using assms(3) by simp
qed

theorem finish_frees_waiters_witness:
  "\<exists>w w' u d m. run [Ask 1 7, Look 1] w \<and> exec w [Finish 2 7, Release 2] = Some w' \<and>
     exec w' [Wake 1, Read_decision 1, Read_note 1] = Some u \<and> threads u 1 = Some (Answered 7 1 d m)"
proof -
  have "\<exists>w w'. exec idle_world [Ask 1 7, Look 1] = Some w \<and> exec w [Finish 2 7, Release 2] = Some w' \<and>
      threads w' 1 = Some (Waiting 7 1 0) \<and> (\<forall>u. threads w' u \<noteq> Some (Finishing (Some 0)))"
    by (simp add: eval_defs)
  then obtain w w' where w: "run [Ask 1 7, Look 1] w" "exec w [Finish 2 7, Release 2] = Some w'"
    "threads w' 1 = Some (Waiting 7 1 0)" "\<And>u. threads w' u \<noteq> Some (Finishing (Some 0))"
    using run_idle by blast
  show ?thesis using w(1,2) finish_frees_waiters [OF w] by blast
qed

end
