(* ===== verification/Approval_Settings.thy ===== *)
theory Approval_Settings
  imports Py_Values
begin

text \<open>
  The switch that says whether a chat pauses for approval, \<^verbatim>\<open>config/approval_settings.py\<close>: a default
  for each mode in one file, a chat's own choices in another. A file is absent, unreadable, or holds a
  JSON value. A chat is known by the text of its id; writes succeed.
\<close>

section \<open>Modes and their defaults\<close>

type_synonym settings_file = "pyval res option"

definition modes :: "string list" where
  "modes = [''simple'', ''plan'', ''team'']"

definition canon :: "string \<Rightarrow> string" where
  "canon mode =
     (let m = lower (strip mode) in
      case map_of [(''chat'', ''simple''), (''pipeline'', ''team''), ('''', ''simple'')] m of
        None \<Rightarrow> m | Some a \<Rightarrow> a)"

definition load_modes :: "settings_file \<Rightarrow> (string \<times> bool) list" where
  "load_modes file =
     (case file of
        Some (Inr v) \<Rightarrow>
          (case por v (PDict []) of PDict d \<Rightarrow> map (\<lambda>(k, v). (k, truthy v)) d | _ \<Rightarrow> [])
      | _ \<Rightarrow> [])"

definition mode_default :: "settings_file \<Rightarrow> string \<Rightarrow> bool" where
  "mode_default file m = (case map_of (load_modes file) m of None \<Rightarrow> True | Some b \<Rightarrow> b)"

definition all_modes :: "settings_file \<Rightarrow> (string \<times> bool) list" where
  "all_modes file = map (\<lambda>m. (m, mode_default file m)) modes"

section \<open>A chat's own choices\<close>

definition session_load :: "settings_file \<Rightarrow> (string \<times> pyval) list option" where
  "session_load file =
     (case file of None \<Rightarrow> Some [] | Some (Inr (PDict d)) \<Rightarrow> Some d | _ \<Rightarrow> None)"

definition session_save :: "(string \<times> pyval) list \<Rightarrow> settings_file" where
  "session_save d = Some (Inr (PDict d))"

definition own_choice :: "(string \<times> pyval) list \<Rightarrow> string \<Rightarrow> string \<Rightarrow> bool option" where
  "own_choice chats sid m =
     (case dget chats sid of PDict own \<Rightarrow> map_option truthy (map_of own m) | _ \<Rightarrow> None)"

definition required :: "settings_file \<Rightarrow> settings_file \<Rightarrow> string \<Rightarrow> string option \<Rightarrow> bool" where
  "required mode_file chat_file mode sid =
     (let m = canon mode in
      if m \<notin> set modes then True
      else (case sid of
              None \<Rightarrow> mode_default mode_file m
            | Some s \<Rightarrow>
                (case session_load chat_file of
                   None \<Rightarrow> True
                 | Some chats \<Rightarrow> (case own_choice chats s m of Some b \<Rightarrow> b | None \<Rightarrow> mode_default mode_file m))))"

section \<open>Changing them\<close>

datatype setting_error = Unknown_mode string | Unreadable

definition set_default_mode :: "string \<Rightarrow> bool \<Rightarrow> settings_file \<Rightarrow> setting_error + settings_file" where
  "set_default_mode mode on file =
     (let m = canon mode in
      if m \<notin> set modes then Inl (Unknown_mode mode)
      else Inr (Some (Inr (PDict (map (\<lambda>(k, b). (k, PBool b)) (set_at (load_modes file) m on))))))"

definition session_modes :: "settings_file \<Rightarrow> settings_file \<Rightarrow> string \<Rightarrow> (string \<times> bool) list" where
  "session_modes mode_file chat_file sid = map (\<lambda>m. (m, required mode_file chat_file m (Some sid))) modes"

definition set_session :: "string \<Rightarrow> string \<Rightarrow> bool \<Rightarrow> settings_file \<Rightarrow> setting_error + settings_file" where
  "set_session sid mode on file =
     (let m = canon mode in
      if m \<notin> set modes then Inl (Unknown_mode mode)
      else (case session_load file of
              None \<Rightarrow> Inl Unreadable
            | Some data \<Rightarrow>
                (let own = (case dget data sid of PDict own \<Rightarrow> own | _ \<Rightarrow> []) in
                 Inr (session_save (set_at data sid (PDict (set_at own m (PBool on))))))))"

definition copy_session :: "string \<Rightarrow> string \<Rightarrow> settings_file \<Rightarrow> settings_file" where
  "copy_session from_id to_id file =
     (case session_load file of
        None \<Rightarrow> file
      | Some data \<Rightarrow>
          (case dget data from_id of
             PDict own \<Rightarrow> session_save (set_at data to_id (PDict own))
           | _ \<Rightarrow> file))"

definition forget_session :: "string option \<Rightarrow> settings_file \<Rightarrow> settings_file" where
  "forget_session sid file =
     (case sid of
        None \<Rightarrow> (if file = None then file else session_save [])
      | Some s \<Rightarrow>
          (case session_load file of
             None \<Rightarrow> file
           | Some data \<Rightarrow> if dget data s \<noteq> PNone then session_save (drop_key s data) else file))"

section \<open>Off is always a choice somebody made\<close>

lemma session_load_save [simp]: "session_load (session_save d) = Some d"
  by (simp add: session_load_def session_save_def)

text \<open>Approvals are off only where somebody turned them off: for a mode the program knows, by the
  chat's own choice or by the stored default of the mode, and never when the chats' choices cannot be
  read.\<close>

theorem off_is_a_choice:
  "required mode_file chat_file mode sid \<longleftrightarrow>
     \<not> (canon mode \<in> set modes \<and>
        (case sid of None \<Rightarrow> map_of (load_modes mode_file) (canon mode) = Some False
         | Some s \<Rightarrow> (case session_load chat_file of None \<Rightarrow> False
              | Some chats \<Rightarrow> own_choice chats s (canon mode) = Some False \<or>
                  own_choice chats s (canon mode) = None \<and> map_of (load_modes mode_file) (canon mode) = Some False)))"
  by (auto simp: required_def Let_def mode_default_def split: option.split)

text \<open>A chat's toggle is its own: it decides for that chat and mode, and changes nothing for any
  other chat or any other mode.\<close>

theorem toggle_is_local:
  assumes "set_session sid mode on file = Inr file'" and "canon m \<in> set modes"
  shows "required mode_file file' m (Some s) =
    (if s = sid \<and> canon m = canon mode then on else required mode_file file m (Some s))"
proof -
  obtain data where d: "session_load file = Some data"
    and f': "file' = session_save (set_at data sid (PDict (set_at
        (case dget data sid of PDict own \<Rightarrow> own | _ \<Rightarrow> []) (canon mode) (PBool on))))"
    using assms(1) by (auto simp: set_session_def Let_def split: if_splits option.splits)
  show ?thesis
    using assms(2) by (auto simp: required_def Let_def d f' own_choice_def split: pyval.split)
qed

theorem toggle_is_local_witness:
  "required None (case set_session ''7'' ''chat'' False None of Inr f \<Rightarrow> f | Inl _ \<Rightarrow> None) ''simple'' (Some ''7'') = False \<and>
   required None (case set_session ''7'' ''chat'' False None of Inr f \<Rightarrow> f | Inl _ \<Rightarrow> None) ''simple'' (Some ''8'')"
proof -
  obtain f where f: "set_session ''7'' ''chat'' False None = Inr f"
    by (simp add: set_session_def session_load_def canon_def modes_def strip_def strip_by_def is_space_def
        lower_def lower_char_def)
  have m: "canon ''simple'' \<in> set modes" "canon ''simple'' = canon ''chat''"
    by (simp_all add: canon_def modes_def strip_def strip_by_def is_space_def lower_def lower_char_def)
  show ?thesis using toggle_is_local [OF f m(1)] m(2)
    by (simp add: f off_is_a_choice session_load_def own_choice_def load_modes_def)
qed

text \<open>A side task that copies a chat's choices is asked exactly as that chat is, and a forgotten
  chat falls back to the defaults of the modes; no other chat notices.\<close>

theorem copied_and_forgotten:
  assumes "session_load file = Some data" and "is_dict (dget data from_id)"
  shows "required mode_file (copy_session from_id to_id file) m (Some s) =
      required mode_file file m (Some (if s = to_id then from_id else s)) \<and>
    required mode_file (forget_session (Some sid) file) m (Some s) =
      (if s = sid then required mode_file None m (Some s) else required mode_file file m (Some s))"
proof (rule conjI)
  obtain own where own: "dget data from_id = PDict own" using assms(2) by (cases "dget data from_id") auto
  show "required mode_file (copy_session from_id to_id file) m (Some s) =
      required mode_file file m (Some (if s = to_id then from_id else s))"
    using own by (simp add: copy_session_def assms(1) required_def Let_def own_choice_def)
  have "own_choice (drop_key sid data) t c = (if t = sid then None else own_choice data t c)" for t c
    by (simp add: own_choice_def)
  moreover have "own_choice data sid c = None" if "dget data sid = PNone" for c
    using that by (simp add: own_choice_def)
  ultimately show "required mode_file (forget_session (Some sid) file) m (Some s) =
      (if s = sid then required mode_file None m (Some s) else required mode_file file m (Some s))"
    by (simp add: forget_session_def assms(1) required_def Let_def session_load_def [of None] own_choice_def [of "[]"])
qed

theorem copied_and_forgotten_witness:
  "required None (copy_session ''7'' ''9'' (Some (Inr (PDict [(''7'', PDict [(''simple'', PBool False)])]))))
     ''simple'' (Some ''9'') =
   required None (Some (Inr (PDict [(''7'', PDict [(''simple'', PBool False)])]))) ''simple'' (Some ''7'')"
proof -
  let ?d = "[(''7'', PDict [(''simple'', PBool False)])]"
  have "session_load (Some (Inr (PDict ?d))) = Some ?d" "is_dict (dget ?d ''7'')"
    by (simp_all add: session_load_def)
  from copied_and_forgotten [OF this, of None "''9''" "''simple''" "''9''"] show ?thesis by simp
qed

end
