(* ===== verification/Regex.thy ===== *)
theory Regex
  imports Py_Strings
begin

text \<open>
  The regular expressions the command classifiers use, with the meaning of Python's \<^verbatim>\<open>re\<close>: a match
  is the list of its outcomes in the order the engine tries them, so that the first one is what
  \<^verbatim>\<open>re.search\<close> and \<^verbatim>\<open>re.finditer\<close> return. A position is the character before it, the rest of the
  text and the groups bound so far. Case is that of ASCII, as everywhere: an expression compiled with
  \<^verbatim>\<open>IGNORECASE\<close> is one in lower case, matched on the lowered text.
\<close>

section \<open>Expressions and their matches\<close>

datatype rx =
    Lit string
  | One "char \<Rightarrow> bool"
  | Seq rx rx
  | Alt rx rx
  | Star rx
  | Lazy rx
  | Upto nat rx
  | Bound
  | Line_start
  | Line_end
  | Not_ahead rx
  | Group nat rx
  | Again nat

type_synonym position = "char option \<times> string \<times> (nat \<times> string) list"

abbreviation rest_of :: "position \<Rightarrow> string" where
  "rest_of s \<equiv> fst (snd s)"

abbreviation groups_of :: "position \<Rightarrow> (nat \<times> string) list" where
  "groups_of s \<equiv> snd (snd s)"

definition is_wordp :: "char option \<Rightarrow> bool" where
  "is_wordp p = (case p of None \<Rightarrow> False | Some c \<Rightarrow> is_word c)"

definition next_char :: "string \<Rightarrow> char option" where
  "next_char cs = (case cs of [] \<Rightarrow> None | c # _ \<Rightarrow> Some c)"

definition literally :: "string \<Rightarrow> position \<Rightarrow> position list" where
  "literally w s =
     (if w = [] then [s]
      else if starts_with w (rest_of s)
      then [(Some (last w), drop (length w) (rest_of s), groups_of s)] else [])"

definition one_char :: "(char \<Rightarrow> bool) \<Rightarrow> position \<Rightarrow> position list" where
  "one_char p s =
     (case rest_of s of [] \<Rightarrow> [] | c # cs \<Rightarrow> if p c then [(Some c, cs, groups_of s)] else [])"

text \<open>At most \<open>n\<close> rounds, each of which must consume something.\<close>

fun many :: "bool \<Rightarrow> (position \<Rightarrow> position list) \<Rightarrow> nat \<Rightarrow> position \<Rightarrow> position list" where
  "many lazy f 0 s = [s]"
| "many lazy f (Suc n) s =
     (let more = concat (map (many lazy f n)
            (filter (\<lambda>u. length (rest_of u) < length (rest_of s)) (f s)))
      in if lazy then s # more else more @ [s])"

definition bind_group :: "nat \<Rightarrow> position \<Rightarrow> position \<Rightarrow> position" where
  "bind_group g s u =
     (fst u, rest_of u, (g, take (length (rest_of s) - length (rest_of u)) (rest_of s)) # groups_of u)"

primrec rmatch :: "rx \<Rightarrow> position \<Rightarrow> position list" where
  "rmatch (Lit w) s = literally w s"
| "rmatch (One p) s = one_char p s"
| "rmatch (Seq q r) s = concat (map (rmatch r) (rmatch q s))"
| "rmatch (Alt q r) s = rmatch q s @ rmatch r s"
| "rmatch (Star r) s = many False (rmatch r) (length (rest_of s)) s"
| "rmatch (Lazy r) s = many True (rmatch r) (length (rest_of s)) s"
| "rmatch (Upto n r) s = many False (rmatch r) n s"
| "rmatch Bound s = (if is_wordp (fst s) \<noteq> is_wordp (next_char (rest_of s)) then [s] else [])"
| "rmatch Line_start s = (if fst s = None \<or> fst s = Some (CHR 0x0A) then [s] else [])"
| "rmatch Line_end s = (if rest_of s = [] \<or> next_char (rest_of s) = Some (CHR 0x0A) then [s] else [])"
| "rmatch (Not_ahead r) s = (if rmatch r s = [] then [s] else [])"
| "rmatch (Group g r) s = map (bind_group g s) (rmatch r s)"
| "rmatch (Again g) s =
     (case map_of (groups_of s) g of None \<Rightarrow> [] | Some w \<Rightarrow> literally w s)"

text \<open>Shorthands: a sequence, a choice, a choice of words, one or more, at most one, and the
  classes \<open>.\<close>, \<open>\s\<close>, \<open>[^\n]\<close>.\<close>

fun seqs :: "rx list \<Rightarrow> rx" where
  "seqs [] = Lit []"
| "seqs [r] = r"
| "seqs (r # q # rs) = Seq r (seqs (q # rs))"

fun choice :: "rx list \<Rightarrow> rx" where
  "choice [] = One (\<lambda>_. False)"
| "choice [r] = r"
| "choice (r # q # rs) = Alt r (choice (q # rs))"

definition words :: "string list \<Rightarrow> rx" where
  "words ws = choice (map Lit ws)"

definition plus :: "rx \<Rightarrow> rx" where
  "plus r = Seq r (Star r)"

definition dot :: rx where
  "dot = One (\<lambda>c. c \<noteq> CHR 0x0A)"

definition sp :: rx where
  "sp = One is_space"

definition is_letter :: "char \<Rightarrow> bool" where
  "is_letter c = (let n = (of_char c :: nat) in (65 \<le> n \<and> n \<le> 90) \<or> (97 \<le> n \<and> n \<le> 122))"

definition is_small :: "char \<Rightarrow> bool" where
  "is_small c = (let n = (of_char c :: nat) in 97 \<le> n \<and> n \<le> 122)"

definition is_alnum :: "char \<Rightarrow> bool" where
  "is_alnum c \<longleftrightarrow> is_letter c \<or> is_digit c"

section \<open>Search\<close>

text \<open>The first match at or after a position; \<^verbatim>\<open>re.search\<close> asks whether there is one.\<close>

fun find_from :: "rx \<Rightarrow> char option \<Rightarrow> string \<Rightarrow> (position \<times> position) option" where
  "find_from r p [] = (case rmatch r (p, [], []) of [] \<Rightarrow> None | u # _ \<Rightarrow> Some ((p, [], []), u))"
| "find_from r p (c # cs) =
     (case rmatch r (p, c # cs, []) of
        [] \<Rightarrow> find_from r (Some c) cs
      | u # _ \<Rightarrow> Some ((p, c # cs, []), u))"

definition found :: "rx \<Rightarrow> string \<Rightarrow> bool" where
  "found r s = (find_from r None s \<noteq> None)"

text \<open>\<^verbatim>\<open>re.finditer\<close>: the groups of the matches, each search going on where the last match ended. The
  expressions it is used with match no empty text; fuel is one more than the length of the text.\<close>

fun find_all :: "nat \<Rightarrow> rx \<Rightarrow> char option \<Rightarrow> string \<Rightarrow> (position \<times> position) list" where
  "find_all 0 r p s = []"
| "find_all (Suc n) r p s =
     (case find_from r p s of
        None \<Rightarrow> []
      | Some (a, b) \<Rightarrow> (a, b) #
          (if length (rest_of b) < length (rest_of a) then find_all n r (fst b) (rest_of b)
           else case rest_of a of [] \<Rightarrow> [] | c # cs \<Rightarrow> find_all n r (Some c) cs))"

definition matches_of :: "rx \<Rightarrow> string \<Rightarrow> (nat \<times> string) list list" where
  "matches_of r s = map (\<lambda>m. groups_of (snd m)) (find_all (Suc (length s)) r None s)"

text \<open>\<^verbatim>\<open>re.sub\<close> with a literal replacement, for expressions that match no empty text.\<close>

fun sub_from :: "nat \<Rightarrow> rx \<Rightarrow> string \<Rightarrow> char option \<Rightarrow> string \<Rightarrow> string" where
  "sub_from 0 r w p s = s"
| "sub_from (Suc n) r w p s =
     (case find_from r p s of
        None \<Rightarrow> s
      | Some (a, b) \<Rightarrow>
          take (length s - length (rest_of a)) s @ w @ sub_from n r w (fst b) (rest_of b))"

definition sub_all :: "rx \<Rightarrow> string \<Rightarrow> string \<Rightarrow> string" where
  "sub_all r w s = sub_from (Suc (length s)) r w None s"

lemma found_iff_at: "(find_from r p s \<noteq> None) \<longleftrightarrow>
    (\<exists>u v. s = u @ v \<and> rmatch r (if u = [] then p else Some (last u), v, []) \<noteq> [])"
proof (induction s arbitrary: p)
  case (Cons c cs)
  show ?case
  proof
    assume "find_from r p (c # cs) \<noteq> None"
    then consider "rmatch r (p, c # cs, []) \<noteq> []" | "find_from r (Some c) cs \<noteq> None"
      by (auto split: list.splits)
    then show "\<exists>u v. c # cs = u @ v \<and> rmatch r (if u = [] then p else Some (last u), v, []) \<noteq> []"
    proof cases
      case 1
      then show ?thesis by (intro exI [of _ "[]"] exI [of _ "c # cs"]) simp
    next
      case 2
      then obtain u v where "cs = u @ v" "rmatch r (if u = [] then Some c else Some (last u), v, []) \<noteq> []"
        using Cons.IH by blast
      then show ?thesis by (intro exI [of _ "c # u"] exI [of _ v]) (auto split: if_splits)
    qed
  next
    assume "\<exists>u v. c # cs = u @ v \<and> rmatch r (if u = [] then p else Some (last u), v, []) \<noteq> []"
    then obtain u v where uv: "c # cs = u @ v" "rmatch r (if u = [] then p else Some (last u), v, []) \<noteq> []"
      by blast
    show "find_from r p (c # cs) \<noteq> None"
    proof (cases u)
      case Nil
      then show ?thesis using uv by (auto split: list.split)
    next
      case (Cons d u')
      then have "\<exists>a b. cs = a @ b \<and> rmatch r (if a = [] then Some c else Some (last a), b, []) \<noteq> []"
        using uv by (intro exI [of _ u'] exI [of _ v]) (auto split: if_splits)
      then have "find_from r (Some c) cs \<noteq> None" using Cons.IH by blast
      then show ?thesis by (auto split: list.split)
    qed
  qed
qed (auto split: list.splits)

lemma found_iff: "found r s \<longleftrightarrow>
    (\<exists>u v. s = u @ v \<and> rmatch r (if u = [] then None else Some (last u), v, []) \<noteq> [])"
  unfolding found_def by (rule found_iff_at)

section \<open>Matches in a larger text\<close>

text \<open>Expressions without groups that look neither ahead nor at the ends of lines: what they match in a text they match in
  a larger one, when what surrounds it does not continue a word.\<close>

primrec plain :: "rx \<Rightarrow> bool" where
  "plain (Lit w) = True"
| "plain (One p) = True"
| "plain (Seq q r) = (plain q \<and> plain r)"
| "plain (Alt q r) = (plain q \<and> plain r)"
| "plain (Star r) = plain r"
| "plain (Lazy r) = plain r"
| "plain (Upto n r) = plain r"
| "plain Bound = True"
| "plain Line_start = False"
| "plain Line_end = False"
| "plain (Not_ahead r) = False"
| "plain (Group g r) = False"
| "plain (Again g) = False"

definition wider :: "string \<Rightarrow> position \<Rightarrow> position \<Rightarrow> bool" where
  "wider t s s' \<longleftrightarrow> is_wordp (fst s) = is_wordp (fst s') \<and> rest_of s' = rest_of s @ t
     \<and> groups_of s' = groups_of s"

definition quiet_start :: "string \<Rightarrow> bool" where
  "quiet_start t \<longleftrightarrow> \<not> is_wordp (next_char t)"

lemma starts_with_iff: "starts_with p s \<longleftrightarrow> (\<exists>v. s = p @ v)"
  by (metis append_eq_conv_conj append_take_drop_id starts_with_def)

lemma wider_literally:
  assumes "wider t s s'" and "u \<in> set (literally w s)"
  shows "\<exists>u' \<in> set (literally w s'). wider t u u'"
  using assms by (auto simp: wider_def literally_def starts_with_iff split: if_splits)

lemma wider_one_char:
  assumes "wider t s s'" and "u \<in> set (one_char p s)"
  shows "\<exists>u' \<in> set (one_char p s'). wider t u u'"
  using assms by (cases "rest_of s") (auto simp: wider_def one_char_def split: if_splits)

lemma set_many_Suc: "set (many z f (Suc n) s) =
    insert s (\<Union>v \<in> {v \<in> set (f s). length (rest_of v) < length (rest_of s)}. set (many z f n v))"
  by (auto simp: Let_def)

lemma many_more: "u \<in> set (many z f n s) \<Longrightarrow> n \<le> m \<Longrightarrow> u \<in> set (many z f m s)"
proof (induction n arbitrary: s m)
  case 0
  then show ?case by (cases m) (auto simp: Let_def)
next
  case (Suc n)
  then obtain k where "m = Suc k" "n \<le> k" by (cases m) auto
  then show ?case using Suc.prems(1) Suc.IH unfolding \<open>m = Suc k\<close> set_many_Suc by blast
qed

lemma wider_many:
  assumes f: "\<And>s s' u. wider t s s' \<Longrightarrow> u \<in> set (f s) \<Longrightarrow> \<exists>u' \<in> set (f s'). wider t u u'"
  shows "wider t s s' \<Longrightarrow> u \<in> set (many z f n s) \<Longrightarrow> \<exists>u' \<in> set (many z f n s'). wider t u u'"
proof (induction n arbitrary: s s')
  case (Suc n)
  show ?case
  proof (cases "u = s")
    case True
    then show ?thesis using Suc.prems(1) unfolding set_many_Suc by blast
  next
    case False
    then obtain v where v: "v \<in> set (f s)" "length (rest_of v) < length (rest_of s)" "u \<in> set (many z f n v)"
      using Suc.prems(2) unfolding set_many_Suc by blast
    obtain v' where v': "v' \<in> set (f s')" "wider t v v'" using f [OF Suc.prems(1) v(1)] by blast
    obtain u' where u': "u' \<in> set (many z f n v')" "wider t u u'" using Suc.IH [OF v'(2) v(3)] by blast
    have "length (rest_of v') < length (rest_of s')"
      using v(2) v'(2) Suc.prems(1) by (simp add: wider_def)
    then show ?thesis using v'(1) u' unfolding set_many_Suc by blast
  qed
qed auto

lemma wider_bound:
  assumes "quiet_start t" and "wider t s s'"
  shows "is_wordp (next_char (rest_of s')) = is_wordp (next_char (rest_of s))"
  using assms by (cases "rest_of s") (auto simp: wider_def quiet_start_def next_char_def is_wordp_def)

lemma rmatch_wider:
  assumes t: "quiet_start t"
  shows "plain r \<Longrightarrow> wider t s s' \<Longrightarrow> u \<in> set (rmatch r s) \<Longrightarrow> \<exists>u' \<in> set (rmatch r s'). wider t u u'"
proof (induction r arbitrary: s s' u)
  case (Seq q r)
  then have pl: "plain q" "plain r" by auto
  obtain v where v: "v \<in> set (rmatch q s)" "u \<in> set (rmatch r v)" using Seq.prems(3) by auto
  obtain v' where v': "v' \<in> set (rmatch q s')" "wider t v v'"
    using Seq.IH(1) [OF pl(1) Seq.prems(2) v(1)] by blast
  obtain u' where "u' \<in> set (rmatch r v')" "wider t u u'"
    using Seq.IH(2) [OF pl(2) v'(2) v(2)] by blast
  then show ?case using v'(1) by auto
next
  case (Alt q r)
  then have "plain q" "plain r" by auto
  then show ?case using Alt.IH Alt.prems(2,3) by (simp add: bex_Un) blast
next
  case (Star r)
  have f: "\<exists>u' \<in> set (rmatch r s'). wider t u u'" if "wider t s s'" "u \<in> set (rmatch r s)" for s s' u
    using Star.IH [OF _ that] Star.prems(1) by simp
  have w: "\<exists>u' \<in> set (many False (rmatch r) n s'). wider t u u'" if "u \<in> set (many False (rmatch r) n s)" for n
    by (rule wider_many [OF _ Star.prems(2) that]) (rule f)
  obtain u' where u': "u' \<in> set (many False (rmatch r) (length (rest_of s)) s')" "wider t u u'"
    using w [of "length (rest_of s)"] Star.prems(3) by auto
  have "length (rest_of s) \<le> length (rest_of s')" using Star.prems(2) by (simp add: wider_def)
  with u' show ?case by (auto dest: many_more)
next
  case (Lazy r)
  have f: "\<exists>u' \<in> set (rmatch r s'). wider t u u'" if "wider t s s'" "u \<in> set (rmatch r s)" for s s' u
    using Lazy.IH [OF _ that] Lazy.prems(1) by simp
  have w: "\<exists>u' \<in> set (many True (rmatch r) n s'). wider t u u'" if "u \<in> set (many True (rmatch r) n s)" for n
    by (rule wider_many [OF _ Lazy.prems(2) that]) (rule f)
  obtain u' where u': "u' \<in> set (many True (rmatch r) (length (rest_of s)) s')" "wider t u u'"
    using w [of "length (rest_of s)"] Lazy.prems(3) by auto
  have "length (rest_of s) \<le> length (rest_of s')" using Lazy.prems(2) by (simp add: wider_def)
  with u' show ?case by (auto dest: many_more)
next
  case (Upto n r)
  have f: "\<exists>u' \<in> set (rmatch r s'). wider t u u'" if "wider t s s'" "u \<in> set (rmatch r s)" for s s' u
    using Upto.IH [OF _ that] Upto.prems(1) by simp
  have "\<exists>u' \<in> set (many False (rmatch r) n s'). wider t u u'"
    by (rule wider_many [OF _ Upto.prems(2)]) (use f Upto.prems(3) in auto)
  then show ?case by simp
next
  case Bound
  have "is_wordp (next_char (rest_of s')) = is_wordp (next_char (rest_of s))"
    by (rule wider_bound [OF t Bound.prems(2)])
  then show ?case using Bound.prems by (auto simp: wider_def split: if_splits)
next
  case (Lit w)
  then show ?case using wider_literally by simp
next
  case (One p)
  then show ?case using wider_one_char by simp
qed simp_all

lemma found_wider:
  assumes "plain r" and "found r s" and "quiet_start t" and "u = [] \<or> \<not> is_word (last u)"
  shows "found r (u @ s @ t)"
proof -
  obtain a b where ab: "s = a @ b" and m: "rmatch r (if a = [] then None else Some (last a), b, []) \<noteq> []"
    using assms(2) by (auto simp: found_iff)
  let ?p = "(if a = [] then None else Some (last a), b, [])"
  let ?q = "(if u @ a = [] then None else Some (last (u @ a)), b @ t, [])"
  have "wider t ?p ?q" using assms(4) by (auto simp: wider_def is_wordp_def split: option.split)
  moreover obtain x where "x \<in> set (rmatch r ?p)" using m by (meson list.set_sel(1))
  ultimately have "rmatch r ?q \<noteq> []" using rmatch_wider [OF assms(3,1)] by (metis empty_iff empty_set)
  then show ?thesis unfolding found_iff
    by (intro exI [of _ "u @ a"] exI [of _ "b @ t"]) (simp add: ab)
qed

section \<open>Characters a match needs\<close>

primrec needs :: "char \<Rightarrow> rx \<Rightarrow> bool" where
  "needs c (Lit w) = (c \<in> set w)"
| "needs c (One p) = False"
| "needs c (Seq q r) = (needs c q \<or> needs c r)"
| "needs c (Alt q r) = (needs c q \<and> needs c r)"
| "needs c (Star r) = False"
| "needs c (Lazy r) = False"
| "needs c (Upto n r) = False"
| "needs c Bound = False"
| "needs c Line_start = False"
| "needs c Line_end = False"
| "needs c (Not_ahead r) = False"
| "needs c (Group g r) = needs c r"
| "needs c (Again g) = False"

lemma literally_rest: "u \<in> set (literally w s) \<Longrightarrow> set (rest_of u) \<subseteq> set (rest_of s)"
  by (auto simp: literally_def split: if_splits dest: in_set_dropD)

lemma one_char_rest: "u \<in> set (one_char p s) \<Longrightarrow> set (rest_of u) \<subseteq> set (rest_of s)"
  by (cases "rest_of s") (auto simp: one_char_def split: if_splits)

lemma many_rest:
  assumes "\<And>s u. u \<in> set (f s) \<Longrightarrow> set (rest_of u) \<subseteq> set (rest_of s)"
  shows "u \<in> set (many z f n s) \<Longrightarrow> set (rest_of u) \<subseteq> set (rest_of s)"
proof (induction n arbitrary: s)
  case (Suc n)
  then show ?case unfolding set_many_Suc using assms by blast
qed simp

lemma rmatch_rest: "u \<in> set (rmatch r s) \<Longrightarrow> set (rest_of u) \<subseteq> set (rest_of s)"
proof (induction r arbitrary: s u)
  case (Seq q r)
  then obtain v where v: "v \<in> set (rmatch q s)" "u \<in> set (rmatch r v)" by auto
  show ?case using Seq.IH(1) [OF v(1)] Seq.IH(2) [OF v(2)] by blast
next
  case (Alt q r)
  then consider "u \<in> set (rmatch q s)" | "u \<in> set (rmatch r s)" by auto
  then show ?case by cases (rule Alt.IH; assumption)+
next
  case (Star r)
  show ?case using many_rest [where f = "rmatch r", OF Star.IH] Star.prems by simp
next
  case (Lazy r)
  show ?case using many_rest [where f = "rmatch r", OF Lazy.IH] Lazy.prems by simp
next
  case (Upto n r)
  show ?case using many_rest [where f = "rmatch r", OF Upto.IH] Upto.prems by simp
next
  case (Group g r)
  then obtain v where v: "v \<in> set (rmatch r s)" "u = bind_group g s v" by auto
  show ?case using Group.IH [OF v(1)] v(2) by (simp add: bind_group_def)
next
  case (Lit w)
  then show ?case using literally_rest by simp
next
  case (One p)
  then show ?case using one_char_rest by simp
next
  case (Again g)
  then obtain w where "u \<in> set (literally w s)" by (auto split: option.splits)
  then show ?case by (rule literally_rest)
qed (simp_all split: if_splits)

lemma match_needs: "needs c r \<Longrightarrow> u \<in> set (rmatch r s) \<Longrightarrow> c \<in> set (rest_of s)"
proof (induction r arbitrary: s u)
  case (Seq q r)
  then obtain v where v: "v \<in> set (rmatch q s)" "u \<in> set (rmatch r v)" by auto
  show ?case
  proof (cases "needs c q")
    case True
    then show ?thesis using Seq.IH(1) v(1) by blast
  next
    case False
    then show ?thesis using Seq.IH(2) [OF _ v(2)] rmatch_rest [OF v(1)] Seq.prems(1) by auto
  qed
next
  case (Alt q r)
  then have "needs c q" "needs c r" by auto
  moreover consider "u \<in> set (rmatch q s)" | "u \<in> set (rmatch r s)" using Alt.prems(2) by auto
  ultimately show ?case by cases (use Alt.IH in blast)+
next
  case (Lit w)
  then show ?case by (auto simp: literally_def starts_with_iff split: if_splits)
qed auto

lemma found_needs: "found r s \<Longrightarrow> needs c r \<Longrightarrow> c \<in> set s"
  unfolding found_iff using match_needs by (metis Un_iff fst_conv list.set_sel(1) set_append snd_conv)

end
