(* ===== verification/Delete_Guard.thy ===== *)
theory Delete_Guard
  imports Regex
begin

text \<open>
  Which commands delete files or data, \<^verbatim>\<open>runtime/tools/delete_guard.py\<close>. A pattern is kept with
  whether it is one of \<^verbatim>\<open>_LOCAL_DELETES\<close>, the deletes that run free inside the sandbox unless
  they touch AIForge's own data. The path resolver, the working directory of the process and the
  reader of shell writes (\<^verbatim>\<open>runtime/shell_writes.py\<close>) are arguments.
\<close>

section \<open>Patterns\<close>

definition branch_delete :: rx where
  "branch_delete = seqs [Bound, Lit ''git'', plus sp, Lit ''branch'', plus sp, Lit ''-D'', Bound]"

definition delete_patterns :: "(bool \<times> rx) list" where
  "delete_patterns =
    [(True, seqs [Bound, Lit ''rm'', plus sp, Upto 5 (seqs [Lit ''-'', plus (One is_small), plus sp])]),
     (True, seqs [Bound, Lit ''rmdir'', Bound]),
     (True, seqs [Bound, Lit ''unlink'', Bound]),
     (True, seqs [Bound, Lit ''git'', plus sp, Lit ''clean'', Bound]),
     (True, seqs [Bound, Lit ''git'', plus sp, Lit ''reset'', plus sp, Lit ''--hard'', Bound]),
     (True, branch_delete),
     (True, seqs [Bound, Lit ''find'', Bound, Star dot, Lit ''-delete'', Bound]),
     (False, seqs [Bound, Lit ''drop'', plus sp, words [''table'', ''database''], Bound]),
     (False, seqs [Bound, Lit ''truncate'', plus sp, Lit ''table'', Bound]),
     (True, seqs [Bound, Lit ''truncate'', plus sp, Lit ''-'']),
     (True, seqs [Bound, Lit ''dd'', Bound, Star dot, Bound, Lit ''of='',
                  Not_ahead (seqs [Lit ''/dev/null'', Bound])]),
     (True, seqs [Bound, Lit ''cp'', plus sp, Lit ''/dev/null'', sp]),
     (False, seqs [Lit ''>'', Star sp, Lit ''/dev/sd'']),
     (False, seqs [Bound, Lit ''mkfs'', Bound]),
     (False, seqs [Bound, Lit ''shred'', Bound]),
     (False, seqs [Bound, Lit ''docker'', plus sp,
                   choice [Lit ''rm'', Lit ''rmi'', seqs [Lit ''volume'', plus sp, Lit ''rm''],
                           seqs [Lit ''system'', plus sp, Lit ''prune'']], Bound]),
     (False, seqs [Bound, Lit ''kubectl'', plus sp, Lit ''delete'', Bound])]"

definition delete_hits :: "string \<Rightarrow> (bool \<times> rx) list" where
  "delete_hits cmd = filter (\<lambda>p. found (snd p) (lower cmd)) delete_patterns"

section \<open>AIForge's own data\<close>

definition work_areas :: "string list" where
  "work_areas = [''repos'', ''chat-workspaces'', ''workspaces'', ''tmp'']"

definition join_path :: "string \<Rightarrow> string \<Rightarrow> string" where
  "join_path d f = (if d = [] \<or> last d = CHR ''/'' then d @ f else d @ ''/'' @ f)"

definition cfg_dirname :: string where
  "cfg_dirname = ''.aiforge''"

definition in_sandbox :: "env \<Rightarrow> bool" where
  "in_sandbox e = env_yes e ''AIFORGE_SANDBOX''"

definition config_forms :: "env \<Rightarrow> string list" where
  "config_forms e =
     (let home = env_get e ''HOME'' [];
          dflt = join_path home cfg_dirname;
          set_dir = env_get e ''AIFORGE_CONFIG_DIR'' [];
          cfg = (if set_dir = [] then dflt else set_dir)
      in filter (\<lambda>f. f \<noteq> [])
           (rstrip_chars ''/'' cfg # map (\<lambda>p. p @ ''/'' @ cfg_dirname) [''~'', ''$HOME'', ''${HOME}'']
            @ (if home = [] then [] else [dflt])))"

text \<open>The first component after the folder, of each place a command names it.\<close>

definition below_form :: "string \<Rightarrow> rx" where
  "below_form form = Seq (Lit form)
     (choice [Group 1 (Seq (Lit ''/'') (Star (One (\<lambda>c. \<not> is_space c \<and> c \<notin> set [CHR 0x27, CHR 0x22, CHR '';'', CHR ''|'', CHR ''&'', CHR '')''])))),
              Lit []])"

definition first_part :: "string \<Rightarrow> string" where
  "first_part p = hd (split_char (CHR ''/'') (strip_chars ''/'' p))"

definition touches_aiforge_data :: "env \<Rightarrow> string \<Rightarrow> bool" where
  "touches_aiforge_data e cmd = list_ex (\<lambda>form.
     list_ex (\<lambda>gs. first_part (case map_of gs 1 of None \<Rightarrow> [] | Some w \<Rightarrow> w) \<notin> set work_areas)
       (matches_of (below_form form) cmd)) (config_forms e)"

record outside =
  realpath :: "string \<Rightarrow> string"
  process_dir :: string
  write_targets :: "string \<Rightarrow> string \<Rightarrow> string list res"

text \<open>\<^verbatim>\<open>os.path.relpath\<close> of a resolved path below the resolved folder is what follows it.\<close>

definition protected_path :: "outside \<Rightarrow> env \<Rightarrow> string \<Rightarrow> bool" where
  "protected_path x e path =
     (let set_dir = env_get e ''AIFORGE_CONFIG_DIR'' [];
          cfg = realpath x (if set_dir = [] then join_path (env_get e ''HOME'' ''/'') cfg_dirname else set_dir);
          p = realpath x path
      in if p = cfg \<or> starts_with (rstrip_chars ''/'' p @ ''/'') cfg then True
         else if starts_with (cfg @ ''/'') p
         then hd (split_char (CHR ''/'') (drop (Suc (length cfg)) p)) \<notin> set work_areas
         else False)"

definition acts_on_folder :: rx where
  "acts_on_folder = choice [seqs [Bound, Lit ''git'', plus sp, words [''clean'', ''reset''], Bound],
                            seqs [Bound, Lit ''find'', Bound]]"

definition deletes_aiforge_data :: "outside \<Rightarrow> env \<Rightarrow> string \<Rightarrow> string option \<Rightarrow> bool" where
  "deletes_aiforge_data x e cmd dir =
     (let here = (case dir of None \<Rightarrow> process_dir x | Some d \<Rightarrow> if d = [] then process_dir x else d)
      in if touches_aiforge_data e cmd then True
         else (let ts = or_else (write_targets x cmd here) [] in
               list_ex (protected_path x e) (if found acts_on_folder cmd then ts @ [here] else ts)))"

section \<open>The verdict\<close>

definition is_destructive_delete :: "outside \<Rightarrow> env \<Rightarrow> string \<Rightarrow> string option \<Rightarrow> bool" where
  "is_destructive_delete x e cmd dir =
     (if cmd = [] then False
      else (let hits = delete_hits cmd in
        if hits = [] then False
        else if in_sandbox e \<and> list_all fst hits \<and> \<not> deletes_aiforge_data x e cmd dir then False
        else True))"

definition allow_delete :: "env \<Rightarrow> string list \<Rightarrow> bool" where
  "allow_delete e ks = list_ex (env_yes e) ks"

section \<open>Facts\<close>

lemma deletes_outside_sandbox:
  "\<not> in_sandbox e \<Longrightarrow> is_destructive_delete x e cmd dir \<longleftrightarrow> cmd \<noteq> [] \<and> delete_hits cmd \<noteq> []"
  by (simp add: is_destructive_delete_def Let_def)

lemma deletes_mono:
  "is_destructive_delete x e cmd dir \<Longrightarrow> cmd \<noteq> [] \<and> delete_hits cmd \<noteq> []"
  by (auto simp: is_destructive_delete_def Let_def split: if_splits)

lemma shred_hits: "delete_hits ''shred'' \<noteq> []"
proof -
  let ?p = "(False, seqs [Bound, Lit ''shred'', Bound])"
  have "?p \<in> set delete_patterns"
    unfolding delete_patterns_def by (simp only: list.set insert_iff simp_thms)
  moreover have "found (snd ?p) (lower ''shred'')"
    by (simp add: found_def lower_def lower_char_def literally_def starts_with_def is_wordp_def next_char_def is_word_def)
  ultimately show ?thesis unfolding delete_hits_def filter_empty_conv by blast
qed

lemma of_char_lower: "(of_char (lower_char c) :: nat) = (let n = of_char c in if 65 \<le> n \<and> n \<le> 90 then n + 32 else n)"
  by (simp add: lower_char_def Let_def)

lemma lower_no_capital: "c \<in> set (lower s) \<Longrightarrow> \<not> (65 \<le> (of_char c :: nat) \<and> (of_char c :: nat) \<le> 90)"
  by (auto simp: lower_def of_char_lower Let_def split: if_splits)

text \<open>The pattern for \<^verbatim>\<open>git branch -D\<close> never matches: it is compared with the lowered command, in
  which there is no capital letter. Deleting a branch by force is not taken for a delete.\<close>

theorem branch_delete_unseen: "\<not> found branch_delete (lower cmd)"
proof
  assume "found branch_delete (lower cmd)"
  then have "CHR ''D'' \<in> set (lower cmd)"
    by (rule found_needs) (simp add: branch_delete_def plus_def)
  then show False using lower_no_capital by fastforce
qed

end
