(* ===== verification/Command_Risk.thy ===== *)
theory Command_Risk
  imports Delete_Guard
begin

text \<open>
  The risk of a shell command or of a notebook cell, \<^verbatim>\<open>runtime/tools/command_risk.py\<close>: safe, caution
  or dangerous, with a reason. The patterns are compiled with \<^verbatim>\<open>IGNORECASE\<close>: they are matched on the
  lowered text.
\<close>

section \<open>Patterns\<close>

definition secret_path :: rx where
  "secret_path = choice
    [Lit ''.ssh/'', Lit ''.aws/'', Seq (Lit ''.env'') Bound, Lit ''id_rsa'', Lit ''id_ed25519'',
     Lit ''credentials'', seqs [Lit ''secret'', choice [Lit ''s'', Lit []], Bound],
     Seq (Lit ''.pem'') Bound, Lit ''.kube/'',
     seqs [Lit ''private'', choice [One (\<lambda>c. c = CHR ''_'' \<or> c = CHR ''-''), Lit []], Lit ''key''],
     Seq (Lit ''.netrc'') Bound, Seq (Lit ''.npmrc'') Bound, Seq (Lit ''.aiforge/security'') Bound]"

definition interpreter :: rx where
  "interpreter = choice [Lit ''sh'', Lit ''bash'', Lit ''zsh'', Lit ''ksh'',
     Seq (Lit ''python'') (Star (One (\<lambda>c. is_digit c \<or> c = CHR ''.''))), Lit ''perl'', Lit ''ruby'', Lit ''node'']"

abbreviation shells :: rx where
  "shells \<equiv> words [''sh'', ''bash'', ''zsh'', ''ksh'']"

definition rce :: string where
  "rce = ''pipes a network download into a shell/interpreter (remote code execution)''"
definition rce_subst :: string where
  "rce_subst = ''executes a network download via process substitution (remote code execution)''"
definition exfil :: string where
  "exfil = ''exfiltrates credentials / private keys / secrets off the machine''"
definition decoded :: string where
  "decoded = ''decodes an encoded payload and pipes it into a shell (obfuscated RCE)''"
definition sh_c :: string where
  "sh_c = ''runs a command-substitution payload via sh -c''"

definition dangerous_patterns :: "(rx \<times> string) list" where
  "dangerous_patterns =
    [(seqs [Bound, words [''curl'', ''wget'', ''fetch''], Bound, Star dot, Lit ''|'', Star dot,
            Bound, interpreter, Bound], rce),
     (seqs [Bound, shells, Bound, plus sp, Lit ''<('', Star sp, words [''curl'', ''wget'', ''fetch''], Bound],
      rce_subst),
     (seqs [words [''scp'', ''curl'', ''wget'', ''rsync'', ''nc'', ''netcat'', ''tar''], Bound, Star dot,
            secret_path], exfil),
     (seqs [secret_path, Star (One (\<lambda>c. c \<noteq> CHR 0x0A \<and> c \<noteq> CHR ''|'')), Lit ''|'', Lazy dot, Bound,
            words [''curl'', ''wget'', ''nc'', ''ncat'', ''netcat'', ''socat''], Bound], exfil),
     (seqs [Bound, Lit ''env'', Bound, Star dot, Lit ''|'', Star sp,
            words [''curl'', ''wget'', ''nc'', ''netcat''], Bound],
      ''pipes the environment (likely secrets) to the network''),
     (seqs [Bound, Lit ''mkfs'', Bound], ''formats a filesystem''),
     (seqs [Lit ''>'', Star sp, Lit ''/dev/'', words [''sd'', ''nvme'', ''disk'', ''hd'']],
      ''writes over a raw disk device''),
     (seqs [Bound, Lit ''dd'', Bound, Star dot, Bound, Lit ''of=/dev/''], ''dd writes to a raw device''),
     (seqs [Lit '':()'', Star sp, Lit ''{'', Star sp, Lit '':'', Star sp, Lit ''|'', Star sp, Lit '':''], ''fork bomb''),
     (seqs [Bound, Lit ''shred'', Bound], ''irrecoverably shreds data''),
     (seqs [Bound, words [''base64'', ''xxd'', ''openssl''], Bound, Star dot, Lit ''|'', Star dot,
            Bound, interpreter, Bound], decoded),
     (seqs [Bound, shells, Bound, plus sp, Lit ''-c'', plus sp,
            choice [One (\<lambda>c. c = CHR 0x22 \<or> c = CHR 0x27), Lit []], Lit ''$(''], sh_c)]"

abbreviation git_push :: rx where
  "git_push \<equiv> seqs [Bound, Lit ''git'', plus sp, Lit ''push'', Bound]"

definition sudo_why :: string where "sudo_why = ''runs with elevated privileges (sudo)''"
definition chmod_why :: string where "chmod_why = ''makes a path world-writable (chmod 777)''"
definition chown_why :: string where "chown_why = ''changes file ownership''"
definition global_why :: string where "global_why = ''installs a global package''"
definition user_why :: string where "user_why = ''installs a user-wide Python package''"
definition kill_why :: string where "kill_why = ''force-kills processes''"
definition service_why :: string where "service_why = ''stops/disables a system service''"
definition cron_why :: string where "cron_why = ''edits scheduled jobs''"
definition firewall_why :: string where "firewall_why = ''changes firewall rules''"
definition eval_why :: string where "eval_why = ''eval of a constructed string (can hide a risky command)''"
definition force_why :: string where "force_why = ''force-pushes (can clobber remote history)''"
definition push_why :: string where
  "push_why = ''pushes commits to a remote (external; updates the remote branch)''"

definition caution_patterns :: "(rx \<times> string) list" where
  "caution_patterns =
    [(seqs [Bound, words [''cat'', ''less'', ''more'', ''grep'', ''tail'', ''head'', ''cp''], Bound, Star dot,
            secret_path], ''reads credentials / private keys / secrets''),
     (seqs [Bound, Lit ''sudo'', Bound], sudo_why),
     (seqs [Bound, Lit ''chmod'', plus sp, Upto 4 (seqs [Lit ''-'', plus (One is_letter), plus sp]),
            Lit ''777'', Bound], chmod_why),
     (seqs [Bound, Lit ''chown'', Bound], chown_why),
     (seqs [git_push, Star dot, Lit ''--force'', Not_ahead (Lit ''-with-lease''), Bound], force_why),
     (seqs [git_push, Star dot, sp, Lit ''-f'', Bound], force_why),
     (git_push, push_why),
     (seqs [Bound, Lit ''gh'', plus sp, Lit ''pr'', plus sp, Lit ''create'', Bound], ''opens a GitHub pull request''),
     (seqs [Bound, Lit ''glab'', plus sp, Lit ''mr'', plus sp, Lit ''create'', Bound], ''opens a GitLab merge request''),
     (seqs [Bound, words [''npm'', ''yarn'', ''pnpm''], plus sp, words [''install'', ''add''], Bound, Star dot,
            sp, Lit ''-g'', Bound], global_why),
     (seqs [Bound, Lit ''pip'', Star (One (\<lambda>c. is_digit c \<or> c = CHR ''.'')), plus sp, Lit ''install'', Bound,
            Star dot, sp, Lit ''--user'', Bound], user_why),
     (seqs [Bound, Lit ''kill'', choice [Lit ''all'', Lit []], Bound, plus sp, Lit ''-9'', Bound], kill_why),
     (seqs [Bound, Lit ''systemctl'', plus sp, words [''stop'', ''disable'', ''mask''], Bound], service_why),
     (seqs [Bound, Lit ''crontab'', Bound], cron_why),
     (seqs [Bound, Lit ''iptables'', Bound], firewall_why),
     (seqs [Bound, Lit ''eval'', Bound], eval_why)]"

definition box_local :: "string list" where
  "box_local = [sudo_why, chmod_why, chown_why, global_why, user_why, kill_why, service_why, cron_why,
     firewall_why, eval_why]"

definition box_local_dangerous :: "string list" where
  "box_local_dangerous = [rce, rce_subst, decoded, sh_c]"

section \<open>Normal form\<close>

text \<open>\<^verbatim>\<open>s.replace(qq, "")\<close> for a character twice.\<close>

fun drop_pairs :: "char \<Rightarrow> string \<Rightarrow> string" where
  "drop_pairs q (a # b # s) = (if a = q \<and> b = q then drop_pairs q s else a # drop_pairs q (b # s))"
| "drop_pairs q s = s"

definition normalize :: "string \<Rightarrow> string" where
  "normalize cmd =
     (let s1 = sub_all (seqs [Lit ''${IFS'', Star (One (\<lambda>c. c \<noteq> CHR ''}'')), Lit ''}'']) '' '' cmd;
          s2 = sub_all (Seq (Lit ''$IFS'') Bound) '' '' s1;
          s3 = drop_pairs (CHR 0x22) (drop_pairs (CHR 0x27) s2)
      in sub_all (Seq (Lit [CHR 0x5C]) (Not_ahead (Not_ahead (One is_alnum)))) [] s3)"

section \<open>The verdict on a command\<close>

record verdict =
  v_level :: string
  v_reason :: string

definition safe :: verdict where
  "safe = \<lparr>v_level = ''safe'', v_reason = []\<rparr>"

definition risk_disabled :: "env \<Rightarrow> bool" where
  "risk_disabled e = env_yes e ''AIFORGE_RISK_DISABLE''"

definition ssh_allowed :: "env \<Rightarrow> bool" where
  "ssh_allowed e = env_yes e ''AIFORGE_ALLOW_SSH''"

definition matches_form :: "rx \<Rightarrow> string list \<Rightarrow> bool" where
  "matches_form r forms = list_ex (\<lambda>f. found r (lower f)) forms"

text \<open>\<^verbatim>\<open>^\s*ssh\b\<close>, matched at the start.\<close>

definition starts_ssh :: "string \<Rightarrow> bool" where
  "starts_ssh f \<longleftrightarrow> rmatch (seqs [Star sp, Lit ''ssh'', Bound]) (None, f, []) \<noteq> []"

fun scan_caution :: "env \<Rightarrow> string list \<Rightarrow> (rx \<times> string) list \<Rightarrow> verdict" where
  "scan_caution e forms [] = safe"
| "scan_caution e forms ((r, why) # ps) =
     (if \<not> matches_form r forms then scan_caution e forms ps
      else if ssh_allowed e \<and> list_ex starts_ssh forms then safe
      else if in_sandbox e \<and> why \<in> set box_local then scan_caution e forms ps
      else \<lparr>v_level = ''caution'', v_reason = why\<rparr>)"

definition caution_verdict :: "env \<Rightarrow> string list \<Rightarrow> verdict" where
  "caution_verdict e forms = scan_caution e forms caution_patterns"

definition danger_hits :: "env \<Rightarrow> string list \<Rightarrow> (rx \<times> string) list" where
  "danger_hits e forms = filter (\<lambda>p. matches_form (fst p) forms
      \<and> \<not> (in_sandbox e \<and> snd p \<in> set box_local_dangerous)) dangerous_patterns"

definition assess :: "outside \<Rightarrow> env \<Rightarrow> string \<Rightarrow> verdict" where
  "assess x e cmd =
     (if cmd = [] \<or> risk_disabled e then safe
      else (let forms = [cmd, normalize cmd] in
        case danger_hits e forms of
          p # _ \<Rightarrow> \<lparr>v_level = ''dangerous'', v_reason = snd p\<rparr>
        | [] \<Rightarrow>
            if list_ex (\<lambda>f. is_destructive_delete x e f None) forms
            then \<lparr>v_level = ''dangerous'', v_reason = ''deletes files/data''\<rparr>
            else caution_verdict e forms))"

definition is_dangerous :: "outside \<Rightarrow> env \<Rightarrow> string \<Rightarrow> bool" where
  "is_dangerous x e cmd \<longleftrightarrow> v_level (assess x e cmd) = ''dangerous''"

section \<open>The verdict on a cell\<close>

definition shell_call :: rx where
  "shell_call = seqs [Bound,
     choice [Seq (plus (One (\<lambda>c. is_word c \<or> c = CHR ''.''))) (Lit ''.''), Lit []],
     words [''system'', ''popen'', ''run'', ''call'', ''check_call'', ''check_output'', ''Popen'',
            ''getoutput'', ''getstatusoutput'', ''spawn''], Star sp, Lit ''('', Star sp]"

abbreviation anything :: rx where
  "anything \<equiv> One (\<lambda>_. True)"

text \<open>Group 1 is the command, group 2 the quote of a Python string.\<close>

definition py_string_rx :: rx where
  "py_string_rx = seqs [Upto 3 (One is_letter),
     Group 2 (choice [Lit (replicate 3 (CHR 0x22)), Lit (replicate 3 (CHR 0x27)), Lit [CHR 0x22], Lit [CHR 0x27]]),
     Group 1 (Lazy anything), Again 2]"

definition cell_shell :: "rx list" where
  "cell_shell =
    [seqs [Line_start, Star sp, Lit ''!'', Group 1 (plus dot), Line_end],
     seqs [Line_start, Star sp, Lit ''%%'', words [''bash'', ''sh'', ''script''], Bound, Star dot,
           Lit [CHR 0x0A], Group 1 (plus anything), Line_end],
     Seq shell_call py_string_rx,
     seqs [shell_call, Lit ''['', Group 1 (Star (One (\<lambda>c. c \<noteq> CHR '']''))), Lit '']'']]"

text \<open>The list form \<^verbatim>\<open>["curl", "-s"]\<close> as a command line.\<close>

definition flat_fragment :: "string \<Rightarrow> string" where
  "flat_fragment frag =
     (if (starts_with [CHR 0x22] frag \<or> starts_with [CHR 0x27] frag) \<and> CHR '','' \<in> set frag
      then join '' '' (map (\<lambda>p. strip_chars [CHR 0x22, CHR 0x27] (strip p)) (split_char (CHR '','') frag))
      else frag)"

definition shell_strings_in_code :: "string \<Rightarrow> string list" where
  "shell_strings_in_code code = concat (map (\<lambda>r.
     map flat_fragment (filter (\<lambda>f. f \<noteq> [])
       (map (\<lambda>gs. strip (case map_of gs 1 of None \<Rightarrow> [] | Some w \<Rightarrow> w)) (matches_of r code)))) cell_shell)"

definition cell_reason :: "verdict \<Rightarrow> string" where
  "cell_reason v = ''the cell runs a shell command that '' @ v_reason v"

fun scan_cell :: "(string \<Rightarrow> verdict) \<Rightarrow> verdict \<Rightarrow> string list \<Rightarrow> verdict" where
  "scan_cell judge worst [] = worst"
| "scan_cell judge worst (c # cs) =
     (let v = judge c in
      if v_level v = ''dangerous'' then \<lparr>v_level = ''dangerous'', v_reason = cell_reason v\<rparr>
      else scan_cell judge
        (if v_level v = ''caution'' \<and> v_level worst = ''safe''
         then \<lparr>v_level = ''caution'', v_reason = cell_reason v\<rparr> else worst) cs)"

definition assess_code :: "outside \<Rightarrow> env \<Rightarrow> string \<Rightarrow> verdict" where
  "assess_code x e code =
     (if code = [] \<or> risk_disabled e then safe
      else scan_cell (assess x e) safe (shell_strings_in_code code))"

section \<open>What the verdict promises\<close>

lemma plain_choice: "plain (choice rs) \<longleftrightarrow> list_all plain rs"
  by (induction rs rule: choice.induct) auto

lemma plain_words [simp]: "plain (words ws)"
  by (simp add: words_def plain_choice list_all_iff)

lemma plain_parts [simp]: "plain dot" "plain sp" "plain (plus r) = plain r" "plain secret_path" "plain interpreter"
  by (simp_all add: dot_def sp_def plus_def secret_path_def interpreter_def plain_choice)

lemma plain_dangerous: "p \<in> set dangerous_patterns \<Longrightarrow> plain (fst p)"
proof -
  have "list_all (\<lambda>p. plain (fst p)) dangerous_patterns"
    by (simp add: dangerous_patterns_def plain_choice)
  then show "p \<in> set dangerous_patterns \<Longrightarrow> plain (fst p)" by (simp add: list_all_iff)
qed

lemma is_word_lower [simp]: "is_word (lower_char c) = is_word c"
  by (auto simp: is_word_def of_char_lower Let_def)

lemma quiet_lower [simp]: "quiet_start (lower t) = quiet_start t"
  by (cases t) (simp_all add: quiet_start_def next_char_def is_wordp_def lower_def)

lemma assess_danger: "\<not> risk_disabled e \<Longrightarrow> cmd \<noteq> [] \<Longrightarrow> danger_hits e [cmd, normalize cmd] \<noteq> []
    \<Longrightarrow> is_dangerous x e cmd"
  by (cases "danger_hits e [cmd, normalize cmd]") (simp_all add: is_dangerous_def assess_def)

lemma danger_hitsI:
  "p \<in> set dangerous_patterns \<Longrightarrow> matches_form (fst p) forms
     \<Longrightarrow> \<not> (in_sandbox e \<and> snd p \<in> set box_local_dangerous) \<Longrightarrow> danger_hits e forms \<noteq> []"
  by (auto simp: danger_hits_def filter_empty_conv)

lemma danger_in_context:
  assumes "danger_hits e [cmd] \<noteq> []" and "\<not> risk_disabled e"
    and "u = [] \<or> \<not> is_word (last u)" and "t = [] \<or> \<not> is_word (hd t)" and "cmd \<noteq> []"
  shows "is_dangerous x e (u @ cmd @ t)"
proof -
  obtain p where p: "p \<in> set dangerous_patterns" "found (fst p) (lower cmd)"
      "\<not> (in_sandbox e \<and> snd p \<in> set box_local_dangerous)"
    using assms(1) by (auto simp: danger_hits_def matches_form_def filter_empty_conv)
  have "quiet_start (lower t)"
    unfolding quiet_lower using assms(4) by (cases t) (auto simp: quiet_start_def next_char_def is_wordp_def)
  moreover have "lower u = [] \<or> \<not> is_word (last (lower u))"
    using assms(3) by (auto simp: lower_def last_map)
  ultimately have "found (fst p) (lower u @ lower cmd @ lower t)"
    by (rule found_wider [OF plain_dangerous [OF p(1)] p(2)])
  then have hit: "found (fst p) (lower (u @ cmd @ t))" by (simp add: lower_def)
  have "p \<in> set (danger_hits e [u @ cmd @ t, normalize (u @ cmd @ t)])"
    using p hit by (simp add: danger_hits_def matches_form_def)
  then have "danger_hits e [u @ cmd @ t, normalize (u @ cmd @ t)] \<noteq> []" by (metis empty_iff empty_set)
  then show ?thesis by (intro assess_danger [OF assms(2)]) (simp_all add: assms(5))
qed

text \<open>C27. A command that matches one of the dangerous patterns (in a sandbox, of those that count
  there) as it is written makes every larger command line dangerous whose text around it does not continue its first or last word: with the
  classifier on, nothing put before or after it hides it. (A command that is dangerous by what it
  deletes, or only once it is normalised, is not covered: there the surroundings count.)\<close>

theorem danger_survives_context:
  assumes "danger_hits e [cmd] \<noteq> []" and "\<not> risk_disabled e"
    and "u = [] \<or> \<not> is_word (last u)" and "t = [] \<or> \<not> is_word (hd t)" and "cmd \<noteq> []"
  shows "is_dangerous x e (u @ cmd @ t)"
  using assms by (rule danger_in_context)

lemma mkfs_hits: "''mkfs'' \<in> set forms \<Longrightarrow> danger_hits e forms \<noteq> []"
proof -
  let ?p = "(seqs [Bound, Lit ''mkfs'', Bound], ''formats a filesystem'')"
  assume m: "''mkfs'' \<in> set forms"
  have "?p \<in> set dangerous_patterns"
    unfolding dangerous_patterns_def by (simp only: list.set insert_iff simp_thms)
  moreover have "found (fst ?p) (lower ''mkfs'')"
    by (simp add: found_def lower_def lower_char_def literally_def starts_with_def is_wordp_def
        next_char_def is_word_def)
  then have "matches_form (fst ?p) forms" using m unfolding matches_form_def list_ex_iff by blast
  ultimately show ?thesis
    by (rule danger_hitsI) (simp add: box_local_dangerous_def rce_def rce_subst_def decoded_def sh_c_def)
qed

theorem danger_survives_context_witness:
  "is_dangerous \<lparr>realpath = id, process_dir = ''/'', write_targets = (\<lambda>_ _. Inr [])\<rparr> (\<lambda>_. None)
     (''cd /; '' @ ''mkfs'' @ '' /dev/x'')"
  by (rule danger_survives_context [OF mkfs_hits])
    (simp_all add: risk_disabled_def env_yes_def env_get_def is_word_def)

lemma mkfs_dangerous: "\<not> risk_disabled e \<Longrightarrow> is_dangerous x e ''mkfs''"
  by (rule assess_danger [OF _ _ mkfs_hits]) auto

text \<open>How severe a level is.\<close>

definition severity :: "string \<Rightarrow> nat" where
  "severity l = (if l = ''dangerous'' then 2 else if l = ''caution'' then 1 else 0)"

definition out_of_box :: "env \<Rightarrow> env" where
  "out_of_box e = e(''AIFORGE_SANDBOX'' := None)"

lemma env_yes_out: "env_yes (out_of_box e) k \<longleftrightarrow> k \<noteq> ''AIFORGE_SANDBOX'' \<and> env_yes e k"
  by (auto simp: env_yes_def env_get_def out_of_box_def)

lemma scan_caution_levels: "v_level (scan_caution e forms ps) \<in> {''safe'', ''caution''}"
  by (induction e forms ps rule: scan_caution.induct) (auto simp: safe_def)

lemma scan_caution_relaxed:
  "severity (v_level (scan_caution e forms ps)) \<le> severity (v_level (scan_caution (out_of_box e) forms ps))"
proof (induction e forms ps rule: scan_caution.induct)
  case (2 e forms r why ps)
  have "v_level (scan_caution e forms ps) \<in> {''safe'', ''caution''}" by (rule scan_caution_levels)
  with 2 show ?case
    by (auto simp: severity_def safe_def ssh_allowed_def in_sandbox_def env_yes_out split: if_splits)
qed simp

lemma deletes_relaxed: "is_destructive_delete x e f d \<Longrightarrow> is_destructive_delete x (out_of_box e) f d"
  using deletes_mono by (fastforce simp: deletes_outside_sandbox in_sandbox_def env_yes_out)

lemma assess_relaxed:
  "severity (v_level (assess x e cmd)) \<le> severity (v_level (assess x (out_of_box e) cmd))"
proof -
  let ?f = "[cmd, normalize cmd]"
  have low: "severity (v_level (caution_verdict e' fs)) \<le> 1" for e' fs
    using scan_caution_levels [of e' fs caution_patterns] by (auto simp: caution_verdict_def severity_def)
  have "danger_hits (out_of_box e) ?f \<noteq> []" if "danger_hits e ?f \<noteq> []"
    using that by (auto simp: danger_hits_def filter_empty_conv in_sandbox_def env_yes_out)
  moreover have "list_ex (\<lambda>f. is_destructive_delete x (out_of_box e) f None) ?f"
    if "list_ex (\<lambda>f. is_destructive_delete x e f None) ?f"
    using that deletes_relaxed by auto
  ultimately show ?thesis
    using low [of e ?f] scan_caution_relaxed [of e ?f caution_patterns]
    by (cases "danger_hits e ?f"; cases "danger_hits (out_of_box e) ?f")
      (auto simp: assess_def Let_def severity_def safe_def risk_disabled_def env_yes_out caution_verdict_def
          split: if_splits)
qed

text \<open>Being in the sandbox only relaxes: a command is never judged more severely inside it than
  outside.\<close>

theorem sandbox_only_relaxes:
  "severity (v_level (assess x e cmd)) \<le> severity (v_level (assess x (out_of_box e) cmd))"
  by (rule assess_relaxed)

lemma assess_levels: "v_level (assess x e c) \<in> {''safe'', ''caution'', ''dangerous''}"
  using scan_caution_levels by (auto simp: assess_def Let_def safe_def caution_verdict_def split: list.split)

lemma scan_cell_level:
  assumes "\<And>c. v_level (judge c) \<in> {''safe'', ''caution'', ''dangerous''}"
    and "v_level w \<in> {''safe'', ''caution''}"
  shows "v_level (scan_cell judge w cs) =
    (if \<exists>c \<in> set cs. v_level (judge c) = ''dangerous'' then ''dangerous''
     else if v_level w = ''caution'' \<or> (\<exists>c \<in> set cs. v_level (judge c) = ''caution'') then ''caution'' else ''safe'')"
  using assms(2)
proof (induction cs arbitrary: w)
  case (Cons c cs)
  show ?case using assms(1) [of c] Cons.prems by (auto simp: Cons.IH Let_def)
qed auto

lemma cell_level:
  "v_level (assess_code x e code) =
    (if code = [] \<or> risk_disabled e then ''safe''
     else if \<exists>c \<in> set (shell_strings_in_code code). is_dangerous x e c then ''dangerous''
     else if \<exists>c \<in> set (shell_strings_in_code code). v_level (assess x e c) = ''caution'' then ''caution''
     else ''safe'')"
proof -
  have "v_level safe \<in> {''safe'', ''caution''}" by (simp add: safe_def)
  from scan_cell_level [OF assess_levels this, where cs = "shell_strings_in_code code"] show ?thesis
    by (simp add: assess_code_def is_dangerous_def) (simp add: safe_def)
qed

text \<open>A cell is judged by the worst of the shell commands it would run.\<close>

theorem cell_is_its_worst_command:
  "v_level (assess_code x e code) =
    (if code = [] \<or> risk_disabled e then ''safe''
     else if \<exists>c \<in> set (shell_strings_in_code code). is_dangerous x e c then ''dangerous''
     else if \<exists>c \<in> set (shell_strings_in_code code). v_level (assess x e c) = ''caution'' then ''caution''
     else ''safe'')"
  by (rule cell_level)

lemma code_relaxed: "severity (v_level (assess_code x e code)) \<le> severity (v_level (assess_code x (out_of_box e) code))"
proof -
  have up: "severity (v_level (assess x e c)) \<le> severity (v_level (assess x (out_of_box e) c))" for c
    by (rule assess_relaxed)
  have d: "is_dangerous x (out_of_box e) c" if "is_dangerous x e c" for c
    using up [of c] that assess_levels [of x "out_of_box e" c] by (auto simp: is_dangerous_def severity_def)
  have m: "is_dangerous x (out_of_box e) c \<or> v_level (assess x (out_of_box e) c) = ''caution''"
    if "v_level (assess x e c) = ''caution''" for c
    using up [of c] that assess_levels [of x "out_of_box e" c] by (auto simp: is_dangerous_def severity_def)
  show ?thesis unfolding cell_level using d m
    by (auto simp: severity_def risk_disabled_def env_yes_out)
qed

end
