(* ===== verification/Tool_Policy.thy ===== *)
theory Tool_Policy
  imports Py_Values Command_Risk
begin

text \<open>
  May an agent run this tool call freely, must it ask, or is it refused: \<^verbatim>\<open>runtime/tools/tool_policy.py\<close>
  and the list of the tools that write files, \<^verbatim>\<open>runtime/tools/mutating.py\<close>. The guard of the network
  (\<^verbatim>\<open>net/egress.py\<close>, which answers a refusal text for a command line) and the lines of a saved
  workflow script (\<^verbatim>\<open>runtime/workflow_run.py\<close>) are arguments, and both may raise.
\<close>

section \<open>Policies and tools\<close>

definition ALLOW :: string where "ALLOW = ''allow''"
definition ASK :: string where "ASK = ''ask''"
definition DENY :: string where "DENY = ''deny''"

lemmas policies = ALLOW_def ASK_def DENY_def

definition cmd_tools :: "string list" where
  "cmd_tools = [''run_command'', ''bash'', ''shell'', ''run_shell'', ''serve'', ''watch_until'', ''ui_check'']"

definition cmd_arg_keys :: "string list" where
  "cmd_arg_keys = [''cmd'', ''command'', ''input'']"

definition script_tools :: "string list" where
  "script_tools = [''workflow_run'']"

definition code_tools :: "string list" where
  "code_tools = [''execute_ipython_cell'']"

definition code_arg_keys :: "string list" where
  "code_arg_keys = [''code'', ''cell'', ''source'']"

definition readonly_always_allow :: "string list" where
  "readonly_always_allow = [
    ''grep_repo'', ''grep'', ''list_dir'', ''ls'', ''glob'', ''repo_map'', ''search'',
    ''find'', ''file_read'', ''read'', ''memory_lookup'', ''skill_search'',
    ''workflow_search'', ''graphify_lookup'',
    ''git_status'', ''git_diff'', ''git_log'', ''git_blame'', ''jira_transitions'',
    ''jira_worklog'', ''jira_myself'', ''jira_projects'', ''jira_boards'',
    ''jira_remote_links'', ''jira_comments'', ''context_gather'',
    ''resolve_repo'',
    ''jira_resolve_project'', ''confluence_resolve_space'',
    ''jira_sprints'', ''jira_sprint_issues'', ''jira_dashboards'',
    ''jira_dashboard_read'', ''confluence_children'', ''confluence_spaces'',
    ''confluence_page_by_title'', ''confluence_labels'', ''confluence_comments'',
    ''confluence_descendants'', ''read_lines'',
    ''gitlab_search'', ''gitlab_read'',
    ''gitlab_pipelines'', ''gitlab_pipeline'', ''gitlab_pipeline_watch'',
    ''sonar_report'', ''blackduck_report'',
    ''command_wait'', ''command_output'',
    ''show_logs'',
    ''session_actions'']"

definition default_ask :: "string list" where
  "default_ask = [''confluence_create'', ''confluence_update'',
    ''confluence_add_label'', ''confluence_comment'',
    ''jira_create'', ''jira_update'', ''jira_comment'', ''jira_log_work'',
    ''jira_dashboard_create'',
    ''jira_transition'', ''jira_assign'', ''jira_link_issues'',
    ''confluence_attach'',
    ''gitlab_create'', ''gitlab_update'', ''gitlab_comment'',
    ''gitlab_mr_create'', ''gitlab_mr_comment'', ''github_pr'',
    ''email_send'',
    ''mount_folder'',
    ''execute_ipython_cell'',
    ''create_job_script'',
    ''schedule_task'']"

definition box_local_tools :: "string list" where
  "box_local_tools = [''execute_ipython_cell'', ''create_job_script'', ''mount_folder'']"

definition ask_tools :: "env \<Rightarrow> string list" where
  "ask_tools e = (if in_sandbox e then filter (\<lambda>t. t \<notin> set box_local_tools) default_ask else default_ask)"

section \<open>Tools that write files\<close>

definition file_write_tools :: "string list" where
  "file_write_tools = [''file_write'', ''file_create'', ''file_patch'', ''editor'', ''multi_edit'',
    ''rename_symbol'', ''format'',
    ''write'', ''write_file'', ''create_file'', ''patch'', ''apply_patch'', ''edit'',
    ''edit_block'', ''str_replace'']"

definition editor_readonly_cmds :: "string list" where
  "editor_readonly_cmds = [''view'', ''read'', ''list'', ''ls'', ''cat'', ''open'']"

type_synonym args = "(string \<times> pyval) list option"

definition arg_of :: "args \<Rightarrow> string \<Rightarrow> pyval" where
  "arg_of a k = (case a of None \<Rightarrow> PNone | Some d \<Rightarrow> dget d k)"

definition editor_command :: "(pyval \<Rightarrow> string) \<Rightarrow> args \<Rightarrow> string" where
  "editor_command rep a =
     lower (strip (py_str rep (por (arg_of a ''command'') (por (arg_of a ''sub_command'') (PStr [])))))"

definition writes_files :: "(pyval \<Rightarrow> string) \<Rightarrow> string \<Rightarrow> args \<Rightarrow> bool" where
  "writes_files rep name a =
     (if name \<notin> set file_write_tools then False
      else if name = ''editor'' then editor_command rep a \<notin> set editor_readonly_cmds
      else True)"

section \<open>The operator's map\<close>

fun partition_eq :: "string \<Rightarrow> string \<times> string" where
  "partition_eq [] = ([], [])"
| "partition_eq (c # s) = (if c = CHR ''='' then ([], s) else (let p = partition_eq s in (c # fst p, snd p)))"

fun parse_parts :: "string list \<Rightarrow> (string \<times> string) list \<Rightarrow> (string \<times> string) list" where
  "parse_parts [] out = out"
| "parse_parts (p # ps) out =
     (let part = strip p in
      if part = [] \<or> CHR ''='' \<notin> set part then parse_parts ps out
      else (let nv = partition_eq part; val = lower (strip (snd nv)) in
        parse_parts ps (if val \<in> {ALLOW, ASK, DENY} then set_at out (strip (fst nv)) val else out)))"

definition parse_map :: "string \<Rightarrow> (string \<times> string) list" where
  "parse_map raw = parse_parts (split_char (CHR '','') raw) []"

text \<open>\<^verbatim>\<open>m.update(...)\<close>: the chat's map wins.\<close>

definition configured :: "env \<Rightarrow> (string \<times> string) list" where
  "configured e =
     foldl (\<lambda>m p. set_at m (fst p) (snd p)) (parse_map (env_get e ''AIFORGE_TOOL_POLICY'' []))
       (parse_map (env_get e ''AIFORGE_CHAT_TOOL_POLICY'' []))"

section \<open>What a call carries\<close>

fun arg_str :: "args \<Rightarrow> string list \<Rightarrow> string" where
  "arg_str a [] = []"
| "arg_str a (k # ks) =
     (case arg_of a k of PStr s \<Rightarrow> if s \<noteq> [] then s else arg_str a ks | _ \<Rightarrow> arg_str a ks)"

definition cmd_from_args :: "args \<Rightarrow> string" where
  "cmd_from_args a = arg_str a cmd_arg_keys"

definition code_from_args :: "args \<Rightarrow> string" where
  "code_from_args a = arg_str a code_arg_keys"

record policy_world =
  p_env :: env
  p_outside :: outside
  p_egress :: "string \<Rightarrow> string option res"
  p_script :: "args \<Rightarrow> string list res"

definition script_lines :: "policy_world \<Rightarrow> args \<Rightarrow> string list" where
  "script_lines w a = or_else (p_script w a) []"

fun first_refusal :: "(string \<Rightarrow> string option res) \<Rightarrow> string list \<Rightarrow> string" where
  "first_refusal f [] = []"
| "first_refusal f (l # ls) =
     (case f l of Inl _ \<Rightarrow> [] | Inr (Some why) \<Rightarrow> why | Inr None \<Rightarrow> first_refusal f ls)"

definition egress_refusal :: "policy_world \<Rightarrow> string \<Rightarrow> args \<Rightarrow> string" where
  "egress_refusal w tool a =
     (if tool \<notin> set cmd_tools \<union> set code_tools \<union> set script_tools then []
      else first_refusal (p_egress w)
        (if tool \<in> set cmd_tools then [cmd_from_args a]
         else if tool \<in> set script_tools then script_lines w a
         else shell_strings_in_code (code_from_args a)))"

section \<open>Risk\<close>

definition rank :: "string \<Rightarrow> nat" where
  "rank p = (if p = ASK then 1 else if p = DENY then 2 else 0)"

abbreviation level_order :: "string \<Rightarrow> nat" where
  "level_order \<equiv> severity"

fun worst_from :: "verdict option \<Rightarrow> verdict list \<Rightarrow> verdict option" where
  "worst_from b [] = b"
| "worst_from b (v # vs) = worst_from
     (case b of None \<Rightarrow> Some v
      | Some w \<Rightarrow> if level_order (v_level v) > level_order (v_level w) then Some v else b) vs"

definition worst :: "verdict list \<Rightarrow> verdict option" where
  "worst vs = worst_from None vs"

definition risk_verdict :: "policy_world \<Rightarrow> string \<Rightarrow> args \<Rightarrow> verdict option" where
  "risk_verdict w tool a =
     (if tool \<in> set code_tools then Some (assess_code (p_outside w) (p_env w) (code_from_args a))
      else if tool \<in> set cmd_tools then Some (assess (p_outside w) (p_env w) (cmd_from_args a))
      else if tool \<in> set script_tools then worst (map (assess (p_outside w) (p_env w)) (script_lines w a))
      else None)"

definition ask_caution :: "env \<Rightarrow> bool" where
  "ask_caution e \<longleftrightarrow> lower (strip (env_get e ''AIFORGE_RISK_ASK_CAUTION'' ''1'')) \<notin> {''0'', ''false'', ''no'', ''off''}"

definition apply_risk :: "policy_world \<Rightarrow> string \<Rightarrow> args \<Rightarrow> string \<Rightarrow> string \<Rightarrow> string \<times> string \<times> string" where
  "apply_risk w tool a policy reason =
     (case risk_verdict w tool a of
        None \<Rightarrow> (policy, reason, [])
      | Some v \<Rightarrow>
          (let lvl = v_level v;
               escalate = (lvl = ''dangerous'' \<or> (lvl = ''caution'' \<and> ask_caution (p_env w)))
           in if escalate \<and> rank policy < rank ASK then (ASK, v_reason v, lvl)
              else if lvl = ''dangerous'' \<and> v_reason v \<noteq> [] then (policy, v_reason v, lvl)
              else (policy, reason, lvl)))"

section \<open>The decision\<close>

record decision =
  d_policy :: string
  d_reason :: string
  d_risk :: string

definition decide :: "policy_world \<Rightarrow> string \<Rightarrow> args \<Rightarrow> decision" where
  "decide w tool a =
     (let cfg = configured (p_env w) in
      if tool \<in> set readonly_always_allow \<and> map_of cfg tool = None
      then \<lparr>d_policy = ALLOW, d_reason = [], d_risk = []\<rparr>
      else (let asks = ask_tools (p_env w);
                dflt = (if tool \<in> set asks then ASK else ALLOW);
                policy0 = (case map_of cfg tool of None \<Rightarrow> dflt | Some p \<Rightarrow> p);
                reason0 = (if tool \<in> set asks \<and> map_of cfg tool = None
                  then CHR 0x27 # tool @ CHR 0x27 # '' writes to an external system '' @ em_dash @ '' confirm first''
                  else []);
                refusal = egress_refusal w tool a
            in if refusal \<noteq> [] then \<lparr>d_policy = DENY, d_reason = refusal, d_risk = []\<rparr>
               else (let x = apply_risk w tool a policy0 reason0;
                         policy = fst x; reason = fst (snd x)
                     in \<lparr>d_policy = policy,
                         d_reason = (if policy \<noteq> ALLOW \<and> reason = []
                            then ''tool '' @ CHR 0x27 # tool @ CHR 0x27 # '' is set to '' @ policy @ '' by policy''
                            else reason),
                         d_risk = snd (snd x)\<rparr>)))"

section \<open>What a decision promises\<close>

text \<open>The operator's word on a tool: its entry, or the default.\<close>

definition base_policy :: "policy_world \<Rightarrow> string \<Rightarrow> string" where
  "base_policy w tool =
     (case map_of (configured (p_env w)) tool of
        Some p \<Rightarrow> p | None \<Rightarrow> if tool \<in> set (ask_tools (p_env w)) then ASK else ALLOW)"

definition valid_policy :: "string \<Rightarrow> bool" where
  "valid_policy p \<longleftrightarrow> p \<in> {ALLOW, ASK, DENY}"

lemma rank_simps [simp]: "rank ALLOW = 0" "rank ASK = 1" "rank DENY = 2"
  by (simp_all add: rank_def policies)

lemma rank_bound: "valid_policy p \<Longrightarrow> rank p \<le> 2"
  by (auto simp: valid_policy_def)

lemma parse_parts_valid:
  "all_entries valid_policy out \<Longrightarrow> all_entries valid_policy (parse_parts ps out)"
proof (induction ps arbitrary: out)
  case (Cons p ps)
  then show ?case by (auto simp: Let_def valid_policy_def intro!: Cons.IH all_entries_set_at)
qed simp

lemma update_valid:
  "all_entries valid_policy m \<Longrightarrow> (\<And>p. p \<in> set ps \<Longrightarrow> valid_policy (snd p))
     \<Longrightarrow> all_entries valid_policy (foldl (\<lambda>m p. set_at m (fst p) (snd p)) m ps)"
  by (induction ps arbitrary: m) (auto intro: all_entries_set_at)

lemma keys_parse_parts: "distinct (keys out) \<Longrightarrow> distinct (keys (parse_parts ps out))"
  by (induction ps arbitrary: out) (auto simp: Let_def distinct_set_at)

lemma parse_map_valid: "all_entries valid_policy (parse_map raw)" "distinct (keys (parse_map raw))"
  by (simp_all add: parse_map_def parse_parts_valid keys_parse_parts)

lemma configured_valid: "map_of (configured e) t = Some p \<Longrightarrow> valid_policy p"
proof -
  have "valid_policy (snd q)" if "q \<in> set (parse_map raw)" for q raw
  proof -
    have "map_of (parse_map raw) (fst q) = Some (snd q)"
      by (rule map_of_is_SomeI [OF parse_map_valid(2)]) (simp add: that)
    then show ?thesis by (rule all_entriesD [OF parse_map_valid(1)])
  qed
  then have "all_entries valid_policy (configured e)"
    unfolding configured_def by (intro update_valid parse_map_valid)
  then show "map_of (configured e) t = Some p \<Longrightarrow> valid_policy p" by (rule all_entriesD)
qed

lemma base_valid: "valid_policy (base_policy w t)"
  using configured_valid by (auto simp: base_policy_def valid_policy_def split: option.split)

lemma readonly_not_asked: "t \<in> set readonly_always_allow \<Longrightarrow> t \<notin> set (ask_tools e)"
proof -
  have "list_all (\<lambda>t. t \<notin> set default_ask) readonly_always_allow" by code_simp
  then show "t \<in> set readonly_always_allow \<Longrightarrow> t \<notin> set (ask_tools e)"
    by (auto simp: list_all_iff ask_tools_def)
qed

lemma readonly_not_command: "t \<in> set readonly_always_allow \<Longrightarrow> t \<notin> set cmd_tools \<union> set code_tools \<union> set script_tools"
proof -
  have "list_all (\<lambda>t. t \<notin> set (cmd_tools @ code_tools @ script_tools)) readonly_always_allow" by code_simp
  then show "t \<in> set readonly_always_allow \<Longrightarrow> t \<notin> set cmd_tools \<union> set code_tools \<union> set script_tools"
    by (auto simp: list_all_iff)
qed

text \<open>The policy risk alone leads to.\<close>

definition risk_floor :: "policy_world \<Rightarrow> string \<Rightarrow> args \<Rightarrow> nat" where
  "risk_floor w tool a =
     (case risk_verdict w tool a of None \<Rightarrow> 0
      | Some v \<Rightarrow> if v_level v = ''dangerous'' \<or> v_level v = ''caution'' \<and> ask_caution (p_env w) then 1 else 0)"

lemma readonly_no_risk: "t \<in> set readonly_always_allow \<Longrightarrow> risk_floor w t a = 0 \<and> egress_refusal w t a = []"
  using readonly_not_command [of t] by (auto simp: risk_floor_def risk_verdict_def egress_refusal_def)

text \<open>The rank of every decision: a refusal of the network denies, else the larger of what the
  operator said and what the risk asks for.\<close>

lemma rank_decide:
  "rank (d_policy (decide w t a)) =
     (if egress_refusal w t a \<noteq> [] then 2 else max (rank (base_policy w t)) (risk_floor w t a))"
proof (cases "t \<in> set readonly_always_allow \<and> map_of (configured (p_env w)) t = None")
  case True
  then show ?thesis
    using readonly_no_risk [of t w a] readonly_not_asked [of t "p_env w"] by (simp add: decide_def base_policy_def)
next
  case False
  have base: "(case map_of (configured (p_env w)) t of None \<Rightarrow> if t \<in> set (ask_tools (p_env w)) then ASK else ALLOW
      | Some p \<Rightarrow> p) = base_policy w t"
    by (simp add: base_policy_def split: option.split)
  have "rank (fst (apply_risk w t a p r)) = max (rank p) (risk_floor w t a)" for p r
    by (auto simp: apply_risk_def risk_floor_def Let_def max_def split: option.split)
  then show ?thesis using False base by (auto simp: decide_def Let_def)
qed

lemma policy_of_rank: "valid_policy p \<Longrightarrow> p = (if rank p = 0 then ALLOW else if rank p = 1 then ASK else DENY)"
  by (auto simp: valid_policy_def)

lemma decide_valid: "valid_policy (d_policy (decide w t a))"
  using base_valid [of w t]
  by (auto simp: decide_def Let_def apply_risk_def base_policy_def valid_policy_def split: option.splits)

lemma not_denied:
  assumes "egress_refusal w t a = []" and "base_policy w t \<noteq> DENY"
  shows "d_policy (decide w t a) \<noteq> DENY"
proof -
  have "rank (base_policy w t) < 2" using base_valid [of w t] assms(2) by (auto simp: valid_policy_def)
  moreover have "risk_floor w t a \<le> 1" by (simp add: risk_floor_def split: option.split)
  ultimately have "rank (d_policy (decide w t a)) < 2" using assms(1) by (simp add: rank_decide)
  then show ?thesis by auto
qed

text \<open>Nothing a call carries lowers what the operator or the defaults say about its tool: a denied
  tool stays denied, an asking one keeps asking.\<close>

theorem policy_never_lowered: "rank (base_policy w t) \<le> rank (d_policy (decide w t a))"
  using rank_bound [OF base_valid] by (simp add: rank_decide)

text \<open>Every decision is one of the three policies, and one that does not allow says why.\<close>

theorem decision_well_formed:
  "d_policy (decide w t a) = ALLOW \<or>
     d_policy (decide w t a) \<in> {ASK, DENY} \<and> d_reason (decide w t a) \<noteq> []"
  using decide_valid [of w t a]
  by (auto simp: valid_policy_def decide_def Let_def policies split: if_splits)

lemma dangerous_asks:
  assumes "t \<in> set cmd_tools" and "is_dangerous (p_outside w) (p_env w) (cmd_from_args a)"
  shows "d_policy (decide w t a) = DENY \<or> d_policy (decide w t a) = ASK \<and> d_risk (decide w t a) = ''dangerous''"
proof -
  have t: "t \<notin> set code_tools" using assms(1) by (auto simp: cmd_tools_def code_tools_def)
  have ro: "t \<notin> set readonly_always_allow" using readonly_not_command assms(1) by blast
  have "risk_floor w t a = 1"
    using assms t by (simp add: risk_floor_def risk_verdict_def is_dangerous_def)
  then have "1 \<le> rank (d_policy (decide w t a))" by (simp add: rank_decide)
  then have "d_policy (decide w t a) = ASK \<or> d_policy (decide w t a) = DENY"
    using decide_valid [of w t a] by (auto simp: valid_policy_def)
  moreover have "d_policy (decide w t a) = DENY \<or> d_risk (decide w t a) = ''dangerous''"
    using assms t ro by (auto simp: decide_def Let_def apply_risk_def risk_verdict_def is_dangerous_def)
  ultimately show ?thesis by blast
qed

text \<open>A dangerous command is never run unasked, however the operator configured its tool: it asks
  as dangerous, unless it is refused outright.\<close>

theorem dangerous_never_free:
  assumes "t \<in> set cmd_tools" and "is_dangerous (p_outside w) (p_env w) (cmd_from_args a)"
  shows "d_policy (decide w t a) = DENY \<or> d_policy (decide w t a) = ASK \<and> d_risk (decide w t a) = ''dangerous''"
  using assms by (rule dangerous_asks)

section \<open>The sandbox relaxes the policy\<close>

lemma worst_from_level:
  "(case worst_from b vs of None \<Rightarrow> 0 | Some v \<Rightarrow> level_order (v_level v)) =
     foldl max (case b of None \<Rightarrow> 0 | Some v \<Rightarrow> level_order (v_level v)) (map (\<lambda>v. level_order (v_level v)) vs)"
  by (induction vs arbitrary: b) (auto simp: max_def split: option.splits)

lemma foldl_max_mono:
  "i \<le> (j :: nat) \<Longrightarrow> list_all2 (\<le>) xs ys \<Longrightarrow> foldl max i xs \<le> foldl max j ys"
proof (induction xs arbitrary: i j ys)
  case (Cons x xs)
  then obtain y ys' where "ys = y # ys'" "x \<le> y" "list_all2 (\<le>) xs ys'" by (cases ys) auto
  then show ?case using Cons.IH [of "max i x" "max j y" ys'] Cons.prems(1) by (auto simp: max.coboundedI1 max_def)
qed simp

definition unboxed :: "policy_world \<Rightarrow> policy_world" where
  "unboxed w = w\<lparr>p_env := out_of_box (p_env w)\<rparr>"

definition risk_level :: "policy_world \<Rightarrow> string \<Rightarrow> args \<Rightarrow> nat" where
  "risk_level w t a = (case risk_verdict w t a of None \<Rightarrow> 0 | Some v \<Rightarrow> severity (v_level v))"

lemma risk_level_unboxed: "risk_level w t a \<le> risk_level (unboxed w) t a"
proof -
  have "list_all2 (\<le>) (map (\<lambda>v. severity (v_level v)) (map (assess (p_outside w) (p_env w)) ls))
      (map (\<lambda>v. severity (v_level v)) (map (assess (p_outside w) (out_of_box (p_env w))) ls))" for ls
    by (simp add: list_all2_conv_all_nth assess_relaxed)
  then have "foldl max 0 (map (\<lambda>v. severity (v_level v)) (map (assess (p_outside w) (p_env w)) ls)) \<le>
      foldl max 0 (map (\<lambda>v. severity (v_level v)) (map (assess (p_outside w) (out_of_box (p_env w))) ls))" for ls
    by (intro foldl_max_mono) auto
  then show ?thesis
    using worst_from_level [of None]
    by (simp add: risk_level_def risk_verdict_def unboxed_def script_lines_def code_relaxed assess_relaxed worst_def)
qed

lemma risk_floor_level:
  "risk_floor w t a = (if risk_level w t a = 2 \<or> risk_level w t a = 1 \<and> ask_caution (p_env w) then 1 else 0)"
  by (auto simp: risk_floor_def risk_level_def severity_def split: option.split)

lemma env_get_out: "k \<noteq> ''AIFORGE_SANDBOX'' \<Longrightarrow> env_get (out_of_box e) k d = env_get e k d"
  by (simp add: env_get_def out_of_box_def)

text \<open>The sandbox only relaxes the policy: whatever the operator configured, no call is treated more
  strictly inside it than the same call outside.\<close>

theorem sandbox_relaxes_policy:
  "rank (d_policy (decide w t a)) \<le> rank (d_policy (decide (unboxed w) t a))"
proof -
  have cfg: "configured (p_env (unboxed w)) = configured (p_env w)"
    by (simp add: configured_def unboxed_def env_get_out)
  have "set (ask_tools (p_env w)) \<subseteq> set (ask_tools (p_env (unboxed w)))"
    by (auto simp: ask_tools_def unboxed_def in_sandbox_def env_yes_out)
  then have "rank (base_policy w t) \<le> rank (base_policy (unboxed w) t)"
    by (auto simp: base_policy_def cfg split: option.split)
  moreover have "risk_floor w t a \<le> risk_floor (unboxed w) t a"
  proof -
    have "ask_caution (p_env (unboxed w)) = ask_caution (p_env w)"
      by (simp add: ask_caution_def unboxed_def env_get_out)
    moreover have "risk_level (unboxed w) t a \<le> 2"
      by (simp add: risk_level_def severity_def split: option.split)
    ultimately show ?thesis
      using risk_level_unboxed [of w t a] by (auto simp: risk_floor_level)
  qed
  moreover have "egress_refusal (unboxed w) t a = egress_refusal w t a"
    by (simp add: egress_refusal_def script_lines_def unboxed_def)
  ultimately show ?thesis using rank_bound [OF base_valid] by (auto simp: rank_decide max_def)
qed

theorem dangerous_never_free_witness:
  "let w = \<lparr>p_env = (\<lambda>k. if k = ''AIFORGE_TOOL_POLICY'' then Some ''bash=allow'' else None),
     p_outside = \<lparr>realpath = id, process_dir = ''/'', write_targets = (\<lambda>_ _. Inr [])\<rparr>,
     p_egress = (\<lambda>_. Inr None), p_script = (\<lambda>_. Inr [])\<rparr>;
     d = decide w ''bash'' (Some [(''cmd'', PStr ''mkfs'')])
   in d_policy d = DENY \<or> d_policy d = ASK \<and> d_risk d = ''dangerous''"
  unfolding Let_def
  by (rule dangerous_never_free)
    (simp_all add: cmd_tools_def cmd_from_args_def cmd_arg_keys_def arg_of_def mkfs_dangerous risk_disabled_def
      env_yes_def env_get_def)

section \<open>What a gate owes the policy\<close>

lemma risky_not_allowed:
  assumes "d_risk (decide w t a) = ''dangerous''"
  shows "d_policy (decide w t a) = ASK \<or> d_policy (decide w t a) = DENY"
proof -
  have "risk_floor w t a = 1"
    using assms by (auto simp: decide_def Let_def apply_risk_def risk_floor_def split: if_splits option.splits)
  then have "1 \<le> rank (d_policy (decide w t a))" by (simp add: rank_decide)
  then show ?thesis using decide_valid [of w t a] by (auto simp: valid_policy_def)
qed

text \<open>
  Every gate in front of the tools owes the policy two things: what it denies does not run, and what it
  marks as dangerous does not run where nobody attends, unless the operator waived that. \<open>runs\<close> says
  which calls the gate lets through.
\<close>

locale call_gate =
  fixes runs :: "'w \<Rightarrow> string \<Rightarrow> args \<Rightarrow> bool"
    and policy_of :: "'w \<Rightarrow> policy_world"
    and attended :: "'w \<Rightarrow> bool"
    and waived :: "'w \<Rightarrow> bool"
  assumes denied: "d_policy (decide (policy_of w) n a) = DENY \<Longrightarrow> \<not> runs w n a"
    and floor: "\<not> attended w \<Longrightarrow> \<not> waived w \<Longrightarrow> d_risk (decide (policy_of w) n a) = ''dangerous'' \<Longrightarrow> \<not> runs w n a"
begin

definition dangerous_call :: "'w \<Rightarrow> string \<times> args \<Rightarrow> bool" where
  "dangerous_call w c \<longleftrightarrow> fst c \<in> set cmd_tools \<and>
     is_dangerous (p_outside (policy_of w)) (p_env (policy_of w)) (cmd_from_args (snd c))"

lemma dangerous_kept_out: "\<not> attended w \<Longrightarrow> \<not> waived w \<Longrightarrow> dangerous_call w (n, a) \<Longrightarrow> \<not> runs w n a"
  using dangerous_asks [of n "policy_of w" a] denied floor by (auto simp: dangerous_call_def)

lemma embedded_danger:
  assumes "\<not> attended w" and "\<not> waived w" and "n \<in> set cmd_tools" and "cmd_from_args a = u @ cmd @ t"
    and "danger_hits (p_env (policy_of w)) [cmd] \<noteq> []" and "\<not> risk_disabled (p_env (policy_of w))"
    and "u = [] \<or> \<not> is_word (last u)" and "t = [] \<or> \<not> is_word (hd t)" and "cmd \<noteq> []"
  shows "\<not> runs w n a"
  by (rule dangerous_kept_out [OF assms(1,2)])
    (simp add: dangerous_call_def assms(3,4) danger_in_context [OF assms(5-9)])

text \<open>The calls of an unattended run that the gate lets through, in their order, hold no danger.\<close>

lemma log_is_safe:
  "\<not> attended w \<Longrightarrow> \<not> waived w \<Longrightarrow> filter (dangerous_call w) (filter (\<lambda>c. runs w (fst c) (snd c)) calls) = []"
  using dangerous_kept_out by (auto simp: filter_empty_conv)

end

end
