(* ===== verification/Tool_Gate.thy ===== *)
theory Tool_Gate
  imports Approvals Approval_Settings Gate_Flags Tool_Policy
begin

text \<open>
  The gate of the pipeline before every tool call, \<^verbatim>\<open>runtime/tool_gate.py\<close>: policy and risk, the mode's
  approval switch, the review of edits, the commit opt-in, and the human, where there is one; and what a
  rejection does (\<^verbatim>\<open>runtime/chat_steer.py\<close>). \<open>gate\<close> is the decision up to the point where a human is
  asked; \<open>gate_result\<close> is what the callback returns once the answer is there. The wording of previews
  is left out.
\<close>

section \<open>Guidance in a rejection\<close>

definition system_notes :: "string list" where
  "system_notes = [''cancelled'', ''superseded'', ''run finished'', ''approval timed out'',
     ''no pending approval'']"

definition user_guidance :: "string \<Rightarrow> string" where
  "user_guidance note = (let n = strip note in if n = [] \<or> n \<in> set system_notes then [] else n)"

definition reject_directive :: "string \<Rightarrow> string \<Rightarrow> string" where
  "reject_directive tool guidance =
     ''The user REJECTED the '' @ CHR 0x60 # tool @ CHR 0x60 # '' action and gave this guidance: '' @ guidance @
     CHR 0x0A # ''Do NOT repeat the rejected action as-is '' @ em_dash @ '' adjust per the guidance and continue.''"

section \<open>What the gate looks at\<close>

record 'f gate_world =
  g_policy :: policy_world
  g_reg :: "'f registry"
  g_modes :: settings_file
  g_chats :: settings_file
  g_flags :: flags_file
  g_key_of :: "string \<Rightarrow> string option"
  g_repo_root :: string
  g_active :: "int option"
  g_repr :: "pyval \<Rightarrow> string"

definition approvals_on :: "'f gate_world \<Rightarrow> bool" where
  "approvals_on w = approvals_required
     (\<lambda>m s. Inr (required (g_modes w) (g_chats w) m (Some (str_of_int s)))) (g_active w) (g_reg w)"

definition force_review :: "'f gate_world \<Rightarrow> string \<Rightarrow> args \<Rightarrow> string \<Rightarrow> bool" where
  "force_review w name a policy =
     (policy \<noteq> DENY \<and> writes_files (g_repr w) name a \<and> review_edits (g_active w) (g_reg w)
      \<and> has_emitter (g_active w) (g_reg w))"

definition cmd_value :: "args \<Rightarrow> pyval" where
  "cmd_value a = por (arg_of a ''cmd'') (por (arg_of a ''command'') (PStr []))"

text \<open>The commit opt-in, and the scope its audit event names.\<close>

definition auto_approved_commit :: "'f gate_world \<Rightarrow> args \<Rightarrow> bool" where
  "auto_approved_commit w a =
     (case cmd_value a of
        PStr cmd \<Rightarrow>
          if found git_push (lower cmd) \<or> \<not> is_commit_command cmd then False
          else (let repo = repo_key (g_key_of w) (Some (g_repo_root w));
                    sid = map_option str_of_int (g_active w);
                    e = p_env (g_policy w)
            in or_else (ebind (flag_active e (g_key_of w) (g_flags w) ''commit_auto_approve'' repo sid) (\<lambda>on.
                 if \<not> on then Inr False
                 else ebind (flag_active_scope e (g_key_of w) (g_flags w) ''commit_auto_approve'' repo sid)
                        (\<lambda>_. Inr True))) False)
      | _ \<Rightarrow> False)"

definition refuse_dangerous_unattended :: "'f gate_world \<Rightarrow> decision \<Rightarrow> bool" where
  "refuse_dangerous_unattended w v =
     (if d_risk v \<noteq> ''dangerous'' then False
      else \<not> env_yes (p_env (g_policy w)) ''AIFORGE_UNATTENDED_DANGEROUS'')"

section \<open>The decision\<close>

datatype gate_outcome =
    Let_run
  | Auto_approved
  | Blocked_by_policy string
  | Blocked_by_risk string
  | Ask_user string

definition gate :: "'f gate_world \<Rightarrow> string \<Rightarrow> args \<Rightarrow> gate_outcome" where
  "gate w name a =
     (let v = decide (g_policy w) name a;
          policy = d_policy v;
          on = approvals_on w;
          forced = (on \<and> force_review w name a policy)
      in if policy = ALLOW \<and> \<not> forced then Let_run
         else if \<not> on \<and> policy \<noteq> DENY then Let_run
         else if policy \<noteq> DENY \<and> \<not> forced \<and> auto_approved_commit w a then Auto_approved
         else if policy = DENY then Blocked_by_policy (d_reason v)
         else if \<not> has_emitter (g_active w) (g_reg w)
         then (if refuse_dangerous_unattended w v then Blocked_by_risk (d_reason v) else Let_run)
         else Ask_user (if policy = ASK then d_reason v
                        else ''Review edits: confirm this file change before it lands.''))"

section \<open>The result\<close>

text \<open>What a rejection sets off: a steer for the next model call, the halt of the run, or nothing (the
  run is being stopped already).\<close>

datatype aftermath = Steer string | Halt | Already_stopping

definition rejected_result :: "string \<Rightarrow> string \<Rightarrow> aftermath \<times> string" where
  "rejected_result name note =
     (let guidance = user_guidance note in
      if guidance \<noteq> [] then (Steer guidance, reject_directive name guidance)
      else (if note = ''cancelled'' then Already_stopping else Halt,
            ''user rejected this action'' @ (if note = [] then [] else '': '' @ note) @ '' '' @ em_dash
              @ '' run halted; waiting for the user'' @ CHR 0x27 # ''s next message.''))"

datatype tool_result =
    Tool_runs
  | Refused_policy string
  | Refused_risk string
  | Rejected aftermath string

fun gate_result :: "string \<Rightarrow> gate_outcome \<Rightarrow> string \<Rightarrow> string \<Rightarrow> tool_result" where
  "gate_result name Let_run d note = Tool_runs"
| "gate_result name Auto_approved d note = Tool_runs"
| "gate_result name (Blocked_by_policy why) d note = Refused_policy why"
| "gate_result name (Blocked_by_risk why) d note = Refused_risk why"
| "gate_result name (Ask_user why) d note =
     (if d = ''approve'' then Tool_runs
      else (let x = rejected_result name note in Rejected (fst x) (snd x)))"

text \<open>The callback: none when the gate is switched off; an error inside it lets the tool run.\<close>

definition gate_enabled :: "env \<Rightarrow> bool" where
  "gate_enabled e \<longleftrightarrow> env_get e ''AIFORGE_TOOL_GATE'' ''1'' \<notin> {''0'', ''false'', []}"

definition callback :: "env \<Rightarrow> tool_result res \<Rightarrow> tool_result" where
  "callback e r = (if gate_enabled e then or_else r Tool_runs else Tool_runs)"

section \<open>Refusals nothing lifts\<close>

text \<open>A denied call is blocked whatever the approval switch, the opt-ins and the registry hold.\<close>

theorem denied_is_blocked:
  assumes "d_policy (decide (g_policy w) name a) = DENY"
  shows "gate_result name (gate w name a) d note = Refused_policy (d_reason (decide (g_policy w) name a))"
  using assms by (simp add: gate_def Let_def policies)

lemma is_commit_flag_off:
  "g_active w = None \<Longrightarrow> \<not> env_yes (p_env (g_policy w)) ''AIFORGE_AUTONOMOUS_COMMIT_AUTO_APPROVE''
     \<Longrightarrow> \<not> auto_approved_commit w a"
proof -
  have up: "''AIFORGE_AUTONOMOUS_'' @ upper ''commit_auto_approve'' = ''AIFORGE_AUTONOMOUS_COMMIT_AUTO_APPROVE''"
    by code_simp
  then show "g_active w = None \<Longrightarrow> \<not> env_yes (p_env (g_policy w)) ''AIFORGE_AUTONOMOUS_COMMIT_AUTO_APPROVE''
     \<Longrightarrow> \<not> auto_approved_commit w a"
    by (simp add: auto_approved_commit_def flag_active_def split: pyval.split)
qed

lemma dangerous_decision:
  "t \<in> set cmd_tools \<Longrightarrow> is_dangerous (p_outside w) (p_env w) (cmd_from_args a)
    \<Longrightarrow> d_policy (decide w t a) = DENY \<or> d_policy (decide w t a) = ASK \<and> d_risk (decide w t a) = ''dangerous''"
  by (rule dangerous_asks)

text \<open>C28. In a run nobody attends (no active chat session) the callback refuses every call of a command
  tool whose command the classifier calls dangerous, whatever the chats' switches, opt-ins and
  registry hold and whatever answer is made up for it - while the gate is in force
  (\<^verbatim>\<open>AIFORGE_TOOL_GATE\<close> is not off, and the callback meets no error of its own) and the operator
  set neither \<^verbatim>\<open>AIFORGE_UNATTENDED_DANGEROUS\<close> nor the autonomous commit approval.\<close>

theorem dangerous_unattended_refused:
  assumes "name \<in> set cmd_tools"
    and "is_dangerous (p_outside (g_policy w)) (p_env (g_policy w)) (cmd_from_args a)"
    and "g_active w = None" and "gate_enabled (p_env (g_policy w))"
    and "\<not> env_yes (p_env (g_policy w)) ''AIFORGE_UNATTENDED_DANGEROUS''"
    and "\<not> env_yes (p_env (g_policy w)) ''AIFORGE_AUTONOMOUS_COMMIT_AUTO_APPROVE''"
  shows "callback (p_env (g_policy w)) (Inr (gate_result name (gate w name a) d note)) \<in>
    {Refused_policy (d_reason (decide (g_policy w) name a)), Refused_risk (d_reason (decide (g_policy w) name a))}"
  using dangerous_decision [OF assms(1,2)] is_commit_flag_off [OF assms(3,6)] assms(3-5)
  by (auto simp: callback_def gate_def Let_def policies has_emitter_def refuse_dangerous_unattended_def
      approvals_on_def approvals_required_def force_review_def review_edits_def)

section \<open>When a human is asked\<close>

text \<open>The gate waits for a human only where one is attached and the chat's mode asks for approval; so
  an unattended run never blocks on it.\<close>

theorem asks_only_a_human:
  "(case gate w name a of Ask_user r \<Rightarrow> has_emitter (g_active w) (g_reg w) \<and> approvals_on w | _ \<Rightarrow> True)"
proof -
  have "d_policy (decide (g_policy w) name a) \<in> {ALLOW, ASK, DENY}"
    using decide_valid by (auto simp: valid_policy_def)
  then show ?thesis by (auto simp: gate_def Let_def policies)
qed

text \<open>With the review of edits armed, an attached human and approvals on, no file is written
  unseen: every call that writes asks, unless the operator denies it.\<close>

theorem armed_review_asks:
  assumes "writes_files (g_repr w) name a" and "review_edits (g_active w) (g_reg w)"
    and "has_emitter (g_active w) (g_reg w)" and "approvals_on w"
    and "d_policy (decide (g_policy w) name a) \<noteq> DENY"
  shows "\<exists>r. gate w name a = Ask_user r"
  using assms by (auto simp: gate_def Let_def force_review_def)

text \<open>An unattended run ignores everything a chat can set: its gate is the same whatever the
  registry of approvals, the modes, the chats' choices and the flags hold.\<close>

theorem unattended_ignores_chats:
  assumes "g_active w = None" and "g_policy w' = g_policy w" and "g_active w' = None"
  shows "gate w' name a = gate w name a"
proof -
  have "auto_approved_commit w' a = auto_approved_commit w a"
    using assms by (simp add: auto_approved_commit_def flag_active_def flag_active_scope_def split: pyval.split)
  then show ?thesis
    using assms by (simp add: gate_def Let_def approvals_on_def approvals_required_def force_review_def
        review_edits_def has_emitter_def refuse_dangerous_unattended_def)
qed

section \<open>The pipeline's gate keeps the contract\<close>

definition pipeline_runs :: "'f gate_world \<Rightarrow> string \<Rightarrow> args \<Rightarrow> bool" where
  "pipeline_runs w name a \<longleftrightarrow> (\<exists>d note. gate_result name (gate w name a) d note = Tool_runs)"

definition pipeline_waived :: "'f gate_world \<Rightarrow> bool" where
  "pipeline_waived w \<longleftrightarrow> env_yes (p_env (g_policy w)) ''AIFORGE_UNATTENDED_DANGEROUS'' \<or>
     env_yes (p_env (g_policy w)) ''AIFORGE_AUTONOMOUS_COMMIT_AUTO_APPROVE''"

interpretation pipeline: call_gate pipeline_runs g_policy "\<lambda>w. g_active w \<noteq> None" pipeline_waived
proof
  fix w :: "'f gate_world" and n a
  assume "d_policy (decide (g_policy w) n a) = DENY"
  then show "\<not> pipeline_runs w n a" by (simp add: pipeline_runs_def gate_def Let_def policies)
next
  fix w :: "'f gate_world" and n a
  assume "\<not> g_active w \<noteq> None" "\<not> pipeline_waived w" and risk: "d_risk (decide (g_policy w) n a) = ''dangerous''"
  then show "\<not> pipeline_runs w n a"
    using risky_not_allowed [OF risk] is_commit_flag_off [of w a]
    by (auto simp: pipeline_runs_def pipeline_waived_def gate_def Let_def policies has_emitter_def
        refuse_dangerous_unattended_def approvals_on_def approvals_required_def force_review_def review_edits_def)
qed

section \<open>Instances\<close>

definition example_world :: "env \<Rightarrow> unit registry \<Rightarrow> int option \<Rightarrow> unit gate_world" where
  "example_world e r sid =
     \<lparr>g_policy = \<lparr>p_env = e, p_outside = \<lparr>realpath = id, process_dir = ''/'', write_targets = (\<lambda>_ _. Inr [])\<rparr>,
        p_egress = (\<lambda>_. Inr None), p_script = (\<lambda>_. Inr [])\<rparr>,
      g_reg = r, g_modes = None, g_chats = None,
      g_flags = Some (Inr (PDict [(''session'', PDict [(''7'', PDict [(''commit_auto_approve'', PBool True)])])])),
      g_key_of = Some, g_repo_root = ''/r'', g_active = sid, g_repr = (\<lambda>_. [])\<rparr>"

definition deny_x :: env where
  "deny_x k = (if k = ''AIFORGE_TOOL_POLICY'' then Some ''x=deny'' else None)"

lemma x_denied: "d_policy (decide (g_policy (example_world deny_x r sid)) ''x'' a) = DENY"
proof -
  let ?w = "g_policy (example_world deny_x r sid)"
  have "configured (p_env ?w) = [(''x'', DENY)]"
    by (simp add: example_world_def configured_def parse_map_def env_get_def deny_x_def split_char_def strip_def
        strip_by_def is_space_def lower_def lower_char_def policies)
  then have "2 \<le> rank (d_policy (decide ?w ''x'' a))" by (simp add: rank_decide base_policy_def)
  then show ?thesis using decide_valid [of ?w "''x''" a] by (auto simp: valid_policy_def)
qed

theorem denied_is_blocked_witness:
  "\<exists>why. gate_result ''x'' (gate (example_world deny_x empty_registry (Some 7)) ''x'' None) ''approve'' [] = Refused_policy why"
  using denied_is_blocked [OF x_denied] by blast

theorem dangerous_unattended_refused_witness:
  "\<exists>why. callback (\<lambda>_. None) (Inr (gate_result ''bash'' (gate (example_world (\<lambda>_. None) empty_registry None) ''bash''
      (Some [(''cmd'', PStr ''mkfs'')])) ''approve'' [])) \<in> {Refused_policy why, Refused_risk why}"
proof -
  let ?w = "example_world (\<lambda>_. None) empty_registry None"
  have "callback (p_env (g_policy ?w)) (Inr (gate_result ''bash'' (gate ?w ''bash'' (Some [(''cmd'', PStr ''mkfs'')])) ''approve'' [])) \<in>
    {Refused_policy (d_reason (decide (g_policy ?w) ''bash'' (Some [(''cmd'', PStr ''mkfs'')]))),
     Refused_risk (d_reason (decide (g_policy ?w) ''bash'' (Some [(''cmd'', PStr ''mkfs'')])))}"
    by (rule dangerous_unattended_refused)
      (simp_all add: example_world_def cmd_tools_def cmd_from_args_def cmd_arg_keys_def arg_of_def mkfs_dangerous
        risk_disabled_def env_yes_def env_get_def gate_enabled_def)
  moreover have "p_env (g_policy ?w) = (\<lambda>_. None)" by (simp add: example_world_def)
  ultimately show ?thesis by auto
qed

theorem armed_review_asks_witness:
  "\<exists>r. gate (example_world (\<lambda>_. None) (set_emitter 7 () (set_review_edits (Some 7) True empty_registry)) (Some 7))
     ''write'' (Some []) = Ask_user r"
  by (rule armed_review_asks)
    (simp_all add: example_world_def writes_files_def file_write_tools_def set_review_edits_def review_edits_def
      set_emitter_def has_emitter_def approvals_on_def approvals_required_def required_def session_load_def
      own_choice_def mode_default_def load_modes_def decide_def Let_def egress_refusal_def cmd_tools_def
      code_tools_def script_tools_def apply_risk_def risk_verdict_def configured_def parse_map_def env_get_def
      split_char_def ask_tools_def in_sandbox_def env_yes_def default_ask_def policies)

theorem unattended_ignores_chats_witness:
  "gate (example_world (\<lambda>_. None) (set_emitter 7 () empty_registry) None) ''bash'' (Some []) =
     gate (example_world (\<lambda>_. None) empty_registry None) ''bash'' (Some [])"
  by (rule unattended_ignores_chats) (simp_all add: example_world_def)

section \<open>What the commit opt-in lets through\<close>

text \<open>The opt-in for commits runs what it must not: with it on, a dangerous command put behind
  \<^verbatim>\<open>git add . &\<close> is judged dangerous and runs without anyone being asked.\<close>

theorem background_job_auto_approved:
  assumes "\<not> has_shell_sep u" and "u \<noteq> []" and "danger_hits (p_env (g_policy w)) [u] \<noteq> []"
    and "\<not> risk_disabled (p_env (g_policy w))"
    and "\<not> found git_push (lower (''git add . & '' @ u))"
    and "flag_active (p_env (g_policy w)) (g_key_of w) (g_flags w) ''commit_auto_approve''
      (repo_key (g_key_of w) (Some (g_repo_root w))) (map_option str_of_int (g_active w)) = Inr True"
    and "a = Some [(''cmd'', PStr (''git add . & '' @ u))]"
    and "egress_refusal (g_policy w) ''bash'' a = []" and "base_policy (g_policy w) ''bash'' \<noteq> DENY"
  shows "d_risk (decide (g_policy w) ''bash'' a) = ''dangerous'' \<and>
    gate_result ''bash'' (gate w ''bash'' a) d note = Tool_runs"
proof -
  have cmd: "cmd_from_args a = ''git add . & '' @ u" "cmd_value a = PStr (''git add . & '' @ u)"
    by (simp_all add: assms(7) cmd_from_args_def cmd_arg_keys_def arg_of_def cmd_value_def)
  have t: "''bash'' \<in> set cmd_tools" by (simp add: cmd_tools_def)
  have "is_dangerous (p_outside (g_policy w)) (p_env (g_policy w)) (''git add . & '' @ u @ [])"
    by (rule danger_in_context [OF assms(3,4)]) (simp_all add: is_word_def assms(2))
  then have dang: "is_dangerous (p_outside (g_policy w)) (p_env (g_policy w)) (cmd_from_args a)"
    by (simp add: cmd)
  have "d_policy (decide (g_policy w) ''bash'' a) \<noteq> DENY" by (rule not_denied [OF assms(8,9)])
  then have ask: "d_policy (decide (g_policy w) ''bash'' a) = ASK"
    and risk: "d_risk (decide (g_policy w) ''bash'' a) = ''dangerous''"
    using dangerous_asks [OF t dang] by auto
  have "auto_approved_commit w a"
    using assms(5,6) flag_scope_defined [OF assms(6)] commit_in_background [OF assms(1)]
    by (auto simp: auto_approved_commit_def cmd Let_def)
  moreover have "\<not> force_review w ''bash'' a ASK"
    by (simp add: force_review_def writes_files_def file_write_tools_def)
  ultimately show ?thesis using ask risk by (auto simp: gate_def Let_def policies)
qed

theorem background_job_auto_approved_witness:
  "gate_result ''bash'' (gate (example_world (\<lambda>_. None) empty_registry (Some 7)) ''bash''
     (Some [(''cmd'', PStr (''git add . & '' @ ''mkfs''))])) ''reject'' [] = Tool_runs"
proof -
  let ?w = "example_world (\<lambda>_. None) empty_registry (Some 7)"
  have seven: "str_of_int 7 = ''7''" by code_simp
  have flag: "flag_active (p_env (g_policy ?w)) (g_key_of ?w) (g_flags ?w) ''commit_auto_approve''
      (repo_key (g_key_of ?w) (Some (g_repo_root ?w))) (map_option str_of_int (g_active ?w)) = Inr True"
    by (simp add: example_world_def flag_active_def flag_in_def load_flags_def sections_def set_default_def
        has_key_def dget_or_def seven)
  have "\<not> found git_push (lower (''git add . & '' @ ''mkfs''))" (is "\<not> found ?r ?s")
  proof
    assume "found ?r ?s"
    then have "CHR ''p'' \<in> set ?s" by (rule found_needs) simp
    then show False by (simp add: lower_def lower_char_def)
  qed
  moreover have "egress_refusal (g_policy ?w) ''bash'' (Some [(''cmd'', PStr (''git add . & '' @ ''mkfs''))]) = []"
    by (simp add: egress_refusal_def example_world_def cmd_tools_def)
  moreover have "base_policy (g_policy ?w) ''bash'' \<noteq> DENY"
    by (simp add: base_policy_def example_world_def configured_def parse_map_def env_get_def split_char_def policies)
  ultimately show ?thesis
    using background_job_auto_approved [of "''mkfs''" ?w, OF _ _ mkfs_hits _ _ flag refl]
    by (simp add: has_shell_sep_def starts_with_def risk_disabled_def env_yes_def env_get_def example_world_def)
qed

text \<open>An option before the verb hides a push: the reader of commit commands sees the verb \<open>push\<close>, the
  test that excludes pushes from the opt-in, which is also the risk pattern of a push, does not match.\<close>

theorem push_behind_option:
  "git_head_verb ''git -c a=b push'' = ''push'' \<and> is_commit_command ''git -c a=b push'' \<and>
     \<not> found git_push (lower ''git -c a=b push'')"
  by (intro conjI; code_simp)

section \<open>Guidance comes from the user\<close>

text \<open>A note is empty, one of the registry's own, or typed by the user in that session.\<close>

definition note_ok :: "move list \<Rightarrow> int \<Rightarrow> string \<Rightarrow> bool" where
  "note_ok ms s m \<longleftrightarrow> m = [] \<or> m \<in> set system_notes \<or> (\<exists>d sq. Click s d m sq \<in> set ms)"

definition entry_notes :: "move list \<Rightarrow> int list \<Rightarrow> 'f registry \<Rightarrow> bool" where
  "entry_notes ms os r \<longleftrightarrow>
     length (entries r) = length os \<and> (\<forall>a < length os. note_ok ms (os ! a) (p_note (entries r ! a)))"

definition answer_notes :: "move list \<Rightarrow> world \<Rightarrow> bool" where
  "answer_notes ms w \<longleftrightarrow> (\<forall>t s n d m. threads w t = Some (Answered s n d m) \<longrightarrow> note_ok ms s m)"

lemma note_ok_more: "note_ok ms s m \<Longrightarrow> note_ok (ms @ [x]) s m"
  by (auto simp: note_ok_def)

lemma system_note_ok [simp]: "m \<in> set system_notes \<Longrightarrow> note_ok ms s m"
  by (simp add: note_ok_def)

lemma notes_on_entry:
  assumes "entry_notes ms os r"
    and "a < length os \<Longrightarrow> note_ok ms (os ! a) (p_note (entries r ! a)) \<Longrightarrow> note_ok ms (os ! a) (p_note (f (entries r ! a)))"
  shows "entry_notes ms os (on_entry a f r)"
  using assms by (auto simp: entry_notes_def on_entry_at)

lemma notes_refuse: "entry_notes ms os r \<Longrightarrow> m \<in> set system_notes \<Longrightarrow> entry_notes ms os (on_entry a (refuse m) r)"
  by (rule notes_on_entry) (simp_all add: refuse_def)

lemma own_notes [simp]: "''superseded'' \<in> set system_notes" "''cancelled'' \<in> set system_notes"
  "''run finished'' \<in> set system_notes" "''approval timed out'' \<in> set system_notes"
  "''no pending approval'' \<in> set system_notes"
  by (simp_all add: system_notes_def)

lemma notes_request:
  assumes "entry_notes ms os r"
  shows "entry_notes ms (os @ [s]) (snd (request s r))"
proof -
  define r1 where "r1 = (case pending_of r s of None \<Rightarrow> r
                | Some a \<Rightarrow> if open_at r a then on_entry a (refuse ''superseded'') r else r)"
  have "entry_notes ms os r1"
    using assms by (auto simp: r1_def notes_refuse split: option.split)
  moreover have "entries (snd (request s r)) = entries r1 @ [fresh_pending (fst (request s r))]"
    by (simp add: request_def Let_def r1_def)
  ultimately show ?thesis
    by (auto simp: entry_notes_def nth_append less_Suc_eq fresh_pending_def note_ok_def)
qed

lemma notes_registry:
  assumes n: "entry_notes (ms @ [x]) (askers ms) (reg w)" and act: "act x w = Some w'"
    and reg: "reg_ok (askers ms) A (reg w)"
  shows "entry_notes (ms @ [x]) (askers (ms @ [x])) (reg w')"
proof (cases x)
  case (Ask t s)
  then have "reg w' = snd (request s (reg w))" using act by (auto simp: Let_def split: option.splits)
  then show ?thesis using notes_request [OF n] Ask by (simp add: askers_snoc)
next
  case (Click s d m sq)
  have "note_ok (ms @ [x]) (askers ms ! a) m" if "pending_of (reg w) s = Some a" for a
    using reg_ok_pending [OF reg that] by (auto simp: note_ok_def Click)
  then show ?thesis
    using act n by (auto simp: Click askers_snoc resolve_def decide_entry_def split: option.splits
        intro!: notes_on_entry)
next
  case (Stop s)
  then show ?thesis
    using act n by (auto simp: askers_snoc cancel_def split: option.split intro!: notes_refuse)
next
  case (Expire t)
  then show ?thesis
    using act n by (auto simp: askers_snoc wait_expire_def Let_def split: option.splits thread.splits if_splits
        intro!: notes_on_entry)
next
  case (Release t)
  then show ?thesis
    using act n by (auto simp: askers_snoc finish_wake_def split: option.splits thread.splits if_splits
        intro!: notes_refuse)
next
  case (Finish t s)
  then show ?thesis
    using act n by (auto simp: askers_snoc finish_drop_def Let_def entry_notes_def split: option.splits)
qed (use act n in \<open>force simp: askers_snoc split: option.splits thread.splits if_splits\<close>)+

lemma notes_answers:
  assumes a: "answer_notes (ms @ [x]) w" and act: "act x w = Some w'"
    and n: "entry_notes (ms @ [x]) (askers ms) (reg w)"
    and ok: "world_ok False (askers ms) A w"
  shows "answer_notes (ms @ [x]) w'"
proof (cases x)
  case (Read_note t)
  then obtain s k b d where th: "threads w t = Some (Read s k b d)"
    and w': "w' = put_thread t (Answered s k d (p_note (entries (reg w) ! b))) w"
    using act by (auto split: option.splits thread.splits)
  have "note_ok (ms @ [x]) s (p_note (entries (reg w) ! b))"
    using world_ok_thread [OF ok th] n by (auto simp: entry_notes_def)
  then show ?thesis using a by (auto simp: answer_notes_def w')
qed (use act a in \<open>auto simp: answer_notes_def Let_def split: option.splits thread.splits if_splits\<close>)

lemma run_notes: "run ms w \<Longrightarrow> entry_notes ms (askers ms) (reg w) \<and> answer_notes ms w"
proof (induction rule: run.induct)
  case run_start
  show ?case by (simp add: entry_notes_def answer_notes_def askers_def idle_world_def empty_registry_def)
next
  case (run_move ms w x w')
  have n: "entry_notes (ms @ [x]) (askers ms) (reg w)" "answer_notes (ms @ [x]) w"
    using run_move.IH by (auto simp: entry_notes_def answer_notes_def intro: note_ok_more)
  note ok = run_ok [OF run_move.hyps(1)]
  show ?case
    using notes_registry [OF n(1) run_move.hyps(2) world_ok_reg [OF ok]]
      notes_answers [OF n(2) run_move.hyps(2) n(1) ok] by blast
qed

text \<open>A rejection steers the agent only with words the user typed in that session: the registry's own
  notes (a timeout, a stop, a newer request, the end of the run) never pass for guidance.\<close>

theorem guidance_was_typed:
  assumes "run ms w" and "threads w t = Some (Answered s n d m)" and "rejected_result name m = (Steer g, err)"
  shows "\<exists>d' sq. Click s d' m sq \<in> set ms"
proof -
  have "user_guidance m \<noteq> []"
    using assms(3) by (auto simp: rejected_result_def Let_def split: if_splits)
  then have "m \<noteq> []" "m \<notin> set system_notes"
    by (auto simp: user_guidance_def Let_def system_notes_def strip_def strip_by_def is_space_def split: if_splits)
  moreover have "note_ok ms s m"
    using run_notes [OF assms(1)] assms(2) by (auto simp: answer_notes_def)
  ultimately show ?thesis by (auto simp: note_ok_def)
qed

theorem guidance_was_typed_witness:
  "\<exists>d sq. Click 7 d ''use tmp'' sq \<in> set [Ask 1 7, Look 1, Click 7 ''reject'' ''use tmp'' (Some 1), Wake 1, Read_decision 1, Read_note 1]"
proof -
  let ?ms = "[Ask 1 7, Look 1, Click 7 ''reject'' ''use tmp'' (Some 1), Wake 1, Read_decision 1, Read_note 1]"
  have "\<exists>w. exec idle_world ?ms = Some w \<and> threads w 1 = Some (Answered 7 1 ''reject'' ''use tmp'')"
    by (simp add: eval_defs)
  then obtain w where w: "run ?ms w" "threads w 1 = Some (Answered 7 1 ''reject'' ''use tmp'')"
    using run_idle by blast
  obtain err where "rejected_result ''bash'' ''use tmp'' = (Steer ''use tmp'', err)"
    by (simp add: rejected_result_def Let_def user_guidance_def system_notes_def strip_def strip_by_def is_space_def)
  from guidance_was_typed [OF w this] show ?thesis .
qed

end
