(* ===== verification/Chat_Gate.thy ===== *)
theory Chat_Gate
  imports Tool_Gate
begin

text \<open>
  The approval gate of the chat's own loop, \<^verbatim>\<open>runtime/chat_agent/_turn/_approval.py\<close>. It shares the
  registry, the policy and the opt-ins with the gate of the pipeline (theory \<open>Tool_Gate\<close>), adds the
  confirmation of destructive deletes and the decision made for a run without a human, and steers the
  loop: go on with the next call, end the turn, or run this one. The answer of the registry's wait, the
  number of the card and whether a stop has landed are arguments; events keep what the loop decides by,
  not their wording.
\<close>

section \<open>Flags of a command\<close>

text \<open>\<open>dir\<close> is the folder of the chat, \<open>repo\<close> its repository's name.\<close>

definition destructive_delete :: "'f gate_world \<Rightarrow> string \<Rightarrow> string option \<Rightarrow> bool" where
  "destructive_delete w cmd dir =
     (\<not> allow_delete (p_env (g_policy w)) [''AIFORGE_CHAT_ALLOW_DELETE'', ''AIFORGE_ALLOW_DELETE'']
      \<and> is_destructive_delete (p_outside (g_policy w)) (p_env (g_policy w)) cmd dir)"

definition chat_flag :: "'f gate_world \<Rightarrow> string \<Rightarrow> string \<Rightarrow> bool" where
  "chat_flag w name repo =
     or_else (flag_active (p_env (g_policy w)) (g_key_of w) (g_flags w) name (Some repo)
       (map_option str_of_int (g_active w))) False"

definition commit_auto_approved :: "'f gate_world \<Rightarrow> string \<Rightarrow> string \<Rightarrow> bool" where
  "commit_auto_approved w cmd repo =
     (is_commit_command cmd \<and> \<not> found git_push (lower cmd) \<and> chat_flag w ''commit_auto_approve'' repo)"

definition delete_pre_confirmed :: "'f gate_world \<Rightarrow> string \<Rightarrow> bool \<Rightarrow> bool" where
  "delete_pre_confirmed w repo mode_approvals =
     (if mode_approvals then False
      else if chat_flag w ''allow_delete'' repo then True
      else g_active w \<noteq> None)"

definition confirm_delete :: "args \<Rightarrow> args" where
  "confirm_delete a = map_option (\<lambda>d. set_at d ''confirm_delete'' (PBool True)) a"

text \<open>Is it a delete to confirm, is it a commit the opt-in covers, and the arguments after it.\<close>

definition command_gate_flags :: "'f gate_world \<Rightarrow> string \<Rightarrow> args \<Rightarrow> string option \<Rightarrow> string \<Rightarrow> bool
    \<Rightarrow> bool \<times> bool \<times> args" where
  "command_gate_flags w name a dir repo mode_approvals =
     (if name \<notin> set cmd_tools then (False, False, a)
      else (case cmd_value a of
         PStr cmd \<Rightarrow>
           (let del = destructive_delete w cmd dir;
                commit = commit_auto_approved w cmd repo
            in if del \<and> delete_pre_confirmed w repo mode_approvals then (False, commit, confirm_delete a)
               else (del, commit, a))
       | _ \<Rightarrow> (False, False, a)))"

section \<open>Must this call pause?\<close>

record chat_gate =
  c_gate :: bool
  c_delete :: bool
  c_bypass :: bool
  c_args :: args

definition compute_gate_decision :: "'f gate_world \<Rightarrow> string \<Rightarrow> args \<Rightarrow> string option \<Rightarrow> string \<Rightarrow> decision \<Rightarrow> chat_gate" where
  "compute_gate_decision w name a dir repo v =
     (let review = (g_active w \<noteq> None \<and> writes_files (g_repr w) name a \<and> review_edits (g_active w) (g_reg w));
          on = approvals_on w;
          f = command_gate_flags w name a dir repo on;
          del = fst f; commit = fst (snd f); a' = snd (snd f);
          pause = ((d_policy v = ASK \<and> on) \<or> review \<or> del)
      in if pause \<and> commit \<and> \<not> del \<and> \<not> review \<and> d_policy v \<noteq> DENY
         then \<lparr>c_gate = False, c_delete = del, c_bypass = True, c_args = a'\<rparr>
         else \<lparr>c_gate = pause, c_delete = del, c_bypass = False, c_args = a'\<rparr>)"

definition autonomous_decision :: "'f gate_world \<Rightarrow> string \<Rightarrow> args \<Rightarrow> bool \<Rightarrow> decision \<Rightarrow> string \<times> string" where
  "autonomous_decision w name a del v =
     (let danger = (del \<or> d_risk v = ''dangerous'' \<or>
            (name \<in> set cmd_tools \<and>
             (case cmd_value a of PStr cmd \<Rightarrow> is_dangerous (p_outside (g_policy w)) (p_env (g_policy w)) cmd | _ \<Rightarrow> False)))
      in if danger then (''reject'', ''autonomous: dangerous action blocked'')
         else (''approve'', ''autonomous auto-approve''))"

section \<open>Rejections\<close>

datatype chat_event =
    Denied string
  | Auto_approved_event
  | Card int string
  | Card_expired int
  | Skipped_timeout
  | Skipped_rejected string
  | Skipped_cancelled
  | Steered string
  | Paused_for_user
  | Stopped_timeout
  | Turn_done

datatype signal = Go_on | End_turn | Proceed

definition max_timeouts :: int where
  "max_timeouts = 2"

text \<open>\<^verbatim>\<open>_TIMEOUTS\<close>, the unanswered approvals in a row of each session.\<close>

type_synonym timeouts = "int \<Rightarrow> int option"

definition new_turn :: "int \<Rightarrow> timeouts \<Rightarrow> timeouts" where
  "new_turn s tm = tm(s := None)"

definition timed_out :: string where
  "timed_out = ''approval timed out''"

text \<open>The events, what is told to the model, the counters, and the signal.\<close>

definition handle_rejection :: "string \<Rightarrow> int option \<Rightarrow> string \<Rightarrow> timeouts
    \<Rightarrow> chat_event list \<times> string list \<times> timeouts \<times> signal" where
  "handle_rejection name sid note tm =
     (let guidance = user_guidance note;
          skipped = Skipped_rejected (''user rejected this action'' @ (if note = [] then [] else '': '' @ note))
      in case sid of
           None \<Rightarrow> ([skipped], [''OBSERVATION''], tm, Go_on)
         | Some s \<Rightarrow>
             if note = timed_out then
               (let n = (case tm s of None \<Rightarrow> 0 | Some k \<Rightarrow> k) + 1 in
                if n \<ge> max_timeouts
                then ([Skipped_timeout, Paused_for_user, Stopped_timeout, Turn_done], [], tm(s := None), End_turn)
                else ([Skipped_timeout], [''OBSERVATION''], tm(s \<mapsto> n), Go_on))
             else if guidance \<noteq> [] then ([skipped, Steered guidance], [reject_directive name guidance], tm, Go_on)
             else ([skipped, Paused_for_user, Turn_done], [], tm, End_turn))"

definition card_reason :: "decision \<Rightarrow> bool \<Rightarrow> string" where
  "card_reason v del =
     (if d_policy v = ASK then d_reason v
      else if del then ''Confirm this destructive delete before it runs.''
      else ''Review edits: confirm this file change before it lands.'')"

definition run_approval :: "'f gate_world \<Rightarrow> string \<Rightarrow> args \<Rightarrow> decision \<Rightarrow> bool \<Rightarrow> int \<Rightarrow> string \<times> string
    \<Rightarrow> bool \<Rightarrow> timeouts \<Rightarrow> chat_event list \<times> string list \<times> timeouts \<times> args \<times> signal" where
  "run_approval w name a v del seq answer stopped tm =
     (let sid = g_active w;
          dn = (if sid = None then autonomous_decision w name a del v else answer);
          card = Card (if sid = None then 0 else seq) (card_reason v del);
          expired = (if snd dn = timed_out then [Card_expired (if sid = None then 0 else seq)] else []);
          tm1 = (case sid of None \<Rightarrow> tm | Some s \<Rightarrow> if snd dn \<noteq> timed_out then tm(s := None) else tm)
      in if fst dn \<noteq> ''approve''
         then (let h = handle_rejection name sid (snd dn) tm1
               in (card # expired @ fst h, fst (snd h), fst (snd (snd h)), a, snd (snd (snd h))))
         else (let a' = (if del then confirm_delete a else a)
               in if sid \<noteq> None \<and> stopped
                  then (card # expired @ [Skipped_cancelled], [], tm1, a', Go_on)
                  else (card # expired, [], tm1, a', Proceed)))"

definition approval_gate :: "'f gate_world \<Rightarrow> string \<Rightarrow> args \<Rightarrow> string option \<Rightarrow> string \<Rightarrow> int \<Rightarrow> string \<times> string
    \<Rightarrow> bool \<Rightarrow> timeouts \<Rightarrow> chat_event list \<times> string list \<times> timeouts \<times> args \<times> signal" where
  "approval_gate w name a dir repo seq answer stopped tm =
     (let v = decide (g_policy w) name a in
      if d_policy v = DENY then ([Denied (d_reason v)], [''OBSERVATION''], tm, a, Go_on)
      else (let c = compute_gate_decision w name a dir repo v;
                audit = (if c_bypass c then [Auto_approved_event] else [])
            in if c_gate c
               then (let r = run_approval w name (c_args c) v (c_delete c) seq answer stopped tm
                     in (audit @ fst r, snd r))
               else (audit, [], tm, c_args c, Proceed)))"

abbreviation signal_of :: "chat_event list \<times> string list \<times> timeouts \<times> args \<times> signal \<Rightarrow> signal" where
  "signal_of r \<equiv> snd (snd (snd (snd r)))"

section \<open>When a call runs\<close>

text \<open>The answer the loop goes by: the human's, or the decision made in its place.\<close>

definition effective_answer :: "'f gate_world \<Rightarrow> string \<Rightarrow> args \<Rightarrow> bool \<Rightarrow> decision \<Rightarrow> string \<times> string \<Rightarrow> string \<times> string" where
  "effective_answer w name a del v answer =
     (if g_active w = None then autonomous_decision w name a del v else answer)"

lemma rejection_never_proceeds: "snd (snd (snd (handle_rejection name sid note tm))) \<noteq> Proceed"
  by (simp add: handle_rejection_def Let_def split: option.split)

lemma run_approval_signal:
  "signal_of (run_approval w name a v del seq answer stopped tm) = Proceed \<longleftrightarrow>
     fst (effective_answer w name a del v answer) = ''approve'' \<and> \<not> (g_active w \<noteq> None \<and> stopped)"
  using rejection_never_proceeds by (auto simp: run_approval_def Let_def effective_answer_def)

lemma gate_signal:
  "signal_of (approval_gate w name a dir repo seq answer stopped tm) = Proceed \<longleftrightarrow>
     (let v = decide (g_policy w) name a; c = compute_gate_decision w name a dir repo v in
      d_policy v \<noteq> DENY \<and>
      (\<not> c_gate c \<or> fst (effective_answer w name (c_args c) (c_delete c) v answer) = ''approve'' \<and>
         \<not> (g_active w \<noteq> None \<and> stopped)))"
  by (auto simp: approval_gate_def Let_def run_approval_signal)

text \<open>The loop runs a call exactly when policy does not deny it and either nothing makes it pause or
  the answer it goes by is an approval and no stop has landed meanwhile.\<close>

theorem runs_iff_approved:
  "signal_of (approval_gate w name a dir repo seq answer stopped tm) = Proceed \<longleftrightarrow>
     (let v = decide (g_policy w) name a; c = compute_gate_decision w name a dir repo v in
      d_policy v \<noteq> DENY \<and>
      (\<not> c_gate c \<or> fst (effective_answer w name (c_args c) (c_delete c) v answer) = ''approve'' \<and>
         \<not> (g_active w \<noteq> None \<and> stopped)))"
  by (rule gate_signal)

lemma cmd_value_confirm [simp]: "cmd_value (confirm_delete a) = cmd_value a"
  by (cases a) (simp_all add: cmd_value_def confirm_delete_def arg_of_def)

lemma unattended_approvals: "g_active w = None \<Longrightarrow> approvals_on w"
  by (simp add: approvals_on_def approvals_required_def)

lemma unattended_delete_flag:
  assumes "g_active w = None" and "name \<in> set cmd_tools" and "cmd_value a = PStr cmd"
  shows "command_gate_flags w name a dir repo (approvals_on w) =
    (destructive_delete w cmd dir, commit_auto_approved w cmd repo, a)"
  using assms by (simp add: command_gate_flags_def delete_pre_confirmed_def unattended_approvals Let_def)

text \<open>A destructive delete never runs in a run nobody attends, whatever opt-ins and switches the chats
  hold: only the operator's environment can allow deletes.\<close>

theorem unattended_delete_blocked:
  assumes "g_active w = None" and "name \<in> set cmd_tools" and "cmd_value a = PStr cmd"
    and "destructive_delete w cmd dir"
  shows "signal_of (approval_gate w name a dir repo seq answer stopped tm) \<noteq> Proceed"
  unfolding gate_signal
  using assms by (simp add: Let_def compute_gate_decision_def unattended_delete_flag effective_answer_def
      autonomous_decision_def)

section \<open>The chat's gate keeps the same contract\<close>

definition chat_runs :: "'f gate_world \<Rightarrow> string \<Rightarrow> args \<Rightarrow> bool" where
  "chat_runs w name a \<longleftrightarrow>
     (\<exists>dir repo seq answer stopped tm. signal_of (approval_gate w name a dir repo seq answer stopped tm) = Proceed)"

definition chat_waived :: "'f gate_world \<Rightarrow> bool" where
  "chat_waived w \<longleftrightarrow> env_yes (p_env (g_policy w)) ''AIFORGE_AUTONOMOUS_COMMIT_AUTO_APPROVE''"

lemma unattended_danger_stays:
  assumes "g_active w = None" and "\<not> chat_waived w" and "d_risk (decide (g_policy w) name a) = ''dangerous''"
  shows "signal_of (approval_gate w name a dir repo seq answer stopped tm) \<noteq> Proceed"
proof -
  have up: "''AIFORGE_AUTONOMOUS_'' @ upper ''commit_auto_approve'' = ''AIFORGE_AUTONOMOUS_COMMIT_AUTO_APPROVE''"
    by code_simp
  have "\<not> commit_auto_approved w cmd repo" for cmd
    using assms(1,2) up by (simp add: commit_auto_approved_def chat_flag_def flag_active_def chat_waived_def)
  then have "\<not> fst (snd (command_gate_flags w name a dir repo True))"
    by (simp add: command_gate_flags_def Let_def split: pyval.split)
  then show ?thesis unfolding gate_signal
    using risky_not_allowed [OF assms(3)] assms(1,3) unattended_approvals [OF assms(1)]
    by (auto simp: Let_def compute_gate_decision_def effective_answer_def autonomous_decision_def policies)
qed

interpretation chat: call_gate chat_runs g_policy "\<lambda>w. g_active w \<noteq> None" chat_waived
proof
  fix w :: "'f gate_world" and n a
  assume "d_policy (decide (g_policy w) n a) = DENY"
  then show "\<not> chat_runs w n a" by (simp add: chat_runs_def gate_signal Let_def)
next
  fix w :: "'f gate_world" and n a
  assume "\<not> g_active w \<noteq> None" "\<not> chat_waived w" "d_risk (decide (g_policy w) n a) = ''dangerous''"
  then show "\<not> chat_runs w n a" using unattended_danger_stays [of w n a] by (auto simp: chat_runs_def)
qed

text \<open>C29. Both gates share one floor: a command line for a command tool that holds, between characters
  that continue no word, a text matching one of the dangerous patterns (in a sandbox, of those that count there) as it
  is written, is let run with no active chat session by neither the callback of the pipeline (while
  \<^verbatim>\<open>AIFORGE_TOOL_GATE\<close> is not off and the callback meets no error of its own) nor the gate of the chat loop's workers,
  whatever else the line and the chats hold, as long as the classifier is on and the operator set neither
  \<^verbatim>\<open>AIFORGE_UNATTENDED_DANGEROUS\<close> nor the autonomous commit approval. (Destructive deletes, and commands that
  match only once normalised, are left out.)\<close>

theorem shared_floor:
  assumes "g_active w = None" and "\<not> pipeline_waived w" and "name \<in> set cmd_tools"
    and "cmd_from_args a = u @ cmd @ t" and "danger_hits (p_env (g_policy w)) [cmd] \<noteq> []"
    and "\<not> risk_disabled (p_env (g_policy w))" and "cmd \<noteq> []"
    and "u = [] \<or> \<not> is_word (last u)" and "t = [] \<or> \<not> is_word (hd t)" and "gate_enabled (p_env (g_policy w))"
  shows "callback (p_env (g_policy w)) (Inr (gate_result name (gate w name a) d note)) \<noteq> Tool_runs \<and>
    signal_of (approval_gate w name a dir repo seq answer stopped tm) \<noteq> Proceed"
proof -
  have unattended: "\<not> g_active w \<noteq> None" using assms(1) by simp
  have waived: "\<not> chat_waived w" using assms(2) by (simp add: chat_waived_def pipeline_waived_def)
  show ?thesis
    using pipeline.embedded_danger [OF unattended assms(2-6) assms(8,9,7)]
      chat.embedded_danger [OF unattended waived assms(3-6) assms(8,9,7)]
    using assms(10) unfolding pipeline_runs_def chat_runs_def callback_def by (cases answer) auto
qed

section \<open>Nobody answers\<close>

definition card_step :: "'f gate_world \<Rightarrow> string \<Rightarrow> args \<Rightarrow> decision \<Rightarrow> timeouts \<Rightarrow> string \<times> string \<Rightarrow> signal \<times> timeouts" where
  "card_step w name a v tm answer =
     (let r = run_approval w name a v False 0 answer False tm in (signal_of r, fst (snd (snd r))))"

text \<open>The timeouts at the end of a sequence of answers.\<close>

definition trailing :: "(string \<times> string) list \<Rightarrow> nat" where
  "trailing as = length (takeWhile (\<lambda>a. snd a = timed_out) (rev as))"

lemma trailing_snoc: "trailing (as @ [a]) = (if snd a = timed_out then Suc (trailing as) else 0)"
  by (simp add: trailing_def)

lemma answers_counter:
  assumes "g_active w = Some s" and "tm s = None"
  shows "(\<forall>a \<in> set as. snd a = timed_out \<longrightarrow> fst a \<noteq> ''approve'') \<Longrightarrow>
    snd (run_with (card_step w name a v) tm as) s = (if odd (trailing as) then Some 1 else None)"
proof (induction as rule: rev_induct)
  case Nil
  then show ?case using assms(2) by (simp add: trailing_def)
next
  case (snoc x as)
  let ?t = "snd (run_with (card_step w name a v) tm as)"
  have t: "?t s = (if odd (trailing as) then Some 1 else None)" using snoc by simp
  have "snd (card_step w name a v ?t x) s = (if odd (trailing (as @ [x])) then Some 1 else None)"
  proof (cases "snd x = timed_out")
    case True
    then have "fst x \<noteq> ''approve''" using snoc.prems by auto
    then show ?thesis using True t assms(1)
      by (simp add: card_step_def Let_def run_approval_def handle_rejection_def trailing_snoc max_timeouts_def)
  next
    case False
    then show ?thesis using assms(1)
      by (simp add: card_step_def Let_def run_approval_def handle_rejection_def trailing_snoc)
  qed
  then show ?case by (simp add: run_with_append)
qed

text \<open>A run whose cards nobody answers pauses at every second timeout in a row and goes on with other
  work at every first; any answer in between starts the count again.\<close>

theorem second_timeout_pauses:
  assumes "g_active w = Some s" and "tm s = None"
    and "\<forall>a \<in> set as. snd a = timed_out \<longrightarrow> fst a \<noteq> ''approve''"
  shows "fst (card_step w name a v (snd (run_with (card_step w name a v) tm as)) (''reject'', timed_out)) =
    (if odd (trailing as) then End_turn else Go_on)"
  using answers_counter [where w = w and s = s and tm = tm and as = as and name = name and a = a and v = v, OF assms] assms(1)
  by (simp add: card_step_def Let_def run_approval_def handle_rejection_def max_timeouts_def)

text \<open>With approvals off, a chat is asked only where its edits are held: every other call policy does
  not deny runs, and a destructive delete is marked as confirmed on its way.\<close>

theorem off_runs_unasked:
  assumes "g_active w = Some s" and "\<not> approvals_on w" and "\<not> review_edits (g_active w) (g_reg w)"
    and "d_policy (decide (g_policy w) name a) \<noteq> DENY"
    and "name \<in> set cmd_tools" and "cmd_value a = PStr cmd"
  shows "approval_gate w name a dir repo seq answer stopped tm =
    ([], [], tm, if destructive_delete w cmd dir then confirm_delete a else a, Proceed)"
  using assms by (simp add: approval_gate_def Let_def compute_gate_decision_def command_gate_flags_def
      delete_pre_confirmed_def)

section \<open>Instances\<close>

theorem unattended_delete_blocked_witness:
  "signal_of (approval_gate (example_world (\<lambda>_. None) empty_registry None) ''bash'' (Some [(''cmd'', PStr ''shred'')])
     None ''r'' 0 (''approve'', []) False Map.empty) \<noteq> Proceed"
  by (rule unattended_delete_blocked [where cmd = "''shred''"])
    (simp_all add: example_world_def cmd_tools_def cmd_value_def arg_of_def destructive_delete_def allow_delete_def
      deletes_outside_sandbox in_sandbox_def env_yes_def env_get_def shred_hits)

theorem shared_floor_witness:
  "callback (\<lambda>_. None) (Inr (gate_result ''bash'' (gate (example_world (\<lambda>_. None) empty_registry None) ''bash''
      (Some [(''cmd'', PStr (''true & '' @ ''mkfs'' @ '' /dev/x''))])) ''approve'' [])) \<noteq> Tool_runs \<and>
   signal_of (approval_gate (example_world (\<lambda>_. None) empty_registry None) ''bash''
      (Some [(''cmd'', PStr (''true & '' @ ''mkfs'' @ '' /dev/x''))]) None ''r'' 0 (''approve'', []) False Map.empty) \<noteq> Proceed"
proof -
  let ?w = "example_world (\<lambda>_. None) empty_registry None"
  have "p_env (g_policy ?w) = (\<lambda>_. None)" by (simp add: example_world_def)
  moreover have "g_active ?w = None" "\<not> pipeline_waived ?w" "''bash'' \<in> set cmd_tools"
    "cmd_from_args (Some [(''cmd'', PStr (''true & '' @ ''mkfs'' @ '' /dev/x''))]) = ''true & '' @ ''mkfs'' @ '' /dev/x''"
    by (simp_all add: example_world_def pipeline_waived_def env_yes_def env_get_def cmd_tools_def cmd_from_args_def
        cmd_arg_keys_def arg_of_def)
  ultimately show ?thesis
    using shared_floor [of ?w "''bash''" "Some [(''cmd'', PStr (''true & '' @ ''mkfs'' @ '' /dev/x''))]" "''true & ''" "''mkfs''" "'' /dev/x''"
        "''approve''" "[]" None "''r''" 0 "(''approve'', [])" False Map.empty]
    by (simp add: mkfs_hits risk_disabled_def env_get_def env_yes_def is_word_def gate_enabled_def)
qed

theorem second_timeout_pauses_witness:
  "fst (card_step (example_world (\<lambda>_. None) empty_registry (Some 7)) ''bash'' None
     \<lparr>d_policy = ''ask'', d_reason = [], d_risk = ''caution''\<rparr>
     (snd (run_with (card_step (example_world (\<lambda>_. None) empty_registry (Some 7)) ''bash'' None
        \<lparr>d_policy = ''ask'', d_reason = [], d_risk = ''caution''\<rparr>) Map.empty
        [(''reject'', timed_out)])) (''reject'', timed_out)) = End_turn"
  using second_timeout_pauses [of "example_world (\<lambda>_. None) empty_registry (Some 7)" 7 Map.empty
      "[(''reject'', timed_out)]" "''bash''" None
      "\<lparr>d_policy = ''ask'', d_reason = [], d_risk = ''caution''\<rparr>"]
  by (simp add: example_world_def trailing_def)

theorem off_runs_unasked_witness:
  "approval_gate ((example_world (\<lambda>_. None) empty_registry (Some 7))
       \<lparr>g_chats := Some (Inr (PDict [(''7'', PDict [(''simple'', PBool False)])]))\<rparr>)
     ''bash'' (Some [(''cmd'', PStr ''shred'')]) None ''r'' 0 (''reject'', []) False Map.empty =
   ([], [], Map.empty, Some [(''cmd'', PStr ''shred''), (''confirm_delete'', PBool True)], Proceed)"
proof -
  let ?w = "(example_world (\<lambda>_. None) empty_registry (Some 7))
       \<lparr>g_chats := Some (Inr (PDict [(''7'', PDict [(''simple'', PBool False)])]))\<rparr>"
  let ?a = "Some [(''cmd'', PStr ''shred'')]"
  have seven: "str_of_int 7 = ''7''" by code_simp
  have off: "\<not> approvals_on ?w"
    by (simp add: approvals_on_def approvals_required_def example_world_def required_def get_mode_def
        empty_registry_def canon_def modes_def session_load_def own_choice_def seven)
  have "d_policy (decide (g_policy ?w) ''bash'' ?a) \<noteq> DENY"
    by (rule not_denied) (simp_all add: example_world_def egress_refusal_def cmd_tools_def base_policy_def
        configured_def parse_map_def env_get_def split_char_def policies)
  moreover have "destructive_delete ?w ''shred'' None"
    by (simp add: destructive_delete_def allow_delete_def example_world_def deletes_outside_sandbox in_sandbox_def
        env_yes_def env_get_def shred_hits)
  ultimately show ?thesis
    using off_runs_unasked [where w = ?w and s = 7 and name = "''bash''" and a = ?a and cmd = "''shred''", OF _ off]
    by (simp add: example_world_def review_edits_def empty_registry_def cmd_tools_def cmd_value_def arg_of_def
        confirm_delete_def)
qed

end
