(* ===== verification/Ticket_Db.thy ===== *)
theory Ticket_Db
  imports Verdicts "HOL-Library.Char_ord" "HOL-Library.List_Lexorder" "HOL-Library.Product_Lexorder"
begin

text \<open>
  The tables of the ticket store and the statements over them:
  \<^verbatim>\<open>tickets/backends/sqlite_backend.py\<close>.

  The database is a record of its tables. A time is the text SQLite keeps
  (\<^verbatim>\<open>strftime('%Y-%m-%dT%H:%M:%fZ')\<close>): every operation takes the text of its own
  \<^verbatim>\<open>now\<close>, and texts compare byte by byte, as \<open>string\<close> does under the lexical order. A
  \<open>NULL\<close> route of a table that is older than the column is the empty text. A metadata
  dictionary stored as JSON is the dictionary; \<open>rep\<close> renders a list or a dictionary where
  SQLite compares its JSON text.

  What other processes commit between two statements of one operation is an argument
  \<open>mid\<close>: the identity when nothing intervenes.
\<close>

section \<open>Rows\<close>

type_synonym stamp = string
type_synonym dict = "(string \<times> pyval) list"

record ticket =
  row_id :: int
  ident :: string
  title :: string
  body :: string
  status :: string
  priority :: string
  assignee_role :: "string option"
  parent_id :: "int option"
  branch :: "string option"
  project :: "string option"
  labels :: "string list"
  metadata :: dict
  created_at :: stamp
  updated_at :: stamp
  completed_at :: "stamp option"
  route :: string
  route_workflow :: "string option"
  route_source :: string
  route_confidence :: "rat option"

record row = ticket +
  claimed_at :: "stamp option"

record event =
  ev_id :: int
  ev_ticket :: int
  agent_role :: "string option"
  kind :: string
  ev_body :: "string option"
  ev_meta :: dict
  ev_at :: stamp

text \<open>The column \<^verbatim>\<open>identifier\<close> is \<open>ident\<close>. The last three fields of the database are the counter of identifiers and the two \<^verbatim>\<open>AUTOINCREMENT\<close>
  sequences.\<close>

record db =
  rows :: "row list"
  events :: "event list"
  next_n :: int
  row_seq :: int
  event_seq :: int

datatype store_error =
    Bad_priority | Bad_route | No_workflow | Bad_source | Bad_status
  | Integrity
  | Bad_count

type_synonym 'a sres = "store_error + 'a"

definition empty_db :: db where
  "empty_db = \<lparr>rows = [], events = [], next_n = 100, row_seq = 0, event_seq = 0\<rparr>"

text \<open>\<open>d.update(patch)\<close>.\<close>

definition dict_update :: "dict \<Rightarrow> dict \<Rightarrow> dict" where
  "dict_update d patch = foldl (\<lambda>d (k, v). set_at d k v) d patch"

definition from_row :: "row \<Rightarrow> ticket" where
  "from_row r = (ticket.truncate r)
     \<lparr>route := (if route r = [] then ''code'' else route r),
      route_source := (if route_source r = [] then ''auto'' else route_source r)\<rparr>"

datatype key = By_id int | By_identifier string

definition row_is :: "key \<Rightarrow> row \<Rightarrow> bool" where
  "row_is k r = (case k of By_id i \<Rightarrow> row_id r = i | By_identifier s \<Rightarrow> ident r = s)"

definition fetch_ticket :: "key \<Rightarrow> db \<Rightarrow> row option" where
  "fetch_ticket k db = find (row_is k) (rows db)"

text \<open>\<^verbatim>\<open>UPDATE tickets SET ... WHERE p\<close>, and its row count above zero.\<close>

definition update_rows :: "(row \<Rightarrow> bool) \<Rightarrow> (row \<Rightarrow> row) \<Rightarrow> db \<Rightarrow> db" where
  "update_rows p f db = db\<lparr>rows := map (\<lambda>r. if p r then f r else r) (rows db)\<rparr>"

definition some_row :: "(row \<Rightarrow> bool) \<Rightarrow> db \<Rightarrow> bool" where
  "some_row p db = list_ex p (rows db)"

section \<open>The backend\<close>

subsection \<open>Identifiers and insertion\<close>

definition next_counter :: "db \<Rightarrow> int \<times> db" where
  "next_counter db = (next_n db, db\<lparr>next_n := next_n db + 1\<rparr>)"

text \<open>The fields of a draft that the column list of the \<^verbatim>\<open>INSERT\<close> leaves out take the
  defaults of the schema.\<close>

definition insert_ticket :: "ticket \<Rightarrow> stamp \<Rightarrow> db \<Rightarrow> row sres \<times> db" where
  "insert_ticket draft now db =
     (let r = ticket.extend
                (draft\<lparr>row_id := row_seq db + 1, status := ''todo'', created_at := now,
                  updated_at := now, completed_at := None\<rparr>)
                (row.fields None)
      in if some_row (\<lambda>q. ident q = ident draft) db
            \<or> (case parent_id draft of None \<Rightarrow> False | Some p \<Rightarrow> \<not> some_row (row_is (By_id p)) db)
         then (Inl Integrity, db)
         else (Inr r, db\<lparr>rows := rows db @ [r], row_seq := row_seq db + 1\<rparr>))"

subsection \<open>Claims\<close>

definition priority_rank :: "string \<Rightarrow> nat" where
  "priority_rank p =
     (if p = ''urgent'' then 0 else if p = ''high'' then 1 else if p = ''medium'' then 2
      else if p = ''low'' then 3 else 4)"

text \<open>\<^verbatim>\<open>json_extract(metadata, '$.retry_after')\<close> is null, or not later than now. A number
  is below every text.\<close>

definition retry_due :: "(pyval \<Rightarrow> string) \<Rightarrow> stamp \<Rightarrow> dict \<Rightarrow> bool" where
  "retry_due rep now md =
     (case dget md ''retry_after'' of
        PStr s \<Rightarrow> s \<le> now
      | PList xs \<Rightarrow> rep (PList xs) \<le> now
      | PDict d \<Rightarrow> rep (PDict d) \<le> now
      | _ \<Rightarrow> True)"

definition claimable :: "(pyval \<Rightarrow> string) \<Rightarrow> string list \<Rightarrow> stamp \<Rightarrow> row \<Rightarrow> bool" where
  "claimable rep excluded now r \<longleftrightarrow>
     status r = ''todo'' \<and> retry_due rep now (metadata r)
     \<and> (case project r of None \<Rightarrow> True | Some p \<Rightarrow> p \<notin> set excluded)"

definition claim_order :: "row \<Rightarrow> nat \<times> stamp \<times> int" where
  "claim_order r = (priority_rank (priority r), created_at r, row_id r)"

definition select_claimable :: "(pyval \<Rightarrow> string) \<Rightarrow> string list \<Rightarrow> stamp \<Rightarrow> db \<Rightarrow> row option" where
  "select_claimable rep excluded now db =
     (case sort_key claim_order (filter (claimable rep excluded now) (rows db)) of
        [] \<Rightarrow> None
      | r # _ \<Rightarrow> Some r)"

definition claimed :: "stamp \<Rightarrow> row \<Rightarrow> row" where
  "claimed now r = r\<lparr>status := ''in_progress'', updated_at := now, claimed_at := Some now\<rparr>"

text \<open>One round selects, then claims the row if it is still \<^verbatim>\<open>todo\<close>; a row lost to another
  claimer costs a round.\<close>

fun claim_rounds ::
  "nat \<Rightarrow> (pyval \<Rightarrow> string) \<Rightarrow> string list \<Rightarrow> stamp \<Rightarrow> (nat \<Rightarrow> db \<Rightarrow> db) \<Rightarrow> db \<Rightarrow> row option \<times> db" where
  "claim_rounds 0 rep excluded now mid db = (None, db)"
| "claim_rounds (Suc k) rep excluded now mid db =
     (case select_claimable rep excluded now db of
        None \<Rightarrow> (None, db)
      | Some r \<Rightarrow>
          (let db' = mid k db;
               mine = (\<lambda>q. row_id q = row_id r \<and> status q = ''todo'')
           in if some_row mine db'
              then (let db'' = update_rows mine (claimed now) db'
                    in (fetch_ticket (By_id (row_id r)) db'', db''))
              else claim_rounds k rep excluded now mid db'))"

definition claim_oldest ::
  "(pyval \<Rightarrow> string) \<Rightarrow> string list \<Rightarrow> stamp \<Rightarrow> (nat \<Rightarrow> db \<Rightarrow> db) \<Rightarrow> db \<Rightarrow> row option \<times> db" where
  "claim_oldest rep excluded now mid db = claim_rounds 50 rep excluded now mid db"

definition running :: "int \<Rightarrow> row \<Rightarrow> bool" where
  "running i r \<longleftrightarrow> row_id r = i \<and> status r = ''in_progress''"

definition renew_claim :: "int \<Rightarrow> stamp \<Rightarrow> db \<Rightarrow> bool \<times> db" where
  "renew_claim i now db =
     (some_row (running i) db, update_rows (running i) (\<lambda>r. r\<lparr>claimed_at := Some now\<rparr>) db)"

definition renew_claim_token :: "int \<Rightarrow> stamp \<Rightarrow> stamp \<Rightarrow> db \<Rightarrow> stamp option \<times> db" where
  "renew_claim_token i tok now db =
     (let mine = (\<lambda>r. running i r \<and> claimed_at r = Some tok)
      in if some_row mine db
         then (Some now, update_rows mine (\<lambda>r. r\<lparr>claimed_at := Some now\<rparr>) db)
         else (None, db))"

definition claim_one :: "int \<Rightarrow> stamp \<Rightarrow> db \<Rightarrow> row option \<times> db" where
  "claim_one i now db =
     (let free = (\<lambda>r. row_id r = i \<and> status r \<noteq> ''in_progress'')
      in if some_row free db
         then (let db' = update_rows free (claimed now) db in (fetch_ticket (By_id i) db', db'))
         else (None, db))"

subsection \<open>The reaper\<close>

definition stale :: "stamp \<Rightarrow> row \<Rightarrow> bool" where
  "stale cutoff r \<longleftrightarrow>
     status r = ''in_progress''
     \<and> (case claimed_at r of Some c \<Rightarrow> c | None \<Rightarrow> updated_at r) < cutoff"

definition reclaim_reason :: "int \<Rightarrow> string" where
  "reclaim_reason n =
     ''reclaimed '' @ str_of_int n @ '' times '' @ em_dash
     @ '' its run keeps dying without finishing; needs a look before re-queueing''"

text \<open>What one stale row becomes, from the metadata the reaper read.\<close>

definition reaped_row :: "int option \<Rightarrow> int \<Rightarrow> dict \<Rightarrow> stamp \<Rightarrow> row \<Rightarrow> row" where
  "reaped_row max_reclaims n md now r =
     (let md1 = set_at md ''reclaim_count'' (PInt n);
          over = (case max_reclaims of None \<Rightarrow> False | Some m \<Rightarrow> n > m)
      in r\<lparr>status := (if over then ''blocked'' else ''todo''),
           metadata := (if over then set_at md1 ''blocked_reason'' (PStr (reclaim_reason n)) else md1),
           updated_at := now, claimed_at := None\<rparr>)"

fun reap_each :: "int option \<Rightarrow> stamp \<Rightarrow> row list \<Rightarrow> db \<Rightarrow> (int list \<times> db) sres" where
  "reap_each m now [] db = Inr ([], db)"
| "reap_each m now (s # ss) db =
     (case int_or0 (dget (metadata s) ''reclaim_count'') of
        Inl _ \<Rightarrow> Inl Bad_count
      | Inr n \<Rightarrow>
          (let hit = some_row (running (row_id s)) db;
               db' = update_rows (running (row_id s)) (reaped_row m (n + 1) (metadata s) now) db
           in case reap_each m now ss db' of
                Inl e \<Rightarrow> Inl e
              | Inr (ids, db'') \<Rightarrow> Inr (if hit then row_id s # ids else ids, db'')))"

text \<open>A raise before the commit leaves the tables as they were.\<close>

definition reap_rows ::
  "int option \<Rightarrow> stamp \<Rightarrow> stamp \<Rightarrow> (db \<Rightarrow> db) \<Rightarrow> db \<Rightarrow> int list sres \<times> db" where
  "reap_rows m cutoff now mid db =
     (let seen = filter (stale cutoff) (rows db); db1 = mid db
      in case reap_each m now seen db1 of
           Inl e \<Rightarrow> (Inl e, db1)
         | Inr (ids, db2) \<Rightarrow> (Inr ids, db2))"

subsection \<open>Updates\<close>

definition set_status ::
  "int \<Rightarrow> string \<Rightarrow> bool \<Rightarrow> dict \<Rightarrow> stamp \<Rightarrow> (db \<Rightarrow> db) \<Rightarrow> db \<Rightarrow> row option \<times> db" where
  "set_status i s done patch now mid db =
     (case fetch_ticket (By_id i) db of
        None \<Rightarrow> (None, db)
      | Some cur \<Rightarrow>
          (let merged = dict_update (metadata cur) patch;
               upd = (\<lambda>r. r\<lparr>status := s, updated_at := now, metadata := merged,
                          completed_at := (if done then Some now else completed_at r)\<rparr>);
               db' = update_rows (row_is (By_id i)) upd (mid db)
           in (fetch_ticket (By_id i) db', db')))"

text \<open>A value for a column. Of the columns, those are given that a caller of the store may
  try to set.\<close>

datatype col_value = Null | Text string | Words "string list"

definition text_columns :: "string list" where
  "text_columns = [''title'', ''body'', ''status'', ''priority'']"

definition set_text :: "string \<Rightarrow> string \<Rightarrow> row \<Rightarrow> row" where
  "set_text c s r =
     (if c = ''title'' then r\<lparr>title := s\<rparr>
      else if c = ''body'' then r\<lparr>body := s\<rparr>
      else if c = ''status'' then r\<lparr>status := s\<rparr>
      else if c = ''priority'' then r\<lparr>priority := s\<rparr>
      else r)"

definition set_column :: "string \<Rightarrow> col_value \<Rightarrow> row \<Rightarrow> row" where
  "set_column c v r =
     (if c = ''labels'' then r\<lparr>labels := (case v of Words ws \<Rightarrow> ws | _ \<Rightarrow> [])\<rparr>
      else if c = ''assignee_role'' then r\<lparr>assignee_role := (case v of Text s \<Rightarrow> Some s | _ \<Rightarrow> None)\<rparr>
      else (case v of Text s \<Rightarrow> set_text c s r | _ \<Rightarrow> r))"

definition patch_row ::
  "int \<Rightarrow> (string \<times> col_value) list \<Rightarrow> dict \<Rightarrow> stamp \<Rightarrow> (db \<Rightarrow> db) \<Rightarrow> db \<Rightarrow> row option sres \<times> db" where
  "patch_row i cs patch now mid db =
     (case fetch_ticket (By_id i) db of
        None \<Rightarrow> (Inr None, db)
      | Some cur \<Rightarrow>
          (let merged = dict_update (metadata cur) patch;
               cols = (\<lambda>r. foldl (\<lambda>r (c, v). set_column c v r) r cs);
               meta = (\<lambda>r. if patch = [] then r else r\<lparr>metadata := merged\<rparr>)
           in if cs = [] \<and> patch = [] then (Inr (fetch_ticket (By_id i) (mid db)), mid db)
              else if list_ex (\<lambda>(c, v). c \<in> set text_columns \<and> v = Null) cs
              then (Inl Integrity, mid db)
              else (let db' = update_rows (row_is (By_id i))
                                (\<lambda>r. (meta (cols r))\<lparr>updated_at := now\<rparr>) (mid db)
                    in (Inr (fetch_ticket (By_id i) db'), db'))))"

definition set_route ::
  "key \<Rightarrow> string \<Rightarrow> string option \<Rightarrow> string \<Rightarrow> rat option \<Rightarrow> stamp \<Rightarrow> db \<Rightarrow> row option \<times> db" where
  "set_route k rt flow src conf now db =
     (let db' = update_rows (row_is k)
                  (\<lambda>r. r\<lparr>route := rt, route_workflow := flow, route_source := src,
                        route_confidence := conf, updated_at := now\<rparr>) db
      in (fetch_ticket k db', db'))"

definition set_branch :: "int \<Rightarrow> string \<Rightarrow> stamp \<Rightarrow> db \<Rightarrow> db" where
  "set_branch i b now db =
     update_rows (row_is (By_id i)) (\<lambda>r. r\<lparr>branch := Some b, updated_at := now\<rparr>) db"

definition append_body :: "int \<Rightarrow> string \<Rightarrow> stamp \<Rightarrow> db \<Rightarrow> row option \<times> db" where
  "append_body i extra now db =
     (let db' = update_rows (row_is (By_id i)) (\<lambda>r. r\<lparr>body := body r @ extra, updated_at := now\<rparr>) db
      in (fetch_ticket (By_id i) db', db'))"

text \<open>Deleting a row deletes the rows that refer to it, and theirs (\<^verbatim>\<open>ON DELETE CASCADE\<close>):
  a child is younger than its parent.\<close>

definition doomed :: "int set \<Rightarrow> row list \<Rightarrow> int set" where
  "doomed D rs =
     foldl (\<lambda>D r. case parent_id r of None \<Rightarrow> D | Some p \<Rightarrow> if p \<in> D then insert (row_id r) D else D) D rs"

definition delete_row :: "int \<Rightarrow> db \<Rightarrow> bool \<times> db" where
  "delete_row i db =
     (if some_row (row_is (By_id i)) db
      then (let D = doomed {i} (rows db)
            in (True, db\<lparr>rows := filter (\<lambda>r. row_id r \<notin> D) (rows db),
                        events := filter (\<lambda>e. ev_ticket e \<notin> D) (events db)\<rparr>))
      else (False, db\<lparr>events := filter (\<lambda>e. ev_ticket e \<noteq> i) (events db)\<rparr>))"

definition reset_all_tickets :: "db \<Rightarrow> int \<times> db" where
  "reset_all_tickets db = (int (length (rows db)), empty_db)"

subsection \<open>Events and queries\<close>

definition insert_event ::
  "int \<Rightarrow> string option \<Rightarrow> string \<Rightarrow> string option \<Rightarrow> dict \<Rightarrow> stamp \<Rightarrow> db \<Rightarrow> int sres \<times> db" where
  "insert_event i role knd txt md now db =
     (if some_row (row_is (By_id i)) db
      then (let n = event_seq db + 1
            in (Inr n, db\<lparr>events := events db @ [\<lparr>ev_id = n, ev_ticket = i, agent_role = role,
                           kind = knd, ev_body = txt, ev_meta = md, ev_at = now\<rparr>],
                         event_seq := n\<rparr>))
      else (Inl Integrity, db))"

definition fetch_events :: "int \<Rightarrow> nat \<Rightarrow> db \<Rightarrow> event list" where
  "fetch_events i limit db =
     take limit (sort_key (\<lambda>e. (ev_at e, ev_id e)) (filter (\<lambda>e. ev_ticket e = i) (events db)))"

definition fetch_children :: "int \<Rightarrow> db \<Rightarrow> row list" where
  "fetch_children p db =
     sort_key (\<lambda>r. (created_at r, row_id r)) (filter (\<lambda>r. parent_id r = Some p) (rows db))"

definition search_title :: "string \<Rightarrow> string option \<Rightarrow> string list \<Rightarrow> db \<Rightarrow> row list" where
  "search_title needle proj statuses db =
     take 20 (sort_key (\<lambda>r. (created_at r, row_id r))
       (filter (\<lambda>r. lower (title r) = needle
            \<and> (case proj of None \<Rightarrow> True | Some p \<Rightarrow> p = [] \<or> project r = Some p)
            \<and> status r \<in> set statuses) (rows db)))"

text \<open>\<^verbatim>\<open>started_at\<close>: when the ticket was first taken. \<^verbatim>\<open>active_role\<close>: the role of its
  newest event that names one; events of one instant are taken in row order, as the index
  keeps them.\<close>

definition started_at :: "db \<Rightarrow> row \<Rightarrow> stamp option" where
  "started_at db r =
     (case sort (map ev_at (filter (\<lambda>e. ev_ticket e = row_id r \<and> kind e = ''status_change''
              \<and> ev_body e = Some ''in_progress'') (events db))) of
        [] \<Rightarrow> None
      | t # _ \<Rightarrow> Some t)"

definition active_role :: "db \<Rightarrow> row \<Rightarrow> string option" where
  "active_role db r =
     (let es = filter (\<lambda>e. ev_ticket e = row_id r \<and> agent_role e \<noteq> None) (events db);
          newest = filter (\<lambda>e. list_all (\<lambda>f. ev_at f \<le> ev_at e) es) es
      in case newest of [] \<Rightarrow> None | e # _ \<Rightarrow> agent_role e)"

definition enrich :: "db \<Rightarrow> row \<Rightarrow> row \<times> stamp option \<times> string option" where
  "enrich db r = (r, started_at db r, active_role db r)"

definition list_rows ::
  "string option \<Rightarrow> string list \<Rightarrow> string option \<Rightarrow> nat \<Rightarrow> db \<Rightarrow> (row \<times> stamp option \<times> string option) list" where
  "list_rows role statuses parent limit db =
     (let by_role = (\<lambda>r. case role of None \<Rightarrow> True | Some x \<Rightarrow> x = [] \<or> assignee_role r = Some x);
          by_status = (\<lambda>r. statuses = [] \<or> status r \<in> set statuses);
          by_parent = (\<lambda>r. case parent of None \<Rightarrow> True
                           | Some p \<Rightarrow> p = [] \<or> (case fetch_ticket (By_identifier p) db of
                                                 None \<Rightarrow> False | Some q \<Rightarrow> parent_id r = Some (row_id q)))
      in map (enrich db)
           (take limit (rev (sort_key row_id (filter (\<lambda>r. by_role r \<and> by_status r \<and> by_parent r) (rows db))))))"

definition get_enriched :: "string \<Rightarrow> db \<Rightarrow> (row \<times> stamp option \<times> string option) option" where
  "get_enriched name db = map_option (enrich db) (fetch_ticket (By_identifier name) db)"

section \<open>The invariant of the tables\<close>

definition row_ids :: "db \<Rightarrow> int set" where
  "row_ids db = row_id ` set (rows db)"

text \<open>Row identifiers grow along the table and stay below the sequence, no two rows share
  an identifier, a parent is an older row of the table, and every event has its row. The counter
  \<open>next_n\<close> is not bounded: a ticket may bring an identifier of its own, ahead of the counter.\<close>

definition db_ok :: "db \<Rightarrow> bool" where
  "db_ok db \<longleftrightarrow>
     sorted_wrt (<) (map row_id (rows db)) \<and> (\<forall>r \<in> set (rows db). row_id r \<le> row_seq db)
     \<and> distinct (map ident (rows db))
     \<and> (\<forall>r \<in> set (rows db). \<forall>p. parent_id r = Some p \<longrightarrow> p < row_id r \<and> p \<in> row_ids db)
     \<and> (\<forall>e \<in> set (events db). ev_ticket e \<in> row_ids db \<and> ev_id e \<le> event_seq db)
     \<and> sorted_wrt (<) (map ev_id (events db))"

lemma some_row_iff: "some_row p db \<longleftrightarrow> (\<exists>r \<in> set (rows db). p r)"
  by (simp add: some_row_def list_ex_iff)

lemma row_is_simps [simp]:
  "row_is (By_id i) r \<longleftrightarrow> row_id r = i"
  "row_is (By_identifier s) r \<longleftrightarrow> ident r = s"
  by (simp_all add: row_is_def)

lemma some_row_id: "some_row (row_is (By_id i)) db \<longleftrightarrow> i \<in> row_ids db"
  by (auto simp: some_row_iff row_ids_def)

lemma update_rows_fields [simp]:
  "events (update_rows p f db) = events db"
  "next_n (update_rows p f db) = next_n db"
  "row_seq (update_rows p f db) = row_seq db"
  "event_seq (update_rows p f db) = event_seq db"
  by (simp_all add: update_rows_def)

lemma rows_update: "rows (update_rows p f db) = map (\<lambda>r. if p r then f r else r) (rows db)"
  by (simp add: update_rows_def)

text \<open>An update that keeps what the invariant speaks of.\<close>

definition keeps_keys :: "(row \<Rightarrow> row) \<Rightarrow> bool" where
  "keeps_keys f \<longleftrightarrow> (\<forall>r. row_id (f r) = row_id r \<and> ident (f r) = ident r
                       \<and> parent_id (f r) = parent_id r)"

lemma keeps_keysI:
  "(\<And>r. row_id (f r) = row_id r) \<Longrightarrow> (\<And>r. ident (f r) = ident r) \<Longrightarrow>
   (\<And>r. parent_id (f r) = parent_id r) \<Longrightarrow> keeps_keys f"
  by (simp add: keeps_keys_def)

lemma map_rows_update:
  "(\<And>r. g (f r) = g r) \<Longrightarrow> map g (rows (update_rows p f db)) = map g (rows db)"
  by (simp add: rows_update)

lemma row_ids_update: "keeps_keys f \<Longrightarrow> row_ids (update_rows p f db) = row_ids db"
  using map_rows_update [of row_id f p db]
  by (simp add: keeps_keys_def row_ids_def) (metis set_map)

lemma update_ok:
  assumes "db_ok db" and f: "keeps_keys f"
  shows "db_ok (update_rows p f db)"
proof -
  have ids: "map row_id (rows (update_rows p f db)) = map row_id (rows db)"
    and idents: "map ident (rows (update_rows p f db)) = map ident (rows db)"
    using f by (simp_all add: keeps_keys_def map_rows_update)
  have rows: "\<exists>q \<in> set (rows db). row_id r = row_id q \<and> parent_id r = parent_id q"
    if "r \<in> set (rows (update_rows p f db))" for r
    using that f by (auto simp: rows_update keeps_keys_def split: if_splits)
  show ?thesis
    using assms(1) rows unfolding db_ok_def ids idents row_ids_update [OF f]
    by simp metis
qed

lemma insert_fields [simp]:
  "row_id (claimed now r) = row_id r" "ident (claimed now r) = ident r"
  "parent_id (claimed now r) = parent_id r" "status (claimed now r) = ''in_progress''"
  "claimed_at (claimed now r) = Some now" "metadata (claimed now r) = metadata r"
  by (simp_all add: claimed_def)

lemma reaped_fields [simp]:
  "row_id (reaped_row m n md now r) = row_id r" "ident (reaped_row m n md now r) = ident r"
  "parent_id (reaped_row m n md now r) = parent_id r" "claimed_at (reaped_row m n md now r) = None"
  by (simp_all add: reaped_row_def Let_def)

lemma reaped_status: "status (reaped_row m n md now r) \<in> {''todo'', ''blocked''}"
  by (simp add: reaped_row_def Let_def)

lemma set_column_keys [simp]:
  "row_id (set_column c v r) = row_id r" "ident (set_column c v r) = ident r"
  "parent_id (set_column c v r) = parent_id r"
  by (simp_all add: set_column_def set_text_def split: col_value.splits)

lemma set_columns_keys [simp]:
  "row_id (foldl (\<lambda>r (c, v). set_column c v r) r cs) = row_id r"
  "ident (foldl (\<lambda>r (c, v). set_column c v r) r cs) = ident r"
  "parent_id (foldl (\<lambda>r (c, v). set_column c v r) r cs) = parent_id r"
  by (induction cs arbitrary: r) auto

lemma empty_ok: "db_ok empty_db"
  by (simp add: db_ok_def empty_db_def)

lemma insert_ticket_ok:
  assumes "db_ok db" and "insert_ticket draft now db = (r, db')"
  shows "db_ok db'"
proof (cases "db' = db")
  case False
  define q where "q = ticket.extend
      (draft\<lparr>row_id := row_seq db + 1, status := ''todo'', created_at := now,
        updated_at := now, completed_at := None\<rparr>) (row.fields None)"
  have key: "row_id q = row_seq db + 1" "ident q = ident draft" "parent_id q = parent_id draft"
    by (simp_all add: q_def ticket.defs)
  have db': "db' = db\<lparr>rows := rows db @ [q], row_seq := row_seq db + 1\<rparr>"
    and new: "\<not> some_row (\<lambda>q. ident q = ident draft) db"
    and par: "\<And>p. parent_id draft = Some p \<Longrightarrow> p \<in> row_ids db"
    using assms(2) False
    by (auto simp: insert_ticket_def q_def some_row_id Let_def split: if_splits option.splits)
  have old: "p \<le> row_seq db" if "p \<in> row_ids db" for p
    using that assms(1) by (auto simp: db_ok_def row_ids_def)
  have ids: "row_ids db' = insert (row_seq db + 1) (row_ids db)"
    by (simp add: db' row_ids_def key)
  have "sorted_wrt (<) (map row_id (rows db'))"
    using assms(1) by (auto simp: db' sorted_wrt_append key db_ok_def)
  moreover have "\<forall>r \<in> set (rows db'). \<forall>p. parent_id r = Some p \<longrightarrow> p < row_id r \<and> p \<in> row_ids db'"
    using assms(1) par old unfolding ids by (fastforce simp: db' key db_ok_def)
  ultimately show ?thesis
    using assms(1) new unfolding db_ok_def ids
    by (fastforce simp: db' key some_row_iff)
qed (use assms in simp)

lemma claimed_keys: "keeps_keys (claimed now)"
  by (simp add: keeps_keys_def)

lemma claim_rounds_ok:
  assumes "db_ok db" and "\<And>k d. db_ok d \<Longrightarrow> db_ok (mid k d)"
  shows "db_ok (snd (claim_rounds n rep excluded now mid db))"
  using assms(1)
  by (induction n arbitrary: db)
    (auto simp: Let_def update_ok claimed_keys assms(2) split: option.splits)

lemma reap_each_ok:
  "db_ok db \<Longrightarrow> reap_each m now ss db = Inr (ids, db') \<Longrightarrow> db_ok db'"
proof (induction ss arbitrary: db ids)
  case (Cons s ss)
  then obtain n ids' where "reap_each m now ss
      (update_rows (running (row_id s)) (reaped_row m (n + 1) (metadata s) now) db) = Inr (ids', db')"
    by (auto simp: Let_def split: sum.splits prod.splits)
  moreover have "db_ok (update_rows (running (row_id s)) (reaped_row m (n + 1) (metadata s) now) db)"
    by (rule update_ok [OF Cons.prems(1)]) (simp add: keeps_keys_def)
  ultimately show ?case using Cons.IH by blast
qed simp

lemma doomed_grows: "D \<subseteq> doomed D rs"
  unfolding doomed_def by (induction rs arbitrary: D) (fastforce split: option.splits)+

lemma doomed_append: "doomed D (as @ bs) = doomed (doomed D as) bs"
  by (simp add: doomed_def)

lemma doomed_new: "x \<in> doomed D rs \<Longrightarrow> x \<in> D \<or> x \<in> row_id ` set rs"
proof (induction rs arbitrary: D)
  case (Cons r rs)
  have "doomed D (r # rs) = doomed (case parent_id r of None \<Rightarrow> D
      | Some p \<Rightarrow> if p \<in> D then insert (row_id r) D else D) rs"
    by (simp add: doomed_def)
  then have "x \<in> insert (row_id r) D \<or> x \<in> row_id ` set rs"
    using Cons.IH [of D] Cons.IH [of "insert (row_id r) D"] Cons.prems by (auto split: option.splits if_splits)
  then show ?case by auto
qed (simp add: doomed_def)

text \<open>A row whose parent goes, goes.\<close>

lemma doomed_closed:
  assumes "sorted_wrt (<) (map row_id rs)" and "r \<in> set rs" and "parent_id r = Some p"
    and "p < row_id r" and "p \<in> doomed D rs"
  shows "row_id r \<in> doomed D rs"
proof -
  obtain as bs where rs: "rs = as @ r # bs"
    using assms(2) by (meson split_list)
  let ?D = "doomed D as"
  have later: "row_id r \<le> row_id q" if "q \<in> set (r # bs)" for q
    using that assms(1) by (auto simp: rs sorted_wrt_append)
  have "p \<in> ?D"
    using assms(4,5) later doomed_new [of p ?D "r # bs"] unfolding rs doomed_append by force
  then have "row_id r \<in> doomed ?D [r]"
    by (simp add: doomed_def assms(3))
  then show ?thesis
    using doomed_grows [of "doomed ?D [r]" bs] unfolding rs by (metis append_Cons append_Nil doomed_append subsetD)
qed

lemma sorted_map_filter: "sorted_wrt (<) (map f xs) \<Longrightarrow> sorted_wrt (<) (map f (filter q xs))"
  by (simp add: sorted_wrt_map sorted_wrt_filter)

lemma delete_row_ok:
  assumes "db_ok db"
  shows "db_ok (snd (delete_row i db))"
proof (cases "some_row (row_is (By_id i)) db")
  case True
  let ?D = "doomed {i} (rows db)"
  have ids: "row_ids (snd (delete_row i db)) = row_ids db - ?D"
    by (auto simp: delete_row_def True row_ids_def Let_def)
  have sorted: "sorted_wrt (<) (map row_id (rows db))"
    using assms by (simp add: db_ok_def)
  have "p \<notin> ?D" if "r \<in> set (rows db)" "row_id r \<notin> ?D" "parent_id r = Some p" for r p
    using doomed_closed [OF sorted that(1,3)] that assms by (auto simp: db_ok_def)
  then show ?thesis
    using assms unfolding db_ok_def ids
    by (auto simp: delete_row_def True Let_def distinct_map_filter sorted_map_filter)
next
  case False
  then have "\<forall>e \<in> set (events db). ev_ticket e \<noteq> i"
    using assms by (auto simp: db_ok_def some_row_id)
  then have "events (snd (delete_row i db)) = events db"
    by (simp add: delete_row_def False filter_id_conv)
  then have "snd (delete_row i db) = db"
    by (simp add: delete_row_def False)
  then show ?thesis using assms by simp
qed

lemma insert_event_ok:
  assumes "db_ok db" and "insert_event i role knd txt md now db = (r, db')"
  shows "db_ok db'"
proof (cases r)
  case (Inr n)
  then have db': "db' = db\<lparr>events := events db @ [\<lparr>ev_id = event_seq db + 1, ev_ticket = i, agent_role = role,
                           kind = knd, ev_body = txt, ev_meta = md, ev_at = now\<rparr>],
                         event_seq := event_seq db + 1\<rparr>" and "i \<in> row_ids db"
    using assms(2) by (auto simp: insert_event_def Let_def some_row_id split: if_splits)
  moreover have "row_ids db' = row_ids db" by (simp add: db' row_ids_def)
  ultimately show ?thesis
    using assms(1) by (fastforce simp: db_ok_def sorted_wrt_append)
qed (use assms in \<open>auto simp: insert_event_def Let_def split: if_splits\<close>)

lemmas write_oks =
  update_ok insert_ticket_ok claim_rounds_ok reap_each_ok delete_row_ok insert_event_ok

section \<open>What a claim takes\<close>

lemma hd_sort_key:
  assumes "sort_key f xs = x # ys"
  shows "x \<in> set xs \<and> (\<forall>y \<in> set xs. f x \<le> f y)"
proof -
  have "sorted (map f (x # ys))"
    by (metis assms sorted_sort_key)
  moreover have "set xs = set (x # ys)"
    by (metis assms set_sort)
  ultimately show ?thesis by auto
qed

lemma sort_key_Nil: "sort_key f xs = [] \<longleftrightarrow> xs = []"
  by (metis length_0_conv length_sort)

lemma select_claimable_Some:
  "select_claimable rep ex now db = Some r \<Longrightarrow>
     r \<in> set (rows db) \<and> claimable rep ex now r
     \<and> (\<forall>q \<in> set (rows db). claimable rep ex now q \<longrightarrow> claim_order r \<le> claim_order q)"
  unfolding select_claimable_def by (auto dest!: hd_sort_key split: list.splits)

lemma select_claimable_None:
  "select_claimable rep ex now db = None \<longleftrightarrow> (\<forall>q \<in> set (rows db). \<not> claimable rep ex now q)"
  unfolding select_claimable_def using sort_key_Nil [of claim_order "filter (claimable rep ex now) (rows db)"]
  by (auto simp: filter_empty_conv split: list.splits)

lemma fetch_unique:
  assumes "db_ok db" and "r \<in> set (rows db)"
  shows "fetch_ticket (By_id (row_id r)) db = Some r"
proof -
  have "inj_on row_id (set (rows db))"
    using assms(1) by (auto simp: db_ok_def strict_sorted_iff distinct_map)
  moreover obtain q where "find (\<lambda>q. row_id q = row_id r) (rows db) = Some q"
    using assms(2) by (metis (mono_tags, lifting) find_None_iff not_None_eq)
  ultimately show ?thesis
    using assms(2) by (auto simp: fetch_ticket_def row_is_def find_Some_iff inj_on_def)
qed

end
