(* ===== verification/Ticket_Store.thy ===== *)
theory Ticket_Store
  imports Ticket_Db
begin

text \<open>
  The ticket store: \<^verbatim>\<open>tickets/store.py\<close>. Validation, the safety floor at creation,
  the claim of the next ticket, the lease and its reaper, status changes and their events.
  The argument of \<^verbatim>\<open>create\<close> is a draft: an empty identifier asks for a new one. The text
  of the instant that lies some seconds back is \<open>ago\<close>.
\<close>

section \<open>Constants\<close>

definition valid_status :: "string list" where
  "valid_status = [''todo'', ''in_progress'', ''in_review'', ''qa'', ''qa_failed'', ''done'', ''blocked'', ''cancelled'']"

definition valid_priority :: "string list" where
  "valid_priority = [''low'', ''medium'', ''high'', ''urgent'']"

definition active_statuses :: "string list" where
  "active_statuses = [''todo'', ''in_progress'', ''in_review'', ''qa'', ''qa_failed'', ''blocked'', ''done'']"

definition completed_statuses :: "string list" where
  "completed_statuses = [''done'', ''cancelled'', ''qa_failed'']"

definition dangerous_patterns :: "string list" where
  "dangerous_patterns = [''drop table'', ''rm -rf /'', ''rm -rf ~'', ''delete all'', ''truncate table'',
     ''shutdown -h'', ''mkfs'', ''format c:'', ''> /dev/sda'']"

definition urgent_keywords :: "string list" where
  "urgent_keywords = [''prod'', ''outage'', ''crash'', ''p0'', ''urgent'', ''incident'']"

section \<open>Creation\<close>

definition ticket_text :: "string \<Rightarrow> string \<Rightarrow> string" where
  "ticket_text t b = lower (t @ [CHR 0x0A] @ b)"

definition looks_dangerous :: "string \<Rightarrow> string \<Rightarrow> bool" where
  "looks_dangerous t b = list_ex (\<lambda>p. contains p (ticket_text t b)) dangerous_patterns"

definition supervisor_invariants :: "ticket \<Rightarrow> ticket" where
  "supervisor_invariants t =
     (let danger = looks_dangerous (title t) (body t);
          t1 = (if danger
                then t\<lparr>assignee_role := Some ''supervisor'',
                       labels := (if ''review-required'' \<in> set (labels t) then labels t
                                  else labels t @ [''review-required'']),
                       metadata := set_at (metadata t) ''dangerous_pattern'' (PBool True)\<rparr>
                else t);
          t2 = (if priority t1 \<noteq> ''urgent''
                   \<and> list_ex (\<lambda>k. contains k (ticket_text (title t) (body t))) urgent_keywords
                then t1\<lparr>priority := ''urgent'',
                        metadata := set_at (metadata t1) ''priority_auto_boosted'' (PBool True)\<rparr>
                else t1)
      in if assignee_role t2 = None then t2\<lparr>assignee_role := Some ''supervisor''\<rparr> else t2)"

definition route_error :: "string \<Rightarrow> string option \<Rightarrow> string \<Rightarrow> store_error option" where
  "route_error rt flow src =
     (if rt \<noteq> ''code'' \<and> rt \<noteq> ''workflow'' then Some Bad_route
      else if rt = ''workflow'' \<and> (flow = None \<or> flow = Some []) then Some No_workflow
      else if src \<noteq> ''auto'' \<and> src \<noteq> ''manual'' then Some Bad_source
      else None)"

definition identifier_of :: "int \<Rightarrow> string" where
  "identifier_of n = ''ONE-'' @ str_of_int n"

definition new_identifier :: "db \<Rightarrow> string \<times> db" where
  "new_identifier db = (let (n, db') = next_counter db in (identifier_of n, db'))"

definition create :: "ticket \<Rightarrow> stamp \<Rightarrow> db \<Rightarrow> ticket sres \<times> db" where
  "create draft now db =
     (if priority draft \<notin> set valid_priority then (Inl Bad_priority, db)
      else case route_error (route draft) (route_workflow draft) (route_source draft) of
        Some e \<Rightarrow> (Inl e, db)
      | None \<Rightarrow>
          (let t = (if parent_id draft = None then supervisor_invariants draft else draft);
               (name, db') = (if ident t = [] then new_identifier db else (ident t, db));
               (r, db'') = insert_ticket (t\<lparr>ident := name\<rparr>) now db'
           in (map_sum id from_row r, db'')))"

definition update_route ::
  "key \<Rightarrow> string \<Rightarrow> string option \<Rightarrow> string \<Rightarrow> rat option \<Rightarrow> stamp \<Rightarrow> db \<Rightarrow> ticket option sres \<times> db" where
  "update_route k rt flow src conf now db =
     (case route_error rt flow src of
        Some e \<Rightarrow> (Inl e, db)
      | None \<Rightarrow> (let (r, db') = set_route k rt flow src conf now db in (Inr (map_option from_row r), db')))"

definition get_ticket :: "key \<Rightarrow> db \<Rightarrow> ticket option" where
  "get_ticket k db = map_option from_row (fetch_ticket k db)"

section \<open>Roles and projects\<close>

definition role_aliases :: "(string \<times> string list) list" where
  "role_aliases =
     [(''supervisor'', [''supervisor'', ''architect'']), (''planner'', [''planner'', ''sr_developer'']),
      (''doer'', [''doer'', ''developer'']), (''learner'', [''learner'', ''fact_extract'']),
      (''feedback'', [''feedback''])]"

definition aliases_for :: "string \<Rightarrow> string list" where
  "aliases_for role =
     (case map_of role_aliases role of
        Some names \<Rightarrow> names
      | None \<Rightarrow> (case find (\<lambda>(_, names). role \<in> set names) role_aliases of
                   Some (_, names) \<Rightarrow> names
                 | None \<Rightarrow> [role]))"

definition excluded_projects :: "env \<Rightarrow> string list" where
  "excluded_projects e =
     filter (\<lambda>p. p \<noteq> [])
       (map strip (split_char (CHR '','')
         (env_get e ''AIFORGE_RUNNER_EXCLUDE_PROJECTS'' ''TallyConnector,Tally Connector'')))"

section \<open>Claims and the lease\<close>

definition lease_seconds :: "env \<Rightarrow> int" where
  "lease_seconds e =
     (case int_of_str (env_get e ''AIFORGE_TICKET_LEASE_S'' ''3600'') of
        None \<Rightarrow> 3600 | Some n \<Rightarrow> max 60 n)"

definition max_reclaims :: "env \<Rightarrow> int" where
  "max_reclaims e =
     (case int_of_str (env_get e ''AIFORGE_TICKET_MAX_RECLAIMS'' ''3'') of
        None \<Rightarrow> 3 | Some n \<Rightarrow> max 0 n)"

text \<open>An event of a claim that was just made, and the ticket it made.\<close>

definition claim_event :: "dict \<Rightarrow> stamp \<Rightarrow> row option \<times> db \<Rightarrow> ticket option sres \<times> db" where
  "claim_event md now = (\<lambda>(r, db).
     case r of
       None \<Rightarrow> (Inr None, db)
     | Some r \<Rightarrow>
         (case insert_event (row_id r) (Some ''graph_runner'') ''status_change'' (Some ''in_progress'') md now db of
            (Inl e, db') \<Rightarrow> (Inl e, db')
          | (Inr _, db') \<Rightarrow> (Inr (Some (from_row r)), db')))"

definition claim_next_any ::
  "(pyval \<Rightarrow> string) \<Rightarrow> env \<Rightarrow> stamp \<Rightarrow> (nat \<Rightarrow> db \<Rightarrow> db) \<Rightarrow> db \<Rightarrow> ticket option sres \<times> db" where
  "claim_next_any rep e now mid db =
     claim_event [] now (claim_oldest rep (excluded_projects e) now mid db)"

definition claim_ticket :: "int \<Rightarrow> stamp \<Rightarrow> db \<Rightarrow> ticket option sres \<times> db" where
  "claim_ticket i now db =
     claim_event [(''claimed'', PStr ''operator run'')] now (claim_one i now db)"

text \<open>One reaped ticket's event. A failure to write it is ignored.\<close>

definition reap_event :: "stamp \<Rightarrow> db \<Rightarrow> int \<Rightarrow> db" where
  "reap_event now db i =
     (let st = (case fetch_ticket (By_id i) db of
                  None \<Rightarrow> ''todo'' | Some r \<Rightarrow> if status r = [] then ''todo'' else status r);
          why = (if st = ''todo'' then ''stale in_progress lease expired''
                 else ''reclaimed too many times '' @ em_dash @ '' blocked'')
      in snd (insert_event i (Some ''graph_runner'') ''status_change'' (Some st)
                [(''reaped'', PBool True), (''reason'', PStr why)] now db))"

definition reap_stale_in_progress ::
  "env \<Rightarrow> (int \<Rightarrow> stamp) \<Rightarrow> int option \<Rightarrow> stamp \<Rightarrow> (db \<Rightarrow> db) \<Rightarrow> db \<Rightarrow> int list sres \<times> db" where
  "reap_stale_in_progress e ago max_age now mid db =
     (let age = (case max_age of None \<Rightarrow> lease_seconds e | Some a \<Rightarrow> a)
      in case reap_rows (Some (max_reclaims e)) (ago age) now mid db of
           (Inl err, db') \<Rightarrow> (Inl err, db')
         | (Inr ids, db') \<Rightarrow> (Inr ids, foldl (reap_event now) db' ids))"

datatype renewal = Renewed bool | New_token stamp

definition renew :: "int \<Rightarrow> stamp option \<Rightarrow> stamp \<Rightarrow> db \<Rightarrow> renewal \<times> db" where
  "renew i token now db =
     (case token of
        Some tok \<Rightarrow>
          (let (r, db') = renew_claim_token i tok now db
           in (case r of Some t \<Rightarrow> New_token t | None \<Rightarrow> Renewed False, db'))
      | None \<Rightarrow> (let (b, db') = renew_claim i now db in (Renewed b, db')))"

section \<open>Changes\<close>

definition update_status ::
  "int \<Rightarrow> string \<Rightarrow> string option \<Rightarrow> dict \<Rightarrow> stamp \<Rightarrow> (db \<Rightarrow> db) \<Rightarrow> db \<Rightarrow> ticket option sres \<times> db" where
  "update_status i s role patch now mid db =
     (if s \<notin> set valid_status then (Inl Bad_status, db)
      else case set_status i s (s \<in> set completed_statuses) patch now mid db of
        (None, db') \<Rightarrow> (Inr None, db')
      | (Some r, db') \<Rightarrow>
          (case insert_event i role ''status_change'' (Some s) [] now db' of
             (Inl e, db'') \<Rightarrow> (Inl e, db'')
           | (Inr _, db'') \<Rightarrow> (Inr (Some (from_row r)), db'')))"

definition delete_ticket :: "key \<Rightarrow> db \<Rightarrow> bool \<times> db" where
  "delete_ticket k db =
     (case get_ticket k db of None \<Rightarrow> (False, db) | Some t \<Rightarrow> delete_row (row_id t) db)"

definition reset_all :: "db \<Rightarrow> int \<times> db" where
  "reset_all db = reset_all_tickets db"

definition add_event ::
  "int \<Rightarrow> string option \<Rightarrow> string \<Rightarrow> string option \<Rightarrow> dict \<Rightarrow> stamp \<Rightarrow> db \<Rightarrow> int sres \<times> db" where
  "add_event i role knd txt md now db = insert_event i role knd txt md now db"

definition add_comment :: "int \<Rightarrow> string option \<Rightarrow> string \<Rightarrow> dict \<Rightarrow> stamp \<Rightarrow> db \<Rightarrow> int sres \<times> db" where
  "add_comment i role txt md now db = add_event i role ''comment'' (Some txt) md now db"

definition comments :: "int \<Rightarrow> nat \<Rightarrow> db \<Rightarrow> event list" where
  "comments i limit db = fetch_events i limit db"

definition children :: "int \<Rightarrow> db \<Rightarrow> ticket list" where
  "children p db = map from_row (fetch_children p db)"

definition by_title_project :: "string \<Rightarrow> string option \<Rightarrow> db \<Rightarrow> ticket list" where
  "by_title_project t proj db =
     (if t = [] then []
      else map from_row (search_title (lower (strip t)) proj active_statuses db))"

definition patchable_columns :: "string list" where
  "patchable_columns = [''assignee_role'', ''labels'', ''body'', ''title'']"

definition patch_fields ::
  "int \<Rightarrow> (string \<times> col_value) list \<Rightarrow> dict \<Rightarrow> stamp \<Rightarrow> (db \<Rightarrow> db) \<Rightarrow> db \<Rightarrow> ticket option sres \<times> db" where
  "patch_fields i cs patch now mid db =
     (let (r, db') = patch_row i (filter (\<lambda>(c, _). c \<in> set patchable_columns) cs) patch now mid db
      in (map_sum id (map_option from_row) r, db'))"

definition add_to_body :: "int \<Rightarrow> string \<Rightarrow> stamp \<Rightarrow> db \<Rightarrow> ticket option \<times> db" where
  "add_to_body i extra now db =
     (let (r, db') = append_body i extra now db in (map_option from_row r, db'))"

section \<open>Facts\<close>

lemma from_row_fields [simp]:
  "row_id (from_row r) = row_id r" "ident (from_row r) = ident r" "status (from_row r) = status r"
  "metadata (from_row r) = metadata r" "title (from_row r) = title r" "body (from_row r) = body r"
  "parent_id (from_row r) = parent_id r" "project (from_row r) = project r" "branch (from_row r) = branch r"
  "labels (from_row r) = labels r" "assignee_role (from_row r) = assignee_role r"
  "priority (from_row r) = priority r" "completed_at (from_row r) = completed_at r"
  by (simp_all add: from_row_def ticket.defs)

lemma lease_at_least: "60 \<le> lease_seconds e"
  by (simp add: lease_seconds_def split: option.splits)

lemma max_reclaims_nonneg: "0 \<le> max_reclaims e"
  by (simp add: max_reclaims_def split: option.splits)

lemma insert_event_rows: "rows (snd (insert_event i role knd txt md now db)) = rows db"
  by (simp add: insert_event_def Let_def)

lemma claim_event_rows: "rows (snd (claim_event md now (r, db))) = rows db"
  using insert_event_rows [of "row_id (the r)" "Some ''graph_runner''" "''status_change''" "Some ''in_progress''" md now db]
  by (auto simp: claim_event_def split: option.splits prod.splits sum.splits)

lemma claim_event_ok: "db_ok db \<Longrightarrow> db_ok (snd (claim_event md now (r, db)))"
  by (auto simp: claim_event_def intro: insert_event_ok split: option.splits prod.splits sum.splits)

lemma claim_event_made:
  assumes "row_id r \<in> row_ids db"
  shows "fst (claim_event md now (Some r, db)) = Inr (Some (from_row r))"
  using assms by (simp add: claim_event_def insert_event_def some_row_id Let_def)

section \<open>Identifiers\<close>

text \<open>No row carries an identifier the counter has still to give out.\<close>

definition fresh_ok :: "db \<Rightarrow> bool" where
  "fresh_ok db \<longleftrightarrow> (\<forall>r \<in> set (rows db). \<forall>n \<ge> next_n db. ident r \<noteq> identifier_of n)"

lemma identifier_of_inject [simp]: "identifier_of m = identifier_of n \<longleftrightarrow> m = n"
  by (simp add: identifier_of_def)

lemma identifier_not_Nil [simp]: "identifier_of n \<noteq> []"
  by (simp add: identifier_of_def)

text \<open>A draft that names no identifier of its own, and that validation lets through.\<close>

definition fresh_draft :: "ticket \<Rightarrow> bool" where
  "fresh_draft t \<longleftrightarrow> ident t = [] \<and> parent_id t = None \<and> priority t \<in> set valid_priority
     \<and> route_error (route t) (route_workflow t) (route_source t) = None"

lemma floor_fields [simp]:
  "ident (supervisor_invariants t) = ident t" "parent_id (supervisor_invariants t) = parent_id t"
  "title (supervisor_invariants t) = title t" "body (supervisor_invariants t) = body t"
  "project (supervisor_invariants t) = project t"
  by (simp_all add: supervisor_invariants_def Let_def)

lemma create_fresh:
  assumes "fresh_ok db" and "fresh_draft t"
  shows "\<exists>made. fst (create t now db) = Inr made \<and> ident made = identifier_of (next_n db)"
    and "fresh_ok (snd (create t now db))" and "next_n (snd (create t now db)) = next_n db + 1"
proof -
  have new: "\<not> some_row (\<lambda>q. ident q = identifier_of (next_n db)) (db\<lparr>next_n := next_n db + 1\<rparr>)"
    using assms(1) by (auto simp: some_row_iff fresh_ok_def)
  let ?t = "supervisor_invariants t"
  define q where "q = ticket.extend (?t\<lparr>ident := identifier_of (next_n db), row_id := row_seq db + 1,
      status := ''todo'', created_at := now, updated_at := now, completed_at := None\<rparr>) (row.fields None)"
  have made: "create t now db = (Inr (from_row q),
      db\<lparr>next_n := next_n db + 1, rows := rows db @ [q], row_seq := row_seq db + 1\<rparr>)"
    using assms(2) new
    by (simp add: create_def fresh_draft_def new_identifier_def next_counter_def insert_ticket_def q_def Let_def)
  have "ident q = identifier_of (next_n db)"
    by (simp add: q_def ticket.defs)
  then show "\<exists>made. fst (create t now db) = Inr made \<and> ident made = identifier_of (next_n db)"
    and "fresh_ok (snd (create t now db))" and "next_n (snd (create t now db)) = next_n db + 1"
    using assms(1) by (auto simp: made fresh_ok_def)
qed

lemma creates_in_order:
  assumes "fresh_ok db" and "\<forall>t \<in> set ts. fresh_draft t"
  shows "map (map_sum id ident) (fst (run_with (\<lambda>db t. create t now db) db ts)) =
     map (\<lambda>k. Inr (identifier_of (next_n db + int k))) [0..<length ts]"
  using assms
proof (induction ts arbitrary: db)
  case (Cons t ts)
  have idx: "[0..<length (t # ts)] = 0 # map Suc [0..<length ts]"
    by (simp add: upt_conv_Cons map_Suc_upt del: upt_Suc)
  show ?case
    unfolding idx using Cons create_fresh [of db t now] by (auto simp: add.assoc)
qed simp

text \<open>Tickets created one after the other are numbered without a gap from where the counter
  stands, and none is refused, as long as no row holds an identifier that is still to come.\<close>

theorem identifiers_in_order:
  assumes "fresh_ok db" and "\<forall>t \<in> set ts. fresh_draft t"
  shows "map (map_sum id ident) (fst (run_with (\<lambda>db t. create t now db) db ts)) =
     map (\<lambda>k. Inr (identifier_of (next_n db + int k))) [0..<length ts]"
  using assms by (rule creates_in_order)

definition blank_draft :: ticket where
  "blank_draft = \<lparr>row_id = 0, ident = [], title = ''Fix'', body = [], status = [], priority = ''medium'',
     assignee_role = None, parent_id = None, branch = None, project = None, labels = [], metadata = [],
     created_at = [], updated_at = [], completed_at = None, route = ''code'', route_workflow = None,
     route_source = ''auto'', route_confidence = None\<rparr>"

lemma blank_fresh: "fresh_draft blank_draft"
  by (simp add: fresh_draft_def blank_draft_def valid_priority_def route_error_def)

lemma empty_fresh: "fresh_ok empty_db"
  by (simp add: fresh_ok_def empty_db_def)

theorem identifiers_in_order_witness:
  "map (map_sum id ident) (fst (run_with (\<lambda>db t. create t ''t'' db) empty_db [blank_draft, blank_draft])) =
     [Inr (identifier_of 100), Inr (identifier_of 101)]"
  using identifiers_in_order [OF empty_fresh, of "[blank_draft, blank_draft]" "''t''"] blank_fresh
  by (simp add: empty_db_def)

section \<open>The safety floor\<close>

lemma floor_dangerous:
  "looks_dangerous (title t) (body t) \<Longrightarrow>
     assignee_role (supervisor_invariants t) = Some ''supervisor''
     \<and> ''review-required'' \<in> set (labels (supervisor_invariants t))
     \<and> dget (metadata (supervisor_invariants t)) ''dangerous_pattern'' = PBool True"
  by (simp add: supervisor_invariants_def Let_def)

text \<open>C32. A ticket without a parent whose title or body matches a dangerous pattern is created for the
  supervisor, labelled for review and marked, whatever the caller asked for.\<close>

theorem dangerous_needs_review:
  assumes "create t now db = (Inr made, db')" and "parent_id t = None" and "looks_dangerous (title t) (body t)"
  shows "assignee_role made = Some ''supervisor'' \<and> ''review-required'' \<in> set (labels made)
    \<and> dget (metadata made) ''dangerous_pattern'' = PBool True"
proof -
  obtain q where "made = from_row q"
    and "assignee_role q = assignee_role (supervisor_invariants t)"
    and "labels q = labels (supervisor_invariants t)" and "metadata q = metadata (supervisor_invariants t)"
    using assms(1,2)
    by (auto simp: create_def insert_ticket_def ticket.defs Let_def split: if_splits option.splits prod.splits)
  then show ?thesis using floor_dangerous [OF assms(3)] by simp
qed

theorem dangerous_needs_review_witness:
  "\<exists>made db'. create (blank_draft\<lparr>body := ''run mkfs''\<rparr>) ''t'' empty_db = (Inr made, db')
     \<and> assignee_role made = Some ''supervisor'' \<and> ''review-required'' \<in> set (labels made)
     \<and> dget (metadata made) ''dangerous_pattern'' = PBool True"
proof -
  let ?t = "blank_draft\<lparr>body := ''run mkfs''\<rparr>"
  have "fresh_draft ?t" using blank_fresh by (simp add: fresh_draft_def)
  then obtain made db' where made: "create ?t ''t'' empty_db = (Inr made, db')"
    using create_fresh(1) [OF empty_fresh, of ?t "''t''"] by (metis prod.collapse)
  have "looks_dangerous (title ?t) (body ?t)" by code_simp
  then show ?thesis using dangerous_needs_review [OF made] made by (simp add: blank_draft_def)
qed

text \<open>A ticket with a parent passes no floor: its role, its labels and its metadata are the
  caller's.\<close>

lemma child_skips_floor:
  assumes "create t now db = (Inr made, db')" and "parent_id t \<noteq> None"
  shows "assignee_role made = assignee_role t \<and> labels made = labels t \<and> metadata made = metadata t"
  using assms
  by (auto simp: create_def insert_ticket_def ticket.defs Let_def split: if_splits option.splits prod.splits)

section \<open>Which ticket is claimed\<close>

lemma claim_quiet:
  "claim_oldest rep ex now (\<lambda>_ d. d) db =
     (case select_claimable rep ex now db of
        None \<Rightarrow> (None, db)
      | Some r \<Rightarrow>
          (let db' = update_rows (\<lambda>q. row_id q = row_id r \<and> status q = ''todo'') (claimed now) db
           in (fetch_ticket (By_id (row_id r)) db', db')))"
proof -
  have "some_row (\<lambda>q. row_id q = row_id r \<and> status q = ''todo'') db"
    if "select_claimable rep ex now db = Some r" for r
    using select_claimable_Some [OF that] by (auto simp: some_row_iff claimable_def)
  then show ?thesis
    by (simp add: claim_oldest_def numeral_eq_Suc Let_def split: option.splits)
qed

lemma find_map_same: "(\<And>x. P (g x) = P x) \<Longrightarrow> find P (map g xs) = map_option g (find P xs)"
  by (induction xs) auto

lemma fetch_update:
  "(\<And>r. row_id (f r) = row_id r) \<Longrightarrow>
     fetch_ticket (By_id i) (update_rows p f db) = map_option (\<lambda>r. if p r then f r else r) (fetch_ticket (By_id i) db)"
  unfolding fetch_ticket_def rows_update by (subst find_map_same) auto

lemma claim_quiet_Some:
  assumes "db_ok db" and "claim_oldest rep ex now (\<lambda>_ d. d) db = (Some q, db')"
  shows "\<exists>r. select_claimable rep ex now db = Some r \<and> q = claimed now r \<and> r \<in> set (rows db)
    \<and> db' = update_rows (\<lambda>q. row_id q = row_id r \<and> status q = ''todo'') (claimed now) db"
proof -
  obtain r where r: "select_claimable rep ex now db = Some r"
    and db': "db' = update_rows (\<lambda>q. row_id q = row_id r \<and> status q = ''todo'') (claimed now) db"
    and q: "fetch_ticket (By_id (row_id r)) db' = Some q"
    using assms(2) by (auto simp: claim_quiet Let_def split: option.splits)
  have "r \<in> set (rows db)" "status r = ''todo''"
    using select_claimable_Some [OF r] by (auto simp: claimable_def)
  then show ?thesis
    using q r db' fetch_unique [OF assms(1)] by (auto simp: fetch_update)
qed

lemma claim_next_any_Some:
  assumes "db_ok db" and "claim_next_any rep e now (\<lambda>_ d. d) db = (Inr (Some t), db')"
  shows "\<exists>r. select_claimable rep (excluded_projects e) now db = Some r \<and> t = from_row (claimed now r)
    \<and> r \<in> set (rows db)"
proof -
  obtain q d where c: "claim_oldest rep (excluded_projects e) now (\<lambda>_ d. d) db = (Some q, d)"
    and "t = from_row q"
    using assms(2) by (auto simp: claim_next_any_def claim_event_def split: option.splits prod.splits sum.splits)
  then show ?thesis using claim_quiet_Some [OF assms(1) c] by blast
qed

text \<open>The tickets a runner may take now.\<close>

definition candidates :: "(pyval \<Rightarrow> string) \<Rightarrow> env \<Rightarrow> stamp \<Rightarrow> db \<Rightarrow> row set" where
  "candidates rep e now db = {r \<in> set (rows db). claimable rep (excluded_projects e) now r}"

text \<open>C16. The runner claims, of the tickets that are to do, not deferred and not of an excluded
  project, one that no other precedes by priority, age and number, and no other: that row is in
  progress and stamped from then on, and every other row of the table is what it was. It claims
  nothing only when there is none, and then no row changes.\<close>

theorem claim_takes_the_first:
  assumes "db_ok db" and "claim_next_any rep e now (\<lambda>_ d. d) db = (res, db')"
  shows "case res of
      Inr (Some t) \<Rightarrow> status t = ''in_progress'' \<and>
        (\<exists>r \<in> candidates rep e now db. row_id r = row_id t \<and> claim_order r = Min (claim_order ` candidates rep e now db)) \<and>
        rows db' = map (\<lambda>q. if row_id q = row_id t then claimed now q else q) (rows db)
    | Inr None \<Rightarrow> candidates rep e now db = {} \<and> rows db' = rows db
    | Inl err \<Rightarrow> False"
proof (cases "select_claimable rep (excluded_projects e) now db")
  case None
  then have "candidates rep e now db = {}"
    using select_claimable_None [of rep "excluded_projects e" now db] by (simp add: candidates_def)
  then show ?thesis
    using assms(2) by (auto simp: claim_next_any_def claim_quiet claim_event_def None)
next
  case (Some r)
  note best = select_claimable_Some [OF Some]
  let ?d = "update_rows (\<lambda>q. row_id q = row_id r \<and> status q = ''todo'') (claimed now) db"
  have fetched: "fetch_ticket (By_id (row_id r)) ?d = Some (claimed now r)"
    using fetch_unique [OF assms(1), of r] best by (simp add: fetch_update claimable_def)
  moreover have "row_id (claimed now r) \<in> row_ids ?d"
    using best by (simp add: row_ids_update claimed_keys) (simp add: row_ids_def)
  ultimately have res: "res = Inr (Some (from_row (claimed now r)))"
    using assms(2) by (simp add: claim_next_any_def claim_quiet Some Let_def claim_event_made prod_eq_iff)
  have "claim_oldest rep (excluded_projects e) now (\<lambda>_ d. d) db = (Some (claimed now r), ?d)"
    by (simp add: claim_quiet Some Let_def fetched)
  then have "claim_event [] now (Some (claimed now r), ?d) = (res, db')"
    using assms(2) by (simp only: claim_next_any_def)
  then have "rows db' = rows ?d"
    using claim_event_rows [of "[]" now "Some (claimed now r)" ?d] by (simp only: snd_conv)
  also have "\<dots> = map (\<lambda>q. if row_id q = row_id r then claimed now q else q) (rows db)"
    using fetch_unique [OF assms(1)] best unfolding rows_update
    by (intro map_cong refl) (metis claimable_def option.inject)
  finally have rows: "rows db' = map (\<lambda>q. if row_id q = row_id r then claimed now q else q) (rows db)" .
  have "claim_order r = Min (claim_order ` candidates rep e now db)"
    by (rule Min_eqI [symmetric]) (use best in \<open>auto simp: candidates_def\<close>)
  then show ?thesis using best rows by (auto simp: res candidates_def)
qed

text \<open>Roles and labels, rewritten row by row.\<close>

definition relabel :: "(row \<Rightarrow> string option \<times> string list) \<Rightarrow> db \<Rightarrow> db" where
  "relabel f db = update_rows (\<lambda>_. True) (\<lambda>r. r\<lparr>assignee_role := fst (f r), labels := snd (f r)\<rparr>) db"

lemma sort_key_map_same:
  "(\<And>x. key (g x) = key x) \<Longrightarrow> sort_key key (map g xs) = map g (sort_key key xs)"
proof -
  assume same: "\<And>x. key (g x) = key x"
  have "insort_key key (g x) (map g ys) = map g (insort_key key x ys)" for x ys
    by (induction ys) (auto simp: same)
  then show ?thesis by (induction xs) simp_all
qed

lemma claim_relabel:
  "map_option row_id (select_claimable rep ex now (relabel f db)) =
     map_option row_id (select_claimable rep ex now db)"
proof -
  let ?g = "\<lambda>r. r\<lparr>assignee_role := fst (f r), labels := snd (f r)\<rparr>"
  have "filter (claimable rep ex now) (map ?g xs) = map ?g (filter (claimable rep ex now) xs)" for xs
    by (induction xs) (auto simp: claimable_def)
  moreover have "sort_key claim_order (map ?g xs) = map ?g (sort_key claim_order xs)" for xs
    by (rule sort_key_map_same) (simp add: claim_order_def)
  ultimately show ?thesis
    by (simp add: select_claimable_def relabel_def rows_update split: list.splits)
qed

text \<open>Which ticket the runner claims depends on no role and no label: a ticket that creation set
  aside for the supervisor's review is claimed when its turn comes, like any other.\<close>

theorem review_does_not_hold_back:
  "map_option row_id (fst (claim_oldest rep ex now (\<lambda>_ d. d) (relabel f db))) =
     map_option row_id (fst (claim_oldest rep ex now (\<lambda>_ d. d) db))"
proof -
  have "map_option row_id (fst (claim_oldest rep ex now (\<lambda>_ d. d) d)) =
      map_option row_id (select_claimable rep ex now d)" for d
  proof (cases "select_claimable rep ex now d")
    case (Some r)
    then have "fetch_ticket (By_id (row_id r)) d \<noteq> None"
      using select_claimable_Some [OF Some] by (auto simp: fetch_ticket_def find_None_iff)
    then obtain q where q: "fetch_ticket (By_id (row_id r)) d = Some q" by blast
    then have "row_id q = row_id r" by (auto simp: fetch_ticket_def find_Some_iff)
    then show ?thesis by (simp add: claim_quiet Some Let_def fetch_update q)
  qed (simp add: claim_quiet)
  then show ?thesis by (simp add: claim_relabel)
qed

section \<open>The tables stay consistent\<close>

text \<open>A call of the store, with the text of its instant.\<close>

datatype op =
    Create ticket | Claim_next | Claim_one int | Renew int "stamp option" | Reap "int option"
  | Status int string "string option" dict | Route key string "string option" string "rat option"
  | Branch int string | Body int string | Patch int "(string \<times> col_value) list" dict
  | Event int "string option" string "string option" dict | Delete key | Reset_all

fun apply_op :: "(pyval \<Rightarrow> string) \<Rightarrow> env \<Rightarrow> (int \<Rightarrow> stamp) \<Rightarrow> stamp \<Rightarrow> op \<Rightarrow> db \<Rightarrow> db" where
  "apply_op rep e ago now (Create t) db = snd (create t now db)"
| "apply_op rep e ago now Claim_next db = snd (claim_next_any rep e now (\<lambda>_ d. d) db)"
| "apply_op rep e ago now (Claim_one i) db = snd (claim_ticket i now db)"
| "apply_op rep e ago now (Renew i tok) db = snd (renew i tok now db)"
| "apply_op rep e ago now (Reap a) db = snd (reap_stale_in_progress e ago a now id db)"
| "apply_op rep e ago now (Status i s role patch) db = snd (update_status i s role patch now id db)"
| "apply_op rep e ago now (Route k r f s c) db = snd (update_route k r f s c now db)"
| "apply_op rep e ago now (Branch i b) db = set_branch i b now db"
| "apply_op rep e ago now (Body i x) db = snd (add_to_body i x now db)"
| "apply_op rep e ago now (Patch i cs md) db = snd (patch_fields i cs md now id db)"
| "apply_op rep e ago now (Event i r k x md) db = snd (add_event i r k x md now db)"
| "apply_op rep e ago now (Delete k) db = snd (delete_ticket k db)"
| "apply_op rep e ago now Reset_all db = snd (reset_all db)"

lemma counter_ok: "db_ok (db\<lparr>next_n := n\<rparr>) = db_ok db"
  by (simp add: db_ok_def row_ids_def)

lemma create_ok:
  assumes "db_ok db"
  shows "db_ok (snd (create t now db))"
proof -
  have ins: "db_ok (snd (insert_ticket q now (db\<lparr>next_n := n\<rparr>)))" "db_ok (snd (insert_ticket q now db))" for q n
    using assms insert_ticket_ok [of _ q now] by (simp_all add: counter_ok prod_eq_iff)
  then show ?thesis
    using assms by (simp add: create_def new_identifier_def next_counter_def Let_def case_prod_beta split: option.split)
qed

lemma claim_next_any_ok: "db_ok db \<Longrightarrow> db_ok (snd (claim_next_any rep e now (\<lambda>_ d. d) db))"
  using claim_rounds_ok [of db "\<lambda>_ d. d" 50 rep "excluded_projects e" now]
  by (cases "claim_oldest rep (excluded_projects e) now (\<lambda>_ d. d) db")
    (simp add: claim_next_any_def claim_event_ok claim_oldest_def)

lemma claim_one_ok: "db_ok db \<Longrightarrow> db_ok (snd (claim_one i now db))"
  by (simp add: claim_one_def Let_def update_ok claimed_keys)

lemma claim_ticket_ok: "db_ok db \<Longrightarrow> db_ok (snd (claim_ticket i now db))"
  using claim_one_ok [of db i now] by (cases "claim_one i now db") (simp add: claim_ticket_def claim_event_ok)

text \<open>Setting columns other than the keys keeps the keys.\<close>

lemma keeps_keys_simps [simp]:
  "keeps_keys (\<lambda>r. r\<lparr>claimed_at := c\<rparr>)"
  "keeps_keys (\<lambda>r. r\<lparr>status := s, updated_at := u, metadata := m, completed_at := k r\<rparr>)"
  "keeps_keys (\<lambda>r. r\<lparr>route := rt, route_workflow := w, route_source := src, route_confidence := q, updated_at := u\<rparr>)"
  "keeps_keys (\<lambda>r. r\<lparr>branch := b, updated_at := u\<rparr>)"
  "keeps_keys (\<lambda>r. r\<lparr>body := x r, updated_at := u\<rparr>)"
  by (rule keeps_keysI; simp)+

lemma keeps_keys_patch [simp]:
  "keeps_keys (\<lambda>r. (if e then foldl (\<lambda>r (c, v). set_column c v r) r cs
      else (foldl (\<lambda>r (c, v). set_column c v r) r cs)\<lparr>metadata := m\<rparr>)\<lparr>updated_at := u\<rparr>)"
  by (rule keeps_keysI) simp_all

lemma renew_claim_ok: "db_ok db \<Longrightarrow> db_ok (snd (renew_claim i now db))"
  by (simp add: renew_claim_def update_ok)

lemma renew_claim_token_ok: "db_ok db \<Longrightarrow> db_ok (snd (renew_claim_token i tok now db))"
  by (simp add: renew_claim_token_def Let_def update_ok)

lemma snd_renew:
  "snd (renew i None now db) = snd (renew_claim i now db)"
  "snd (renew i (Some tok) now db) = snd (renew_claim_token i tok now db)"
  by (simp_all add: renew_def Let_def case_prod_beta)

lemma renew_ok: "db_ok db \<Longrightarrow> db_ok (snd (renew i tok now db))"
  by (cases tok) (simp_all only: snd_renew renew_claim_ok renew_claim_token_ok)

lemma event_ok: "db_ok db \<Longrightarrow> db_ok (snd (insert_event i role knd txt md now db))"
  by (rule insert_event_ok) (assumption, rule prod.collapse [symmetric])

lemma reap_event_ok: "db_ok db \<Longrightarrow> db_ok (reap_event now db i)"
  by (simp only: reap_event_def Let_def event_ok)

lemma reap_events_ok: "db_ok db \<Longrightarrow> db_ok (foldl (reap_event now) db ids)"
  by (induction ids arbitrary: db) (auto simp: reap_event_ok)

lemma reap_ok:
  assumes "db_ok db"
  shows "db_ok (snd (reap_stale_in_progress e ago a now id db))"
proof -
  have "db_ok (snd (reap_rows m cutoff now id db))" for m cutoff
    using assms reap_each_ok [OF assms] by (auto simp: reap_rows_def Let_def split: sum.split)
  then show ?thesis
    by (auto simp: reap_stale_in_progress_def Let_def case_prod_beta reap_events_ok split: sum.split prod.split)
qed

lemma set_status_ok: "db_ok db \<Longrightarrow> db_ok (snd (set_status i s dn patch now id db))"
  by (cases "fetch_ticket (By_id i) db") (simp_all add: set_status_def Let_def update_ok)

lemma update_status_ok: "db_ok db \<Longrightarrow> db_ok (snd (update_status i s role patch now id db))"
proof -
  assume "db_ok db"
  from set_status_ok [OF this, of i s "s \<in> set completed_statuses" patch now] \<open>db_ok db\<close> show ?thesis
    by (auto simp: update_status_def event_ok split: option.splits prod.splits sum.splits
        intro: insert_event_ok)
qed

lemma patch_row_ok: "db_ok db \<Longrightarrow> db_ok (snd (patch_row i cs md now id db))"
  by (cases "fetch_ticket (By_id i) db") (simp_all add: patch_row_def Let_def update_ok)

lemma patch_fields_ok: "db_ok db \<Longrightarrow> db_ok (snd (patch_fields i cs md now id db))"
  by (simp add: patch_fields_def case_prod_beta patch_row_ok)

lemma update_route_ok: "db_ok db \<Longrightarrow> db_ok (snd (update_route k r f s c now db))"
  by (cases "route_error r f s") (simp_all add: update_route_def set_route_def Let_def update_ok)

lemma small_updates_ok:
  "db_ok db \<Longrightarrow> db_ok (set_branch i b now db)" "db_ok db \<Longrightarrow> db_ok (snd (add_to_body i x now db))"
  by (simp_all add: set_branch_def add_to_body_def append_body_def Let_def update_ok)

lemma apply_op_ok: "db_ok db \<Longrightarrow> db_ok (apply_op rep e ago now p db)"
proof (cases p)
  case (Event i r k x md)
  assume "db_ok db"
  then show ?thesis
    by (simp add: Event add_event_def event_ok)
next
  case (Delete k)
  assume "db_ok db"
  then show ?thesis
    by (auto simp: Delete delete_ticket_def delete_row_ok split: option.splits)
qed (simp_all add: create_ok claim_next_any_ok claim_ticket_ok renew_ok reap_ok update_status_ok
    patch_fields_ok update_route_ok small_updates_ok reset_all_def reset_all_tickets_def empty_ok)

text \<open>C15. Whatever calls are made on an empty store, and in whatever order, the tables stay
  consistent: row and event numbers grow and stay below their sequences, identifiers are unique,
  every parent is an older row that is still there, and every event belongs to a ticket that is
  still there. (The counter that makes new identifiers is not among this: a ticket created with
  an identifier of its own may be ahead of it.)\<close>

theorem tables_stay_consistent:
  "db_ok (foldl (\<lambda>db (now, p). apply_op rep e ago now p db) empty_db calls)"
proof (induction calls rule: rev_induct)
  case (snoc c calls)
  then show ?case by (cases c) (simp add: apply_op_ok)
qed (simp add: empty_ok)

text \<open>Of two tickets the older one of equal priority is taken, the other stays to do.\<close>

theorem claim_takes_the_first_witness:
  "\<exists>t db'. claim_next_any (\<lambda>_. []) (\<lambda>_. None) ''u'' (\<lambda>_ d. d)
       (snd (create blank_draft ''t2'' (snd (create blank_draft ''t'' empty_db)))) = (Inr (Some t), db')
     \<and> map (\<lambda>q. (row_id q, status q)) (rows db') = [(1, ''in_progress''), (2, ''todo'')]"
proof -
  let ?db = "snd (create blank_draft ''t2'' (snd (create blank_draft ''t'' empty_db)))"
  let ?c = "claim_next_any (\<lambda>_. []) (\<lambda>_. None) ''u'' (\<lambda>_ d. d) ?db"
  have fst: "(case fst ?c of Inr (Some t) \<Rightarrow> row_id t = 1 | _ \<Rightarrow> False)" by code_simp
  have rows: "map (\<lambda>q. (row_id q, status q)) (map (\<lambda>q. if row_id q = 1 then claimed ''u'' q else q) (rows ?db)) =
      [(1, ''in_progress''), (2, ''todo'')]" by code_simp
  obtain t where t: "fst ?c = Inr (Some t)" "row_id t = 1"
    using fst by (auto split: sum.splits option.splits)
  have c: "?c = (Inr (Some t), snd ?c)" by (metis t(1) prod.collapse)
  from claim_takes_the_first [OF create_ok [OF create_ok [OF empty_ok]] c] rows t(2)
  have "map (\<lambda>q. (row_id q, status q)) (rows (snd ?c)) = [(1, ''in_progress''), (2, ''todo'')]" by simp
  with c show ?thesis by (intro exI conjI)
qed

end
