(* ===== verification/Ticket_Claims.thy ===== *)
theory Ticket_Claims
  imports Ticket_Store
begin

text \<open>
  Several runs and one store: the claim heartbeat of \<^verbatim>\<open>tickets/lease.py\<close>
  (\<^verbatim>\<open>hold_claim\<close>), the reaper and the operator's writes, interleaved.

  A run is a process that claimed a ticket and renews its claim on a thread of its own. Its
  token is the \<^verbatim>\<open>claimed_at\<close> it last saw as its own. A system is the store with its runs;
  a move is one transaction of one process, at an instant in milliseconds. The text SQLite
  gives an instant is \<open>clk\<close>: later instants have larger texts.
\<close>

section \<open>The heartbeat\<close>

definition interval_s :: "env \<Rightarrow> rat" where
  "interval_s e = max 5 (min 300 (of_int (lease_seconds e) / 3))"

record run =
  on :: int
  token :: "stamp option"
  lost :: bool
  alive :: bool

text \<open>\<^verbatim>\<open>_claim_token\<close>: what the row holds when the block is entered.\<close>

definition claim_token :: "int \<Rightarrow> db \<Rightarrow> stamp option" where
  "claim_token i db =
     (case fetch_ticket (By_id i) db of
        None \<Rightarrow> None
      | Some r \<Rightarrow> (case claimed_at r of None \<Rightarrow> None | Some c \<Rightarrow> if c = [] then None else Some c))"

definition hold_claim :: "int \<Rightarrow> db \<Rightarrow> run" where
  "hold_claim i db = \<lparr>on = i, token = claim_token i db, lost = False, alive = True\<rparr>"

text \<open>One beat. A token that is the empty text counts as none.\<close>

definition beat :: "stamp \<Rightarrow> run \<Rightarrow> db \<Rightarrow> run \<times> db" where
  "beat now r db =
     (let tok = (if token r = Some [] then None else token r);
          (got, db') = renew (on r) tok now db
      in (case got of
            Renewed b \<Rightarrow> if b then r else r\<lparr>lost := True\<rparr>
          | New_token t \<Rightarrow> r\<lparr>token := Some t\<rparr>, db'))"

text \<open>\<^verbatim>\<open>defer\<close>: back to \<^verbatim>\<open>todo\<close>, not claimable before \<open>until\<close>,
  the text of the clock plus the delay, which is an argument as \<open>now\<close> is.\<close>

definition defer_ticket :: "int \<Rightarrow> stamp \<Rightarrow> string \<Rightarrow> stamp \<Rightarrow> db \<Rightarrow> ticket option sres \<times> db" where
  "defer_ticket i until reason now db =
     update_status i ''todo'' (Some ''adk_runner'')
       [(''retry_after'', PStr until), (''deferred_reason'', PStr reason)] now id db"

section \<open>Interleaving\<close>

record sys =
  base :: db
  runs :: "run list"

datatype move =
    Next
  | Take int
  | Beat nat
  | Reaper
  | Finish nat string dict
  | Give_back nat stamp string
  | Crash nat
  | Write int string

text \<open>A claim that was made starts a run.\<close>

definition start :: "ticket option sres \<times> db \<Rightarrow> sys \<Rightarrow> sys" where
  "start c s =
     (case c of
        (Inr (Some t), db') \<Rightarrow> s\<lparr>base := db', runs := runs s @ [hold_claim (row_id t) db']\<rparr>
      | (_, db') \<Rightarrow> s\<lparr>base := db'\<rparr>)"

definition live :: "nat \<Rightarrow> sys \<Rightarrow> bool" where
  "live i s \<longleftrightarrow> i < length (runs s) \<and> alive (runs s ! i)"

definition end_run :: "nat \<Rightarrow> sys \<Rightarrow> sys" where
  "end_run i s = s\<lparr>runs := (runs s)[i := (runs s ! i)\<lparr>alive := False\<rparr>]\<rparr>"

text \<open>The instant of a reap less its lease; the calendar starts at zero.\<close>

definition ago :: "(nat \<Rightarrow> stamp) \<Rightarrow> nat \<Rightarrow> int \<Rightarrow> stamp" where
  "ago clk t secs = clk (t - 1000 * nat secs)"

fun step :: "(pyval \<Rightarrow> string) \<Rightarrow> env \<Rightarrow> (nat \<Rightarrow> stamp) \<Rightarrow> nat \<Rightarrow> move \<Rightarrow> sys \<Rightarrow> sys" where
  "step rep e clk t Next s = start (claim_next_any rep e (clk t) (\<lambda>_ d. d) (base s)) s"
| "step rep e clk t (Take i) s = start (claim_ticket i (clk t) (base s)) s"
| "step rep e clk t (Beat i) s =
     (if live i s
      then (let (r, db') = beat (clk t) (runs s ! i) (base s) in s\<lparr>base := db', runs := (runs s)[i := r]\<rparr>)
      else s)"
| "step rep e clk t Reaper s =
     s\<lparr>base := snd (reap_stale_in_progress e (ago clk t) None (clk t) id (base s))\<rparr>"
| "step rep e clk t (Finish i st md) s =
     (if live i s
      then end_run i (s\<lparr>base := snd (update_status (on (runs s ! i)) st (Some ''adk_runner'') md (clk t) id (base s))\<rparr>)
      else s)"
| "step rep e clk t (Give_back i until why) s =
     (if live i s
      then end_run i (s\<lparr>base := snd (defer_ticket (on (runs s ! i)) until why (clk t) (base s))\<rparr>)
      else s)"
| "step rep e clk t (Crash i) s = (if live i s then end_run i s else s)"
| "step rep e clk t (Write k st) s = s\<lparr>base := snd (update_status k st (Some ''human'') [] (clk t) id (base s))\<rparr>"

definition execute :: "(pyval \<Rightarrow> string) \<Rightarrow> env \<Rightarrow> (nat \<Rightarrow> stamp) \<Rightarrow> (nat \<times> move) list \<Rightarrow> sys \<Rightarrow> sys" where
  "execute rep e clk tms s = foldl (\<lambda>s (t, m). step rep e clk t m s) s tms"

lemma execute_simps [simp]:
  "execute rep e clk [] s = s"
  "execute rep e clk ((t, m) # tms) s = execute rep e clk tms (step rep e clk t m s)"
  by (simp_all add: execute_def)

lemma step_ok: "db_ok (base s) \<Longrightarrow> db_ok (base (step rep e clk t m s))"
proof (cases m)
  case Next
  assume "db_ok (base s)"
  from claim_next_any_ok [OF this, of rep e "clk t"] show ?thesis
    by (auto simp: Next start_def split: prod.splits sum.splits option.splits)
next
  case (Take i)
  assume "db_ok (base s)"
  from claim_ticket_ok [OF this, of i "clk t"] show ?thesis
    by (auto simp: Take start_def split: prod.splits sum.splits option.splits)
qed (simp_all add: beat_def Let_def case_prod_beta renew_ok reap_ok update_status_ok end_run_def defer_ticket_def)

section \<open>What a row keeps\<close>

text \<open>The status and the claim of a ticket.\<close>

definition claim_of :: "int \<Rightarrow> db \<Rightarrow> (string \<times> stamp option) option" where
  "claim_of k db = map_option (\<lambda>r. (status r, claimed_at r)) (fetch_ticket (By_id k) db)"

lemma claim_of_rows: "rows db' = rows db \<Longrightarrow> claim_of k db' = claim_of k db"
  by (simp add: claim_of_def fetch_ticket_def)

lemma fetch_is: "fetch_ticket (By_id k) db = Some r \<Longrightarrow> row_id r = k"
  by (auto simp: fetch_ticket_def find_Some_iff)

lemma claim_of_event [simp]: "claim_of k (snd (insert_event i role knd txt md now db)) = claim_of k db"
  by (rule claim_of_rows) (rule insert_event_rows)

lemma claim_of_claim_event: "claim_of k (snd (claim_event md now (r, db))) = claim_of k db"
  by (rule claim_of_rows) (rule claim_event_rows)

text \<open>An update that passes a ticket by.\<close>

lemma claim_of_skip:
  assumes "\<And>r. row_id (f r) = row_id r" and "\<And>r. row_id r = k \<Longrightarrow> status r = ''in_progress'' \<Longrightarrow> \<not> p r"
    and "claim_of k db = Some (''in_progress'', c)"
  shows "claim_of k (update_rows p f db) = claim_of k db"
proof -
  obtain z where z: "fetch_ticket (By_id k) db = Some z" "status z = ''in_progress''"
    using assms(3) by (auto simp: claim_of_def)
  then have "\<not> p z" using assms(2) fetch_is [OF z(1)] by blast
  then show ?thesis using z by (simp add: claim_of_def fetch_update assms(1))
qed

lemma claim_next_keeps:
  assumes "claim_of k db = Some (''in_progress'', c)"
  shows "claim_of k (snd (claim_next_any rep e now (\<lambda>_ d. d) db)) = claim_of k db"
proof -
  have "claim_of k (snd (claim_oldest rep ex now (\<lambda>_ d. d) db)) = claim_of k db" for ex
    by (auto simp: claim_quiet Let_def intro!: claim_of_skip [OF _ _ assms] split: option.split)
  then show ?thesis
    unfolding claim_next_any_def by (metis claim_of_claim_event prod.collapse)
qed

lemma claim_ticket_keeps:
  assumes "claim_of k db = Some (''in_progress'', c)"
  shows "claim_of k (snd (claim_ticket i now db)) = claim_of k db"
proof -
  have "claim_of k (snd (claim_one i now db)) = claim_of k db"
    by (auto simp: claim_one_def Let_def intro!: claim_of_skip [OF _ _ assms])
  then show ?thesis
    unfolding claim_ticket_def by (metis claim_of_claim_event prod.collapse)
qed

lemma renew_keeps:
  assumes "claim_of k db = Some (''in_progress'', c)" and "i \<noteq> k \<or> (\<exists>tok. tk = Some tok \<and> Some tok \<noteq> c)"
  shows "claim_of k (snd (renew i tk now db)) = claim_of k db"
proof (cases tk)
  case None
  then show ?thesis
    unfolding None snd_renew renew_claim_def snd_conv
    by (intro claim_of_skip [OF _ _ assms(1)]) (use assms(2) None in \<open>auto simp: running_def\<close>)
next
  case (Some tok)
  have "\<not> (running i r \<and> claimed_at r = Some tok)" if "fetch_ticket (By_id k) db = Some r" for r
    using assms that fetch_is [OF that] by (auto simp: claim_of_def running_def Some)
  then show ?thesis
    unfolding Some snd_renew renew_claim_token_def Let_def
    by (cases "fetch_ticket (By_id k) db") (auto simp: claim_of_def fetch_update split: option.split)
qed

lemma status_keeps:
  "i \<noteq> k \<Longrightarrow> claim_of k (snd (update_status i st role md now id db)) = claim_of k db"
proof -
  assume "i \<noteq> k"
  then have "claim_of k (snd (set_status i st dn md now id db)) = claim_of k db" for dn
    by (cases "fetch_ticket (By_id k) db")
      (auto simp: set_status_def Let_def claim_of_def fetch_update dest: fetch_is split: option.split)
  then show ?thesis
    unfolding update_status_def
    by (auto simp: case_prod_beta split: option.split sum.split prod.split)
qed

section \<open>What the reaper does to a row\<close>

lemma find_absent: "k \<notin> row_id ` set ss \<Longrightarrow> find (\<lambda>s. row_id s = k) ss = None"
  by (induction ss) auto

lemma reap_each_fetch:
  assumes "reap_each m now ss db = Inr (ids, db')" and "distinct (map row_id ss)"
  shows "fetch_ticket (By_id k) db' =
    (case find (\<lambda>s. row_id s = k) ss of
       None \<Rightarrow> fetch_ticket (By_id k) db
     | Some s \<Rightarrow> map_option (\<lambda>r. if status r = ''in_progress''
           then reaped_row m (or_else (int_or0 (dget (metadata s) ''reclaim_count'')) 0 + 1) (metadata s) now r
           else r) (fetch_ticket (By_id k) db))"
  using assms
proof (induction ss arbitrary: db ids)
  case (Cons s ss)
  obtain n where n: "int_or0 (dget (metadata s) ''reclaim_count'') = Inr n"
    using Cons.prems(1) by (auto split: sum.splits)
  let ?d = "update_rows (running (row_id s)) (reaped_row m (n + 1) (metadata s) now) db"
  obtain ids' where rest: "reap_each m now ss ?d = Inr (ids', db')"
    using Cons.prems(1) by (auto simp: n Let_def split: sum.splits prod.splits)
  have at_s: "fetch_ticket (By_id k) ?d = map_option (\<lambda>r. if running (row_id s) r
      then reaped_row m (n + 1) (metadata s) now r else r) (fetch_ticket (By_id k) db)"
    by (simp add: fetch_update)
  show ?case
  proof (cases "row_id s = k")
    case True
    then have "find (\<lambda>s. row_id s = k) ss = None"
      using Cons.prems(2) by (auto intro: find_absent)
    then show ?thesis
      using Cons.IH [OF rest] Cons.prems(2) at_s True
      by (cases "fetch_ticket (By_id k) db") (auto simp: n running_def dest: fetch_is)
  next
    case False
    then have same: "fetch_ticket (By_id k) ?d = fetch_ticket (By_id k) db"
      unfolding at_s by (cases "fetch_ticket (By_id k) db") (auto simp: running_def dest: fetch_is)
    have "distinct (map row_id ss)" using Cons.prems(2) by simp
    from Cons.IH [OF rest this] show ?thesis unfolding same using False by simp
  qed
qed simp

lemma ids_distinct: "db_ok db \<Longrightarrow> distinct (map row_id (rows db))"
  by (simp add: db_ok_def strict_sorted_iff)

lemma find_filter_id:
  assumes "db_ok db"
  shows "find (\<lambda>s. row_id s = k) (filter p (rows db)) =
    (case fetch_ticket (By_id k) db of None \<Rightarrow> None | Some r \<Rightarrow> if p r then Some r else None)"
proof -
  have "find (\<lambda>s. row_id s = k) (filter p rs) =
      (case find (row_is (By_id k)) rs of None \<Rightarrow> None | Some r \<Rightarrow> if p r then Some r else None)"
    if "distinct (map row_id rs)" for rs
    using that
  proof (induction rs)
    case (Cons q rs)
    have "row_id q = k \<Longrightarrow> find (\<lambda>s. row_id s = k) (filter p rs) = None"
      using Cons.prems by (auto intro!: find_absent)
    then show ?case using Cons by auto
  qed simp
  then show ?thesis using ids_distinct [OF assms] by (simp add: fetch_ticket_def)
qed

lemma distinct_seen: "db_ok db \<Longrightarrow> distinct (map row_id (filter p (rows db)))"
  by (simp add: distinct_map_filter ids_distinct)

lemma reap_rows_fetch:
  assumes "db_ok db" and "reap_rows m cutoff now id db = (Inr ids, db')"
  shows "fetch_ticket (By_id k) db' = map_option (\<lambda>r. if stale cutoff r
      then reaped_row m (or_else (int_or0 (dget (metadata r) ''reclaim_count'')) 0 + 1) (metadata r) now r
      else r) (fetch_ticket (By_id k) db)"
proof -
  have "reap_each m now (filter (stale cutoff) (rows db)) db = Inr (ids, db')"
    using assms(2) by (auto simp: reap_rows_def split: sum.splits prod.splits)
  from reap_each_fetch [OF this distinct_seen [OF assms(1)], of k] show ?thesis
    using find_filter_id [OF assms(1), of k "stale cutoff"]
    by (cases "fetch_ticket (By_id k) db") (auto simp: stale_def)
qed

lemma reap_event_rows [simp]: "rows (reap_event now db i) = rows db"
  by (simp add: reap_event_def Let_def insert_event_rows)

lemma reap_events_rows [simp]: "rows (foldl (reap_event now) db ids) = rows db"
  by (induction ids arbitrary: db) simp_all

lemma reap_fetch:
  assumes "db_ok db"
  shows "fetch_ticket (By_id k) (snd (reap_stale_in_progress e ag a now id db)) \<in>
    {fetch_ticket (By_id k) db,
     map_option (\<lambda>r. if stale (ag (case a of None \<Rightarrow> lease_seconds e | Some x \<Rightarrow> x)) r
       then reaped_row (Some (max_reclaims e)) (or_else (int_or0 (dget (metadata r) ''reclaim_count'')) 0 + 1) (metadata r) now r
       else r) (fetch_ticket (By_id k) db)}"
proof -
  let ?cut = "ag (case a of None \<Rightarrow> lease_seconds e | Some x \<Rightarrow> x)"
  obtain r db' where reap: "reap_rows (Some (max_reclaims e)) ?cut now id db = (r, db')"
    by fastforce
  have rows: "fetch_ticket (By_id k) d = fetch_ticket (By_id k) db'" if "rows d = rows db'" for d
    using that by (simp add: fetch_ticket_def)
  show ?thesis
  proof (cases r)
    case (Inl err)
    then have "db' = db"
      using reap by (auto simp: reap_rows_def split: sum.splits prod.splits)
    then show ?thesis using reap Inl by (simp add: reap_stale_in_progress_def)
  next
    case (Inr ids)
    have "snd (reap_stale_in_progress e ag a now id db) = foldl (reap_event now) db' ids"
      using reap by (simp add: reap_stale_in_progress_def Inr)
    then show ?thesis
      using reap_rows_fetch [OF assms, of _ ?cut now ids db'] reap rows by (simp add: Inr)
  qed
qed

lemma reap_keeps:
  assumes "db_ok db" and "claim_of k db = Some (''in_progress'', Some c)" and "\<not> c < ag (lease_seconds e)"
  shows "claim_of k (snd (reap_stale_in_progress e ag None now id db)) = claim_of k db"
  using reap_fetch [OF assms(1), of k e ag None now] assms(2,3)
  by (auto simp: claim_of_def stale_def)

end
