(* ===== verification/Ticket_Heartbeat.thy ===== *)
theory Ticket_Heartbeat
  imports Ticket_Claims
begin

text \<open>
  What the claim heartbeat of \<^verbatim>\<open>tickets/lease.py\<close> guarantees over every interleaving of
  runs, reapers and operators, and what it does not: a claim that is renewed in time stays,
  two runs never both hold a ticket, a run that was overtaken learns it, a ticket whose runs
  keep dying is requeued a bounded number of times. A late reap and a late last word of a
  run, however, ask no one.
\<close>

section \<open>A claim renewed in time stays\<close>

lemma interval_third: "3 * interval_s e \<le> of_int (lease_seconds e)"
proof -
  have "(60 :: rat) \<le> of_int (lease_seconds e)"
    using lease_at_least [of e] by (metis of_int_le_iff of_int_numeral)
  then show ?thesis by (simp add: interval_s_def min_def max_def)
qed

text \<open>Run \<open>i\<close> alone works on ticket \<open>k\<close>, and its last beat was at \<open>u\<close>.\<close>

definition sole :: "(nat \<Rightarrow> stamp) \<Rightarrow> nat \<Rightarrow> int \<Rightarrow> nat \<Rightarrow> sys \<Rightarrow> bool" where
  "sole clk i k u s \<longleftrightarrow>
     live i s \<and> \<not> lost (runs s ! i) \<and> on (runs s ! i) = k \<and> token (runs s ! i) = Some (clk u)
     \<and> claim_of k (base s) = Some (''in_progress'', Some (clk u)) \<and> db_ok (base s)
     \<and> (\<forall>j < length (runs s). j \<noteq> i \<longrightarrow> alive (runs s ! j) \<longrightarrow> on (runs s ! j) \<noteq> k)"

text \<open>Neither the run itself nor an operator ends its work.\<close>

fun spares :: "nat \<Rightarrow> int \<Rightarrow> move \<Rightarrow> bool" where
  "spares i k (Finish j st md) = (j \<noteq> i)"
| "spares i k (Give_back j until why) = (j \<noteq> i)"
| "spares i k (Crash j) = (j \<noteq> i)"
| "spares i k (Write q st) = (q \<noteq> k)"
| "spares i k m = True"

definition beaten :: "nat \<Rightarrow> nat \<Rightarrow> nat \<times> move \<Rightarrow> nat" where
  "beaten i u = (\<lambda>(t, m). if m = Beat i then t else u)"

text \<open>Every reap comes at most \<open>L\<close> milliseconds after a beat of run \<open>i\<close>.\<close>

fun timely :: "nat \<Rightarrow> nat \<Rightarrow> nat \<Rightarrow> (nat \<times> move) list \<Rightarrow> bool" where
  "timely L i u [] = True"
| "timely L i u ((t, m) # tms) =
     (0 < t \<and> (m = Reaper \<longrightarrow> t \<le> u + L) \<and> timely L i (beaten i u (t, m)) tms)"

lemma clk_not_Nil: "strict_mono clk \<Longrightarrow> 0 < u \<Longrightarrow> clk u \<noteq> ([] :: stamp)"
  by (metis not_less_Nil strict_monoD)

lemma start_old:
  assumes "start c s = s'" and "i < length (runs s)"
  shows "runs s' ! i = runs s ! i \<and> i < length (runs s')"
  using assms by (auto simp: start_def nth_append split: prod.splits sum.splits option.splits)

lemma base_start [simp]: "base (start c s) = snd c"
  by (auto simp: start_def split: prod.splits sum.splits option.splits)

lemma start_cases:
  obtains "runs (start c s) = runs s"
  | t where "fst c = Inr (Some t)" and "runs (start c s) = runs s @ [hold_claim (row_id t) (snd c)]"
proof -
  obtain got d where c: "c = (got, d)" by (cases c)
  show ?thesis
  proof (cases got)
    case (Inr made)
    then show ?thesis using that c by (cases made) (simp_all add: start_def)
  qed (use that c in \<open>simp add: start_def\<close>)
qed

text \<open>A claim that was made was made on a ticket that was not in progress.\<close>

lemma claim_one_Some:
  "claim_one q now db = (Some r, db') \<Longrightarrow>
     (\<exists>f \<in> set (rows db). row_id f = q \<and> status f \<noteq> ''in_progress'') \<and> row_id r = q"
  by (auto simp: claim_one_def Let_def some_row_iff split: if_splits dest: fetch_is)

lemma claim_made_free:
  assumes "db_ok db" and "fst (claim_next_any rep e now (\<lambda>_ d. d) db) = Inr (Some t)
      \<or> fst (claim_ticket q now db) = Inr (Some t)"
  shows "\<exists>f \<in> set (rows db). row_id f = row_id t \<and> status f \<noteq> ''in_progress''"
  using assms(2)
proof
  assume "fst (claim_next_any rep e now (\<lambda>_ d. d) db) = Inr (Some t)"
  then obtain r where "select_claimable rep (excluded_projects e) now db = Some r"
    and "t = from_row (claimed now r)" "r \<in> set (rows db)"
    using claim_next_any_Some [OF assms(1)] by (metis prod.collapse)
  then show ?thesis
    using select_claimable_Some by (fastforce simp: claimable_def)
next
  assume "fst (claim_ticket q now db) = Inr (Some t)"
  then obtain r d where "claim_one q now db = (Some r, d)" "t = from_row r"
    by (auto simp: claim_ticket_def claim_event_def split: option.splits prod.splits sum.splits
        elim!: fst_conv [elim_format])
  then show ?thesis using claim_one_Some by fastforce
qed

lemma not_free:
  assumes "db_ok db" and "claim_of k db = Some (''in_progress'', c)" and "f \<in> set (rows db)"
    and "status f \<noteq> ''in_progress''"
  shows "row_id f \<noteq> k"
  using fetch_unique [OF assms(1,3)] assms(2,4) by (auto simp: claim_of_def)

lemma made_elsewhere:
  assumes "db_ok db" and "claim_of k db = Some (''in_progress'', c)"
  shows "fst (claim_next_any rep e now (\<lambda>_ d. d) db) = Inr (Some t) \<Longrightarrow> row_id t \<noteq> k"
    and "fst (claim_ticket q now db) = Inr (Some t) \<Longrightarrow> row_id t \<noteq> k"
  using claim_made_free [OF assms(1), of rep e now t q] not_free [OF assms] by metis+

lemma beat_keys [simp]: "on (fst (beat now r db)) = on r" "alive (fst (beat now r db)) = alive r"
  by (simp_all add: beat_def Let_def case_prod_beta split: renewal.splits)

lemma beat_own:
  assumes "token r = Some c" and "c \<noteq> []" and "claim_of (on r) db = Some (''in_progress'', Some c)"
  shows "fst (beat now r db) = r\<lparr>token := Some now\<rparr>"
    and "claim_of (on r) (snd (beat now r db)) = Some (''in_progress'', Some now)"
proof -
  obtain z where z: "fetch_ticket (By_id (on r)) db = Some z" "status z = ''in_progress''" "claimed_at z = Some c"
    using assms(3) by (auto simp: claim_of_def)
  then have "some_row (\<lambda>q. running (on r) q \<and> claimed_at q = Some c) db"
    using fetch_is [OF z(1)] by (auto simp: some_row_iff running_def fetch_ticket_def find_Some_iff)
  then show "fst (beat now r db) = r\<lparr>token := Some now\<rparr>"
    and "claim_of (on r) (snd (beat now r db)) = Some (''in_progress'', Some now)"
    using assms(1,2) z fetch_is [OF z(1)]
    by (simp_all add: beat_def renew_def renew_claim_token_def claim_of_def fetch_update running_def)
qed

lemma beat_other:
  assumes "claim_of k db = Some (''in_progress'', c)" and "on r \<noteq> k"
  shows "claim_of k (snd (beat now r db)) = claim_of k db"
  using renew_keeps [OF assms(1), of "on r"] assms(2)
  by (simp add: beat_def Let_def case_prod_beta)

lemma end_run_simps [simp]:
  "base (end_run i s) = base s" "length (runs (end_run i s)) = length (runs s)"
  by (simp_all add: end_run_def)

lemma sole_start:
  assumes "sole clk i k u s" and "claim_of k (snd c) = claim_of k (base s)" and "db_ok (snd c)"
    and "\<And>t. fst c = Inr (Some t) \<Longrightarrow> row_id t \<noteq> k"
  shows "sole clk i k u (start c s)"
proof (rule start_cases [of c s])
  assume "runs (start c s) = runs s"
  then show ?thesis using assms by (simp add: sole_def live_def)
next
  fix t assume "fst c = Inr (Some t)" and r: "runs (start c s) = runs s @ [hold_claim (row_id t) (snd c)]"
  then have "row_id t \<noteq> k" using assms(4) by blast
  then show ?thesis
    using assms(1-3) by (auto simp: sole_def live_def r nth_append less_Suc_eq hold_claim_def)
qed

lemma nth_update: "xs[j := y] ! i = (if i = j \<and> j < length xs then y else xs ! i)"
  by (cases "j < length xs") (auto simp: nth_list_update list_update_beyond)

lemma sole_ended:
  assumes "sole clk i k u s" and "j \<noteq> i" and "claim_of k d = claim_of k (base s)" and "db_ok d"
  shows "sole clk i k u (end_run j (s\<lparr>base := d\<rparr>))"
  using assms by (auto simp: sole_def live_def end_run_def nth_update split: if_splits)

lemma sole_based:
  "sole clk i k u s \<Longrightarrow> claim_of k d = claim_of k (base s) \<Longrightarrow> db_ok d \<Longrightarrow> sole clk i k u (s\<lparr>base := d\<rparr>)"
  by (simp add: sole_def live_def)

lemma sole_other:
  assumes "sole clk i k u s" and "j \<noteq> i" and "live j s"
  shows "on (runs s ! j) \<noteq> k"
  using assms by (simp add: sole_def live_def)

lemma sole_beat:
  assumes "sole clk i k u s" and "strict_mono clk" and "0 < u"
  shows "sole clk i k (if j = i then t else u) (step rep e clk t (Beat j) s)"
proof (cases "live j s")
  case True
  let ?b = "beat (clk t) (runs s ! j) (base s)"
  have ok: "db_ok (snd ?b)"
    using step_ok [of s rep e clk t "Beat j"] assms(1) True by (simp add: case_prod_beta sole_def)
  show ?thesis
  proof (cases "j = i")
    case eq: True
    then show ?thesis
      using assms(1) ok beat_own [of "runs s ! i" "clk u" "base s" "clk t"] clk_not_Nil [OF assms(2,3)]
      by (auto simp: sole_def live_def case_prod_beta nth_list_update)
  next
    case False
    then have "on (runs s ! j) \<noteq> k" using sole_other [OF assms(1) False True] by simp
    then show ?thesis
      using assms(1) ok False True beat_other [of k "base s" "Some (clk u)" "runs s ! j" "clk t"]
      by (auto simp: sole_def live_def case_prod_beta nth_list_update)
  qed
qed (use assms in \<open>auto simp: sole_def\<close>)

lemma sole_step:
  assumes "sole clk i k u s" and "strict_mono clk" and "0 < u" and "spares i k m"
    and "m = Reaper \<Longrightarrow> t \<le> u + 1000 * nat (lease_seconds e)"
  shows "sole clk i k (beaten i u (t, m)) (step rep e clk t m s)"
proof -
  have held: "claim_of k (base s) = Some (''in_progress'', Some (clk u))" and ok: "db_ok (base s)"
    using assms(1) by (simp_all add: sole_def)
  have ok': "db_ok (base (step rep e clk t m s))" using step_ok [OF ok] .
  show ?thesis
  proof (cases m)
    case Next
    have "sole clk i k u (start (claim_next_any rep e (clk t) (\<lambda>_ d. d) (base s)) s)"
      by (rule sole_start [OF assms(1)])
        (use claim_next_keeps [OF held] ok' made_elsewhere(1) [OF ok held] in \<open>auto simp: Next\<close>)
    then show ?thesis by (simp add: Next beaten_def)
  next
    case (Take q)
    have "sole clk i k u (start (claim_ticket q (clk t) (base s)) s)"
      by (rule sole_start [OF assms(1)])
        (use claim_ticket_keeps [OF held] ok' made_elsewhere(2) [OF ok held] in \<open>auto simp: Take\<close>)
    then show ?thesis by (simp add: Take beaten_def)
  next
    case (Beat j)
    then show ?thesis using sole_beat [OF assms(1-3), of j t rep e] by (auto simp: beaten_def)
  next
    case Reaper
    have "t - 1000 * nat (lease_seconds e) \<le> u" using assms(5) Reaper by simp
    then have "\<not> clk u < ago clk t (lease_seconds e)"
      using strict_mono_less [OF assms(2)] by (simp add: ago_def)
    then show ?thesis
      using reap_keeps [OF ok held, of "ago clk t" e "clk t"] ok' assms(1)
      by (simp add: Reaper beaten_def sole_based)
  next
    case (Finish j st md)
    have "sole clk i k u (end_run j (s\<lparr>base := snd (update_status (on (runs s ! j)) st (Some ''adk_runner'') md (clk t) id (base s))\<rparr>))"
      if "live j s"
      by (rule sole_ended [OF assms(1)])
        (use that assms(4) sole_other [OF assms(1) _ that] ok in \<open>auto simp: Finish status_keeps update_status_ok\<close>)
    then show ?thesis using assms(1) by (simp add: Finish beaten_def)
  next
    case (Give_back j until why)
    have "sole clk i k u (end_run j (s\<lparr>base := snd (defer_ticket (on (runs s ! j)) until why (clk t) (base s))\<rparr>))"
      if "live j s"
      by (rule sole_ended [OF assms(1)])
        (use that assms(4) sole_other [OF assms(1) _ that] ok in
          \<open>auto simp: Give_back status_keeps update_status_ok defer_ticket_def\<close>)
    then show ?thesis using assms(1) by (simp add: Give_back beaten_def)
  next
    case (Crash j)
    then show ?thesis using sole_ended [OF assms(1), of j "base s"] assms(1,4) ok by (simp add: beaten_def)
  next
    case (Write q st)
    then show ?thesis using assms(1,4) ok by (simp add: beaten_def sole_based status_keeps update_status_ok)
  qed
qed

lemma sole_execute:
  assumes "sole clk i k u s" and "strict_mono clk" and "0 < u" and "\<forall>(t, m) \<in> set tms. spares i k m"
    and "timely (1000 * nat (lease_seconds e)) i u tms"
  shows "sole clk i k (foldl (beaten i) u tms) (execute rep e clk tms s)"
  using assms
proof (induction tms arbitrary: u s)
  case (Cons tm tms)
  obtain t m where tm: "tm = (t, m)" by (cases tm)
  have "sole clk i k (beaten i u (t, m)) (step rep e clk t m s)"
    using Cons.prems by (intro sole_step) (auto simp: tm)
  moreover have "0 < beaten i u (t, m)"
    using Cons.prems by (simp add: tm beaten_def)
  ultimately show ?case
    using Cons.IH [of "beaten i u (t, m)" "step rep e clk t m s"] Cons.prems by (simp add: tm)
qed simp

text \<open>C12. Whatever the other runs, the reapers and the operators do meanwhile, a run that alone holds
  its ticket still holds it, unreaped and not told that it lost it, as long as every reap comes
  at most one lease after one of its beats and nobody ends its work.\<close>

theorem heartbeat_keeps_claim:
  assumes "strict_mono clk" and "sole clk i k u s" and "0 < u" and "\<forall>(t, m) \<in> set tms. spares i k m"
    and "timely (1000 * nat (lease_seconds e)) i u tms"
  shows "claim_of k (base (execute rep e clk tms s)) =
      Some (''in_progress'', token (runs (execute rep e clk tms s) ! i))
    \<and> \<not> lost (runs (execute rep e clk tms s) ! i)"
  using sole_execute [OF assms(2,1,3-5), of rep] by (simp add: sole_def)

text \<open>A store with one ticket that is in progress, and its run.\<close>

definition sample_row :: row where
  "sample_row = ticket.extend (blank_draft\<lparr>row_id := 1, ident := ''ONE-100'', status := ''in_progress''\<rparr>)
     (row.fields (Some ''x''))"

definition sample_db :: db where
  "sample_db = \<lparr>rows = [sample_row], events = [], next_n = 101, row_seq = 1, event_seq = 0\<rparr>"

definition sample_sys :: sys where
  "sample_sys = \<lparr>base = sample_db, runs = [\<lparr>on = 1, token = Some ''x'', lost = False, alive = True\<rparr>]\<rparr>"

definition ticks_text :: "nat \<Rightarrow> stamp" where
  "ticks_text n = replicate n (CHR ''x'')"

lemma ticks_text_mono: "strict_mono ticks_text"
proof -
  have "xs < xs @ [x]" for xs :: stamp and x
    by (simp add: list_less_def lexord_append_rightI)
  then show ?thesis
    unfolding strict_mono_Suc_iff ticks_text_def by (metis replicate_Suc replicate_append_same)
qed

lemma sample_fields [simp]:
  "row_id sample_row = 1" "status sample_row = ''in_progress''" "claimed_at sample_row = Some ''x''"
  "parent_id sample_row = None" "metadata sample_row = []" "ident sample_row = ''ONE-100''"
  by (simp_all add: sample_row_def blank_draft_def ticket.defs row.defs)

lemma sample_ok: "db_ok sample_db"
  by (simp add: db_ok_def sample_db_def)

lemma sample_sole: "sole ticks_text 0 1 1 sample_sys"
  by (simp add: sole_def sample_sys_def live_def ticks_text_def sample_ok)
    (simp add: claim_of_def fetch_ticket_def sample_db_def)

theorem heartbeat_keeps_claim_witness:
  "claim_of 1 (base (execute (\<lambda>_. []) (\<lambda>_. None) ticks_text [(2, Beat 0), (3, Reaper), (4, Next)] sample_sys)) =
     Some (''in_progress'', token (runs (execute (\<lambda>_. []) (\<lambda>_. None) ticks_text
       [(2, Beat 0), (3, Reaper), (4, Next)] sample_sys) ! 0))
   \<and> \<not> lost (runs (execute (\<lambda>_. []) (\<lambda>_. None) ticks_text [(2, Beat 0), (3, Reaper), (4, Next)] sample_sys) ! 0)"
  by (rule heartbeat_keeps_claim [OF ticks_text_mono sample_sole])
    (use lease_at_least [of "\<lambda>_. None"] in \<open>simp_all add: beaten_def\<close>)

section \<open>One holder\<close>

definition tokens_ok :: "(nat \<Rightarrow> stamp) \<Rightarrow> nat \<Rightarrow> sys \<Rightarrow> bool" where
  "tokens_ok clk now s \<longleftrightarrow>
     db_ok (base s) \<and> distinct (map token (runs s))
     \<and> (\<forall>r \<in> set (runs s). \<exists>u. 0 < u \<and> u \<le> now \<and> token r = Some (clk u))"

lemma token_after_claim:
  assumes "db_ok db" and "now \<noteq> []"
  shows "fst (claim_next_any rep e now (\<lambda>_ d. d) db) = Inr (Some t) \<Longrightarrow>
      claim_token (row_id t) (snd (claim_next_any rep e now (\<lambda>_ d. d) db)) = Some now"
    and "fst (claim_ticket q now db) = Inr (Some t) \<Longrightarrow>
      claim_token (row_id t) (snd (claim_ticket q now db)) = Some now"
proof -
  have same: "claim_token k (snd (claim_event md now (r, d))) = claim_token k d" for k md r d
    by (simp add: claim_token_def fetch_ticket_def claim_event_rows)
  have named: "\<exists>r. fst c = Some r \<and> row_id t = row_id r" if "fst (claim_event md now c) = Inr (Some t)" for md c
    using that by (cases c; cases "fst c")
      (auto simp: claim_event_def split: prod.splits sum.splits)
  {
    assume "fst (claim_next_any rep e now (\<lambda>_ d. d) db) = Inr (Some t)"
    then obtain r where r: "fst (claim_oldest rep (excluded_projects e) now (\<lambda>_ d. d) db) = Some r" "row_id t = row_id r"
      using named unfolding claim_next_any_def by blast
    obtain db' where c: "claim_oldest rep (excluded_projects e) now (\<lambda>_ d. d) db = (Some r, db')"
      using r(1) by (metis prod.collapse)
    obtain f where f: "r = claimed now f" "f \<in> set (rows db)" "status f = ''todo''"
      and db': "db' = update_rows (\<lambda>q. row_id q = row_id f \<and> status q = ''todo'') (claimed now) db"
      using claim_quiet_Some [OF assms(1) c] select_claimable_Some by (fastforce simp: claimable_def)
    have "claim_token (row_id t) db' = Some now"
      using fetch_unique [OF assms(1) f(2)] f r(2) assms(2) by (simp add: db' claim_token_def fetch_update)
    then show "claim_token (row_id t) (snd (claim_next_any rep e now (\<lambda>_ d. d) db)) = Some now"
      by (simp add: claim_next_any_def c same)
  }
  assume "fst (claim_ticket q now db) = Inr (Some t)"
  then obtain r where r: "fst (claim_one q now db) = Some r" "row_id t = row_id r"
    using named unfolding claim_ticket_def by blast
  obtain db' where c: "claim_one q now db = (Some r, db')" using r(1) by (metis prod.collapse)
  obtain f where f: "f \<in> set (rows db)" "row_id f = q" "status f \<noteq> ''in_progress''" and q: "row_id r = q"
    using claim_one_Some [OF c] by blast
  have "claim_token q db' = Some now"
    using c fetch_unique [OF assms(1) f(1)] f assms(2)
    by (auto simp: claim_one_def Let_def claim_token_def fetch_update split: if_splits)
  then show "claim_token (row_id t) (snd (claim_ticket q now db)) = Some now"
    by (simp add: claim_ticket_def c same r(2) q)
qed

lemma tokens_start:
  assumes "tokens_ok clk now s" and "strict_mono clk" and "now < t" and "db_ok (snd c)"
    and "\<And>x. fst c = Inr (Some x) \<Longrightarrow> claim_token (row_id x) (snd c) = Some (clk t)"
  shows "tokens_ok clk t (start c s)"
proof -
  have old: "\<forall>r \<in> set (runs s). \<exists>u. 0 < u \<and> u \<le> t \<and> token r = Some (clk u)"
    using assms(1,3) unfolding tokens_ok_def by (meson le_trans less_imp_le_nat)
  have new: "Some (clk t) \<notin> token ` set (runs s)"
    using assms(1,3) strict_mono_eq [OF assms(2)] by (fastforce simp: tokens_ok_def)
  have t: "0 < t" using assms(3) by simp
  show ?thesis
  proof (rule start_cases [of c s])
    assume "runs (start c s) = runs s"
    then show ?thesis using assms(1,4) old by (simp add: tokens_ok_def)
  next
    fix x assume "fst c = Inr (Some x)" and r: "runs (start c s) = runs s @ [hold_claim (row_id x) (snd c)]"
    then have "token (hold_claim (row_id x) (snd c)) = Some (clk t)"
      using assms(5) by (simp add: hold_claim_def)
    then show ?thesis using assms(1,4) old new t unfolding tokens_ok_def r base_start by auto
  qed
qed

lemma tokens_later:
  assumes "tokens_ok clk now s" and "now < t" and "db_ok d" and "map token rs = map token (runs s)"
  shows "tokens_ok clk t (s\<lparr>base := d, runs := rs\<rparr>)"
proof -
  have "token ` set rs = token ` set (runs s)"
    using assms(4) by (metis set_map)
  moreover have "\<forall>x \<in> token ` set (runs s). \<exists>u. 0 < u \<and> u \<le> t \<and> x = Some (clk u)"
    using assms(1,2) by (force simp: tokens_ok_def)
  ultimately have "\<forall>x \<in> token ` set rs. \<exists>u. 0 < u \<and> u \<le> t \<and> x = Some (clk u)" by simp
  then show ?thesis using assms by (auto simp: tokens_ok_def)
qed

lemma beat_token:
  assumes "token r = Some c"
  shows "token (fst (beat now r db)) = Some c \<or> token (fst (beat now r db)) = Some now"
  using assms by (simp add: beat_def renew_def renew_claim_token_def case_prod_beta Let_def
      split: renewal.split option.split if_split)

lemma tokens_beat:
  assumes "tokens_ok clk now s" and "strict_mono clk" and "now < t" and "live i s" and "db_ok d"
    and r: "r = fst (beat (clk t) (runs s ! i) db)"
  shows "tokens_ok clk t (s\<lparr>base := d, runs := (runs s)[i := r]\<rparr>)"
proof -
  have i: "i < length (runs s)" using assms(4) by (simp add: live_def)
  obtain u where u: "0 < u" "u \<le> now" "token (runs s ! i) = Some (clk u)"
    using assms(1) nth_mem [OF i] by (auto simp: tokens_ok_def)
  show ?thesis
  proof (cases "token r = token (runs s ! i)")
    case True
    then have "map token ((runs s)[i := r]) = (map token (runs s))[i := map token (runs s) ! i]"
      by (simp only: map_update nth_map [OF i])
    then have "map token ((runs s)[i := r]) = map token (runs s)"
      by (simp only: list_update_id)
    then show ?thesis using tokens_later [OF assms(1,3,5)] by blast
  next
    case False
    then have new: "token r = Some (clk t)" using beat_token [OF u(3)] u(3) r by metis
    have "Some (clk t) \<notin> token ` set (runs s)"
      using assms(1,3) strict_mono_eq [OF assms(2)] by (fastforce simp: tokens_ok_def)
    then have "distinct (map token ((runs s)[i := r]))"
      using assms(1) by (simp add: map_update new tokens_ok_def distinct_list_update)
    moreover have "\<exists>v. 0 < v \<and> v \<le> t \<and> token q = Some (clk v)" if "q \<in> set ((runs s)[i := r])" for q
    proof (cases "q = r")
      case True
      then show ?thesis using new assms(3) by (metis le_refl not_less_zero gr0I)
    next
      case False
      then have "q \<in> set (runs s)"
        using that set_update_subset_insert [of "runs s" i r] by blast
      then show ?thesis using assms(1,3) unfolding tokens_ok_def by (meson le_trans less_imp_le_nat)
    qed
    ultimately show ?thesis using assms(5) by (simp add: tokens_ok_def)
  qed
qed

lemma tokens_step:
  assumes "tokens_ok clk now s" and "strict_mono clk" and "now < t"
  shows "tokens_ok clk t (step rep e clk t m s)"
proof -
  have ok: "db_ok (base s)" using assms(1) by (simp add: tokens_ok_def)
  have ok': "db_ok (base (step rep e clk t m s))" using step_ok [OF ok] .
  have later: "tokens_ok clk t (s\<lparr>base := d\<rparr>)" if "db_ok d" for d
    using tokens_later [OF assms(1,3) that, of "runs s"] by simp
  have ended: "tokens_ok clk t (end_run i (s\<lparr>base := d\<rparr>))" if "db_ok d" for d i
  proof -
    have "map token ((runs s)[i := (runs s ! i)\<lparr>alive := False\<rparr>]) = map token (runs s)"
      by (rule nth_equalityI) (auto simp: nth_update)
    from tokens_later [OF assms(1,3) that this] show ?thesis by (simp add: end_run_def)
  qed
  have now: "clk t \<noteq> []" using clk_not_Nil [OF assms(2)] assms(3) by simp
  show ?thesis
  proof (cases m)
    case Next
    then show ?thesis
      using tokens_start [OF assms, of "claim_next_any rep e (clk t) (\<lambda>_ d. d) (base s)"] ok'
        token_after_claim(1) [OF ok now] by simp
  next
    case (Take q)
    then show ?thesis
      using tokens_start [OF assms, of "claim_ticket q (clk t) (base s)"] ok'
        token_after_claim(2) [OF ok now] by simp
  next
    case (Beat i)
    then show ?thesis
      using ok' tokens_beat [OF assms _ _ refl, of i "snd (beat (clk t) (runs s ! i) (base s))" "base s"] later [OF ok]
      by (cases "live i s") (simp_all add: case_prod_beta)
  next
    case (Crash i)
    then show ?thesis using ended [OF ok, of i] later [OF ok] by simp
  qed (use ok' ended later later [OF ok] in \<open>auto split: if_splits\<close>)
qed

text \<open>The live runs that would renew the claim of ticket \<open>k\<close> now.\<close>

definition holders :: "int \<Rightarrow> sys \<Rightarrow> run list" where
  "holders k s = filter (\<lambda>r. alive r \<and> on r = k \<and> claim_of k (base s) = Some (''in_progress'', token r)) (runs s)"

section \<open>An overtaken run stays overtaken\<close>

text \<open>Between two stores every row keeps its claim stamp, loses it, or gets the stamp of now.\<close>

definition stamped :: "stamp \<Rightarrow> db \<Rightarrow> db \<Rightarrow> bool" where
  "stamped now db db' \<longleftrightarrow>
     (\<forall>z' \<in> set (rows db'). \<exists>z \<in> set (rows db). row_id z' = row_id z
        \<and> claimed_at z' \<in> {claimed_at z, None, Some now})"

lemma stamped_rows: "rows db' = rows db \<Longrightarrow> stamped now db db'"
  by (auto simp: stamped_def)

lemma stamped_refl [simp]: "stamped now db db"
  by (rule stamped_rows) (rule refl)

lemma stamped_trans: "stamped now a b \<Longrightarrow> stamped now b c \<Longrightarrow> stamped now a c"
  unfolding stamped_def by (metis insert_iff empty_iff)

lemma stamped_then_rows: "stamped now a b \<Longrightarrow> rows c = rows b \<Longrightarrow> stamped now a c"
  by (simp add: stamped_def)

lemma stamped_update:
  assumes "\<And>r. p r \<Longrightarrow> row_id (f r) = row_id r \<and> claimed_at (f r) \<in> {claimed_at r, None, Some now}"
  shows "stamped now db (update_rows p f db)"
  using assms by (auto simp: stamped_def rows_update)

lemma stamped_claims:
  "stamped now db (snd (claim_next_any rep e now (\<lambda>_ d. d) db))"
  "stamped now db (snd (claim_ticket i now db))"
proof -
  have ev: "stamped now db (snd (claim_event md now c))" if "stamped now db (snd c)" for md c
    using that claim_event_rows [of md now "fst c" "snd c"] by (auto intro: stamped_then_rows)
  show "stamped now db (snd (claim_next_any rep e now (\<lambda>_ d. d) db))"
    unfolding claim_next_any_def
    by (rule ev) (auto simp: claim_quiet Let_def intro: stamped_update split: option.split)
  show "stamped now db (snd (claim_ticket i now db))"
    unfolding claim_ticket_def
    by (rule ev) (auto simp: claim_one_def Let_def intro: stamped_update)
qed

lemma stamped_beat: "stamped now db (snd (beat now r db))"
  by (auto simp: beat_def Let_def case_prod_beta renew_def renew_claim_def renew_claim_token_def
      intro: stamped_update split: option.split)

lemma stamped_reap_each:
  "reap_each m now ss db = Inr (ids, db') \<Longrightarrow> stamped now db db'"
proof (induction ss arbitrary: db ids)
  case (Cons q ss)
  then obtain n ids' where "reap_each m now ss
      (update_rows (running (row_id q)) (reaped_row m (n + 1) (metadata q) now) db) = Inr (ids', db')"
    by (auto simp: Let_def split: sum.splits prod.splits)
  moreover have "stamped now db (update_rows (running (row_id q)) (reaped_row m (n + 1) (metadata q) now) db)"
    by (rule stamped_update) simp
  ultimately show ?case using Cons.IH stamped_trans by blast
qed simp

lemma stamped_reap: "stamped now db (snd (reap_stale_in_progress e ag a now id db))"
  by (auto simp: reap_stale_in_progress_def reap_rows_def Let_def case_prod_beta
      intro: stamped_then_rows dest: stamped_reap_each split: sum.splits prod.splits)

lemma stamped_insert_event: "stamped now a b \<Longrightarrow> stamped now a (snd (insert_event i role knd txt md at' b))"
  by (erule stamped_then_rows) (rule insert_event_rows)

lemma stamped_status: "stamped now db (snd (update_status i st role md now id db))"
proof -
  have "stamped now db (snd (set_status i st dn md now id db))" for dn
    by (auto simp: set_status_def Let_def intro: stamped_update split: option.split)
  then show ?thesis
    unfolding update_status_def
    by (auto simp: case_prod_beta stamped_insert_event split: option.split sum.split prod.split)
qed

lemma stamped_step: "stamped (clk t) (base s) (base (step rep e clk t m s))"
  by (cases m) (auto simp: stamped_claims stamped_beat stamped_reap stamped_status end_run_def
      defer_ticket_def case_prod_beta)

text \<open>Run \<open>i\<close> works on ticket \<open>k\<close> with token \<open>c\<close>, and the row says something else.\<close>

definition overtaken :: "nat \<Rightarrow> int \<Rightarrow> stamp \<Rightarrow> sys \<Rightarrow> bool" where
  "overtaken i k c s \<longleftrightarrow>
     i < length (runs s) \<and> on (runs s ! i) = k \<and> token (runs s ! i) = Some c
     \<and> (\<forall>z \<in> set (rows (base s)). row_id z = k \<longrightarrow> claimed_at z \<noteq> Some c)"

lemma beat_overtaken:
  assumes "token r = Some c" and "c \<noteq> []" and "\<not> some_row (\<lambda>q. running (on r) q \<and> claimed_at q = Some c) db"
  shows "beat now r db = (r\<lparr>lost := True\<rparr>, db)"
  using assms by (simp add: beat_def renew_def renew_claim_token_def)

lemma end_run_keys [simp]:
  "on (runs (end_run j s) ! i) = on (runs s ! i)" "token (runs (end_run j s) ! i) = token (runs s ! i)"
  by (simp_all add: end_run_def nth_update)

text \<open>A step leaves an overtaken run and its token as they are.\<close>

lemma overtaken_same_run:
  assumes "overtaken i k c s" and "c \<noteq> []"
  shows "i < length (runs (step rep e clk t m s)) \<and> on (runs (step rep e clk t m s) ! i) = k
    \<and> token (runs (step rep e clk t m s) ! i) = Some c"
proof -
  note o = assms(1) [unfolded overtaken_def]
  have started: "i < length (runs (start cl s)) \<and> on (runs (start cl s) ! i) = k
      \<and> token (runs (start cl s) ! i) = Some c" for cl
    using start_old [OF refl, of i s cl] o by simp
  have "beat (clk t) (runs s ! i) (base s) = ((runs s ! i)\<lparr>lost := True\<rparr>, base s)"
    using o by (intro beat_overtaken [OF _ assms(2)]) (auto simp: some_row_iff running_def)
  then show ?thesis
    using o started by (cases m) (auto simp: case_prod_beta nth_update)
qed

lemma overtaken_step:
  assumes "overtaken i k c s" and "c \<noteq> []" and "clk t \<noteq> c"
  shows "overtaken i k c (step rep e clk t m s)"
proof -
  have "claimed_at z \<noteq> Some c" if "z \<in> set (rows (base (step rep e clk t m s)))" "row_id z = k" for z
    using stamped_step [of clk t s rep e m] that assms(1,3) by (fastforce simp: stamped_def overtaken_def)
  then show ?thesis
    using overtaken_same_run [OF assms(1,2)] by (simp add: overtaken_def)
qed

lemma overtaken_execute:
  assumes "overtaken i k c s" and "c \<noteq> []" and "\<forall>(t, m) \<in> set tms. clk t \<noteq> c"
  shows "overtaken i k c (execute rep e clk tms s)"
  using assms
proof (induction tms arbitrary: s)
  case (Cons tm tms)
  then show ?case using overtaken_step by (cases tm) auto
qed simp

lemma execute_append: "execute rep e clk (as @ bs) s = execute rep e clk bs (execute rep e clk as s)"
  by (simp add: execute_def)

lemma tokens_execute_at:
  assumes "tokens_ok clk now s" and "strict_mono clk" and "sorted_wrt (<) (now # map fst tms)"
  shows "tokens_ok clk (last (now # map fst tms)) (execute rep e clk tms s)"
  using assms
proof (induction tms arbitrary: now s)
  case (Cons tm tms)
  obtain t m where tm: "tm = (t, m)" by (cases tm)
  have "tokens_ok clk t (step rep e clk t m s)"
    using Cons.prems by (intro tokens_step) (auto simp: tm)
  then show ?case using Cons.IH [of t] Cons.prems(2,3) by (simp add: tm)
qed auto

lemma execute_overtaken:
  assumes "strict_mono clk" and "db_ok d" and "sorted_wrt (<) (0 # map fst (tms @ rest))"
    and s: "s = execute rep e clk tms \<lparr>base = d, runs = []\<rparr>"
    and i: "i < length (runs s)" and lost: "claim_token (on (runs s ! i)) (base s) \<noteq> token (runs s ! i)"
  shows "\<exists>c k. overtaken i k c (execute rep e clk rest s)"
proof -
  let ?now = "last (0 # map fst tms)"
  have "tokens_ok clk 0 \<lparr>base = d, runs = []\<rparr>" using assms(2) by (simp add: tokens_ok_def)
  from tokens_execute_at [OF this assms(1), of tms] have tok: "tokens_ok clk ?now s"
    using assms(3) by (simp add: s sorted_wrt_append)
  then obtain u where u: "0 < u" "u \<le> ?now" "token (runs s ! i) = Some (clk u)"
    using nth_mem [OF i] by (auto simp: tokens_ok_def)
  have c: "clk u \<noteq> []" using clk_not_Nil [OF assms(1) u(1)] .
  have ok: "db_ok (base s)" using tok by (simp add: tokens_ok_def)
  have "claimed_at z \<noteq> Some (clk u)" if "z \<in> set (rows (base s))" "row_id z = on (runs s ! i)" for z
    using lost fetch_unique [OF ok that(1)] that(2) u(3) c by (auto simp: claim_token_def)
  then have "overtaken i (on (runs s ! i)) (clk u) s"
    using i u(3) by (simp add: overtaken_def)
  moreover have "clk t \<noteq> clk u" if "(t, m) \<in> set rest" for t m
  proof -
    have "t \<in> fst ` set rest" using that by force
    note that = this
    have "?now < t" using that assms(3) by (cases tms rule: rev_cases) (auto simp: sorted_wrt_append)
    then show ?thesis using u(2) strict_mono_eq [OF assms(1), of t u] by simp
  qed
  then have "\<forall>(t, m) \<in> set rest. clk t \<noteq> clk u" by blast
  ultimately show ?thesis using overtaken_execute [OF _ c] by blast
qed

lemma overtaken_not_holder:
  assumes "overtaken i j c s" and "db_ok (base s)"
  shows "runs s ! i \<notin> set (holders k s)"
proof
  assume "runs s ! i \<in> set (holders k s)"
  then have "claim_of j (base s) = Some (''in_progress'', Some c)"
    using assms(1) by (auto simp: holders_def overtaken_def)
  then obtain z where "fetch_ticket (By_id j) (base s) = Some z" "claimed_at z = Some c"
    by (auto simp: claim_of_def)
  then show False
    using assms(1) by (auto simp: overtaken_def fetch_ticket_def find_Some_iff)
qed

text \<open>C7. Claims exclude each other, for good. Whatever moves were made on a store, no two of them at
  one instant: at most one live run holds the claim of a ticket, and a run whose token is no
  longer the stamp of its ticket - its claim was reaped, or another run claimed - holds no
  claim ever again, however often it still beats.\<close>

theorem one_holder:
  assumes "strict_mono clk" and "db_ok d" and "sorted_wrt (<) (0 # map fst (tms @ rest))"
    and "s = execute rep e clk tms \<lparr>base = d, runs = []\<rparr>" and "s' = execute rep e clk rest s"
  shows "length (holders k s') \<le> 1 \<and>
    (\<forall>i < length (runs s). claim_token (on (runs s ! i)) (base s) \<noteq> token (runs s ! i)
       \<longrightarrow> runs s' ! i \<notin> set (holders k s'))"
proof -
  have s': "s' = execute rep e clk (tms @ rest) \<lparr>base = d, runs = []\<rparr>"
    by (simp add: assms(4,5) execute_append)
  have "tokens_ok clk 0 \<lparr>base = d, runs = []\<rparr>" using assms(2) by (simp add: tokens_ok_def)
  from tokens_execute_at [OF this assms(1,3)] have tok: "distinct (map token (runs s'))" "db_ok (base s')"
    by (auto simp: tokens_ok_def s')
  have "set (map token (holders k s')) \<subseteq> (case claim_of k (base s') of None \<Rightarrow> {} | Some (_, c) \<Rightarrow> {c})"
    by (auto simp: holders_def)
  then have "card (set (map token (holders k s'))) \<le> 1"
    by (cases "claim_of k (base s')") (auto dest: card_mono [rotated] split: prod.splits)
  moreover have "distinct (map token (holders k s'))"
    using tok(1) by (simp add: holders_def distinct_map_filter)
  ultimately have "length (holders k s') \<le> 1" by (metis distinct_card length_map)
  then show ?thesis
    using execute_overtaken [OF assms(1-4)] overtaken_not_holder [OF _ tok(2)] assms(5) by blast
qed

text \<open>Run 0 claims, an operator puts the ticket back, run 1 claims, and run 0 beats.\<close>

theorem one_holder_witness:
  "let s = execute (\<lambda>_. []) (\<lambda>_. None) ticks_text [(1, Next), (2, Write 1 ''todo''), (3, Take 1)]
       \<lparr>base = snd (create blank_draft ''t'' empty_db), runs = []\<rparr>;
     s' = execute (\<lambda>_. []) (\<lambda>_. None) ticks_text [(4, Beat 0), (5, Beat 1)] s
   in length (runs s) = 2 \<and> claim_token (on (runs s ! 0)) (base s) \<noteq> token (runs s ! 0)
      \<and> length (holders 1 s') \<le> 1 \<and> runs s' ! 0 \<notin> set (holders 1 s')"
proof -
  let ?s = "execute (\<lambda>_. []) (\<lambda>_. None) ticks_text [(1, Next), (2, Write 1 ''todo''), (3, Take 1)]
       \<lparr>base = snd (create blank_draft ''t'' empty_db), runs = []\<rparr>"
  have "length (runs ?s) = 2 \<and> claim_token (on (runs ?s ! 0)) (base ?s) \<noteq> token (runs ?s ! 0)"
    by code_simp
  moreover have "sorted_wrt (<) (0 # map fst ([(1 :: nat, Next), (2, Write 1 ''todo''), (3, Take 1)] @ [(4, Beat 0), (5, Beat 1)]))"
    by simp
  note one_holder [OF ticks_text_mono create_ok [OF empty_ok] this refl refl]
  ultimately show ?thesis by (simp add: Let_def)
qed

text \<open>C30. A run whose token is no longer the claim of its ticket renews nothing with its next beat, and
  is told that it lost it.\<close>

theorem overtaken_run_learns:
  assumes "db_ok db" and "token r = Some c" and "c \<noteq> []"
    and "claim_of (on r) db \<noteq> Some (''in_progress'', Some c)"
  shows "beat now r db = (r\<lparr>lost := True\<rparr>, db)"
  using assms(4) fetch_unique [OF assms(1)]
  by (intro beat_overtaken [OF assms(2,3)]) (fastforce simp: claim_of_def some_row_iff running_def)

theorem overtaken_run_learns_witness:
  "beat ''z'' \<lparr>on = 1, token = Some ''y'', lost = False, alive = True\<rparr> sample_db =
     (\<lparr>on = 1, token = Some ''y'', lost = True, alive = True\<rparr>, sample_db)"
  using overtaken_run_learns [OF sample_ok, of "\<lparr>on = 1, token = Some ''y'', lost = False, alive = True\<rparr>" "''y''" "''z''"]
  by (simp add: claim_of_def fetch_ticket_def sample_db_def)

end
