(* ===== verification/Ticket_Reaper.thy ===== *)
theory Ticket_Reaper
  imports Ticket_Heartbeat
begin

text \<open>
  The other half of \<^verbatim>\<open>tickets/lease.py\<close> and of the reaper of
  \<^verbatim>\<open>tickets/store.py\<close>: how often a ticket whose runs keep dying is requeued, what a
  deferred ticket waits for, and the three ways in which the store loses a claim or a word:
  a reap that read before a heartbeat, a reap that meets a count it cannot read, and the last
  status of a run that no longer holds its ticket.
\<close>

section \<open>Requeues are rationed\<close>

definition meta_of :: "int \<Rightarrow> db \<Rightarrow> dict option" where
  "meta_of k db = map_option metadata (fetch_ticket (By_id k) db)"

definition count_in :: "dict \<Rightarrow> int" where
  "count_in md = or_else (int_or0 (dget md ''reclaim_count'')) 0"

definition reclaim_count :: "int \<Rightarrow> db \<Rightarrow> int" where
  "reclaim_count k db = (case meta_of k db of None \<Rightarrow> 0 | Some md \<Rightarrow> count_in md)"

lemma meta_of_rows: "rows db' = rows db \<Longrightarrow> meta_of k db' = meta_of k db"
  by (simp add: meta_of_def fetch_ticket_def)

lemma meta_of_update:
  "(\<And>r. row_id (f r) = row_id r) \<Longrightarrow> (\<And>r. metadata (f r) = metadata r) \<Longrightarrow>
     meta_of k (update_rows p f db) = meta_of k db"
  by (cases "fetch_ticket (By_id k) db") (simp_all add: meta_of_def fetch_update)

lemma dget_update:
  "k \<notin> fst ` set p \<Longrightarrow> dget (dict_update d p) k = dget d k"
  by (induction p rule: rev_induct) (auto simp: dict_update_def)

lemma dget_update_here:
  "distinct (map fst p) \<Longrightarrow> (k, v) \<in> set p \<Longrightarrow> dget (dict_update d p) k = v"
proof (induction p rule: rev_induct)
  case (snoc q p)
  obtain j w where q: "q = (j, w)" by (cases q)
  have "k = j \<Longrightarrow> v = w"
    using snoc.prems q by (force simp: image_iff)
  then show ?case using snoc q by (auto simp: dict_update_def)
qed simp

text \<open>What a status change writes into the metadata of its own ticket.\<close>

lemma set_status_meta:
  "meta_of k (snd (set_status i st dn md now id db)) =
     (if i = k then map_option (\<lambda>d. dict_update d md) (meta_of k db) else meta_of k db)"
proof (cases "fetch_ticket (By_id i) db")
  case None
  then show ?thesis by (auto simp: set_status_def meta_of_def)
next
  case (Some r)
  then show ?thesis
    by (cases "fetch_ticket (By_id k) db")
      (auto simp: set_status_def Let_def meta_of_def fetch_update dest: fetch_is)
qed

lemma update_status_meta:
  "meta_of k (snd (update_status i st role md now id db)) =
     (if i = k \<and> st \<in> set valid_status then map_option (\<lambda>d. dict_update d md) (meta_of k db) else meta_of k db)"
proof -
  have "meta_of k (snd (insert_event j r x y z n d)) = meta_of k d" for j r x y z n d
    by (rule meta_of_rows) (rule insert_event_rows)
  then have "meta_of k (snd (update_status i st role md now id db)) =
      meta_of k (if st \<in> set valid_status then snd (set_status i st (st \<in> set completed_statuses) md now id db) else db)"
    by (auto simp: update_status_def case_prod_beta split: option.split prod.split sum.split)
  then show ?thesis by (simp add: set_status_meta)
qed

lemma claim_next_meta: "meta_of k (snd (claim_next_any rep e now (\<lambda>_ d. d) db)) = meta_of k db"
proof -
  have "meta_of k (snd (claim_oldest rep ex now (\<lambda>_ d. d) db)) = meta_of k db" for ex
    by (cases "select_claimable rep ex now db") (simp_all add: claim_quiet Let_def meta_of_update)
  moreover have "meta_of k (snd (claim_event md now c)) = meta_of k (snd c)" for md c
    using meta_of_rows [OF claim_event_rows, of k md now "fst c" "snd c"] by simp
  ultimately show ?thesis by (simp add: claim_next_any_def)
qed

lemma claim_ticket_meta: "meta_of k (snd (claim_ticket i now db)) = meta_of k db"
proof -
  have "meta_of k (snd (claim_one i now db)) = meta_of k db"
    by (simp add: claim_one_def Let_def meta_of_update)
  moreover have "meta_of k (snd (claim_event md now c)) = meta_of k (snd c)" for md c
    using meta_of_rows [OF claim_event_rows, of k md now "fst c" "snd c"] by simp
  ultimately show ?thesis by (simp add: claim_ticket_def)
qed

lemma renew_meta: "meta_of k (snd (renew i tk now db)) = meta_of k db"
  by (cases tk) (simp_all add: snd_renew renew_claim_def renew_claim_token_def Let_def meta_of_update)

fun keeps_count :: "move \<Rightarrow> bool" where
  "keeps_count (Finish i st md) = (''reclaim_count'' \<notin> fst ` set md)"
| "keeps_count m = True"

lemma status_count:
  "''reclaim_count'' \<notin> fst ` set md \<Longrightarrow>
     reclaim_count k (snd (update_status i st role md now id db)) = reclaim_count k db"
  by (cases "meta_of k db") (auto simp: reclaim_count_def update_status_meta count_in_def dget_update)

lemma step_count:
  "m \<noteq> Reaper \<Longrightarrow> keeps_count m \<Longrightarrow> reclaim_count k (base (step rep e clk t m s)) = reclaim_count k (base s)"
proof (cases m)
  case Next
  then show ?thesis by (simp add: reclaim_count_def claim_next_meta)
next
  case (Take i)
  then show ?thesis by (simp add: reclaim_count_def claim_ticket_meta)
next
  case (Beat i)
  then show ?thesis
    by (simp add: reclaim_count_def beat_def Let_def case_prod_beta renew_meta)
qed (simp_all add: status_count defer_ticket_def)

definition status_of :: "int \<Rightarrow> db \<Rightarrow> string option" where
  "status_of k db = map_option status (fetch_ticket (By_id k) db)"

definition requeued :: "int \<Rightarrow> db \<Rightarrow> db \<Rightarrow> bool" where
  "requeued k db db' \<longleftrightarrow> status_of k db = Some ''in_progress'' \<and> status_of k db' = Some ''todo''"

text \<open>How often the reaper puts ticket \<open>k\<close> back to \<^verbatim>\<open>todo\<close>.\<close>

fun requeues :: "(pyval \<Rightarrow> string) \<Rightarrow> env \<Rightarrow> (nat \<Rightarrow> stamp) \<Rightarrow> int \<Rightarrow> (nat \<times> move) list \<Rightarrow> sys \<Rightarrow> int" where
  "requeues rep e clk k [] s = 0"
| "requeues rep e clk k ((t, m) # tms) s =
     (if m = Reaper \<and> requeued k (base s) (base (step rep e clk t m s)) then 1 else 0)
     + requeues rep e clk k tms (step rep e clk t m s)"

lemma count_reaped: "count_in (metadata (reaped_row m n md now r)) = n"
  by (simp add: reaped_row_def Let_def count_in_def)

lemma reaper_count:
  assumes "db_ok db" and "db' = snd (reap_stale_in_progress e ag a now id db)"
  shows "reclaim_count k db \<le> reclaim_count k db'"
    and "requeued k db db' \<Longrightarrow> reclaim_count k db' = reclaim_count k db + 1 \<and> reclaim_count k db' \<le> max_reclaims e"
proof -
  let ?n = "\<lambda>r. or_else (int_or0 (dget (metadata r) ''reclaim_count'')) 0"
  let ?r = "\<lambda>r. reaped_row (Some (max_reclaims e)) (?n r + 1) (metadata r) now r"
  let ?cut = "ag (case a of None \<Rightarrow> lease_seconds e | Some x \<Rightarrow> x)"
  have cases: "fetch_ticket (By_id k) db' = fetch_ticket (By_id k) db
      \<or> fetch_ticket (By_id k) db' = map_option (\<lambda>r. if stale ?cut r then ?r r else r) (fetch_ticket (By_id k) db)"
    using reap_fetch [OF assms(1), of k e ag a now] by (simp add: assms(2))
  have todo: "status (?r r) = ''todo'' \<Longrightarrow> ?n r + 1 \<le> max_reclaims e" for r
    by (auto simp: reaped_row_def Let_def split: if_splits)
  show "reclaim_count k db \<le> reclaim_count k db'"
    using cases by (cases "fetch_ticket (By_id k) db") (auto simp: reclaim_count_def meta_of_def count_reaped, auto simp: count_in_def)
  assume "requeued k db db'"
  then obtain r where r: "fetch_ticket (By_id k) db = Some r" and "fetch_ticket (By_id k) db' = Some (?r r)"
    using cases by (cases "fetch_ticket (By_id k) db") (auto simp: requeued_def status_of_def split: if_splits)
  then show "reclaim_count k db' = reclaim_count k db + 1 \<and> reclaim_count k db' \<le> max_reclaims e"
    using \<open>requeued k db db'\<close> todo [of r]
    by (auto simp: reclaim_count_def meta_of_def count_reaped requeued_def status_of_def) (simp add: count_in_def)
qed

lemma requeues_left:
  assumes "db_ok (base s)" and "\<forall>(t, m) \<in> set tms. keeps_count m"
  shows "requeues rep e clk k tms s \<le> max 0 (max_reclaims e - reclaim_count k (base s))"
  using assms
proof (induction tms arbitrary: s)
  case (Cons tm tms)
  obtain t m where tm: "tm = (t, m)" by (cases tm)
  let ?s = "step rep e clk t m s"
  have rest: "requeues rep e clk k tms ?s \<le> max 0 (max_reclaims e - reclaim_count k (base ?s))"
    using Cons step_ok [of s] by (simp add: tm)
  show ?case
  proof (cases "m = Reaper")
    case True
    have "base ?s = snd (reap_stale_in_progress e (ago clk t) None (clk t) id (base s))" by (simp add: True)
    from reaper_count [OF Cons.prems(1) this, of k] show ?thesis using rest by (auto simp: tm)
  next
    case False
    then show ?thesis using rest step_count [OF False] Cons.prems(2) by (simp add: tm)
  qed
qed simp

text \<open>C14. However often its runs die, a ticket is put back to \<^verbatim>\<open>todo\<close> by the reaper at most as often as
  the setting allows, less the count it already has: after that it is blocked.\<close>

theorem requeues_rationed:
  assumes "db_ok (base s)" and "\<forall>(t, m) \<in> set tms. keeps_count m"
  shows "requeues rep e clk k tms s \<le> max 0 (max_reclaims e - reclaim_count k (base s))"
  using assms by (rule requeues_left)

theorem requeues_rationed_witness:
  "requeues (\<lambda>_. []) (\<lambda>_. None) ticks_text 1 [(9, Reaper), (10, Next), (20, Reaper)] sample_sys
     \<le> max 0 (max_reclaims (\<lambda>_. None) - reclaim_count 1 (base sample_sys))"
  by (rule requeues_rationed) (simp_all add: sample_ok sample_sys_def)

section \<open>A deferred ticket waits\<close>

text \<open>What \<open>update_status\<close> leaves of the row of its ticket.\<close>

lemma update_status_row:
  assumes "fetch_ticket (By_id i) db = Some r" and "st \<in> set valid_status"
  shows "fetch_ticket (By_id i) (snd (update_status i st role md now id db)) =
    Some (r\<lparr>status := st, updated_at := now, metadata := dict_update (metadata r) md,
            completed_at := (if st \<in> set completed_statuses then Some now else completed_at r)\<rparr>)"
proof -
  let ?d = "snd (set_status i st (st \<in> set completed_statuses) md now id db)"
  have "rows (snd (update_status i st role md now id db)) = rows ?d"
    using assms(2) by (auto simp: update_status_def case_prod_beta insert_event_rows split: option.split sum.split prod.split)
  then have "fetch_ticket (By_id i) (snd (update_status i st role md now id db)) = fetch_ticket (By_id i) ?d"
    by (simp add: fetch_ticket_def)
  also have "\<dots> = Some (r\<lparr>status := st, updated_at := now, metadata := dict_update (metadata r) md,
            completed_at := (if st \<in> set completed_statuses then Some now else completed_at r)\<rparr>)"
    using assms(1) fetch_is [OF assms(1)] by (simp add: set_status_def Let_def fetch_update)
  finally show ?thesis .
qed

text \<open>C31. A ticket a run hands back is not claimable before the time it was given, and claimable from that
  time on unless its project is excluded.\<close>

theorem deferred_until:
  assumes "fetch_ticket (By_id i) db = Some r"
  shows "\<exists>q. fetch_ticket (By_id i) (snd (defer_ticket i until why now db)) = Some q \<and>
    (claimable rep ex later q \<longleftrightarrow> until \<le> later \<and> (project r = None \<or> the (project r) \<notin> set ex))"
proof -
  let ?md = "[(''retry_after'', PStr until), (''deferred_reason'', PStr why)]"
  have "dget (dict_update d ?md) ''retry_after'' = PStr until" for d
    by (simp add: dict_update_def)
  then show ?thesis
    using update_status_row [OF assms, of "''todo''" "Some ''adk_runner''" ?md now]
    by (auto simp: defer_ticket_def valid_status_def claimable_def retry_due_def split: option.split)
qed

theorem deferred_until_witness:
  "\<exists>q. fetch_ticket (By_id 1) (snd (defer_ticket 1 ''t5'' ''busy'' ''t1'' sample_db)) = Some q \<and>
    (claimable (\<lambda>_. []) [] ''t3'' q \<longleftrightarrow> ''t5'' \<le> ''t3'' \<and> (project sample_row = None \<or> the (project sample_row) \<notin> set []))"
  by (rule deferred_until) (simp add: fetch_ticket_def sample_db_def)

section \<open>What goes wrong\<close>

text \<open>C33. The reaper reads which claims are stale, and then requeues those tickets by their status alone:
  a ticket whose claim was renewed, or made anew, between the two is taken from its live run.\<close>

theorem late_reap_takes_live_claim:
  assumes "db_ok db" and "fetch_ticket (By_id k) db = Some r" and "stale cutoff r"
    and "fetch_ticket (By_id k) (mid db) = Some q" and "status q = ''in_progress''"
    and "reap_rows m cutoff now mid db = (Inr ids, db')"
  shows "\<exists>st. claim_of k db' = Some (st, None) \<and> st \<in> {''todo'', ''blocked''}"
proof -
  have "reap_each m now (filter (stale cutoff) (rows db)) (mid db) = Inr (ids, db')"
    using assms(6) by (auto simp: reap_rows_def Let_def split: sum.splits prod.splits)
  from reap_each_fetch [OF this distinct_seen [OF assms(1)], of k] show ?thesis
    using find_filter_id [OF assms(1), of k "stale cutoff"] assms(2-5) reaped_status
    by (simp add: claim_of_def)
qed

theorem late_reap_takes_live_claim_witness:
  "\<exists>st. claim_of 1 (snd (reap_rows (Some 3) ''y'' ''z'' (\<lambda>d. snd (renew_claim 1 ''z'' d)) sample_db)) = Some (st, None)
     \<and> st \<in> {''todo'', ''blocked''}"
proof -
  let ?mid = "\<lambda>d. snd (renew_claim 1 ''z'' d)"
  have r: "fetch_ticket (By_id 1) sample_db = Some sample_row"
    by (simp add: fetch_ticket_def sample_db_def)
  have "rows sample_db = [sample_row]" by (simp add: sample_db_def)
  then obtain ids db' where "reap_rows (Some 3) ''y'' ''z'' ?mid sample_db = (Inr ids, db')"
    by (auto simp: reap_rows_def stale_def Let_def)
  moreover have "stale ''y'' sample_row" by (simp add: stale_def)
  ultimately show ?thesis
    using late_reap_takes_live_claim [OF sample_ok r, of "''y''" ?mid]
    by (simp add: renew_claim_def fetch_update r)
qed

lemma reap_each_fails:
  assumes "s \<in> set ss" and "int_or0 (dget (metadata s) ''reclaim_count'') = Inl x"
  shows "\<exists>err. reap_each m now ss db = Inl err"
  using assms(1)
proof (induction ss arbitrary: db)
  case (Cons q ss)
  show ?case
  proof (cases "int_or0 (dget (metadata q) ''reclaim_count'')")
    case (Inr n)
    then have "s \<in> set ss" using Cons.prems assms(2) by auto
    from Cons.IH [OF this, of "update_rows (running (row_id q)) (reaped_row m (n + 1) (metadata q) now) db"]
    show ?thesis using Inr by (auto simp: Let_def)
  qed simp
qed simp

lemma reap_each_error: "reap_each m now ss db = Inl err \<Longrightarrow> err = Bad_count"
  by (induction ss arbitrary: db) (auto simp: Let_def split: sum.splits prod.splits)

text \<open>One stale ticket whose \<^verbatim>\<open>reclaim_count\<close> does not read as a number, and the reaper requeues
  nothing: it raises, and the store is what it was.\<close>

theorem bad_count_stops_reaper:
  assumes "s \<in> set (rows db)" and "stale (ag (lease_seconds e)) s"
    and "int_or0 (dget (metadata s) ''reclaim_count'') = Inl x"
  shows "reap_stale_in_progress e ag None now id db = (Inl Bad_count, db)"
proof -
  have "s \<in> set (filter (stale (ag (lease_seconds e))) (rows db))" using assms(1,2) by simp
  from reap_each_fails [OF this assms(3), of "Some (max_reclaims e)" now db] show ?thesis
    by (auto simp: reap_stale_in_progress_def reap_rows_def dest: reap_each_error)
qed

theorem bad_count_stops_reaper_witness:
  "reap_stale_in_progress (\<lambda>_. None) (\<lambda>_. ''y'') None ''z'' id
     (sample_db\<lparr>rows := [sample_row\<lparr>metadata := [(''reclaim_count'', PStr ''x'')]\<rparr>]\<rparr>) =
   (Inl Bad_count, sample_db\<lparr>rows := [sample_row\<lparr>metadata := [(''reclaim_count'', PStr ''x'')]\<rparr>]\<rparr>)"
  by (rule bad_count_stops_reaper [where x = ValueError and
        s = "sample_row\<lparr>metadata := [(''reclaim_count'', PStr ''x'')]\<rparr>"])
    (simp_all add: stale_def int_or0_def por_def int_of_str_def strip_def strip_by_def is_space_def is_digit_def)

text \<open>C34. A run writes its last status whatever the row says by then: a ticket that was cancelled, or that
  another run holds, takes the status of the run that lost it.\<close>

theorem last_word_of_a_lost_run:
  assumes "live i s" and "lost (runs s ! i)" and "fetch_ticket (By_id (on (runs s ! i))) (base s) = Some r"
    and "st \<in> set valid_status"
  shows "claim_of (on (runs s ! i)) (base (step rep e clk t (Finish i st md) s)) = Some (st, claimed_at r)"
  using update_status_row [OF assms(3,4)] assms(1) by (simp add: claim_of_def)

theorem last_word_of_a_lost_run_witness:
  "claim_of 1 (base (step (\<lambda>_. []) (\<lambda>_. None) ticks_text 9 (Finish 0 ''done'' [])
     \<lparr>base = sample_db\<lparr>rows := [sample_row\<lparr>status := ''cancelled''\<rparr>]\<rparr>,
      runs = [\<lparr>on = 1, token = Some ''x'', lost = True, alive = True\<rparr>]\<rparr>)) = Some (''done'', Some ''x'')"
  using last_word_of_a_lost_run [of 0 "\<lparr>base = sample_db\<lparr>rows := [sample_row\<lparr>status := ''cancelled''\<rparr>]\<rparr>,
      runs = [\<lparr>on = 1, token = Some ''x'', lost = True, alive = True\<rparr>]\<rparr>" "sample_row\<lparr>status := ''cancelled''\<rparr>"
      "''done''" "\<lambda>_. []" "\<lambda>_. None" ticks_text 9 "[]"]
  by (simp add: live_def fetch_ticket_def sample_db_def valid_status_def)

text \<open>Two writers of metadata: what the second read before the first wrote is what stays.\<close>

lemma metadata_update_lost:
  assumes "fetch_ticket (By_id i) db = Some r"
    and "mid db = snd (set_status i st1 False p1 now1 id db)"
  shows "meta_of i (snd (set_status i st2 False p2 now2 mid db)) = Some (dict_update (metadata r) p2)"
  using assms fetch_is [OF assms(1)]
  by (simp add: set_status_def Let_def meta_of_def fetch_update)

end
