(* ===== verification/Subtasks.thy ===== *)
theory Subtasks
  imports Ticket_Store
begin

text \<open>
  The subtasks of a ticket: \<^verbatim>\<open>tickets/subtasks.py\<close>. They are not rows: a plan is one
  event, every change of a subtask's status another, and the current state is the last plan
  with the later changes applied in order. The events are read oldest first, and at most a
  thousand of them.
\<close>

section \<open>Writing\<close>

definition subtask_statuses :: "string list" where
  "subtask_statuses = [''pending'', ''running'', ''done'', ''failed'', ''skipped'']"

definition normal_status :: "(pyval \<Rightarrow> string) \<Rightarrow> pyval \<Rightarrow> string" where
  "normal_status rep v =
     (let s = lower (strip (py_str rep (por v (PStr ''pending''))))
      in if s \<in> set subtask_statuses then s else ''pending'')"

definition planned_item :: "(pyval \<Rightarrow> string) \<Rightarrow> nat \<Rightarrow> dict \<Rightarrow> dict" where
  "planned_item rep n it =
     (let name = strip (py_str rep (por (por (dget it ''slug'') (dget it ''id''))
                    (PStr (''sub-'' @ str_of_int (int n + 1)))))
      in [(''slug'', PStr name),
          (''goal'', PStr (take_chars 300 (py_str rep (por (por (dget it ''goal'') (dget it ''title'')) (PStr name))))),
          (''status'', PStr (normal_status rep (dget it ''status'')))])"

fun planned_items :: "(pyval \<Rightarrow> string) \<Rightarrow> nat \<Rightarrow> pyval list \<Rightarrow> dict list" where
  "planned_items rep n [] = []"
| "planned_items rep n (v # vs) =
     (case v of PDict it \<Rightarrow> planned_item rep n it # planned_items rep (Suc n) vs
      | _ \<Rightarrow> planned_items rep (Suc n) vs)"

text \<open>The plan, recorded. A failure of the store is the caller's.\<close>

definition set_subtasks ::
  "(pyval \<Rightarrow> string) \<Rightarrow> int \<Rightarrow> pyval list \<Rightarrow> string option \<Rightarrow> stamp \<Rightarrow> db \<Rightarrow> dict list sres \<times> db" where
  "set_subtasks rep i items role now db =
     (let subs = planned_items rep 0 items
      in if subs = [] then (Inr [], db)
         else case add_event i role ''subtasks_planned''
                     (Some (''decomposed into '' @ str_of_int (int (length subs)) @ '' subtasks''))
                     [(''subtasks'', PList (map PDict subs))] now db of
                (Inl e, db') \<Rightarrow> (Inl e, db')
              | (Inr _, db') \<Rightarrow> (Inr subs, db'))"

section \<open>Reading\<close>

definition event_limit :: nat where
  "event_limit = 1000"

definition plan_of :: "event \<Rightarrow> dict list option" where
  "plan_of ev =
     (if kind ev = ''subtasks_planned''
      then (case dget (ev_meta ev) ''subtasks'' of
              PList vs \<Rightarrow> Some (List.map_filter (\<lambda>v. case v of PDict d \<Rightarrow> Some d | _ \<Rightarrow> None) vs)
            | _ \<Rightarrow> None)
      else None)"

definition change_of :: "(pyval \<Rightarrow> string) \<Rightarrow> event \<Rightarrow> (string \<times> string) option" where
  "change_of rep ev =
     (if kind ev = ''subtask_update'' \<and> truthy (dget (ev_meta ev) ''slug'')
      then Some (py_str rep (dget (ev_meta ev) ''slug''),
                 py_str rep (por (dget (ev_meta ev) ''status'') (PStr ''pending'')))
      else None)"

definition replay :: "(pyval \<Rightarrow> string) \<Rightarrow> dict list \<times> (string \<times> string) list \<Rightarrow> event \<Rightarrow> dict list \<times> (string \<times> string) list" where
  "replay rep st ev =
     (case plan_of ev of
        Some ds \<Rightarrow> (ds, [])
      | None \<Rightarrow> (case change_of rep ev of Some c \<Rightarrow> (fst st, snd st @ [c]) | None \<Rightarrow> st))"

text \<open>\<open>by_slug\<close> maps a slug to the last subtask of that name; a change writes into it, or adds a
  subtask that was not planned.\<close>

fun set_last :: "string \<Rightarrow> string \<Rightarrow> dict list \<Rightarrow> dict list option" where
  "set_last name st [] = None"
| "set_last name st (d # ds) =
     (case set_last name st ds of
        Some ds' \<Rightarrow> Some (d # ds')
      | None \<Rightarrow> if dget d ''slug'' = PStr name then Some (set_at d ''status'' (PStr st) # ds) else None)"

definition apply_change :: "dict list \<Rightarrow> string \<times> string \<Rightarrow> dict list" where
  "apply_change ds c =
     (case set_last (fst c) (snd c) ds of
        Some ds' \<Rightarrow> ds'
      | None \<Rightarrow> ds @ [[(''slug'', PStr (fst c)), (''goal'', PStr (fst c)), (''status'', PStr (snd c))]])"

text \<open>A list or a dictionary as the key of \<open>by_slug\<close> raises.\<close>

definition hashable :: "pyval \<Rightarrow> bool" where
  "hashable v \<longleftrightarrow> \<not> is_list v \<and> \<not> is_dict v"

definition state_of :: "(pyval \<Rightarrow> string) \<Rightarrow> event list \<Rightarrow> dict list res" where
  "state_of rep evs =
     (let (planned, changes) = foldl (replay rep) ([], []) evs
      in if list_all (\<lambda>d. hashable (dget d ''slug'')) planned
         then Inr (foldl apply_change planned changes)
         else Inl TypeError)"

definition get_subtasks :: "(pyval \<Rightarrow> string) \<Rightarrow> int \<Rightarrow> db \<Rightarrow> dict list res" where
  "get_subtasks rep i db = state_of rep (comments i event_limit db)"

datatype update_answer = Bad_subtask_status | Missing_slug | Now_are "dict list res"

definition update_subtask ::
  "(pyval \<Rightarrow> string) \<Rightarrow> int \<Rightarrow> string \<Rightarrow> string \<Rightarrow> string option \<Rightarrow> stamp \<Rightarrow> db \<Rightarrow> update_answer sres \<times> db" where
  "update_subtask rep i name st role now db =
     (let st' = lower (strip st); name' = strip name
      in if st' \<notin> set subtask_statuses then (Inr Bad_subtask_status, db)
         else if name' = [] then (Inr Missing_slug, db)
         else case add_event i role ''subtask_update''
                     (Some (name' @ '' '' @ [CHR 0xE2, CHR 0x86, CHR 0x92] @ '' '' @ st'))
                     [(''slug'', PStr name'), (''status'', PStr st')] now db of
                (Inl e, db') \<Rightarrow> (Inl e, db')
              | (Inr _, db') \<Rightarrow> (Inr (Now_are (get_subtasks rep i db')), db'))"

section \<open>Progress\<close>

record progress =
  p_total :: nat
  p_done :: int
  p_counts :: "(pyval \<times> int) list"
  p_fraction :: rat

definition shown_status :: "dict \<Rightarrow> pyval" where
  "shown_status d = por (dget d ''status'') (PStr ''pending'')"

definition bump :: "(pyval \<times> int) list \<Rightarrow> pyval \<Rightarrow> (pyval \<times> int) list" where
  "bump cs v = set_at cs v ((case map_of cs v of None \<Rightarrow> 0 | Some n \<Rightarrow> n) + 1)"

definition count_of :: "(pyval \<times> int) list \<Rightarrow> pyval \<Rightarrow> int" where
  "count_of cs v = (case map_of cs v of None \<Rightarrow> 0 | Some n \<Rightarrow> n)"

definition progress :: "dict list \<Rightarrow> progress" where
  "progress subs =
     (let cs = foldl bump [] (map shown_status subs);
          n = length subs;
          k = count_of cs (PStr ''done'') + count_of cs (PStr ''skipped'')
      in \<lparr>p_total = n, p_done = k, p_counts = cs,
          p_fraction = (if n = 0 then 0 else of_int k / of_nat n)\<rparr>)"

section \<open>Facts\<close>

lemma count_bump: "count_of (bump cs v) w = count_of cs w + (if w = v then 1 else 0)"
  by (simp add: count_of_def bump_def map_of_set_at)

lemma counts_are_counts: "count_of (foldl bump cs vs) w = count_of cs w + int (count_list vs w)"
  by (induction vs arbitrary: cs) (simp_all add: count_bump)

text \<open>The progress the chart shows: every status is counted as often as it occurs, and the share of
  subtasks done or skipped lies between nothing and all.\<close>

theorem progress_counts:
  "count_of (p_counts (progress subs)) v = int (count_list (map shown_status subs) v) \<and>
   0 \<le> p_fraction (progress subs) \<and> p_fraction (progress subs) \<le> 1"
proof -
  let ?vs = "map shown_status subs"
  have two: "count_list xs (PStr ''done'') + count_list xs (PStr ''skipped'') \<le> length xs" for xs
    by (induction xs) auto
  have counts: "count_of (foldl bump [] ?vs) w = int (count_list ?vs w)" for w
    using counts_are_counts [of "[]" ?vs w] by (simp add: count_of_def)
  then have "p_done (progress subs) = int (count_list ?vs (PStr ''done'') + count_list ?vs (PStr ''skipped''))"
    by (simp add: progress_def Let_def)
  then have "0 \<le> p_done (progress subs)" and "p_done (progress subs) \<le> int (length subs)"
    using two [of ?vs] by simp_all
  moreover have "p_fraction (progress subs) =
      (if length subs = 0 then 0 else of_int (p_done (progress subs)) / of_int (int (length subs)))"
    by (simp add: progress_def Let_def)
  ultimately have "0 \<le> p_fraction (progress subs) \<and> p_fraction (progress subs) \<le> 1"
    by (cases "length subs = 0") (simp_all only: if_True if_False of_int_le_iff of_int_0_le_iff
        divide_le_eq_1 zero_le_divide_iff, auto)
  then show ?thesis using counts by (simp add: progress_def Let_def)
qed

lemma insort_snoc: "f y \<le> f x \<Longrightarrow> insort_key f y (zs @ [x]) = insort_key f y zs @ [x]"
  by (induction zs) auto

lemma sort_key_snoc: "(\<And>y. y \<in> set xs \<Longrightarrow> f y \<le> f x) \<Longrightarrow> sort_key f (xs @ [x]) = sort_key f xs @ [x]"
  by (induction xs) (simp_all add: insort_snoc)

text \<open>A new event is the last, when no event of its ticket is later.\<close>

definition no_later :: "stamp \<Rightarrow> int \<Rightarrow> db \<Rightarrow> bool" where
  "no_later now i db \<longleftrightarrow> (\<forall>e \<in> set (events db). ev_ticket e = i \<longrightarrow> ev_at e \<le> now)"

definition events_of :: "int \<Rightarrow> db \<Rightarrow> event list" where
  "events_of i db = sort_key (\<lambda>e. (ev_at e, ev_id e)) (filter (\<lambda>e. ev_ticket e = i) (events db))"

lemma events_grow:
  assumes "db_ok db" and "no_later now i db" and "add_event i role knd txt md now db = (Inr n, db')"
  shows "events_of i db' = events_of i db @ [\<lparr>ev_id = event_seq db + 1, ev_ticket = i, agent_role = role,
    kind = knd, ev_body = txt, ev_meta = md, ev_at = now\<rparr>]"
proof -
  have "events db' = events db @ [\<lparr>ev_id = event_seq db + 1, ev_ticket = i, agent_role = role,
      kind = knd, ev_body = txt, ev_meta = md, ev_at = now\<rparr>]"
    using assms(3) by (auto simp: add_event_def insert_event_def Let_def split: if_splits)
  moreover have "(ev_at e, ev_id e) \<le> (now, event_seq db + 1)" if "e \<in> set (events db)" "ev_ticket e = i" for e
    using that assms(1,2) by (fastforce simp: no_later_def db_ok_def)
  ultimately show ?thesis
    by (simp add: events_of_def del: less_eq_prod_simp) (subst sort_key_snoc, auto)
qed

lemma comments_events: "comments i n db = take n (events_of i db)"
  by (simp add: comments_def fetch_events_def events_of_def)

lemma event_made:
  assumes "add_event i role knd txt md now db = (r, db')" and "i \<in> row_ids db"
  shows "\<exists>n. r = Inr n"
  using assms by (auto simp: add_event_def insert_event_def some_row_id Let_def)

text \<open>C36. Past the thousandth event of a ticket its subtasks stand still: whatever a later update says, it
  is recorded and never read.\<close>

theorem updates_unseen_past_the_limit:
  assumes "db_ok db" and "no_later now i db" and "event_limit \<le> length (events_of i db)"
    and "update_subtask rep i name st role now db = (Inr (Now_are subs), db')"
  shows "subs = get_subtasks rep i db"
proof -
  obtain b md n where add: "add_event i role ''subtask_update'' b md now db = (Inr n, db')"
    and subs: "subs = get_subtasks rep i db'"
    using assms(4) by (auto simp: update_subtask_def Let_def split: if_splits prod.splits sum.splits)
  show ?thesis
    using events_grow [OF assms(1,2) add] assms(3) by (simp add: subs get_subtasks_def comments_events)
qed

text \<open>A ticket with a thousand events.\<close>

definition long_db :: db where
  "long_db = \<lparr>rows = [ticket.extend (blank_draft\<lparr>row_id := 1\<rparr>) (row.fields None)],
     events = map (\<lambda>n. \<lparr>ev_id = int n, ev_ticket = 1, agent_role = None, kind = ''comment'', ev_body = None,
                      ev_meta = [], ev_at = ''t''\<rparr>) [0..<1000],
     next_n = 100, row_seq = 1, event_seq = 1000\<rparr>"

lemma long_ok: "db_ok long_db"
  by (auto simp: db_ok_def long_db_def row_ids_def ticket.defs blank_draft_def sorted_wrt_map comp_def)

lemma long_events: "length (events_of 1 long_db) = 1000"
  by (simp add: events_of_def long_db_def filter_map comp_def)

theorem updates_unseen_past_the_limit_witness:
  "\<exists>subs db'. update_subtask (\<lambda>_. []) 1 ''a'' ''done'' None ''u'' long_db = (Inr (Now_are subs), db')
     \<and> subs = get_subtasks (\<lambda>_. []) 1 long_db"
proof -
  have one: "1 \<in> row_ids long_db" by (simp add: row_ids_def long_db_def ticket.defs)
  have late: "no_later ''u'' 1 long_db" by (auto simp: no_later_def long_db_def)
  have "strip ''a'' = ''a''" "lower (strip ''done'') = ''done''" by code_simp+
  then obtain subs db' where
    u: "update_subtask (\<lambda>_. []) 1 ''a'' ''done'' None ''u'' long_db = (Inr (Now_are subs), db')"
    using one by (auto simp: update_subtask_def Let_def add_event_def insert_event_def some_row_id subtask_statuses_def)
  have "event_limit \<le> length (events_of 1 long_db)" by (simp add: event_limit_def long_events)
  from updates_unseen_past_the_limit [OF long_ok late this u] u show ?thesis by blast
qed

section \<open>What is written is read back\<close>

lemma replay_snoc:
  "foldl (replay rep) st (evs @ [ev]) = replay rep (foldl (replay rep) st evs) ev"
  by simp

lemma planned_slugs: "d \<in> set (planned_items rep n vs) \<Longrightarrow> hashable (dget d ''slug'')"
  by (induction rep n vs rule: planned_items.induct)
    (auto simp: planned_item_def hashable_def Let_def split: pyval.splits)

lemma map_filter_dicts: "List.map_filter (\<lambda>v. case v of PDict d \<Rightarrow> Some d | _ \<Rightarrow> None) (map PDict ds) = ds"
  by (induction ds) (simp_all add: List.map_filter_simps)

lemma set_subtasks_event:
  assumes "set_subtasks rep i items role now db = (Inr subs, db')" and "subs \<noteq> []"
  shows "subs = planned_items rep 0 items"
    and "\<exists>b n. add_event i role ''subtasks_planned'' b [(''subtasks'', PList (map PDict subs))] now db = (Inr n, db')"
proof -
  let ?subs = "planned_items rep 0 items"
  let ?b = "Some (''decomposed into '' @ str_of_int (int (length ?subs)) @ '' subtasks'')"
  obtain r d where add: "add_event i role ''subtasks_planned'' ?b [(''subtasks'', PList (map PDict ?subs))] now db = (r, d)"
    by fastforce
  have "?subs \<noteq> []" using assms by (auto simp: set_subtasks_def)
  then have "(Inr subs, db') = (case r of Inl e \<Rightarrow> (Inl e, d) | Inr _ \<Rightarrow> (Inr ?subs, d))"
    using assms(1) add by (simp add: set_subtasks_def)
  then obtain n where "r = Inr n" "subs = ?subs" "db' = d" by (cases r) simp_all
  then show "subs = ?subs"
    and "\<exists>b n. add_event i role ''subtasks_planned'' b [(''subtasks'', PList (map PDict subs))] now db = (Inr n, db')"
    using add by blast+
qed

text \<open>C35. While a ticket has fewer events than the limit of a listing (1000) and none of them is stamped later
  than now, a plan recorded now and not empty is read back exactly as it was recorded: it replaces every
  earlier plan and every earlier change. Past that limit this fails.\<close>

theorem plan_reads_back:
  assumes "db_ok db" and "no_later now i db" and "length (events_of i db) < event_limit"
    and "set_subtasks rep i items role now db = (Inr subs, db')" and "subs \<noteq> []"
  shows "get_subtasks rep i db' = Inr subs"
proof -
  obtain b n where add: "add_event i role ''subtasks_planned'' b [(''subtasks'', PList (map PDict subs))] now db = (Inr n, db')"
    and subs: "subs = planned_items rep 0 items"
    using set_subtasks_event [OF assms(4,5)] by blast
  define ev where "ev = \<lparr>ev_id = event_seq db + 1, ev_ticket = i, agent_role = role, kind = ''subtasks_planned'',
    ev_body = b, ev_meta = [(''subtasks'', PList (map PDict subs))], ev_at = now\<rparr>"
  have "comments i event_limit db' = events_of i db @ [ev]"
    using events_grow [OF assms(1,2) add] assms(3) by (simp add: comments_events ev_def)
  moreover have "replay rep st ev = (subs, [])" for st
    by (simp add: replay_def plan_of_def ev_def map_filter_dicts)
  moreover have "list_all (\<lambda>d. hashable (dget d ''slug'')) subs"
    unfolding subs list_all_iff using planned_slugs by blast
  ultimately show ?thesis by (simp add: get_subtasks_def state_of_def)
qed

lemma set_last_has:
  "set_last name st ds = Some ds' \<Longrightarrow> \<exists>d \<in> set ds'. dget d ''slug'' = PStr name \<and> dget d ''status'' = PStr st"
  by (induction ds arbitrary: ds') (auto split: option.splits if_splits)

lemma apply_change_has:
  "\<exists>d \<in> set (apply_change ds (name, st)). dget d ''slug'' = PStr name \<and> dget d ''status'' = PStr st"
  by (cases "set_last name st ds") (auto simp: apply_change_def dest: set_last_has)

text \<open>An update that was accepted shows: the ticket then has a subtask of that name with that status.\<close>

theorem update_shows:
  assumes "db_ok db" and "no_later now i db" and "length (events_of i db) < event_limit"
    and "update_subtask rep i name st role now db = (Inr (Now_are (Inr subs)), db')"
  shows "\<exists>d \<in> set subs. dget d ''slug'' = PStr (strip name) \<and> dget d ''status'' = PStr (lower (strip st))"
proof -
  let ?md = "[(''slug'', PStr (strip name)), (''status'', PStr (lower (strip st)))]"
  obtain b n where add: "add_event i role ''subtask_update'' b ?md now db = (Inr n, db')"
    and subs: "get_subtasks rep i db' = Inr subs" and "strip name \<noteq> []" "lower (strip st) \<noteq> []"
    using assms(4) by (auto simp: update_subtask_def Let_def subtask_statuses_def split: if_splits prod.splits sum.splits)
  define ev where "ev = \<lparr>ev_id = event_seq db + 1, ev_ticket = i, agent_role = role, kind = ''subtask_update'',
    ev_body = b, ev_meta = ?md, ev_at = now\<rparr>"
  have all: "comments i event_limit db' = events_of i db @ [ev]"
    using events_grow [OF assms(1,2) add] assms(3) by (simp add: comments_events ev_def)
  obtain ds cs where old: "foldl (replay rep) ([], []) (events_of i db) = (ds, cs)" by fastforce
  have "replay rep (ds, cs) ev = (ds, cs @ [(strip name, lower (strip st))])"
    using \<open>strip name \<noteq> []\<close> \<open>lower (strip st) \<noteq> []\<close> by (simp add: replay_def plan_of_def change_of_def ev_def)
  then have "subs = apply_change (foldl apply_change ds cs) (strip name, lower (strip st))"
    using subs by (simp add: get_subtasks_def all state_of_def old split: if_splits)
  then show ?thesis using apply_change_has by simp
qed

text \<open>A ticket without events.\<close>

definition short_db :: db where
  "short_db = long_db\<lparr>events := [], event_seq := 0\<rparr>"

lemma short_facts: "db_ok short_db" "no_later ''u'' 1 short_db" "events_of 1 short_db = []" "1 \<in> row_ids short_db"
  using long_ok by (simp_all add: db_ok_def short_db_def no_later_def events_of_def row_ids_def long_db_def ticket.defs)

theorem plan_reads_back_witness:
  "\<exists>subs db'. set_subtasks (\<lambda>_. []) 1 [PDict [(''slug'', PStr ''a'')]] None ''u'' short_db = (Inr subs, db')
     \<and> get_subtasks (\<lambda>_. []) 1 db' = Inr subs"
proof -
  let ?items = "[PDict [(''slug'', PStr ''a'')]]"
  obtain subs db' where s: "set_subtasks (\<lambda>_. []) 1 ?items None ''u'' short_db = (Inr subs, db')" and "subs \<noteq> []"
    using short_facts(4) by (auto simp: set_subtasks_def Let_def add_event_def insert_event_def some_row_id)
  from plan_reads_back [OF short_facts(1,2) _ s this(2)] s show ?thesis
    by (simp add: short_facts(3) event_limit_def)
qed

theorem update_shows_witness:
  "\<exists>subs db'. update_subtask (\<lambda>_. []) 1 ''a'' ''done'' None ''u'' short_db = (Inr (Now_are (Inr subs)), db') \<and>
     (\<exists>d \<in> set subs. dget d ''slug'' = PStr (strip ''a'') \<and> dget d ''status'' = PStr (lower (strip ''done'')))"
proof -
  have stripped: "strip ''a'' = ''a''" "lower (strip ''done'') = ''done''" by code_simp+
  let ?ev = "\<lparr>ev_id = 1, ev_ticket = 1, agent_role = None, kind = ''subtask_update'',
    ev_body = Some (''a'' @ '' '' @ [CHR 0xE2, CHR 0x86, CHR 0x92] @ '' '' @ ''done''),
    ev_meta = [(''slug'', PStr ''a''), (''status'', PStr ''done'')], ev_at = ''u''\<rparr>"
  have "update_subtask (\<lambda>_. []) 1 ''a'' ''done'' None ''u'' short_db =
      (Inr (Now_are (state_of (\<lambda>_. []) [?ev])), short_db\<lparr>events := [?ev], event_seq := 1\<rparr>)"
    using short_facts(4)
    by (simp add: update_subtask_def stripped Let_def add_event_def insert_event_def some_row_id subtask_statuses_def
        short_db_def get_subtasks_def comments_def fetch_events_def event_limit_def)
  moreover obtain subs where "state_of (\<lambda>_. []) [?ev] = Inr subs"
    by (simp add: state_of_def replay_def plan_of_def change_of_def)
  ultimately show ?thesis
    using update_shows [OF short_facts(1,2), of "\<lambda>_. []" "''a''" "''done''" None] by (simp add: short_facts(3) event_limit_def)
qed

end
