(* ===== verification/Run_Verdict.thy ===== *)
theory Run_Verdict
  imports Ticket_Db Regex
begin

text \<open>
  What the runner reads from the session state a pipeline run left behind:
  \<^verbatim>\<open>runtime/adk_runner/_base.py\<close>, \<^verbatim>\<open>runtime/adk_runner/_verdict.py\<close> and
  \<^verbatim>\<open>block_reason\<close> of \<^verbatim>\<open>runtime/prompts/enhancer.py\<close>.
\<close>

section \<open>The verdict\<close>

definition verdict_tokens :: "string list" where
  "verdict_tokens = [''scope_violation'', ''partial'', ''pass'', ''fail'']"

text \<open>\<^verbatim>\<open>_VERDICT_TO_STATUS.get(outcome, "blocked")\<close>.\<close>

definition status_for :: "string \<Rightarrow> string" where
  "status_for v =
     (if v = ''pass'' then ''done'' else if v = ''scope_violation'' then ''cancelled'' else ''blocked'')"

definition lead_marks :: string where
  "lead_marks = ''`*_-> ''"

definition leading_token :: "string \<Rightarrow> string" where
  "leading_token t =
     (case find (\<lambda>tok. starts_with tok (lower (lstrip_chars lead_marks t))) verdict_tokens of
        None \<Rightarrow> ''fail'' | Some tok \<Rightarrow> tok)"

definition legacy_verdict :: "(pyval \<Rightarrow> string) \<Rightarrow> string \<Rightarrow> string option" where
  "legacy_verdict rep t =
     (if starts_with ''{'' t
      then case json_loads t of
             Some (PDict d) \<Rightarrow>
               if truthy (dget d ''verdict'') then Some (lower (py_str rep (dget d ''verdict''))) else None
           | _ \<Rightarrow> None
      else None)"

definition extract_verdict :: "(pyval \<Rightarrow> string) \<Rightarrow> state \<Rightarrow> string" where
  "extract_verdict rep st =
     (case sget st ''feedback_verdict'' of
        PDict d \<Rightarrow> lower (py_str rep (dget_or d ''verdict'' (PStr ''fail'')))
      | PStr said \<Rightarrow>
          (let t = strip said
           in if t = [] then ''fail''
              else case legacy_verdict rep t of Some v \<Rightarrow> v | None \<Rightarrow> leading_token t)
      | _ \<Rightarrow> ''fail'')"

definition extract_verifier :: "state \<Rightarrow> pyval" where
  "extract_verifier st = (case sget st ''verifier_verdict'' of PDict d \<Rightarrow> dget d ''verdict'' | _ \<Rightarrow> PNone)"

section \<open>The reason\<close>

definition reason_from_dict :: "dict \<Rightarrow> pyval" where
  "reason_from_dict d = por (dget d ''rationale'') (dget d ''reason'')"

text \<open>\<^verbatim>\<open>strip(" :\u2014-\n\t")\<close>, first from the left and then, on the reversed bytes, from the right.\<close>

fun drop_marks :: "string \<Rightarrow> string \<Rightarrow> string" where
  "drop_marks dash [] = []"
| "drop_marks dash (c # s) =
     (if c \<in> set ('' :-'' @ [CHR 0x0A, CHR 0x09]) then drop_marks dash s
      else if starts_with dash (c # s) then drop_marks dash (drop 2 s) else c # s)"

definition strip_marks :: "string \<Rightarrow> string" where
  "strip_marks s = rev (drop_marks (rev em_dash) (rev (drop_marks em_dash s)))"

definition one_line :: "string \<Rightarrow> string" where
  "one_line s = map (\<lambda>c. if c = CHR 0x0A \<or> c = CHR 0x09 then CHR '' '' else c) s"

definition strip_leading_verdict :: "string \<Rightarrow> string" where
  "strip_leading_verdict s =
     (let h = lstrip_chars lead_marks s;
          h' = (case find (\<lambda>tok. starts_with tok (lower h)) verdict_tokens of
                  None \<Rightarrow> h | Some tok \<Rightarrow> drop (length tok) h)
      in one_line (strip_marks h'))"

definition reason_from_str :: "string \<Rightarrow> pyval" where
  "reason_from_str said =
     (let s = strip said;
          got = (if starts_with ''{'' s
                 then case json_loads s of Some (PDict d) \<Rightarrow> reason_from_dict d | _ \<Rightarrow> PNone
                 else PNone)
      in if got \<noteq> PNone then got else PStr (strip_leading_verdict s))"

definition ellipsis :: string where
  "ellipsis = [CHR 0xE2, CHR 0x80, CHR 0xA6]"

definition reason_max_chars :: nat where
  "reason_max_chars = 300"

definition clip :: "string \<Rightarrow> string" where
  "clip s =
     (let t = join '' '' (split_ws s)
      in if num_chars t > reason_max_chars
         then rev (dropWhile is_space (rev (take_chars (reason_max_chars - 1) t))) @ ellipsis else t)"

definition abort_reason :: "(pyval \<Rightarrow> string) \<Rightarrow> state \<Rightarrow> string option" where
  "abort_reason rep st =
     (let ab = sget st ''_pipeline_abort'';
          why = (if ab = PStr ''deadline'' then ''the wall-clock deadline'' else py_str rep ab);
          detail = strip (py_str rep (por (sget st ''_pipeline_abort_detail'') (PStr [])));
          t = ''not judged '' @ em_dash @ '' the pipeline stopped at '' @ why
      in if \<not> truthy ab then None else Some (if detail = [] then t else t @ '': '' @ detail))"

text \<open>A rationale that is neither a text nor empty has no \<^verbatim>\<open>split\<close>.\<close>

definition extract_reason :: "(pyval \<Rightarrow> string) \<Rightarrow> state \<Rightarrow> string res" where
  "extract_reason rep st =
     (case abort_reason rep st of
        Some a \<Rightarrow> Inr (clip a)
      | None \<Rightarrow>
          (let v = (case sget st ''feedback_verdict'' of
                      PDict d \<Rightarrow> reason_from_dict d
                    | PStr said \<Rightarrow> if strip said = [] then PNone else reason_from_str said
                    | _ \<Rightarrow> PNone)
           in if \<not> truthy v then Inr ''no rationale provided''
              else case v of PStr s \<Rightarrow> Inr (clip s) | _ \<Rightarrow> Inl AttributeError))"

section \<open>The enhancer's refusal\<close>

definition sentinel :: string where
  "sentinel = ''ENHANCE_BLOCKED''"

definition not_a_refusal :: "string list" where
  "not_a_refusal =
     [''already complete'', ''already in a complete'', ''already actionable'',
      ''already in the required'', ''already in this shape'', ''no enhancement'',
      ''needs no enhancement'', ''not vague'', ''no ambiguity'', ''is clear'',
      ''meets all rules'', ''nothing to add'', ''nothing to clarify'',
      ''no changes needed'', ''no clarification'']"

definition block_reason :: "string \<Rightarrow> string \<Rightarrow> string option" where
  "block_reason dflt t =
     (let s = strip t
      in if \<not> starts_with sentinel s then None
         else case find_char (CHR '':'') s of
                None \<Rightarrow> Some (take_chars 300 s)
              | Some n \<Rightarrow>
                  (let why = strip (drop (Suc n) s)
                   in if why \<noteq> [] \<and> list_ex (\<lambda>p. contains p (lower why)) not_a_refusal then None
                      else Some (if why = [] then dflt else take_chars 300 why)))"

definition enhancer_block_reason :: "state \<Rightarrow> string option" where
  "enhancer_block_reason st =
     (case sget st ''enhanced_body'' of
        PStr s \<Rightarrow> block_reason ''ticket body too vague for the enhancer to act on'' s
      | _ \<Rightarrow> None)"

section \<open>The live verifier's answer\<close>

definition tick3 :: rx where
  "tick3 = Lit ''```''"

text \<open>The first group of this expression is the object in the fence.\<close>

definition fenced_object :: rx where
  "fenced_object =
     seqs [tick3, Alt (Lit ''json'') (Lit []), Star sp,
           Group 1 (seqs [Lit ''{'', Star (One (\<lambda>c. c \<noteq> CHR ''}'')), Lit ''}'']), Star sp, tick3]"

definition fenced_objects :: "string \<Rightarrow> string list" where
  "fenced_objects t = map (\<lambda>g. case map_of g 1 of None \<Rightarrow> [] | Some s \<Rightarrow> s) (matches_of fenced_object t)"

definition verdict_object :: "string \<Rightarrow> dict option" where
  "verdict_object s =
     (case json_loads s of Some (PDict d) \<Rightarrow> if has_key d ''ok'' then Some d else None | _ \<Rightarrow> None)"

definition first_some :: "'a option list \<Rightarrow> 'a option" where
  "first_some xs = (case filter (\<lambda>x. x \<noteq> None) xs of [] \<Rightarrow> None | x # _ \<Rightarrow> x)"

definition extract_live_verifier :: "(pyval \<Rightarrow> string) \<Rightarrow> state \<Rightarrow> dict option" where
  "extract_live_verifier rep st =
     (let ab = sget st ''_pipeline_abort''
      in if truthy ab
         then Some [(''ok'', PBool False),
                    (''rationale'', PStr (''verification aborted ('' @ py_str rep ab @ '') '' @ em_dash
                       @ '' treated as a veto, not a pass''))]
         else case sget st ''live_verifier_verdict'' of
                PDict d \<Rightarrow> if has_key d ''ok'' then Some d else None
              | PStr said \<Rightarrow>
                  (let t = strip said
                   in first_some (map verdict_object
                        (rev (fenced_objects t) @ (if starts_with ''{'' t then [t] else []))))
              | _ \<Rightarrow> None)"

end
