(* ===== verification/Ship_Paths.thy ===== *)
theory Ship_Paths
  imports Py_Strings
begin

text \<open>
  Which paths a run may ship, and which of them are tests:
  \<^verbatim>\<open>runtime/git_pr/_excludes.py\<close>. A path is relative to the repository.
\<close>

section \<open>Paths that are never shipped\<close>

definition exclude_pathspecs :: "string list" where
  "exclude_pathspecs =
     ['':(exclude)graphify-out'', '':(exclude).codegraph'', '':(exclude).codegraph.build.lock'',
      '':(exclude).aiforge'', '':(exclude).aiforge-worktrees'', '':(exclude).aiforge-workspace'',
      '':(exclude).aiforge-venv'', '':(exclude).aiforge-contracts'', '':(exclude).aiforge-baseline'',
      '':(exclude).idea'', '':(exclude).vscode'', '':(exclude).DS_Store'', '':(exclude).env'',
      '':(exclude).venv'', '':(exclude)venv'', '':(exclude,glob)**/perf.ndjson'',
      '':(exclude)node_modules'', '':(exclude,glob)**/node_modules/**'', '':(exclude)dist'',
      '':(exclude)build'', '':(exclude)target'', '':(exclude,glob)**/__pycache__/**'',
      '':(exclude,glob)**/*.py[cod]'', '':(exclude,glob)**/*.class'', '':(exclude,glob)**/*.log'',
      '':(exclude,glob)**/.pytest_cache/**'', '':(exclude,glob)**/.ruff_cache/**'',
      '':(exclude,glob)**/.mypy_cache/**'']"

definition exclude_segments :: "string list" where
  "exclude_segments =
     [''graphify-out'', ''.codegraph'', ''.aiforge'', ''.aiforge-worktrees'', ''.idea'', ''.vscode'',
      ''__pycache__'', ''.pytest_cache'', ''.ruff_cache'', ''.mypy_cache'',
      ''node_modules'', ''.venv'', ''venv'', ''.git'']"

definition exclude_toplevel :: "string list" where
  "exclude_toplevel = [''build'', ''dist'', ''target'', ''env'']"

definition exclude_basenames :: "string list" where
  "exclude_basenames = [''.DS_Store'', ''.aiforge-workspace'', ''.env'', ''perf.ndjson'']"

definition exclude_suffixes :: "string list" where
  "exclude_suffixes = [''.pyc'', ''.pyo'', ''.pyd'', ''.class'', ''.log'']"

text \<open>\<^verbatim>\<open>while s.startswith("./"): s = s[2:]\<close>.\<close>

fun drop_dots :: "string \<Rightarrow> string" where
  "drop_dots (c # d # s) = (if c = CHR ''.'' \<and> d = CHR ''/'' then drop_dots s else c # d # s)"
| "drop_dots s = s"

definition forward :: "string \<Rightarrow> string" where
  "forward s = map (\<lambda>c. if c = CHR 0x5C then CHR ''/'' else c) s"

definition normal_path :: "string \<Rightarrow> string" where
  "normal_path rel = dropWhile (\<lambda>c. c = CHR ''/'') (drop_dots (forward (strip rel)))"

definition is_excluded_path :: "string \<Rightarrow> bool" where
  "is_excluded_path rel \<longleftrightarrow>
     rel = [] \<or>
     (let norm = normal_path rel; segs = split_char (CHR ''/'') norm; base = List.last segs
      in norm = [] \<or> norm = ''.''
         \<or> list_ex (\<lambda>s. s \<in> set exclude_segments) segs
         \<or> hd segs \<in> set exclude_toplevel
         \<or> base \<in> set exclude_basenames
         \<or> list_ex (\<lambda>x. ends_with x base) exclude_suffixes)"

section \<open>The ignore file\<close>

definition artifact_ignore_lines :: "string list" where
  "artifact_ignore_lines =
     [''.aiforge/'', ''.aiforge-worktrees/'', ''.aiforge-workspace'', ''.aiforge-venv/'',
      ''graphify-out/'', ''.codegraph/'', ''perf.ndjson'',
      ''__pycache__/'', ''*.py[cod]'', ''.pytest_cache/'', ''.ruff_cache/'',
      ''.mypy_cache/'', ''.coverage'', ''*.egg-info/'', ''.venv/'', ''venv/'',
      ''node_modules/'', ''dist/'', ''.next/'', ''*.min.js.map'',
      ''target/'', ''build/'', ''*.class'', ''*.o'', ''*.obj'', ''*.so'', ''*.dylib'', ''*.exe'',
      ''.DS_Store'']"

text \<open>A file is absent, unreadable or a text. The answer is the lines that were added, with the
  file as it is then.\<close>

definition have_lines :: "string \<Rightarrow> string list" where
  "have_lines txt = filter (\<lambda>l. l \<noteq> []) (map strip (splitlines txt))"

definition added_chunk :: "string \<Rightarrow> string list \<Rightarrow> string" where
  "added_chunk existing missing =
     (if existing \<noteq> [] \<and> List.last existing \<noteq> CHR 0x0A then [CHR 0x0A] else [])
     @ ''# AIForgeCrew agent artifacts'' @ [CHR 0x0A] @ join [CHR 0x0A] missing @ [CHR 0x0A]"

definition ensure_artifact_gitignore :: "bool \<Rightarrow> string res option \<Rightarrow> string list \<times> string res option" where
  "ensure_artifact_gitignore writable file =
     (case file of
        Some (Inl e) \<Rightarrow> ([], file)
      | _ \<Rightarrow>
          (let existing = (case file of Some (Inr t) \<Rightarrow> t | _ \<Rightarrow> []);
               missing = filter (\<lambda>l. l \<notin> set (have_lines existing)) artifact_ignore_lines
           in if missing = [] \<or> \<not> writable then ([], file)
              else (missing, Some (Inr (existing @ added_chunk existing missing)))))"

section \<open>Tests\<close>

definition test_fragments :: "string list" where
  "test_fragments =
     [''/src/test/'', ''src/test/'', ''/test/'', ''/tests/'', ''/__tests__/'', ''/fixtures/'', ''/testdata/'', ''/spec/'']"

definition test_suffixes :: "string list" where
  "test_suffixes =
     [''_test.py'', ''_test.go'', ''_test.ts'', ''_test.tsx'', ''.test.ts'', ''.test.tsx'', ''.test.js'',
      ''.test.jsx'', ''test.java'', ''_spec.rb'']"

definition test_always :: "string list" where
  "test_always = [''__pycache__/'', ''.pytest_cache/'', ''.ruff_cache/'', ''.mypy_cache/'']"

definition is_test_path :: "string \<Rightarrow> bool" where
  "is_test_path path \<longleftrightarrow>
     (let p = lower path; norm = CHR ''/'' # drop_dots p
      in list_ex (\<lambda>t. starts_with t p \<or> contains t p) test_always
         \<or> list_ex (\<lambda>f. contains f norm) test_fragments
         \<or> list_ex (\<lambda>s. ends_with s p) test_suffixes)"

text \<open>\<^verbatim>\<open>(prod_files, test_files)\<close> of an output that names one file per line.\<close>

definition classify_lines :: "string \<Rightarrow> string list \<times> string list" where
  "classify_lines out =
     (let names = filter (\<lambda>l. l \<noteq> []) (map strip (splitlines out))
      in (filter (\<lambda>l. \<not> is_test_path l) names, filter is_test_path names))"

section \<open>Facts\<close>

text \<open>Every path inside a folder of an excluded name is excluded, whatever lies below it.\<close>

lemma split_char_append:
  "split_char_aux d acc (s @ d # u) = split_char_aux d acc s @ split_char_aux d [] u"
  by (induction s arbitrary: acc) auto

lemma split_char_plain: "d \<notin> set s \<Longrightarrow> split_char_aux d acc s = [rev acc @ s]"
  by (induction s arbitrary: acc) auto

lemma excluded_below:
  assumes "seg \<in> set exclude_segments" and "normal_path rel = a @ CHR ''/'' # seg @ CHR ''/'' # b"
  shows "is_excluded_path rel"
proof -
  have "list_all (\<lambda>s. CHR ''/'' \<notin> set s) exclude_segments" by code_simp
  then have plain: "CHR ''/'' \<notin> set seg" using assms(1) by (simp add: list_all_iff)
  have "seg \<in> set (split_char (CHR ''/'') (normal_path rel))"
    unfolding assms(2) split_char_def split_char_append using split_char_plain [OF plain, of "[]"]
    by (metis append_self_conv2 in_set_conv_decomp rev.simps(1) Un_iff set_append split_char_append)
  then show ?thesis
    using assms(1) unfolding is_excluded_path_def Let_def list_ex_iff by blast
qed

text \<open>What \<open>splitlines\<close> makes of lines that hold no boundary.\<close>

lemma splitlines_plain:
  "\<forall>c \<in> set l. \<not> is_eol c \<Longrightarrow> splitlines_aux acc (l @ CHR 0x0A # s) = (rev acc @ l) # splitlines_aux [] s"
proof (induction l arbitrary: acc)
  case Nil
  have nl: "is_eol (CHR 0x0A)" by code_simp
  show ?case using nl by (cases s) auto
next
  case (Cons c l)
  have "c \<noteq> CHR 0x0D"
  proof
    assume "c = CHR 0x0D"
    moreover have "is_eol (CHR 0x0D)" by code_simp
    ultimately show False using Cons.prems by simp
  qed
  then show ?case using Cons by (cases "l @ CHR 0x0A # s") auto
qed

text \<open>Adding the missing lines once adds them for good: a second run finds nothing to add.\<close>

lemma splitlines_aux_append_nl:
  "splitlines_aux acc (s @ CHR 0x0A # u) =
     splitlines_aux acc (s @ [CHR 0x0A]) @ splitlines_aux [] u"
proof (induction acc s rule: splitlines_aux.induct)
  case (1 acc)
  have "is_eol (CHR 0x0A)" by code_simp
  then show ?case by (cases u) auto
next
  case (2 acc c)
  have "is_eol (CHR 0x0A)" by code_simp
  then show ?case by (cases u) auto
qed auto

lemma splitlines_aux_more: "set (splitlines_aux acc s) \<subseteq> set (splitlines_aux acc (s @ [CHR 0x0A]))"
proof (induction acc s rule: splitlines_aux.induct)
  case (1 acc)
  have "is_eol (CHR 0x0A)" by code_simp
  then show ?case by simp
next
  case (2 acc c)
  have "is_eol (CHR 0x0A)" "is_eol (CHR 0x0D)" by code_simp+
  then show ?case by auto
qed auto

lemma splitlines_joined:
  assumes "\<forall>l \<in> set ls. \<forall>c \<in> set l. \<not> is_eol c"
  shows "set ls \<subseteq> set (splitlines_aux [] (join [CHR 0x0A] ls @ [CHR 0x0A]))"
  using assms
proof (induction "[CHR 0x0A]" ls rule: join.induct)
  case (2 x)
  then show ?case using splitlines_plain [of x "[]" "[]"] by simp
next
  case (3 x y xs)
  then show ?case using splitlines_plain [of x "[]" "join [CHR 0x0A] (y # xs) @ [CHR 0x0A]"] by auto
qed simp

lemma ignore_lines_plain: "\<forall>l \<in> set artifact_ignore_lines. (\<forall>c \<in> set l. \<not> is_eol c) \<and> strip l = l \<and> l \<noteq> []"
proof -
  have "list_all (\<lambda>l. list_all (\<lambda>c. \<not> is_eol c) l \<and> strip l = l \<and> l \<noteq> []) artifact_ignore_lines"
    by code_simp
  then show ?thesis by (simp add: list_all_iff)
qed

lemma lines_after:
  "set (splitlines t) \<union> set (splitlines r) \<subseteq>
     set (splitlines (t @ (if t \<noteq> [] \<and> List.last t \<noteq> CHR 0x0A then [CHR 0x0A] else []) @ r))"
proof (cases "t = []")
  case False
  obtain u where u: "t @ (if t \<noteq> [] \<and> List.last t \<noteq> CHR 0x0A then [CHR 0x0A] else []) @ r = u @ CHR 0x0A # r"
    and old: "set (splitlines t) \<subseteq> set (splitlines_aux [] (u @ [CHR 0x0A]))"
  proof (cases "List.last t = CHR 0x0A")
    case True
    then have "t = butlast t @ [CHR 0x0A]" using False by (metis append_butlast_last_id)
    then show ?thesis using that [of "butlast t"] True by (simp add: splitlines_def)
  next
    case neq: False
    then show ?thesis using that [of t] False splitlines_aux_more [of "[]" t] by (simp add: splitlines_def)
  qed
  have "splitlines (u @ CHR 0x0A # r) = splitlines_aux [] (u @ [CHR 0x0A]) @ splitlines r"
    by (simp only: splitlines_def splitlines_aux_append_nl [of "[]" u r])
  then show ?thesis unfolding u using old by auto
qed (simp add: splitlines_def)

lemma lines_after_chunk:
  assumes "\<forall>l \<in> set missing. \<forall>c \<in> set l. \<not> is_eol c"
  shows "set (splitlines t) \<union> set missing \<subseteq> set (splitlines (t @ added_chunk t missing))"
proof -
  define r where "r = ''# AIForgeCrew agent artifacts'' @ CHR 0x0A # join [CHR 0x0A] missing @ [CHR 0x0A]"
  have "splitlines r = splitlines_aux [] (''# AIForgeCrew agent artifacts'' @ [CHR 0x0A])
      @ splitlines_aux [] (join [CHR 0x0A] missing @ [CHR 0x0A])"
    unfolding r_def splitlines_def by (rule splitlines_aux_append_nl)
  then have "set missing \<subseteq> set (splitlines r)"
    using splitlines_joined [OF assms] by (simp only: set_append) blast
  moreover have "added_chunk t missing = (if t \<noteq> [] \<and> List.last t \<noteq> CHR 0x0A then [CHR 0x0A] else []) @ r"
    by (simp add: added_chunk_def r_def)
  ultimately show ?thesis using lines_after [of t r] by auto
qed

text \<open>Whatever the ignore file held, adding the artifact lines once is enough: a second call finds
  nothing missing, and the text that was there is kept as it was.\<close>

theorem gitignore_settles:
  "\<exists>u. snd (ensure_artifact_gitignore True (Some (Inr t))) = Some (Inr (t @ u)) \<and>
     fst (ensure_artifact_gitignore w (Some (Inr (t @ u)))) = []"
proof -
  let ?missing = "filter (\<lambda>l. l \<notin> set (have_lines t)) artifact_ignore_lines"
  show ?thesis
  proof (cases "?missing = []")
    case True
    then show ?thesis by (intro exI [of _ "[]"]) (simp add: ensure_artifact_gitignore_def)
  next
    case False
    let ?u = "added_chunk t ?missing"
    have more: "set (splitlines t) \<union> set ?missing \<subseteq> set (splitlines (t @ ?u))"
      by (rule lines_after_chunk) (use ignore_lines_plain in auto)
    have "l \<in> set (have_lines (t @ ?u))" if l: "l \<in> set artifact_ignore_lines" for l
    proof (cases "l \<in> set (have_lines t)")
      case True
      then show ?thesis using more by (auto simp: have_lines_def)
    next
      case False
      then have "l \<in> set (splitlines (t @ ?u))" using more l by auto
      moreover have "strip l = l" "l \<noteq> []" using ignore_lines_plain l by blast+
      ultimately show ?thesis by (force simp: have_lines_def)
    qed
    then have "filter (\<lambda>l. l \<notin> set (have_lines (t @ ?u))) artifact_ignore_lines = []"
      by (simp add: filter_empty_conv)
    then have "fst (ensure_artifact_gitignore w (Some (Inr (t @ ?u)))) = []"
      by (simp add: ensure_artifact_gitignore_def Let_def)
    moreover have "snd (ensure_artifact_gitignore True (Some (Inr t))) = Some (Inr (t @ ?u))"
      using False by (simp add: ensure_artifact_gitignore_def Let_def)
    ultimately show ?thesis by blast
  qed
qed

end
