(* ===== verification/Ship_Work.thy ===== *)
theory Ship_Work
  imports Ship_Paths Regex Ticket_Store
begin

text \<open>
  Shipping the work of a run: \<^verbatim>\<open>runtime/git_pr/_gitcmd.py\<close> and
  \<^verbatim>\<open>runtime/git_pr/_pr.py\<close>. The program runs \<^verbatim>\<open>git\<close> and \<^verbatim>\<open>gh\<close>; what a command answers is a
  parameter, a function of what was done before and of its arguments: a return code with the
  two outputs, or an exception (a timeout). A flow keeps the list of what it did, in order.
\<close>

section \<open>Commands\<close>

datatype act =
    Ran "string list"
  | Wrote_gitignore
  | Pr_event string string
  | Ingested string

type_synonym answer = "int \<times> string \<times> string"
type_synonym 'a flow = "act list \<Rightarrow> 'a res \<times> act list"

record repo =
  git :: "act list \<Rightarrow> string list \<Rightarrow> answer res"
  root_dir :: string
  dot_git :: bool
  has_gh :: bool
  has_gitignore :: bool
  gitignore_writable :: bool
  ingest_cli :: bool
  ship_env :: env
  exc_text :: "py_exc \<Rightarrow> string"

definition fret :: "'a \<Rightarrow> 'a flow" where
  "fret x = (\<lambda>tr. (Inr x, tr))"

definition fraise :: "py_exc \<Rightarrow> 'a flow" where
  "fraise e = (\<lambda>tr. (Inl e, tr))"

definition fbind :: "'a flow \<Rightarrow> ('a \<Rightarrow> 'b flow) \<Rightarrow> 'b flow" where
  "fbind m f = (\<lambda>tr. case m tr of (Inl e, tr') \<Rightarrow> (Inl e, tr') | (Inr x, tr') \<Rightarrow> f x tr')"

definition did :: "act \<Rightarrow> unit flow" where
  "did a = (\<lambda>tr. (Inr (), tr @ [a]))"

definition command :: "repo \<Rightarrow> string list \<Rightarrow> answer flow" where
  "command w argv = (\<lambda>tr. (git w tr argv, tr @ [Ran argv]))"

definition run_git :: "repo \<Rightarrow> string list \<Rightarrow> answer flow" where
  "run_git w argv = fbind (command w argv) (\<lambda>(rc, out, err). fret (rc, take_chars 1000 out, take_chars 1000 err))"

section \<open>The repository\<close>

definition classify_head_diff :: "repo \<Rightarrow> (string list \<times> string list) flow" where
  "classify_head_diff w =
     fbind (run_git w [''git'', ''diff-tree'', ''--no-commit-id'', ''--name-only'', ''-r'', ''HEAD''])
       (\<lambda>(rc, out, err). fret (if rc \<noteq> 0 \<or> strip out = [] then ([], []) else classify_lines out))"

definition resolve_repo_root :: "repo \<Rightarrow> string option flow" where
  "resolve_repo_root w =
     (if dot_git w then fret (Some (root_dir w))
      else fbind (command w [''git'', ''rev-parse'', ''--git-dir''])
             (\<lambda>(rc, out, err). fret (if rc = 0 then Some (root_dir w) else None)))"

definition remotes_prefix :: string where
  "remotes_prefix = ''refs/remotes/''"

definition default_base_branch :: "repo \<Rightarrow> string flow" where
  "default_base_branch w =
     fbind (run_git w [''git'', ''symbolic-ref'', ''--quiet'', ''refs/remotes/origin/HEAD''])
       (\<lambda>(rc, out, err).
          if rc = 0 \<and> strip out \<noteq> [] then fret (sub_all (Lit remotes_prefix) [] (strip out))
          else fbind (run_git w [''git'', ''rev-parse'', ''--verify'', ''--quiet'', ''origin/master''])
                 (\<lambda>(rc1, _, _).
                    if rc1 = 0 then fret ''origin/master''
                    else fbind (run_git w [''git'', ''rev-parse'', ''--verify'', ''--quiet'', ''origin/main''])
                           (\<lambda>(rc2, _, _). fret (if rc2 = 0 then ''origin/main'' else ''origin/master''))))"

text \<open>The number of commits ahead of the base, as the output reads.\<close>

definition ahead_of :: "string \<Rightarrow> int" where
  "ahead_of out = (case int_of_str (if out = [] then ''0'' else out) of None \<Rightarrow> 0 | Some n \<Rightarrow> n)"

definition has_unpushed_commits :: "repo \<Rightarrow> (bool \<times> string) flow" where
  "has_unpushed_commits w =
     fbind (default_base_branch w) (\<lambda>b.
     fbind (run_git w [''git'', ''rev-list'', ''--count'', b @ ''..HEAD'']) (\<lambda>(rc, out, err).
       fret (if rc \<noteq> 0 then (False, ''rev_list_failed'')
             else if ahead_of out > 0 then (True, b) else (False, ''head_at_base''))))"

definition has_doer_changes :: "repo \<Rightarrow> (bool \<times> string) flow" where
  "has_doer_changes w =
     fbind (run_git w ([''git'', ''status'', ''--porcelain'', ''--'', ''.''] @ exclude_pathspecs))
       (\<lambda>(rc, out, err).
          if rc \<noteq> 0 then fret (False, ''git_status_failed'')
          else if strip out \<noteq> [] then fret (True, [])
          else fbind (has_unpushed_commits w)
                 (\<lambda>(ahead, info). fret (if ahead then (True, []) else (False, ''no_changes''))))"

section \<open>Branch, commit, push\<close>

definition checkout_branch :: "repo \<Rightarrow> string \<Rightarrow> string flow" where
  "checkout_branch w b =
     fbind (run_git w [''git'', ''checkout'', ''-B'', b])
       (\<lambda>(rc, out, err). fret (if rc \<noteq> 0 then ''checkout_failed'' else []))"

definition ensure_gitignore :: "repo \<Rightarrow> unit flow" where
  "ensure_gitignore w = (if has_gitignore w \<or> \<not> gitignore_writable w then fret () else did Wrote_gitignore)"

definition stage_doer_changes :: "repo \<Rightarrow> unit flow" where
  "stage_doer_changes w =
     fbind (run_git w ([''git'', ''add'', ''-A'', ''--'', ''.''] @ exclude_pathspecs)) (\<lambda>_. fret ())"

definition commit_message :: "string \<Rightarrow> string \<Rightarrow> string" where
  "commit_message name t =
     ''feat('' @ name @ ''): '' @ t @ [CHR 0x0A, CHR 0x0A] @ ''Generated by AIForgeCrew v6 pipeline.''"

definition commit_changes :: "repo \<Rightarrow> string \<Rightarrow> string \<Rightarrow> string flow" where
  "commit_changes w name t =
     fbind (ensure_gitignore w) (\<lambda>_.
     fbind (stage_doer_changes w) (\<lambda>_.
     fbind (run_git w [''git'', ''commit'', ''-m'', commit_message name t]) (\<lambda>(rc, out, err).
       fret (if rc \<noteq> 0 \<and> \<not> contains ''nothing to commit'' (out @ err) then ''commit_failed'' else []))))"

text \<open>The probe of the remote: its timeout and any other failure of the command are answers; \<open>exc_text\<close> is what
  Python prints of the exception.\<close>

definition probe_remote :: "repo \<Rightarrow> (bool \<times> string) flow" where
  "probe_remote w = (\<lambda>tr.
     case command w [''git'', ''ls-remote'', ''--exit-code'', ''origin'', ''HEAD''] tr of
       (Inl TimeoutError, tr') \<Rightarrow> (Inr (False, ''remote_unreachable_timeout''), tr')
     | (Inl e, tr') \<Rightarrow> (Inr (False, ''remote_probe_error: '' @ exc_text w e), tr')
     | (Inr (rc, out, err), tr') \<Rightarrow> (Inr (if rc \<noteq> 0 then (False, ''remote_unreachable'') else (True, [])), tr'))"

definition has_reachable_remote :: "repo \<Rightarrow> (bool \<times> string) flow" where
  "has_reachable_remote w =
     fbind (run_git w [''git'', ''remote'']) (\<lambda>(rc, out, err).
       if rc \<noteq> 0 \<or> ''origin'' \<notin> set (split_ws out) then fret (False, ''no_origin_configured'')
       else probe_remote w)"

definition diverged :: "string \<Rightarrow> bool" where
  "diverged err \<longleftrightarrow>
     (let low = lower err
      in contains ''non-fast-forward'' low \<or> contains ''rejected'' low \<or> contains ''fetch first'' low
         \<or> contains ''stale info'' low)"

definition plain_push :: "string \<Rightarrow> string list" where
  "plain_push b = [''git'', ''push'', ''-u'', ''origin'', b]"

definition lease_push :: "string \<Rightarrow> string list" where
  "lease_push b = [''git'', ''push'', ''--force-with-lease'', ''-u'', ''origin'', b]"

definition push :: "repo \<Rightarrow> string \<Rightarrow> (bool \<times> string) flow" where
  "push w b =
     fbind (has_reachable_remote w) (\<lambda>(ok, why).
       if \<not> ok then fret (False, why)
       else fbind (run_git w (plain_push b)) (\<lambda>(rc, out, err).
         if rc = 0 then fret (True, [])
         else if starts_with ''aiforge/'' b \<and> diverged err
         then fbind (run_git w (lease_push b)) (\<lambda>(rc2, out2, err2).
                fret (if rc2 = 0 then (True, []) else (False, take_chars 300 err2)))
         else fret (False, take_chars 300 err)))"

section \<open>The pull request\<close>

definition pr_url_rx :: rx where
  "pr_url_rx =
     seqs [Lit ''https://github.com/'', plus (One (\<lambda>c. \<not> is_space c)), Lit ''/pull/'', plus (One is_digit)]"

definition first_pr_url :: "string \<Rightarrow> string option" where
  "first_pr_url s =
     (case find_from pr_url_rx None s of
        None \<Rightarrow> None
      | Some (a, b) \<Rightarrow> Some (take (length (rest_of a) - length (rest_of b)) (rest_of a)))"

definition recover_existing_pr :: "repo \<Rightarrow> string \<Rightarrow> string \<Rightarrow> (string \<times> string) flow" where
  "recover_existing_pr w out err =
     (let both = out @ [CHR 0x0A] @ err
      in case first_pr_url both of
           Some url \<Rightarrow> fret (url, [])
         | None \<Rightarrow>
             if contains ''already exists'' (lower both)
             then fbind (run_git w [''gh'', ''pr'', ''view'', ''--json'', ''url'', ''-q'', ''.url''])
                    (\<lambda>(rc2, out2, _).
                       (let ls = splitlines (strip out2); url2 = (if ls = [] then [] else List.last ls)
                        in fret (if rc2 = 0 \<and> starts_with ''http'' url2 then (url2, []) else ([], take_chars 300 err))))
             else fret ([], take_chars 300 err))"

text \<open>The last line of what \<^verbatim>\<open>gh\<close> printed; an output of white space has none, and raises.\<close>

definition last_line :: "string \<Rightarrow> string flow" where
  "last_line out =
     (if out = [] then fret []
      else case splitlines (strip out) of [] \<Rightarrow> fraise IndexError | ls \<Rightarrow> fret (List.last ls))"

definition open_pr :: "repo \<Rightarrow> string \<Rightarrow> string \<Rightarrow> string \<Rightarrow> (string \<times> string) flow" where
  "open_pr w name t b =
     (if \<not> has_gh w then fret ([], ''gh_not_installed'')
      else fbind (run_git w [''gh'', ''pr'', ''create'', ''--title'', name @ '': '' @ t, ''--body'', b])
             (\<lambda>(rc, out, err).
                if rc \<noteq> 0 then recover_existing_pr w out err
                else fbind (last_line out) (\<lambda>url. fret (url, []))))"

definition fire_delta_ingest :: "repo \<Rightarrow> ticket \<Rightarrow> unit flow" where
  "fire_delta_ingest w t =
     (let proj = strip (case project t of None \<Rightarrow> [] | Some p \<Rightarrow> p)
      in if env_get (ship_env w) ''AIFORGE_POST_PR_INGEST'' ''1'' \<in> {''0'', ''false'', []}
            \<or> proj = [] \<or> \<not> ingest_cli w \<or> root_dir w = []
         then fret () else did (Ingested proj))"

section \<open>Commit, push and open\<close>

definition flat_title :: "ticket \<Rightarrow> string" where
  "flat_title t =
     map (\<lambda>c. if c = CHR 0x0A then CHR '' '' else c) (strip (if title t = [] then ident t else title t))"

definition branch_of :: "ticket \<Rightarrow> string" where
  "branch_of t = (case branch t of None \<Rightarrow> ''aiforge/'' @ ident t | Some b \<Rightarrow> if b = [] then ''aiforge/'' @ ident t else b)"

definition pr_body :: "ticket \<Rightarrow> string" where
  "pr_body t =
     ''AIForgeCrew v6 pipeline auto-generated PR for ticket '' @ ident t @ ''.'' @ [CHR 0x0A, CHR 0x0A]
     @ ''## Original ticket body'' @ [CHR 0x0A] @ take_chars 1500 (body t)"

definition skipped :: "string \<Rightarrow> dict" where
  "skipped why = [(''pr_skip_reason'', PStr why)]"

definition test_only_guard :: "repo \<Rightarrow> dict option flow" where
  "test_only_guard w =
     (if env_get (ship_env w) ''AIFORGE_ALLOW_TEST_ONLY_PR'' ''0'' \<in> {''1'', ''true''} then fret None
      else fbind (classify_head_diff w) (\<lambda>(prod, test).
        fret (if test \<noteq> [] \<and> prod = []
              then Some [(''pr_skip_reason'', PStr ''test_only_diff''),
                         (''test_only_files'', PList (map PStr (take 10 test)))]
              else None)))"

definition publish :: "repo \<Rightarrow> ticket \<Rightarrow> dict flow" where
  "publish w t =
     fbind (push w (branch_of t)) (\<lambda>(pushed, err).
       if \<not> pushed
       then fret [(''branch_pushed'', PBool False), (''pr_skip_reason'', PStr ''push_failed''), (''push_err'', PStr err)]
       else fbind (open_pr w (ident t) (flat_title t) (pr_body t)) (\<lambda>(url, pr_err).
         if url = []
         then fret [(''branch_pushed'', PBool True),
                    (''pr_skip_reason'', PStr (if pr_err = [] then ''gh_create_failed'' else pr_err)),
                    (''gh_err'', PStr pr_err)]
         else fbind (did (Pr_event url (branch_of t))) (\<lambda>_.
              fbind (fire_delta_ingest w t) (\<lambda>_.
              fret [(''branch_pushed'', PBool True), (''pr_url'', PStr url)]))))"

definition commit_push_open_pr :: "repo \<Rightarrow> ticket \<Rightarrow> dict flow" where
  "commit_push_open_pr w t =
     fbind (resolve_repo_root w) (\<lambda>root.
       if root = None then fret (skipped ''not_a_git_repo'')
       else fbind (has_doer_changes w) (\<lambda>(changed, why).
         if \<not> changed then fret (skipped why)
         else fbind (checkout_branch w (branch_of t)) (\<lambda>e1.
           if e1 \<noteq> [] then fret (skipped e1)
           else fbind (commit_changes w (ident t) (flat_title t)) (\<lambda>e2.
             if e2 \<noteq> [] then fret (skipped e2)
             else fbind (test_only_guard w) (\<lambda>g.
               case g of Some patch \<Rightarrow> fret patch | None \<Rightarrow> publish w t)))))"

definition merge_pr :: "repo \<Rightarrow> string \<Rightarrow> bool \<Rightarrow> (bool \<times> string) flow" where
  "merge_pr w url squash =
     (if url = [] then fret (False, ''no_pr_url'')
      else if \<not> has_gh w then fret (False, ''gh_not_installed'')
      else fbind (command w [''gh'', ''pr'', ''merge'', url, ''--delete-branch'', if squash then ''--squash'' else ''--merge''])
             (\<lambda>(rc, out, err).
                (let low = lower (out @ err)
                 in fret (if rc = 0 then (True, [])
                          else if contains ''already merged'' low
                               \<or> contains ''not mergeable'' low \<and> contains ''merged'' low
                          then (True, ''already_merged'')
                          else (False, take_chars 300 (out @ err))))))"

section \<open>What is pushed\<close>

definition is_push :: "string list \<Rightarrow> bool" where
  "is_push argv \<longleftrightarrow> take 2 argv = [''git'', ''push'']"

definition pushes :: "act list \<Rightarrow> string list list" where
  "pushes tr = filter is_push (concat (map (\<lambda>a. case a of Ran v \<Rightarrow> [v] | _ \<Rightarrow> []) tr))"

lemma pushes_simps [simp]:
  "pushes [] = []"
  "pushes (a @ b) = pushes a @ pushes b"
  "pushes [Ran v] = (if is_push v then [v] else [])"
  "pushes [Wrote_gitignore] = []" "pushes [Pr_event u c] = []" "pushes [Ingested p] = []"
  by (simp_all add: pushes_def)

text \<open>A flow only appends to what was done, and the pushes it appends satisfy \<open>P\<close>.\<close>

definition adds :: "'a flow \<Rightarrow> (string list list \<Rightarrow> bool) \<Rightarrow> bool" where
  "adds m P \<longleftrightarrow> (\<forall>tr. \<exists>ds. snd (m tr) = tr @ ds \<and> P (pushes ds))"

named_theorems flow_intros \<open>what a flow pushes\<close>

lemma adds_fret [flow_intros]: "P [] \<Longrightarrow> adds (fret x) P"
  by (simp add: adds_def fret_def)

lemma adds_fraise [flow_intros]: "P [] \<Longrightarrow> adds (fraise x) P"
  by (simp add: adds_def fraise_def)

lemma adds_did [flow_intros]: "pushes [a] = [] \<Longrightarrow> P [] \<Longrightarrow> adds (did a) P"
  by (simp add: adds_def did_def)

lemma adds_bind:
  assumes "adds m P" and "\<And>x. adds (f x) Q" and "\<And>a. P a \<Longrightarrow> R a" and "\<And>a b. P a \<Longrightarrow> Q b \<Longrightarrow> R (a @ b)"
  shows "adds (fbind m f) R"
  unfolding adds_def
proof
  fix tr
  obtain ds where m: "snd (m tr) = tr @ ds" "P (pushes ds)"
    using assms(1) by (auto simp: adds_def)
  show "\<exists>ds. snd (fbind m f tr) = tr @ ds \<and> R (pushes ds)"
  proof (cases "m tr")
    case (Pair r tr')
    show ?thesis
    proof (cases r)
      case (Inr x)
      obtain es where "snd (f x tr') = tr' @ es" "Q (pushes es)"
        using assms(2) by (auto simp: adds_def)
      then show ?thesis
        using m assms(4) Pair Inr by (intro exI [of _ "ds @ es"]) (simp add: fbind_def)
    qed (use m assms(3) Pair in \<open>auto simp: fbind_def\<close>)
  qed
qed

lemma adds_weaken: "adds m P \<Longrightarrow> (\<And>ds. P ds \<Longrightarrow> Q ds) \<Longrightarrow> adds m Q"
  by (fastforce simp: adds_def)

lemma adds_quiet_first [flow_intros]:
  "adds m (\<lambda>ds. ds = []) \<Longrightarrow> (\<And>x. adds (f x) Q) \<Longrightarrow> Q [] \<Longrightarrow> adds (fbind m f) Q"
  by (rule adds_bind [where P = "\<lambda>ds. ds = []" and Q = Q]) auto

lemma adds_quiet_last:
  "adds m Q \<Longrightarrow> (\<And>x. adds (f x) (\<lambda>ds. ds = [])) \<Longrightarrow> adds (fbind m f) Q"
  by (rule adds_bind [where P = Q and Q = "\<lambda>ds. ds = []"]) auto

lemma adds_command: "adds (command w v) (\<lambda>ds. ds = (if is_push v then [v] else []))"
  unfolding adds_def command_def
proof
  fix tr show "\<exists>ds. snd (git w tr v, tr @ [Ran v]) = tr @ ds \<and> pushes ds = (if is_push v then [v] else [])"
    by (intro exI [of _ "[Ran v]"]) simp
qed

lemma adds_run_git: "adds (run_git w v) (\<lambda>ds. ds = (if is_push v then [v] else []))"
  unfolding run_git_def
  by (rule adds_quiet_last [OF adds_command]) (auto intro: flow_intros split: prod.split)

lemma adds_run [flow_intros]: "\<not> is_push v \<Longrightarrow> adds (run_git w v) (\<lambda>ds. ds = [])"
  using adds_run_git [of w v] by simp

lemma adds_cmd [flow_intros]: "\<not> is_push v \<Longrightarrow> adds (command w v) (\<lambda>ds. ds = [])"
  using adds_command [of w v] by simp

lemma adds_if [flow_intros]: "(c \<Longrightarrow> adds m P) \<Longrightarrow> (\<not> c \<Longrightarrow> adds n P) \<Longrightarrow> adds (if c then m else n) P"
  by simp

lemma adds_prod [flow_intros]: "(\<And>x y. adds (f x y) P) \<Longrightarrow> adds (case p of (x, y) \<Rightarrow> f x y) P"
  by (cases p) simp

lemma adds_Let [flow_intros]: "(\<And>x. adds (f x) P) \<Longrightarrow> adds (let x = v in f x) P"
  by simp

lemma adds_option [flow_intros]: "adds m P \<Longrightarrow> (\<And>x. adds (f x) P) \<Longrightarrow> adds (case v of None \<Rightarrow> m | Some x \<Rightarrow> f x) P"
  by (cases v) simp_all

lemma adds_list [flow_intros]: "adds m P \<Longrightarrow> (\<And>x y. adds (f x y) P) \<Longrightarrow> adds (case v of [] \<Rightarrow> m | x # y \<Rightarrow> f x y) P"
  by (cases v) simp_all

lemma quiet_flows:
  "adds (resolve_repo_root w) (\<lambda>ds. ds = [])" "adds (has_doer_changes w) (\<lambda>ds. ds = [])"
  "adds (checkout_branch w b) (\<lambda>ds. ds = [])" "adds (commit_changes w n t) (\<lambda>ds. ds = [])"
  "adds (test_only_guard w) (\<lambda>ds. ds = [])" "adds (open_pr w n t b) (\<lambda>ds. ds = [])"
  "adds (fire_delta_ingest w k) (\<lambda>ds. ds = [])"
  unfolding resolve_repo_root_def has_doer_changes_def has_unpushed_commits_def default_base_branch_def
    checkout_branch_def commit_changes_def ensure_gitignore_def stage_doer_changes_def test_only_guard_def
    classify_head_diff_def open_pr_def recover_existing_pr_def last_line_def fire_delta_ingest_def
  by (intro flow_intros refl; simp add: is_push_def numeral_2_eq_2)+

lemma quiet_probe: "adds (has_reachable_remote w) (\<lambda>ds. ds = [])"
proof -
  have "adds (probe_remote w) (\<lambda>ds. ds = [])"
    unfolding adds_def
  proof
    fix tr
    show "\<exists>ds. snd (probe_remote w tr) = tr @ ds \<and> pushes ds = []"
      by (intro exI [of _ "[Ran [''git'', ''ls-remote'', ''--exit-code'', ''origin'', ''HEAD'']]"])
        (auto simp: probe_remote_def command_def is_push_def numeral_2_eq_2 split: sum.split prod.split py_exc.split)
  qed
  then show ?thesis
    unfolding has_reachable_remote_def
    by (intro flow_intros) (simp_all add: is_push_def numeral_2_eq_2)
qed

definition own_pushes :: "string \<Rightarrow> string list list \<Rightarrow> bool" where
  "own_pushes b ds \<longleftrightarrow>
     ds = [] \<or> ds = [plain_push b] \<or> (starts_with ''aiforge/'' b \<and> ds = [plain_push b, lease_push b])"

lemma push_pushes: "adds (push w b) (own_pushes b)"
proof -
  have push: "is_push (plain_push b)" "is_push (lease_push b)"
    by (simp_all add: is_push_def plain_push_def lease_push_def numeral_2_eq_2)
  have forced: "adds (fbind (run_git w (lease_push b)) (\<lambda>(rc2, out2, err2).
      fret (if rc2 = 0 then (True, []) else (False, take_chars 300 err2)))) (\<lambda>ds. ds = [lease_push b])"
    by (rule adds_quiet_last) (use adds_run_git [of w "lease_push b"] push in \<open>auto intro: flow_intros\<close>)
  have "adds (fbind (run_git w (plain_push b)) (\<lambda>(rc, out, err).
         if rc = 0 then fret (True, [])
         else if starts_with ''aiforge/'' b \<and> diverged err
         then fbind (run_git w (lease_push b)) (\<lambda>(rc2, out2, err2).
                fret (if rc2 = 0 then (True, []) else (False, take_chars 300 err2)))
         else fret (False, take_chars 300 err))) (own_pushes b)"
  proof (rule adds_bind [where P = "\<lambda>ds. ds = [plain_push b]"
        and Q = "\<lambda>ds. ds = [] \<or> starts_with ''aiforge/'' b \<and> ds = [lease_push b]"])
    show "adds (run_git w (plain_push b)) (\<lambda>ds. ds = [plain_push b])"
      using adds_run_git [of w "plain_push b"] push by simp
    show "adds (case x of (rc, out, err) \<Rightarrow>
         if rc = 0 then fret (True, [])
         else if starts_with ''aiforge/'' b \<and> diverged err
         then fbind (run_git w (lease_push b)) (\<lambda>(rc2, out2, err2).
                fret (if rc2 = 0 then (True, []) else (False, take_chars 300 err2)))
         else fret (False, take_chars 300 err)) (\<lambda>ds. ds = [] \<or> starts_with ''aiforge/'' b \<and> ds = [lease_push b])" for x
      by (intro adds_prod adds_if adds_fret adds_weaken [OF forced]) simp_all
  qed (auto simp: own_pushes_def)
  then show ?thesis
    unfolding push_def by (intro adds_quiet_first [OF quiet_probe]) (auto intro!: flow_intros simp: own_pushes_def)
qed

lemma ship_pushes: "adds (commit_push_open_pr w t) (own_pushes (branch_of t))"
proof -
  have nil: "own_pushes (branch_of t) []" by (simp add: own_pushes_def)
  have "adds (publish w t) (own_pushes (branch_of t))"
    unfolding publish_def
    by (rule adds_quiet_last [OF push_pushes]) (auto intro!: flow_intros quiet_flows)
  then show ?thesis
    unfolding commit_push_open_pr_def
    by (intro flow_intros quiet_flows nil) (simp_all add: nil adds_fret)
qed

text \<open>C13. Shipping pushes nothing but the ticket's own branch, once: a second, forced push of it comes only
  under the runner's own prefix and only with a lease.\<close>

theorem pushes_own_branch:
  "own_pushes (branch_of t) (pushes (snd (commit_push_open_pr w t [])))"
  using ship_pushes [of w t] unfolding adds_def by (metis append_Nil)

end
