(* ===== verification/Run_Outcome.thy ===== *)
theory Run_Outcome
  imports Run_Verdict Ship_Work Gates
begin

text \<open>
  After a run: \<^verbatim>\<open>runtime/adk_runner/_outcome.py\<close> and the second half of \<^verbatim>\<open>_run_ticket\<close>
  in \<^verbatim>\<open>runtime/adk_runner/_orchestrate.py\<close>. The first verdict is revised by what \<^verbatim>\<open>git\<close>
  saw and by the live verifier, and becomes the status and the metadata of the ticket.

  What the agents and services called here answer is a record of parameters: the live verifier,
  the grader of the CI runs, the reviewer of the pull request, the handoff of the run.
\<close>

section \<open>The verdict and its revisions\<close>

record judged =
  outcome :: string
  new_status :: string
  why :: string

definition verdict :: "string \<Rightarrow> string \<Rightarrow> judged" where
  "verdict oc r = \<lparr>outcome = oc, new_status = status_for oc, why = r\<rparr>"

definition demote :: "string \<Rightarrow> string \<Rightarrow> string option \<Rightarrow> judged \<Rightarrow> judged" where
  "demote oc st r v =
     v\<lparr>outcome := oc, new_status := st, why := (case r of None \<Rightarrow> why v | Some t \<Rightarrow> t)\<rparr>"

definition initial_verdict :: "(pyval \<Rightarrow> string) \<Rightarrow> state \<Rightarrow> judged res" where
  "initial_verdict rep st =
     (case enhancer_block_reason st of
        Some r \<Rightarrow> Inr (verdict ''fail'' r)
      | None \<Rightarrow>
          (let oc = extract_verdict rep st
           in ebind (extract_reason rep st) (\<lambda>r. Inr (verdict oc r))))"

definition empty_diff :: string where
  "empty_diff =
     ''empty diff: Doer reported success but changed no files (no edit reached the worktree). Not actually done.''"

definition apply_pr_demotions :: "env \<Rightarrow> dict \<Rightarrow> judged \<Rightarrow> judged" where
  "apply_pr_demotions e pr v =
     (if dget pr ''pr_skip_reason'' = PStr ''test_only_diff'' then demote ''fail'' ''blocked'' None v
      else if dget pr ''pr_skip_reason'' = PStr ''no_changes'' \<and> \<not> truthy (dget pr ''pr_url'')
              \<and> outcome v \<notin> {''scope_violation'', ''fail''}
              \<and> env_get e ''AIFORGE_ALLOW_EMPTY_PASS'' ''0'' \<notin> {''1'', ''true''}
      then demote ''fail'' ''blocked'' (Some empty_diff) v
      else if outcome v = ''partial'' \<and> truthy (dget pr ''pr_url'') then demote ''partial'' ''in_review'' None v
      else v)"

section \<open>The services after the push\<close>

record services =
  verify_ans :: "string \<Rightarrow> dict option res"
  ci_ans :: "string \<Rightarrow> int \<Rightarrow> dict res"
  review_ans :: "string \<Rightarrow> dict res"
  handoff_ans :: "dict res"
  err_text :: "py_exc \<Rightarrow> string"

definition url_of :: "dict \<Rightarrow> string" where
  "url_of pr = (case dget pr ''pr_url'' of PStr u \<Rightarrow> u | _ \<Rightarrow> [])"

definition lift :: "'a res \<Rightarrow> 'a flow" where
  "lift r = (\<lambda>tr. (r, tr))"

definition fcatch :: "'a flow \<Rightarrow> (py_exc \<Rightarrow> 'a flow) \<Rightarrow> 'a flow" where
  "fcatch m h = (\<lambda>tr. case m tr of (Inl e, tr') \<Rightarrow> h e tr' | (Inr x, tr') \<Rightarrow> (Inr x, tr'))"

definition auto_merge :: "repo \<Rightarrow> dict \<Rightarrow> dict flow" where
  "auto_merge w pr =
     fcatch (fbind (merge_pr w (url_of pr) True) (\<lambda>(merged, r).
               fret (set_at (set_at pr ''pr_merged'' (PBool merged)) ''pr_merge_reason'' (PStr r))))
            (\<lambda>_. fret pr)"

text \<open>A slice of the rationale: of a text or a list; nothing else has one.\<close>

definition clip_value :: "(pyval \<Rightarrow> string) \<Rightarrow> nat \<Rightarrow> pyval \<Rightarrow> string res" where
  "clip_value rep n v =
     (case v of PStr s \<Rightarrow> Inr (take_chars n s) | PList xs \<Rightarrow> Inr (rep (PList (take n xs))) | _ \<Rightarrow> Inl TypeError)"

definition on_switch :: "env \<Rightarrow> string \<Rightarrow> bool" where
  "on_switch e k \<longleftrightarrow> env_get e k ''1'' \<in> {''1'', ''true''}"

definition live_verify ::
  "(pyval \<Rightarrow> string) \<Rightarrow> repo \<Rightarrow> services \<Rightarrow> dict \<Rightarrow> judged \<Rightarrow> (judged \<times> dict \<times> dict option) flow" where
  "live_verify rep w x pr v =
     (if \<not> (truthy (dget pr ''pr_url'') \<and> outcome v = ''pass'' \<and> on_switch (ship_env w) ''AIFORGE_LIVE_VERIFIER'')
      then fret (v, pr, None)
      else case verify_ans x (url_of pr) of
             Inl _ \<Rightarrow> fret (v, pr, None)
           | Inr None \<Rightarrow> fret (v, pr, None)
           | Inr (Some lv) \<Rightarrow>
               if dget lv ''ok'' = PBool False
               then fbind (lift (clip_value rep 300 (por (dget lv ''rationale'') (PStr [])))) (\<lambda>r.
                      fret (demote ''fail'' ''blocked'' (Some (''live_verifier rejected: '' @ r)) v, pr, Some lv))
               else if dget lv ''ok'' = PBool True \<and> on_switch (ship_env w) ''AIFORGE_AUTO_MERGE_ON_VALIDATE''
               then fbind (auto_merge w pr) (\<lambda>pr'. fret (v, pr', Some lv))
               else fret (v, pr, Some lv))"

definition failed_answer :: "services \<Rightarrow> py_exc \<Rightarrow> dict" where
  "failed_answer x e = [(''ok'', PBool False), (''error'', PStr (take_chars 200 (err_text x e)))]"

definition grade_ci :: "env \<Rightarrow> services \<Rightarrow> dict \<Rightarrow> dict" where
  "grade_ci e x pr =
     (if \<not> (truthy (dget pr ''pr_url'') \<and> on_switch e ''AIFORGE_CI_GRADE'') then []
      else case int_of_str (env_get e ''AIFORGE_CI_POLL_S'' ''30'') of
             None \<Rightarrow> failed_answer x ValueError
           | Some n \<Rightarrow> (case ci_ans x (url_of pr) n of Inl er \<Rightarrow> failed_answer x er | Inr d \<Rightarrow> d))"

definition review_pr_meta :: "services \<Rightarrow> dict \<Rightarrow> dict" where
  "review_pr_meta x pr =
     (if \<not> truthy (dget pr ''pr_url'') then []
      else case review_ans x (url_of pr) of Inl er \<Rightarrow> failed_answer x er | Inr d \<Rightarrow> d)"

definition validator_out :: "state \<Rightarrow> pyval" where
  "validator_out st =
     (case sget st ''validator_verdict'' of
        PStr s \<Rightarrow> (case json_loads s of Some v \<Rightarrow> v | None \<Rightarrow> PDict [(''raw'', PStr (take_chars 400 s))])
      | v \<Rightarrow> v)"

definition validator_keys :: "dict \<Rightarrow> dict" where
  "validator_keys d =
     [(''validator_verdict'', dget d ''verdict''), (''validator_rationale'', dget d ''rationale''),
      (''validator_scope_ok'', dget d ''scope_ok''), (''validator_regression_risk'', dget d ''regression_risk'')]"

text \<open>A validator verdict that is no dictionary, and not empty, has no \<^verbatim>\<open>get\<close>.\<close>

definition validator_meta :: "pyval \<Rightarrow> dict res" where
  "validator_meta v =
     (if \<not> truthy v then Inr [] else case v of PDict d \<Rightarrow> Inr (validator_keys d) | _ \<Rightarrow> Inl AttributeError)"

definition status_metadata ::
  "state \<Rightarrow> judged \<Rightarrow> dict \<Rightarrow> dict \<Rightarrow> dict \<Rightarrow> pyval \<Rightarrow> dict option \<Rightarrow> services \<Rightarrow> dict res" where
  "status_metadata st v pr ci rv vout lv x =
     ebind (validator_meta vout) (\<lambda>vm.
       Inr (foldl dict_update [(''feedback_verdict'', PStr (outcome v)), (''verifier_verdict'', extract_verifier st)]
         [pr,
          (if ci = [] then [] else
             [(''ci_status'', dget ci ''status''), (''ci_rolled_back'', dget_or ci ''rolled_back'' (PBool False)),
              (''ci_checks'', por (dget ci ''checks'') (PList []))]),
          (if truthy (dget rv ''ok'') then
             [(''review_verdict'', dget rv ''verdict''), (''review_axes'', por (dget rv ''axes'') (PDict []))] else []),
          vm, [(''handled_by'', PStr ''pipeline'')], or_else (handoff_ans x) [],
          (case lv of None \<Rightarrow> [] | Some d \<Rightarrow> if d = [] then [] else
             [(''live_verifier_ok'', dget d ''ok''), (''live_verifier_rationale'', dget d ''rationale''),
              (''live_handoff'', dget_or d ''live_handoff'' (PBool False)), (''handoff_brief'', dget d ''handoff_brief'')])]))"

section \<open>From the verdict to the status\<close>

definition may_ship :: "state \<Rightarrow> judged \<Rightarrow> bool" where
  "may_ship st v \<longleftrightarrow> outcome v \<noteq> ''scope_violation'' \<and> enhancer_block_reason st = None"

definition conclude ::
  "(pyval \<Rightarrow> string) \<Rightarrow> repo \<Rightarrow> services \<Rightarrow> ticket \<Rightarrow> state \<Rightarrow> judged \<Rightarrow> (string \<times> dict) flow" where
  "conclude rep w x t st v =
     fbind (if may_ship st v then commit_push_open_pr w t else fret []) (\<lambda>pr.
     fbind (live_verify rep w x pr (apply_pr_demotions (ship_env w) pr v)) (\<lambda>(v2, pr2, lv).
     fbind (lift (status_metadata st v2 pr2 (grade_ci (ship_env w) x pr2) (review_pr_meta x pr2)
                    (validator_out st) lv x)) (\<lambda>md.
     fret (new_status v2, md))))"

section \<open>What a flow that returned did\<close>

lemma fbind_Inr: "fbind m f tr = (Inr y, tr') \<longleftrightarrow> (\<exists>x tr1. m tr = (Inr x, tr1) \<and> f x tr1 = (Inr y, tr'))"
  by (auto simp: fbind_def split: prod.split sum.split)

lemma lift_Inr: "lift r tr = (Inr y, tr') \<longleftrightarrow> r = Inr y \<and> tr' = tr"
  by (auto simp: lift_def)

lemma fret_Inr: "fret x tr = (Inr y, tr') \<longleftrightarrow> y = x \<and> tr' = tr"
  by (auto simp: fret_def)

lemmas flow_steps = fbind_Inr lift_Inr fret_Inr

lemma demoted_done:
  "new_status (apply_pr_demotions e pr (verdict oc r)) = ''done'' \<longleftrightarrow>
     oc = ''pass'' \<and> dget pr ''pr_skip_reason'' \<noteq> PStr ''test_only_diff''
     \<and> (dget pr ''pr_skip_reason'' \<noteq> PStr ''no_changes'' \<or> truthy (dget pr ''pr_url'')
       \<or> env_get e ''AIFORGE_ALLOW_EMPTY_PASS'' ''0'' \<in> {''1'', ''true''})"
  by (auto simp: apply_pr_demotions_def demote_def verdict_def status_for_def)

lemma demoted_outcome:
  "new_status (apply_pr_demotions e pr (verdict oc r)) = ''done'' \<Longrightarrow>
     outcome (apply_pr_demotions e pr (verdict oc r)) = ''pass''"
  by (auto simp: apply_pr_demotions_def demote_def verdict_def status_for_def split: if_splits)

definition rejects :: "dict option res \<Rightarrow> bool" where
  "rejects a \<longleftrightarrow> (case a of Inr (Some lv) \<Rightarrow> dget lv ''ok'' = PBool False | _ \<Rightarrow> False)"

lemma verified_done:
  assumes "live_verify rep w x pr v tr = (Inr (v2, pr2, lv), tr')"
  shows "new_status v2 = ''done'' \<longleftrightarrow> new_status v = ''done'' \<and> \<not> (truthy (dget pr ''pr_url'')
    \<and> outcome v = ''pass'' \<and> on_switch (ship_env w) ''AIFORGE_LIVE_VERIFIER'' \<and> rejects (verify_ans x (url_of pr)))"
  using assms
  by (auto simp: live_verify_def flow_steps demote_def rejects_def split: if_splits sum.splits option.splits)

section \<open>Done is earned\<close>

text \<open>The work was offered for shipping, the offer did not show it to be tests alone or nothing at all
  (unless the operator allows an empty pass), and the live verifier, where it was asked, did not reject it.\<close>

definition offered_and_kept :: "repo \<Rightarrow> services \<Rightarrow> ticket \<Rightarrow> act list \<Rightarrow> bool" where
  "offered_and_kept w x t tr \<longleftrightarrow>
     (case commit_push_open_pr w t tr of
        (Inl _, _) \<Rightarrow> False
      | (Inr pr, _) \<Rightarrow>
          dget pr ''pr_skip_reason'' \<noteq> PStr ''test_only_diff''
          \<and> (dget pr ''pr_skip_reason'' \<noteq> PStr ''no_changes'' \<or> truthy (dget pr ''pr_url'')
             \<or> env_get (ship_env w) ''AIFORGE_ALLOW_EMPTY_PASS'' ''0'' \<in> {''1'', ''true''})
          \<and> \<not> (truthy (dget pr ''pr_url'') \<and> on_switch (ship_env w) ''AIFORGE_LIVE_VERIFIER''
               \<and> rejects (verify_ans x (url_of pr))))"

lemma initial_read:
  assumes "initial_verdict rep st = Inr v"
  obtains r where "v = verdict (if enhancer_block_reason st = None then extract_verdict rep st else ''fail'') r"
  using assms by (auto simp: initial_verdict_def ebind_Inr_iff Let_def split: option.splits)

lemma done_exact:
  assumes "initial_verdict rep st = Inr v" and "conclude rep w x t st v tr = (Inr (ns, md), tr')"
  shows "ns = ''done'' \<longleftrightarrow>
    extract_verdict rep st = ''pass'' \<and> enhancer_block_reason st = None \<and> offered_and_kept w x t tr"
proof -
  obtain r where v: "v = verdict (if enhancer_block_reason st = None then extract_verdict rep st else ''fail'') r"
    using initial_read [OF assms(1)] .
  obtain pr tr1 v2 pr2 lv tr2 where
    ship: "(if may_ship st v then commit_push_open_pr w t else fret []) tr = (Inr pr, tr1)"
    and live: "live_verify rep w x pr (apply_pr_demotions (ship_env w) pr v) tr1 = (Inr (v2, pr2, lv), tr2)"
    and ns: "ns = new_status v2"
    using assms(2) by (auto simp: conclude_def flow_steps)
  have dem: "new_status (apply_pr_demotions (ship_env w) pr v) = ''done'' \<longleftrightarrow> outcome v = ''pass''
      \<and> dget pr ''pr_skip_reason'' \<noteq> PStr ''test_only_diff''
      \<and> (dget pr ''pr_skip_reason'' \<noteq> PStr ''no_changes'' \<or> truthy (dget pr ''pr_url'')
        \<or> env_get (ship_env w) ''AIFORGE_ALLOW_EMPTY_PASS'' ''0'' \<in> {''1'', ''true''})"
    using demoted_done v by (simp add: verdict_def)
  have keep: "new_status (apply_pr_demotions (ship_env w) pr v) = ''done'' \<Longrightarrow>
      outcome (apply_pr_demotions (ship_env w) pr v) = ''pass''"
    using demoted_outcome v by simp
  show ?thesis
  proof (cases "outcome v = ''pass''")
    case True
    then have first: "extract_verdict rep st = ''pass''" "enhancer_block_reason st = None"
      using v by (auto simp: verdict_def split: if_splits)
    then have "commit_push_open_pr w t tr = (Inr pr, tr1)" using ship True by (simp add: may_ship_def)
    then show ?thesis
      using first True dem keep verified_done [OF live] ns by (auto simp: offered_and_kept_def)
  next
    case False
    then have "\<not> (extract_verdict rep st = ''pass'' \<and> enhancer_block_reason st = None)"
      using v by (cases "enhancer_block_reason st") (auto simp: verdict_def)
    then show ?thesis using False dem verified_done [OF live] ns by (metis (no_types, lifting))
  qed
qed

text \<open>C8. A run of the code pipeline that reaches its end marks the ticket done exactly if the Feedback agent's
  verdict reads as a pass, the enhancer did not refuse the brief, shipping was tried and returned, its answer
  is neither a diff of tests alone nor a clean tree without a pull request (which the switch
  \<^verbatim>\<open>AIFORGE_ALLOW_EMPTY_PASS\<close> accepts), and the live verifier did not reject the pull request, where there is one
  and the verifier is on. Nothing else keeps it from being done: a push that failed, or a directory that is no
  repository, does not.\<close>

theorem done_is_earned:
  assumes "initial_verdict rep st = Inr v" and "conclude rep w x t st v tr = (Inr (ns, md), tr')"
  shows "ns = ''done'' \<longleftrightarrow>
    extract_verdict rep st = ''pass'' \<and> enhancer_block_reason st = None \<and>
    (\<exists>pr tr1. commit_push_open_pr w t tr = (Inr pr, tr1)
      \<and> dget pr ''pr_skip_reason'' \<noteq> PStr ''test_only_diff''
      \<and> (dget pr ''pr_skip_reason'' \<noteq> PStr ''no_changes'' \<or> truthy (dget pr ''pr_url'')
         \<or> env_get (ship_env w) ''AIFORGE_ALLOW_EMPTY_PASS'' ''0'' \<in> {''1'', ''true''})
      \<and> \<not> (truthy (dget pr ''pr_url'') \<and> on_switch (ship_env w) ''AIFORGE_LIVE_VERIFIER''
           \<and> rejects (verify_ans x (url_of pr))))"
  using done_exact [OF assms] by (auto simp: offered_and_kept_def split: prod.splits sum.splits)

lemma silent_without_url:
  "\<not> truthy (dget pr ''pr_url'') \<Longrightarrow> live_verify rep w x pr v = fret (v, pr, None)"
  by (simp add: live_verify_def)

text \<open>C37. A run whose verdict reads as a scope violation, or whose brief the enhancer refused, runs no command of
  the shipping, the merge or the rest, pushes nothing, and if it reaches its end marks the ticket cancelled in
  the first case and blocked in the second, never done or for review.\<close>

theorem refused_run_touches_nothing:
  assumes "initial_verdict rep st = Inr v"
    and "extract_verdict rep st = ''scope_violation'' \<or> enhancer_block_reason st \<noteq> None"
    and "conclude rep w x t st v tr = (a, tr')"
  shows "tr' = tr \<and> (\<forall>ns md. a = Inr (ns, md) \<longrightarrow>
    ns = (if enhancer_block_reason st = None then ''cancelled'' else ''blocked''))"
proof -
  obtain r where v: "v = verdict (if enhancer_block_reason st = None then extract_verdict rep st else ''fail'') r"
    using initial_read [OF assms(1)] .
  have "\<not> may_ship st v" using v assms(2) by (auto simp: may_ship_def verdict_def)
  moreover have "live_verify rep w x [] u = fret (u, [], None)" for u
    by (simp add: live_verify_def dget_def)
  moreover have "new_status (apply_pr_demotions (ship_env w) [] v) =
      (if enhancer_block_reason st = None then ''cancelled'' else ''blocked'')"
    using v assms(2) by (auto simp: apply_pr_demotions_def verdict_def status_for_def dget_def)
  ultimately show ?thesis
    using assms(3) by (auto simp: conclude_def fbind_def fret_def lift_def split: sum.splits)
qed

text \<open>A run in a directory that is no repository, where every command fails.\<close>

definition bare_repo :: repo where
  "bare_repo = \<lparr>git = \<lambda>_ _. Inr (1, [], []), root_dir = ''/w'', dot_git = False, has_gh = False, has_gitignore = True,
     gitignore_writable = True, ingest_cli = False, ship_env = (\<lambda>_. None), exc_text = (\<lambda>_. [])\<rparr>"

definition quiet_services :: services where
  "quiet_services = \<lparr>verify_ans = \<lambda>_. Inr None, ci_ans = \<lambda>_ _. Inr [], review_ans = \<lambda>_. Inr [],
     handoff_ans = Inr [], err_text = \<lambda>_. []\<rparr>"

definition blank_ticket :: ticket where
  "blank_ticket = blank_draft\<lparr>row_id := 1, ident := ''ONE-100'', status := ''in_progress''\<rparr>"

lemma bare_ship:
  "commit_push_open_pr bare_repo t tr = (Inr (skipped ''not_a_git_repo''), tr @ [Ran [''git'', ''rev-parse'', ''--git-dir'']])"
  by (simp add: commit_push_open_pr_def resolve_repo_root_def bare_repo_def fbind_def fret_def command_def)

lemma pass_read:
  "initial_verdict rep [''feedback_verdict'' \<mapsto> PStr ''pass''] = Inr (verdict ''pass'' ''no rationale provided'')"
  "extract_verdict rep [''feedback_verdict'' \<mapsto> PStr ''pass''] = ''pass''"
proof -
  have "strip ''pass'' = ''pass''" "leading_token ''pass'' = ''pass''" "strip_leading_verdict ''pass'' = []"
    by code_simp+
  then show "extract_verdict rep [''feedback_verdict'' \<mapsto> PStr ''pass''] = ''pass''"
    and "initial_verdict rep [''feedback_verdict'' \<mapsto> PStr ''pass''] = Inr (verdict ''pass'' ''no rationale provided'')"
    by (simp_all add: extract_verdict_def initial_verdict_def enhancer_block_reason_def sget_def extract_reason_def
        abort_reason_def reason_from_str_def legacy_verdict_def starts_with_def Let_def)
qed

lemma bare_run_done:
  "\<exists>md tr'. conclude rep bare_repo quiet_services blank_ticket [''feedback_verdict'' \<mapsto> PStr ''pass'']
     (verdict ''pass'' ''no rationale provided'') [] = (Inr (''done'', md), tr')"
  by (simp add: conclude_def may_ship_def verdict_def enhancer_block_reason_def sget_def fbind_def bare_ship
      apply_pr_demotions_def skipped_def dget_def live_verify_def fret_def status_for_def lift_def
      status_metadata_def validator_meta_def validator_out_def)

theorem done_is_earned_witness:
  "\<exists>md tr'. conclude (\<lambda>_. []) bare_repo quiet_services blank_ticket [''feedback_verdict'' \<mapsto> PStr ''pass'']
     (verdict ''pass'' ''no rationale provided'') [] = (Inr (''done'', md), tr') \<and>
   extract_verdict (\<lambda>_. []) [''feedback_verdict'' \<mapsto> PStr ''pass''] = ''pass'' \<and>
   enhancer_block_reason [''feedback_verdict'' \<mapsto> PStr ''pass''] = None"
proof -
  obtain md tr' where r: "conclude (\<lambda>_. []) bare_repo quiet_services blank_ticket
      [''feedback_verdict'' \<mapsto> PStr ''pass''] (verdict ''pass'' ''no rationale provided'') [] = (Inr (''done'', md), tr')"
    using bare_run_done by blast
  show ?thesis using r done_is_earned [OF pass_read(1) r] by blast
qed

lemma refused_read:
  "initial_verdict rep [''enhanced_body'' \<mapsto> PStr ''ENHANCE_BLOCKED: no goal''] = Inr (verdict ''fail'' ''no goal'')"
  "enhancer_block_reason [''enhanced_body'' \<mapsto> PStr ''ENHANCE_BLOCKED: no goal''] = Some ''no goal''"
proof -
  have "block_reason d ''ENHANCE_BLOCKED: no goal'' = Some ''no goal''" for d
  proof -
    have "strip ''ENHANCE_BLOCKED: no goal'' = ''ENHANCE_BLOCKED: no goal''"
      "find_char (CHR '':'') ''ENHANCE_BLOCKED: no goal'' = Some 15" "strip '' no goal'' = ''no goal''"
      "starts_with sentinel ''ENHANCE_BLOCKED: no goal''" "take_chars 300 ''no goal'' = ''no goal''"
      "\<not> list_ex (\<lambda>p. contains p (lower ''no goal'')) not_a_refusal"
      by code_simp+
    then show ?thesis by (simp add: block_reason_def Let_def)
  qed
  then show "enhancer_block_reason [''enhanced_body'' \<mapsto> PStr ''ENHANCE_BLOCKED: no goal''] = Some ''no goal''"
    and "initial_verdict rep [''enhanced_body'' \<mapsto> PStr ''ENHANCE_BLOCKED: no goal''] = Inr (verdict ''fail'' ''no goal'')"
    by (simp_all add: initial_verdict_def enhancer_block_reason_def sget_def)
qed

theorem refused_run_touches_nothing_witness:
  "\<exists>md. conclude (\<lambda>_. []) bare_repo quiet_services blank_ticket
     [''enhanced_body'' \<mapsto> PStr ''ENHANCE_BLOCKED: no goal''] (verdict ''fail'' ''no goal'') [] = (Inr (''blocked'', md), [])"
proof -
  let ?st = "[''enhanced_body'' \<mapsto> PStr ''ENHANCE_BLOCKED: no goal'']"
  obtain a tr' where r: "conclude (\<lambda>_. []) bare_repo quiet_services blank_ticket ?st (verdict ''fail'' ''no goal'') [] = (a, tr')"
    by fastforce
  have some: "\<exists>ns md. a = Inr (ns, md)"
    using r by (auto simp: conclude_def may_ship_def refused_read(2) fbind_def fret_def live_verify_def dget_def lift_def
        apply_pr_demotions_def verdict_def status_metadata_def validator_meta_def validator_out_def sget_def)
  show ?thesis
    using refused_run_touches_nothing [OF refused_read(1) _ r] refused_read(2) some r by auto
qed

section \<open>The gate and the runner\<close>

lemma partial_read:
  assumes "sget st ''feedback_verdict'' = PStr (''partial '' @ z)"
  shows "extract_verdict rep st = ''partial''"
proof -
  obtain u where u: "strip (''partial '' @ z) = ''partial'' @ u"
    using strip_keeps_head [of "CHR ''p''" "CHR ''l''" "''artia''" "CHR '' '' # z"]
    by (auto simp: is_space_def)
  then show ?thesis
    using assms by (simp add: extract_verdict_def legacy_verdict_def starts_with_def leading_token_def lead_marks_def
        lstrip_chars_def verdict_tokens_def lower_def lower_char_def)
qed

text \<open>C10. What the runner marks as done was passed by the loop gate that let the run out: whatever the gate
  lets out at its cap, or marks as gamed, does not read as a pass.\<close>

theorem done_passed_the_gate:
  assumes "loop_gate g s = Inr (To_exit, s')"
    and "sget st ''feedback_verdict'' = sget (ss_vars s') ''feedback_verdict''"
    and "initial_verdict rep st = Inr v" and "conclude rep w x t st v tr = (Inr (''done'', md), tr')"
  shows "feedback_passed (gw_rep g) (ss_vars s) \<and> (gw_repo g = [] \<or> gw_evidence g = [])"
proof -
  have pass: "extract_verdict rep st = ''pass''" using done_exact [OF assms(3,4)] by blast
  have "sget st ''feedback_verdict'' \<noteq> PStr (''partial '' @ z)" for z
    using partial_read [of st z rep] pass by auto
  then have "sget st ''feedback_verdict'' \<noteq> PStr (''partial loop_budget_kill: '' @ z)"
    and "sget st ''feedback_verdict'' \<noteq> PStr (''partial test_gaming: '' @ z)" for z
    by (metis append_Cons append_Nil)+
  then show ?thesis using exit_honest [OF assms(1)] assms(2) by auto
qed

lemma passing_exits_same:
  "\<exists>s'. loop_gate plain_world \<lparr> ss_vars = [''feedback_verdict'' \<mapsto> PStr ''pass''], ss_track = new_track \<rparr> = Inr (To_exit, s')
     \<and> sget (ss_vars s') ''feedback_verdict'' = PStr ''pass''"
proof -
  have "feedback_passed (\<lambda>_. []) [''feedback_verdict'' \<mapsto> PStr ''pass'', ''doer_iters'' \<mapsto> PInt 1]" by code_simp
  then show ?thesis
    by (simp add: loop_gate_def plain_world_def sset_def sget_def Let_def mark_test_gaming_def loop_decision_def
        wall_clock_kill_def doer_max_wall_s_def load_default default_policy_def fun_upd_twist)
qed

theorem done_passed_the_gate_witness:
  "feedback_passed (gw_rep plain_world) [''feedback_verdict'' \<mapsto> PStr ''pass''] \<and>
   (gw_repo plain_world = [] \<or> gw_evidence plain_world = [])"
proof -
  obtain s' where s': "loop_gate plain_world \<lparr> ss_vars = [''feedback_verdict'' \<mapsto> PStr ''pass''], ss_track = new_track \<rparr> = Inr (To_exit, s')"
      "sget (ss_vars s') ''feedback_verdict'' = PStr ''pass''"
    using passing_exits_same by blast
  obtain md tr' where r: "conclude (\<lambda>_. []) bare_repo quiet_services blank_ticket
      [''feedback_verdict'' \<mapsto> PStr ''pass''] (verdict ''pass'' ''no rationale provided'') [] = (Inr (''done'', md), tr')"
    using bare_run_done by blast
  show ?thesis
    using done_passed_the_gate [OF s'(1) _ pass_read(1) r] s'(2) by (simp add: sget_def)
qed



text \<open>C39. A pass whose work could not be shipped is done all the same: where shipping returned without a pull
  request and for any reason but a clean tree or a diff of tests alone (no repository, no branch, a push
  that failed), the run ends with the ticket done and runs no further command. The Validator's verdict, if it
  left one, has to be a dictionary.\<close>

theorem unshipped_pass_is_done:
  assumes "initial_verdict rep st = Inr v" and "extract_verdict rep st = ''pass''" and "enhancer_block_reason st = None"
    and "commit_push_open_pr w t tr = (Inr pr, tr1)" and "\<not> truthy (dget pr ''pr_url'')"
    and "dget pr ''pr_skip_reason'' \<notin> {PStr ''test_only_diff'', PStr ''no_changes''}"
    and "\<not> truthy (validator_out st) \<or> is_dict (validator_out st)"
  shows "\<exists>md. conclude rep w x t st v tr = (Inr (''done'', md), tr1)"
proof -
  obtain r where v: "v = verdict ''pass'' r" using initial_read [OF assms(1)] assms(2,3) by auto
  obtain vm where "validator_meta (validator_out st) = Inr vm"
    using assms(7) by (cases "validator_out st"; cases "truthy (validator_out st)") (auto simp: validator_meta_def)
  then show ?thesis
    using v assms(3-6)
    by (simp add: conclude_def may_ship_def fbind_def apply_pr_demotions_def silent_without_url fret_def lift_def
        status_metadata_def verdict_def status_for_def)
qed

theorem unshipped_pass_is_done_witness:
  "\<exists>md. conclude (\<lambda>_. []) bare_repo quiet_services blank_ticket
     [''feedback_verdict'' \<mapsto> PStr ''pass'', ''validator_verdict'' \<mapsto> PDict [(''verdict'', PStr ''approve'')]]
     (verdict ''pass'' ''no rationale provided'') [] = (Inr (''done'', md), [Ran [''git'', ''rev-parse'', ''--git-dir'']])"
proof -
  let ?f = "[''feedback_verdict'' \<mapsto> PStr ''pass'']"
  let ?st = "?f(''validator_verdict'' \<mapsto> PDict [(''verdict'', PStr ''approve'')])"
  have same: "initial_verdict rep ?st = initial_verdict rep ?f" "extract_verdict rep ?st = extract_verdict rep ?f" for rep
    by (simp_all add: initial_verdict_def extract_verdict_def extract_reason_def abort_reason_def enhancer_block_reason_def
        sget_def)
  have n: "enhancer_block_reason ?st = None" "is_dict (validator_out ?st)"
    by (simp_all add: enhancer_block_reason_def validator_out_def sget_def)
  show ?thesis
    using unshipped_pass_is_done [OF trans [OF same(1) pass_read(1)] trans [OF same(2) pass_read(2)] n(1) bare_ship,
        where tr = "[]" and x = quiet_services and t = blank_ticket] n(2)
    by (simp add: skipped_def dget_def)
qed

text \<open>A validator that answers with a bare JSON value, \<^verbatim>\<open>true\<close> or a quoted word, ends the run in an
  exception after the work was shipped.\<close>

lemma bare_validator_raises:
  assumes "truthy (validator_out st)" and "\<not> is_dict (validator_out st)"
  shows "\<exists>e. fst (conclude rep w x t st v tr) = Inl e"
proof -
  have "validator_meta (validator_out st) = Inl AttributeError"
    using assms by (cases "validator_out st") (auto simp: validator_meta_def)
  then show ?thesis
    by (auto simp: conclude_def fbind_def lift_def status_metadata_def split: prod.split sum.split)
qed

lemma bare_validator_answers: "validator_out [''validator_verdict'' \<mapsto> PStr ''true''] = PBool True"
  by code_simp

end
