(* ===== verification/Ticket_Run.thy ===== *)
theory Ticket_Run
  imports Run_Outcome Ticket_Reaper
begin

text \<open>
  One ticket from claim to status: \<^verbatim>\<open>runtime/adk_runner/_orchestrate.py\<close> with
  \<^verbatim>\<open>runtime/clarify.py\<close>. The state is the store and the list of what was done in
  repositories; what the models, the workspace set-up and the pipeline answer is a record of
  parameters. An answer may be a failure: an ordinary exception, a wait for the model that was
  cancelled, or a typed report that the model keeps failing the request. The store itself always answers:
  an operational error of SQLite, after which a failed run can stay in progress, is outside the model.
\<close>

section \<open>What a run depends on\<close>

datatype failure = Failed py_exc | Wait_cancelled | Llm_issue string string

record runner =
  place :: "string option \<Rightarrow> repo"
  triage_ans :: "failure + string"
  setup_ans :: "failure + string option"
  prepare_ans :: "failure + unit"
  pipeline_ans :: "failure + state"
  workflow_ans :: "failure + dict"
  served :: services
  fail_text :: "failure \<Rightarrow> string"
  run_env :: env
  instant :: "nat \<Rightarrow> stamp"

type_synonym world = "db \<times> act list"

section \<open>The clarification gate\<close>

definition min_thin_words :: "env \<Rightarrow> int" where
  "min_thin_words e =
     (case int_of_str (env_get e ''AIFORGE_CLARIFY_MIN_WORDS'' ''30'') of None \<Rightarrow> 30 | Some n \<Rightarrow> max 1 n)"

definition thin :: "env \<Rightarrow> ticket \<Rightarrow> bool" where
  "thin e t \<longleftrightarrow> int (length (split_ws (strip (body t)))) < min_thin_words e"

text \<open>The questions in the reply of the triage model.\<close>

definition questions :: "string \<Rightarrow> string list" where
  "questions reply =
     (let t = strip reply
      in if t = [] \<or> starts_with ''CLEAR'' (upper t) then []
         else take 3 (filter (\<lambda>q. q \<noteq> [] \<and> CHR ''?'' \<in> set q)
                (map (\<lambda>l. strip (lstrip_chars ''-*0123456789. '' (strip l))) (splitlines t))))"

definition clarify_text :: "string list \<Rightarrow> string" where
  "clarify_text qs =
     ''I need a bit more detail before I start:'' @ [CHR 0x0A] @ join [CHR 0x0A] (map (\<lambda>q. ''- '' @ q) qs)"

definition mark_clarified :: "stamp \<Rightarrow> ticket \<Rightarrow> db \<Rightarrow> bool \<times> db" where
  "mark_clarified now t db =
     (False, snd (update_status (row_id t) ''in_progress'' (Some ''clarify'') [(''clarified'', PBool True)] now id db))"

definition ask_user :: "stamp \<Rightarrow> ticket \<Rightarrow> string list \<Rightarrow> db \<Rightarrow> bool \<times> db" where
  "ask_user now t qs db =
     (case add_event (row_id t) (Some ''clarify'') ''clarification'' (Some (clarify_text qs))
             [(''questions'', PList (map PStr qs))] now db of
        (Inl _, db1) \<Rightarrow> (False, db1)
      | (Inr _, db1) \<Rightarrow>
          (case update_status (row_id t) ''blocked'' (Some ''clarify'')
                  [(''awaiting_input'', PBool True), (''clarify_questions'', PList (map PStr qs))] now id db1 of
             (Inl _, db2) \<Rightarrow> (False, db2)
           | (Inr _, db2) \<Rightarrow> (True, db2)))"

text \<open>\<^verbatim>\<open>_clarify_parked\<close> over \<^verbatim>\<open>maybe_clarify\<close>: any failure lets the ticket go on.\<close>

definition clarify_parked :: "env \<Rightarrow> failure + string \<Rightarrow> stamp \<Rightarrow> ticket \<Rightarrow> db \<Rightarrow> bool \<times> db" where
  "clarify_parked e reply now t db =
     (if \<not> truthy (dget (metadata t) ''interactive'') \<or> truthy (dget (metadata t) ''clarified'') then (False, db)
      else if \<not> thin e t then mark_clarified now t db
      else case reply of
             Inl _ \<Rightarrow> (False, db)
           | Inr r \<Rightarrow> (if questions r = [] then mark_clarified now t db else ask_user now t (questions r) db))"

section \<open>A run that failed\<close>

definition issue_meta :: "failure \<Rightarrow> dict" where
  "issue_meta f =
     (case f of
        Llm_issue r t \<Rightarrow> [(''failure_reason'', PStr r), (''blocked_reason'', PStr (take_chars 500 t))]
      | _ \<Rightarrow> [])"

definition rescue_partial_work :: "repo \<Rightarrow> ticket \<Rightarrow> dict flow" where
  "rescue_partial_work w t = fcatch (commit_push_open_pr w t) (\<lambda>_. fret [])"

text \<open>The \<^verbatim>\<open>except\<close> branch of \<^verbatim>\<open>_run_claimed_ticket\<close>; \<open>wt\<close> is the worktree that is set by then.\<close>

definition fail_run :: "runner \<Rightarrow> string option \<Rightarrow> ticket \<Rightarrow> failure \<Rightarrow> world \<Rightarrow> world" where
  "fail_run x wt t f s =
     (if f = Wait_cancelled then s
      else (let (got, tr) = (if route t = ''workflow'' then (Inr [], snd s)
                             else rescue_partial_work (place x wt) t (snd s));
                md = [(''error'', PStr (take_chars 500 (fail_text x f)))]
            in (snd (update_status (row_id t) ''blocked'' (Some ''adk_runner'')
                  (dict_update (dict_update md (issue_meta f)) (or_else got [])) (instant x 3) id (fst s)), tr)))"

section \<open>The code pipeline\<close>

definition record_verdict_event :: "stamp \<Rightarrow> ticket \<Rightarrow> judged \<Rightarrow> db \<Rightarrow> db" where
  "record_verdict_event now t v db =
     snd (add_event (row_id t) (Some ''feedback'') ''verdict_attempt'' (Some (outcome v @ '': '' @ why v))
            [(''verdict'', PStr (outcome v)), (''reason'', PStr (why v))] now db)"

definition run_ticket :: "(pyval \<Rightarrow> string) \<Rightarrow> runner \<Rightarrow> string \<Rightarrow> ticket \<Rightarrow> world \<Rightarrow> world" where
  "run_ticket rep x wt t s =
     (case pipeline_ans x of
        Inl f \<Rightarrow> fail_run x (Some wt) t f s
      | Inr st \<Rightarrow>
          (case initial_verdict rep st of
             Inl e \<Rightarrow> fail_run x (Some wt) t (Failed e) s
           | Inr v \<Rightarrow>
               (let db1 = record_verdict_event (instant x 1) t v (fst s)
                in case conclude rep (place x (Some wt)) (served x) t st v (snd s) of
                     (Inl e, tr1) \<Rightarrow> fail_run x (Some wt) t (Failed e) (db1, tr1)
                   | (Inr (st', md), tr1) \<Rightarrow>
                       (case update_status (row_id t) st' (Some ''adk_runner'') md (instant x 2) id db1 of
                          (Inl _, db2) \<Rightarrow> fail_run x (Some wt) t (Failed ValueError) (db2, tr1)
                        | (Inr _, db2) \<Rightarrow> (db2, tr1)))))"

definition no_repo_metadata :: "env \<Rightarrow> string \<Rightarrow> dict" where
  "no_repo_metadata e shown =
     [(''error'', PStr (take_chars 500 (''no target repo for project='' @ shown @
        ''; set ticket.project to a directory under AIFORGE_WORKTREE_ROOT (''
        @ env_get e ''AIFORGE_WORKTREE_ROOT'' ''~/codeRepo'' @ '')'')))]"

text \<open>Python's display of the project, quotes not escaped.\<close>

definition shown_project :: "ticket \<Rightarrow> string" where
  "shown_project t = (case project t of None \<Rightarrow> ''None'' | Some p \<Rightarrow> CHR 0x27 # p @ [CHR 0x27])"

section \<open>A workflow\<close>

text \<open>\<^verbatim>\<open>list(v or [])\<close>.\<close>

definition listed :: "pyval \<Rightarrow> pyval list res" where
  "listed v =
     (if \<not> truthy v then Inr []
      else case v of PList xs \<Rightarrow> Inr xs | PStr s \<Rightarrow> Inr (map (\<lambda>c. PStr [c]) s)
           | PDict d \<Rightarrow> Inr (map (\<lambda>p. PStr (fst p)) d) | _ \<Rightarrow> Inl TypeError)"

definition problem_line :: "(pyval \<Rightarrow> string) \<Rightarrow> dict \<Rightarrow> string" where
  "problem_line rep p =
     take_chars 300 (py_str rep (dget_or p ''mode'' (PStr ''problem'')) @ '': '' @
       py_str rep (dget_or p ''evidence'' (PStr [])))"

definition problem_text :: "(pyval \<Rightarrow> string) \<Rightarrow> pyval list \<Rightarrow> string" where
  "problem_text rep ps =
     (let s = join ''; '' (map (problem_line rep) (concat (map (\<lambda>v. case v of PDict d \<Rightarrow> [d] | _ \<Rightarrow> []) ps)))
      in if s = [] then ''the workflow reported material gaps'' else s)"

definition end_workflow ::
  "(pyval \<Rightarrow> string) \<Rightarrow> runner \<Rightarrow> ticket \<Rightarrow> string \<Rightarrow> pyval list \<Rightarrow> dict \<Rightarrow> db \<Rightarrow> (failure + unit) \<times> db" where
  "end_workflow rep x t flow_id ps out db =
     (let blocked = truthy (dget out ''blocked_by_detectors'');
          md = [(''workflow'', PStr flow_id), (''workflow_target'', dget out ''target''), (''workflow_problems'', PList ps)] @
               (if blocked then [(''blocked_reason'', PStr (problem_text rep ps))] else [])
      in case update_status (row_id t) (if blocked then ''blocked'' else ''done'') (Some ''workflow'') md (instant x 2) id db of
           (Inl _, db') \<Rightarrow> (Inl (Failed ValueError), db')
         | (Inr _, db') \<Rightarrow> (Inr (), db'))"

definition run_workflow_ticket ::
  "(pyval \<Rightarrow> string) \<Rightarrow> runner \<Rightarrow> ticket \<Rightarrow> db \<Rightarrow> (failure + unit) \<times> db" where
  "run_workflow_ticket rep x t db =
     (let flow_id = (case route_workflow t of None \<Rightarrow> [] | Some w \<Rightarrow> w)
      in case workflow_ans x of
           Inl f \<Rightarrow> (Inl f, db)
         | Inr out \<Rightarrow>
             (let report = py_str rep (por (dget out ''udiff'') (PStr []))
              in case (if report = [] then (Inr 0, db)
                       else add_comment (row_id t) (Some ''workflow'') (take_chars 60000 report)
                              [(''workflow'', PStr flow_id), (''target'', dget out ''target'')] (instant x 1) db) of
                   (Inl _, db1) \<Rightarrow> (Inl (Failed ValueError), db1)
                 | (Inr _, db1) \<Rightarrow>
                     (case listed (dget out ''problems'') of
                        Inl e \<Rightarrow> (Inl (Failed e), db1)
                      | Inr ps \<Rightarrow> end_workflow rep x t flow_id (take 20 ps) out db1)))"

section \<open>One ticket\<close>

definition run_claimed_ticket :: "(pyval \<Rightarrow> string) \<Rightarrow> runner \<Rightarrow> ticket \<Rightarrow> world \<Rightarrow> world" where
  "run_claimed_ticket rep x t s =
     (if route t = ''workflow''
      then (case run_workflow_ticket rep x t (fst s) of
              (Inl f, db1) \<Rightarrow> fail_run x None t f (db1, snd s)
            | (Inr _, db1) \<Rightarrow> (db1, snd s))
      else (let (parked, db1) = clarify_parked (run_env x) (triage_ans x) (instant x 0) t (fst s); s1 = (db1, snd s)
            in if parked then s1
               else case setup_ans x of
                      Inl f \<Rightarrow> fail_run x None t f s1
                    | Inr w \<Rightarrow>
                        if w = None \<or> w = Some []
                        then (case update_status (row_id t) ''blocked'' (Some ''adk_runner'')
                                     (no_repo_metadata (run_env x) (shown_project t)) (instant x 1) id db1 of
                                (Inl _, db2) \<Rightarrow> fail_run x None t (Failed ValueError) (db2, snd s)
                              | (Inr _, db2) \<Rightarrow> (db2, snd s))
                        else case prepare_ans x of
                               Inl f \<Rightarrow> fail_run x w t f s1
                             | Inr _ \<Rightarrow> run_ticket rep x (the w) t s1))"

text \<open>\<open>held\<close> is the answer of \<^verbatim>\<open>worktree_lock\<close>, which may raise: its directory or its file cannot be opened.\<close>

definition process_one_ticket ::
  "(pyval \<Rightarrow> string) \<Rightarrow> runner \<Rightarrow> bool res \<Rightarrow> string \<Rightarrow> stamp \<Rightarrow> stamp \<Rightarrow> world \<Rightarrow> bool res \<times> world" where
  "process_one_ticket rep x held root_ident until now s =
     (case claim_next_any rep (run_env x) now (\<lambda>_ d. d) (fst s) of
        (Inl _, db1) \<Rightarrow> (Inl ValueError, (db1, snd s))
      | (Inr None, db1) \<Rightarrow> (Inr False, (db1, snd s))
      | (Inr (Some t), db1) \<Rightarrow>
          (case held of
             Inl e \<Rightarrow> (Inl e, (db1, snd s))
           | Inr h \<Rightarrow>
               (Inr True,
                if h then run_claimed_ticket rep x t (db1, snd s)
                else (snd (defer_ticket (row_id t) until (''worktree '' @ root_ident @ '' in use by another run'')
                        (instant x 0) db1), snd s))))"

section \<open>No ticket is stranded\<close>

definition busy :: "db \<Rightarrow> int set" where
  "busy db = row_id ` {r \<in> set (rows db). status r = ''in_progress''}"

lemma busy_rows: "rows db' = rows db \<Longrightarrow> busy db' = busy db"
  by (simp add: busy_def)

lemma status_rows:
  "st \<in> set valid_status \<Longrightarrow> rows (snd (update_status i st role md now id db)) =
     rows (snd (set_status i st (st \<in> set completed_statuses) md now id db))"
  by (auto simp: update_status_def case_prod_beta insert_event_rows split: option.split sum.split prod.split)

lemma update_returns:
  "st \<in> set valid_status \<Longrightarrow> \<exists>q db'. update_status i st role md now id db = (Inr q, db')"
proof -
  have "some_row (row_is (By_id i)) d" if "set_status i st dn md now id db = (Some r, d)" for dn r d
    using that by (auto simp: set_status_def Let_def fetch_ticket_def find_Some_iff some_row_iff split: option.splits)
  then show "st \<in> set valid_status \<Longrightarrow> \<exists>q db'. update_status i st role md now id db = (Inr q, db')"
    by (auto simp: update_status_def insert_event_def Let_def split: option.split prod.split)
qed

lemma busy_map:
  assumes "rows db' = map (\<lambda>q. if row_id q = i then g q else q) (rows db)"
    and "\<And>q. row_id (g q) = row_id q" and "\<And>q. status (g q) = st"
  shows "busy db' \<subseteq> (if st = ''in_progress'' then insert i (busy db) else busy db - {i})"
proof
  fix k
  assume "k \<in> busy db'"
  then obtain q where q: "q \<in> set (rows db)" and k: "k = row_id (if row_id q = i then g q else q)"
    and run: "status (if row_id q = i then g q else q) = ''in_progress''"
    unfolding busy_def assms(1) set_map by blast
  show "k \<in> (if st = ''in_progress'' then insert i (busy db) else busy db - {i})"
  proof (cases "row_id q = i")
    case True
    then show ?thesis using run k assms(2,3) by simp
  next
    case False
    then have "k \<in> busy db - {i}" using q run k by (simp add: busy_def)
    then show ?thesis by simp
  qed
qed

lemma busy_set_status:
  "busy (snd (set_status i st dn md now id db)) \<subseteq> (if st = ''in_progress'' then insert i (busy db) else busy db - {i})"
proof (cases "fetch_ticket (By_id i) db")
  case None
  then have "i \<notin> busy db"
    by (auto simp: fetch_ticket_def find_None_iff busy_def row_is_def)
  then show ?thesis using None by (auto simp: set_status_def)
next
  case (Some r)
  let ?g = "\<lambda>q. q\<lparr>status := st, updated_at := now, metadata := dict_update (metadata r) md,
      completed_at := (if dn then Some now else completed_at q)\<rparr>"
  have "rows (snd (set_status i st dn md now id db)) = map (\<lambda>q. if row_id q = i then ?g q else q) (rows db)"
    using Some by (simp add: set_status_def Let_def rows_update row_is_def)
  then show ?thesis by (rule busy_map) simp_all
qed

lemma busy_update:
  "st \<in> set valid_status \<Longrightarrow> busy (snd (update_status i st role md now id db))
     \<subseteq> (if st = ''in_progress'' then insert i (busy db) else busy db - {i})"
  using busy_set_status [of i st "st \<in> set completed_statuses" md now db] by (simp add: busy_rows [OF status_rows])

lemmas busy_to = busy_update [of "''blocked''"] busy_update [of "''done''"] busy_update [of "''cancelled''"]
  busy_update [of "''in_review''"] busy_update [of "''todo''"] busy_update [of "''in_progress''"]

lemma event_busy [simp]: "busy (snd (add_event i role knd txt md now db)) = busy db"
  "busy (snd (add_comment i role s md now db)) = busy db"
  by (simp_all add: busy_def add_event_def add_comment_def insert_event_rows)

lemma event_busyD:
  "add_event i role knd txt md now db = (a, d) \<Longrightarrow> busy d = busy db"
  "add_comment i role s md now db = (a, d) \<Longrightarrow> busy d = busy db"
  using event_busy(1) [of i role knd "txt" md now db] event_busy(2) [of i role s md now db] by simp_all

lemma update_busyD:
  "update_status i st role md now id db = (a, d) \<Longrightarrow> st \<in> set valid_status \<Longrightarrow> st \<noteq> ''in_progress''
     \<Longrightarrow> busy d \<subseteq> busy db - {i}"
  using busy_update [of st i role md now db] by simp

lemma fail_run_busy:
  assumes "f \<noteq> Wait_cancelled"
  shows "busy (fst (fail_run x wt t f s)) \<subseteq> busy (fst s) - {row_id t}"
  using assms busy_to(1) by (auto simp: fail_run_def Let_def case_prod_beta valid_status_def)

lemma status_for_cases: "status_for oc \<in> {''done'', ''cancelled'', ''blocked''}"
  by (simp add: status_for_def)

lemma judged_status:
  "initial_verdict rep st = Inr v \<Longrightarrow> new_status v \<in> {''done'', ''cancelled'', ''blocked''}"
  using status_for_cases [of "outcome v"] by (auto simp: initial_verdict_def ebind_Inr_iff Let_def verdict_def split: option.splits)

lemma conclude_status:
  assumes "initial_verdict rep st = Inr v" and "conclude rep w x t st v tr = (Inr (s, md), tr')"
  shows "s \<in> {''done'', ''cancelled'', ''blocked'', ''in_review''}"
proof -
  obtain pr tr1 v2 pr2 lv tr2 where
    live: "live_verify rep w x pr (apply_pr_demotions (ship_env w) pr v) tr1 = (Inr (v2, pr2, lv), tr2)"
    and "s = new_status v2"
    using assms(2) by (auto simp: conclude_def flow_steps)
  moreover have "new_status (apply_pr_demotions (ship_env w) pr v) \<in> {''done'', ''cancelled'', ''blocked'', ''in_review''}"
    using judged_status [OF assms(1)] by (auto simp: apply_pr_demotions_def demote_def)
  moreover have "new_status v2 \<in> {''blocked'', new_status (apply_pr_demotions (ship_env w) pr v)}"
    using live by (auto simp: live_verify_def flow_steps demote_def split: if_splits sum.splits option.splits)
  ultimately show ?thesis by auto
qed

lemma run_ticket_busy:
  assumes "pipeline_ans x \<noteq> Inl Wait_cancelled"
  shows "busy (fst (run_ticket rep x wt t s)) \<subseteq> busy (fst s) - {row_id t}"
proof (cases "pipeline_ans x")
  case (Inl f)
  then show ?thesis using assms fail_run_busy [of f] by (simp add: run_ticket_def)
next
  case (Inr st)
  show ?thesis
  proof (cases "initial_verdict rep st")
    case (Inl e)
    then show ?thesis using Inr fail_run_busy by (simp add: run_ticket_def)
  next
    case v: (Inr v)
    let ?db1 = "record_verdict_event (instant x 1) t v (fst s)"
    have db1: "busy ?db1 = busy (fst s)" by (simp add: record_verdict_event_def)
    obtain res tr1 where con: "conclude rep (place x (Some wt)) (served x) t st v (snd s) = (res, tr1)" by fastforce
    show ?thesis
    proof (cases res)
      case (Inl e)
      then show ?thesis
        using Inr v con fail_run_busy [of "Failed e" x "Some wt" t "(?db1, tr1)"] db1 by (simp add: run_ticket_def Let_def)
    next
      case con': (Inr sm)
      obtain st' md where sm: "sm = (st', md)" by fastforce
      have "st' \<in> {''done'', ''cancelled'', ''blocked'', ''in_review''}"
        using conclude_status [OF v] con con' sm by blast
      then have "busy (snd (update_status (row_id t) st' (Some ''adk_runner'') md (instant x 2) id ?db1)) \<subseteq> busy (fst s) - {row_id t}"
        using busy_to(1-4) [of "row_id t" "Some ''adk_runner''" md "instant x 2" ?db1] db1
        by (auto simp: valid_status_def)
      then show ?thesis
        using Inr v con con' sm fail_run_busy [of "Failed ValueError" x "Some wt" t]
        by (auto simp: run_ticket_def Let_def split: prod.splits sum.splits)
          fastforce+
    qed
  qed
qed

lemma marked_busy:
  "mark_clarified now t db = (p, d) \<Longrightarrow> \<not> p \<and> busy d \<subseteq> insert (row_id t) (busy db)"
  using busy_to(6) [of "row_id t" "Some ''clarify''" "[(''clarified'', PBool True)]" now db]
  by (auto simp: mark_clarified_def valid_status_def)

lemma asked_busy:
  assumes "ask_user now t qs db = (p, d)"
  shows "busy d \<subseteq> (if p then busy db - {row_id t} else busy db)"
proof -
  let ?md = "[(''questions'', PList (map PStr qs))]"
  let ?up = "[(''awaiting_input'', PBool True), (''clarify_questions'', PList (map PStr qs))]"
  obtain r d1 where d1: "add_event (row_id t) (Some ''clarify'') ''clarification'' (Some (clarify_text qs)) ?md now db = (r, d1)"
    by fastforce
  then have same: "busy d1 = busy db"
    using event_busy(1) [of "row_id t" "Some ''clarify''" "''clarification''" "Some (clarify_text qs)" ?md now db] by simp
  obtain r2 d2 where d2: "update_status (row_id t) ''blocked'' (Some ''clarify'') ?up now id d1 = (r2, d2)" by fastforce
  have "busy d2 \<subseteq> busy db - {row_id t}"
    using busy_to(1) [of "row_id t" "Some ''clarify''" ?up now d1] d2 same by (simp add: valid_status_def)
  then show ?thesis
    using assms d1 d2 same by (auto simp: ask_user_def split: sum.splits)
qed

lemma clarify_cases:
  "clarify_parked e reply now t db \<in> {(False, db), mark_clarified now t db} \<union> range (\<lambda>qs. ask_user now t qs db)"
  by (simp add: clarify_parked_def split: sum.split)

lemma clarify_busy:
  assumes "clarify_parked e reply now t db = (p, d)"
  shows "busy d \<subseteq> (if p then busy db - {row_id t} else insert (row_id t) (busy db))"
proof -
  consider "(p, d) = (False, db)" | "mark_clarified now t db = (p, d)" | qs where "ask_user now t qs db = (p, d)"
    using clarify_cases [of e reply now t db] unfolding assms by (elim UnE insertE emptyE rangeE) metis+
  then show ?thesis
  proof cases
    case 1
    then show ?thesis by auto
  next
    case 2
    then show ?thesis using marked_busy [OF 2] by simp
  next
    case 3
    have "busy db - {row_id t} \<subseteq> busy db" by blast
    then show ?thesis using asked_busy [OF 3] by (cases p) auto
  qed
qed

lemma end_workflow_busy:
  assumes "end_workflow rep x t flow_id ps out db = (r, d)"
  shows "r \<noteq> Inl Wait_cancelled \<and> busy d \<subseteq> busy db - {row_id t}"
proof -
  let ?st = "if truthy (dget out ''blocked_by_detectors'') then ''blocked'' else ''done''"
  obtain md a where "update_status (row_id t) ?st (Some ''workflow'') md (instant x 2) id db = (a, d)"
    and "r \<noteq> Inl Wait_cancelled"
    using assms by (auto simp: end_workflow_def Let_def split: sum.splits prod.splits if_splits)
  moreover have "?st \<in> set valid_status" and "?st \<noteq> ''in_progress''" by (simp_all add: valid_status_def)
  ultimately show ?thesis
    using update_busyD by blast
qed

lemma workflow_busy:
  assumes "run_workflow_ticket rep x t db = (r, d)" and "workflow_ans x \<noteq> Inl Wait_cancelled"
  shows "r \<noteq> Inl Wait_cancelled \<and> busy d \<subseteq> (case r of Inl _ \<Rightarrow> busy db | Inr _ \<Rightarrow> busy db - {row_id t})"
proof (cases "workflow_ans x")
  case (Inl f)
  then show ?thesis using assms by (auto simp: run_workflow_ticket_def)
next
  case (Inr out)
  let ?id = "case route_workflow t of None \<Rightarrow> [] | Some w \<Rightarrow> w"
  let ?report = "py_str rep (por (dget out ''udiff'') (PStr []))"
  obtain a d1 where d1: "(if ?report = [] then (Inr 0, db)
      else add_comment (row_id t) (Some ''workflow'') (take_chars 60000 ?report)
             [(''workflow'', PStr ?id), (''target'', dget out ''target'')] (instant x 1) db) = (a, d1)"
    by fastforce
  have same: "busy d1 = busy db"
    using d1 event_busyD(2) [of "row_id t" "Some ''workflow''"] by (cases "?report = []") auto
  consider e where "r = Inl (Failed e)" "d = d1" | ps where "end_workflow rep x t ?id ps out d1 = (r, d)"
    using assms(1) d1 Inr by (auto simp: run_workflow_ticket_def Let_def split: sum.splits)
  then show ?thesis
  proof cases
    case 1
    then show ?thesis using same by simp
  next
    case 2
    then show ?thesis using same end_workflow_busy [OF 2] by (cases r) auto
  qed
qed

text \<open>No answer of the run is a cancelled wait.\<close>

definition uncancelled :: "runner \<Rightarrow> bool" where
  "uncancelled x \<longleftrightarrow> setup_ans x \<noteq> Inl Wait_cancelled \<and> prepare_ans x \<noteq> Inl Wait_cancelled
     \<and> pipeline_ans x \<noteq> Inl Wait_cancelled \<and> workflow_ans x \<noteq> Inl Wait_cancelled"

lemma run_claimed_busy:
  assumes "uncancelled x"
  shows "busy (fst (run_claimed_ticket rep x t s)) \<subseteq> busy (fst s) - {row_id t}"
proof (cases "route t = ''workflow''")
  case True
  obtain r d where d: "run_workflow_ticket rep x t (fst s) = (r, d)" by fastforce
  note w = workflow_busy [OF d]
  show ?thesis
  proof (cases r)
    case (Inl f)
    then show ?thesis
      using True d w assms fail_run_busy [of f x None t "(d, snd s)"] by (auto simp: run_claimed_ticket_def uncancelled_def)
  next
    case (Inr u)
    then show ?thesis using True d w assms by (simp add: run_claimed_ticket_def uncancelled_def)
  qed
next
  case False
  obtain p d where d: "clarify_parked (run_env x) (triage_ans x) (instant x 0) t (fst s) = (p, d)" by fastforce
  note gate = clarify_busy [OF d]
  have goal: "busy (fst (run_claimed_ticket rep x t s)) \<subseteq> busy d - {row_id t}" if "\<not> p"
  proof (cases "setup_ans x")
    case (Inl f)
    then show ?thesis
      using False d that assms fail_run_busy [of f x None t "(d, snd s)"] by (simp add: run_claimed_ticket_def uncancelled_def)
  next
    case (Inr wt)
    obtain a d2 where d2: "update_status (row_id t) ''blocked'' (Some ''adk_runner'')
        (no_repo_metadata (run_env x) (shown_project t)) (instant x 1) id d = (a, d2)" by fastforce
    have "busy d2 \<subseteq> busy d - {row_id t}"
      using update_busyD [OF d2] by (simp add: valid_status_def)
    then have none: "busy (fst (case a of Inl _ \<Rightarrow> fail_run x None t (Failed ValueError) (d2, snd s) | Inr _ \<Rightarrow> (d2, snd s)))
        \<subseteq> busy d - {row_id t}"
      using fail_run_busy [of "Failed ValueError" x None t "(d2, snd s)"] by (auto split: sum.split)
    have some: "busy (fst (case prepare_ans x of Inl f \<Rightarrow> fail_run x wt t f (d, snd s)
        | Inr _ \<Rightarrow> run_ticket rep x (the wt) t (d, snd s))) \<subseteq> busy d - {row_id t}"
      using assms fail_run_busy [of _ x wt t "(d, snd s)"] run_ticket_busy [of x rep "the wt" t "(d, snd s)"]
      by (cases "prepare_ans x") (auto simp: uncancelled_def)
    show ?thesis
      using False d d2 that Inr none some by (simp add: run_claimed_ticket_def Let_def)
  qed
  show ?thesis
  proof (cases p)
    case True
    then show ?thesis using False d gate by (simp add: run_claimed_ticket_def)
  next
    case False
    then show ?thesis using goal gate by auto
  qed
qed

lemma claim_busy:
  assumes "db_ok db" and "claim_next_any rep e now (\<lambda>_ d. d) db = (Inr c, d)"
  shows "busy d \<subseteq> (case c of None \<Rightarrow> busy db | Some t \<Rightarrow> insert (row_id t) (busy db))"
proof -
  obtain q d1 where q: "claim_oldest rep (excluded_projects e) now (\<lambda>_ d. d) db = (q, d1)" by fastforce
  then have ev: "claim_event [] now (q, d1) = (Inr c, d)" using assms(2) by (simp add: claim_next_any_def)
  then have "rows d = rows d1" using claim_event_rows [of "[]" now q d1] by simp
  then have same: "busy d = busy d1" by (rule busy_rows)
  show ?thesis
  proof (cases q)
    case None
    have "select_claimable rep (excluded_projects e) now db = None"
    proof (rule ccontr)
      assume "select_claimable rep (excluded_projects e) now db \<noteq> None"
      then obtain p where p: "select_claimable rep (excluded_projects e) now db = Some p" by blast
      then have "fetch_ticket (By_id (row_id p)) db = Some p"
        using select_claimable_Some [OF p] fetch_unique [OF assms(1)] by blast
      then show False using q None p by (simp add: claim_quiet Let_def fetch_update)
    qed
    then show ?thesis using q ev same None by (auto simp: claim_quiet claim_event_def)
  next
    case (Some r)
    obtain p where p: "r = claimed now p"
      and d1: "d1 = update_rows (\<lambda>q. row_id q = row_id p \<and> status q = ''todo'') (claimed now) db"
      using claim_quiet_Some [OF assms(1)] q Some by blast
    have "c = Some (from_row r)"
      using ev Some by (auto simp: claim_event_def split: sum.splits prod.splits)
    moreover have "busy d1 \<subseteq> insert (row_id p) (busy db)"
      by (auto simp: busy_def d1 rows_update)
    ultimately show ?thesis using same p by simp
  qed
qed

text \<open>C9. No ticket is stranded: a poll that returns leaves in progress only tickets that were in progress
  before it, whatever the clarification, the workspace, the pipeline, the tools and the services answer,
  unless a wait for the model was cancelled.\<close>

theorem no_ticket_stranded:
  assumes "db_ok (fst s)" and "uncancelled x"
    and "process_one_ticket rep x held root_ident until now s = (Inr b, s')"
  shows "busy (fst s') \<subseteq> busy (fst s)"
proof -
  obtain c d where c: "claim_next_any rep (run_env x) now (\<lambda>_ d. d) (fst s) = (Inr c, d)"
    using assms(3) by (auto simp: process_one_ticket_def split: sum.splits prod.splits)
  note claim = claim_busy [OF assms(1) c]
  show ?thesis
  proof (cases c)
    case None
    then show ?thesis using assms(3) c claim by (auto simp: process_one_ticket_def)
  next
    case (Some t)
    have gone: "busy (snd (defer_ticket (row_id t) until m z d)) \<subseteq> busy d - {row_id t}" for m z
      using busy_to(5) by (simp add: defer_ticket_def valid_status_def)
    obtain h where h: "held = Inr h"
      using assms(3) c Some by (auto simp: process_one_ticket_def split: sum.splits)
    have "busy (fst s') \<subseteq> busy d - {row_id t}"
    proof (cases h)
      case True
      then have "s' = run_claimed_ticket rep x t (d, snd s)"
        using assms(3) c Some h by (simp add: process_one_ticket_def)
      then show ?thesis using run_claimed_busy [OF assms(2), of rep t "(d, snd s)"] by simp
    next
      case False
      then show ?thesis using assms(3) c Some h gone by (simp add: process_one_ticket_def) (metis fst_conv)
    qed
    then show ?thesis using claim Some by auto
  qed
qed

section \<open>What goes wrong\<close>

lemma rescue_acts: "snd (rescue_partial_work w t tr) = snd (commit_push_open_pr w t tr)"
  by (cases "commit_push_open_pr w t tr") (simp add: rescue_partial_work_def fcatch_def fret_def split: sum.split)

lemma fail_run_acts:
  "f \<noteq> Wait_cancelled \<Longrightarrow> route t \<noteq> ''workflow'' \<Longrightarrow>
     snd (fail_run x wt t f s) = snd (commit_push_open_pr (place x wt) t (snd s))"
  using rescue_acts [of "place x wt" t "snd s"] by (simp add: fail_run_def case_prod_beta Let_def)

text \<open>The set-up of the worktree gave no worktree: it raised, or it answered that there is none.\<close>

definition no_worktree :: "runner \<Rightarrow> bool" where
  "no_worktree x \<longleftrightarrow> (case setup_ans x of Inl f \<Rightarrow> True | Inr w \<Rightarrow> w = None \<or> w = Some [])"

text \<open>C40. A code ticket that was not parked with questions and has no worktree: where the set-up answers that
  there is none, no command is run; where the wait for the model was cancelled, none either; but where
  the set-up raises, the rescue ships, with the ticket's name and on the ticket's branch, whatever the
  repository holds that the process finds without a worktree. This repository, \<open>place x None\<close>, is a parameter:
  \<^verbatim>\<open>_resolve_repo_root\<close> takes the one of the request, then \<^verbatim>\<open>AIFORGE_REPO_ROOT\<close>, then \<^verbatim>\<open>~/aiforge_workspace\<close>,
  and the set-up binds none of them to the ticket before it has a worktree.\<close>

theorem failed_setup_ships_default:
  assumes "route t \<noteq> ''workflow''" and "\<not> fst (clarify_parked (run_env x) (triage_ans x) (instant x 0) t (fst s))"
    and "no_worktree x"
  shows "snd (run_claimed_ticket rep x t s) =
    (case setup_ans x of
       Inr _ \<Rightarrow> snd s
     | Inl f \<Rightarrow> if f = Wait_cancelled then snd s else snd (commit_push_open_pr (place x None) t (snd s)))"
proof -
  obtain d where d: "clarify_parked (run_env x) (triage_ans x) (instant x 0) t (fst s) = (False, d)"
    using assms(2) by (cases "clarify_parked (run_env x) (triage_ans x) (instant x 0) t (fst s)") simp
  show ?thesis
  proof (cases "setup_ans x")
    case (Inl f)
    then have "run_claimed_ticket rep x t s = fail_run x None t f (d, snd s)"
      using d assms(1) by (simp add: run_claimed_ticket_def)
    then show ?thesis
      using Inl fail_run_acts [OF _ assms(1), of f x None "(d, snd s)"] by (simp add: fail_run_def)
  next
    case (Inr w)
    then have "w = None \<or> w = Some []" using assms(3) by (simp add: no_worktree_def)
    moreover obtain q d2 where "update_status (row_id t) ''blocked'' (Some ''adk_runner'')
        (no_repo_metadata (run_env x) (shown_project t)) (instant x 1) id d = (Inr q, d2)"
      using update_returns [of "''blocked''"] by (fastforce simp: valid_status_def)
    ultimately show ?thesis using Inr d assms(1) by (auto simp: run_claimed_ticket_def)
  qed
qed

text \<open>A repository where every command succeeds, with one changed file and a remote.\<close>

definition dirty_repo :: repo where
  "dirty_repo = bare_repo\<lparr>dot_git := True, git := \<lambda>_ argv. Inr (0,
     (if take 2 argv = [''git'', ''status''] then '' M core.py''
      else if take 2 argv = [''git'', ''diff-tree''] then ''core.py''
      else if take 2 argv = [''git'', ''remote''] then ''origin'' else []), [])\<rparr>"

definition sample_runner :: runner where
  "sample_runner = \<lparr>place = \<lambda>_. dirty_repo, triage_ans = Inr [], setup_ans = Inl (Failed ValueError), prepare_ans = Inr (),
     pipeline_ans = Inr (\<lambda>_. None), workflow_ans = Inr [], served = quiet_services, fail_text = \<lambda>_. [],
     run_env = \<lambda>_. None, instant = \<lambda>_. ''z''\<rparr>"

lemma dirty_shipped:
  "pushes (snd (commit_push_open_pr dirty_repo blank_ticket [])) = [[''git'', ''push'', ''-u'', ''origin'', ''aiforge/ONE-100'']]"
  by code_simp

theorem failed_setup_ships_default_witness:
  "pushes (snd (run_claimed_ticket (\<lambda>_. []) sample_runner blank_ticket (empty_db, []))) =
     [[''git'', ''push'', ''-u'', ''origin'', ''aiforge/ONE-100'']]"
  using failed_setup_ships_default [of blank_ticket sample_runner "(empty_db, [])" "\<lambda>_. []"] dirty_shipped
  by (simp add: sample_runner_def blank_ticket_def blank_draft_def clarify_parked_def dget_def no_worktree_def)

text \<open>A lock of the worktree that cannot be opened strands the ticket: the error leaves the poll with the
  ticket claimed and no status written.\<close>

theorem lock_error_strands:
  assumes "db_ok (fst s)" and "claim_next_any rep (run_env x) now (\<lambda>_ d. d) (fst s) = (Inr (Some t), d)"
  shows "process_one_ticket rep x (Inl e) root_ident until now s = (Inl e, (d, snd s)) \<and> row_id t \<in> busy d"
proof -
  obtain q d1 where q: "claim_oldest rep (excluded_projects (run_env x)) now (\<lambda>_ d. d) (fst s) = (q, d1)" by fastforce
  then have ev: "claim_event [] now (q, d1) = (Inr (Some t), d)" using assms(2) by (simp add: claim_next_any_def)
  then have same: "busy d = busy d1" using claim_event_rows [of "[]" now q d1] by (intro busy_rows) simp
  obtain r where r: "q = Some r" and t: "t = from_row r"
    using ev by (auto simp: claim_event_def split: option.splits sum.splits prod.splits)
  obtain p where sel: "select_claimable rep (excluded_projects (run_env x)) now (fst s) = Some p"
    and rp: "r = claimed now p" "p \<in> set (rows (fst s))"
    and d1: "d1 = update_rows (\<lambda>q. row_id q = row_id p \<and> status q = ''todo'') (claimed now) (fst s)"
    using claim_quiet_Some [OF assms(1) q [unfolded r]] by blast
  note p = rp select_claimable_Some [OF sel, THEN conjunct2, THEN conjunct1, unfolded claimable_def, THEN conjunct1]
  have "claimed now p \<in> set (rows d1)" using p(2,3) by (auto simp: d1 rows_update image_iff)
  then have "row_id (claimed now p) \<in> busy d1" unfolding busy_def by (intro imageI) simp
  then have "row_id p \<in> busy d1" by simp
  then show ?thesis
    using assms(2) same t p(1) by (simp add: process_one_ticket_def)
qed

text \<open>A store with one ticket to do.\<close>

definition todo_db :: db where
  "todo_db = sample_db\<lparr>rows := [sample_row\<lparr>status := ''todo''\<rparr>]\<rparr>"

lemma todo_ok: "db_ok todo_db"
  using sample_ok by (simp add: todo_db_def sample_db_def db_ok_def)

lemma todo_claim:
  "\<exists>t d. claim_next_any (\<lambda>_. []) (\<lambda>_. None) ''z'' (\<lambda>_ d. d) todo_db = (Inr (Some t), d)"
proof -
  let ?r = "sample_row\<lparr>status := ''todo''\<rparr>"
  have r: "claimable (\<lambda>_. []) ex ''z'' ?r" "rows todo_db = [?r]" for ex
    by (simp_all add: claimable_def retry_due_def dget_def todo_db_def)
      (simp add: sample_row_def ticket.defs blank_draft_def)
  then have sel: "select_claimable (\<lambda>_. []) ex ''z'' todo_db = Some ?r" for ex
    by (simp add: select_claimable_def)
  have "fst (claim_next_any (\<lambda>_. []) (\<lambda>_. None) ''z'' (\<lambda>_ d. d) todo_db) = Inr (Some (from_row (claimed ''z'' ?r)))"
    using claim_event_made [of "claimed ''z'' ?r" "update_rows (\<lambda>q. row_id q = row_id ?r \<and> status q = ''todo'') (claimed ''z'') todo_db"]
    by (simp add: claim_next_any_def claim_quiet sel Let_def fetch_ticket_def rows_update r(2) row_is_def row_ids_def)
  then show ?thesis by (metis prod.collapse)
qed

theorem lock_error_strands_witness:
  "\<exists>t d. claim_next_any (\<lambda>_. []) (\<lambda>_. None) ''z'' (\<lambda>_ d. d) todo_db = (Inr (Some t), d) \<and>
     process_one_ticket (\<lambda>_. []) sample_runner (Inl ValueError) ''r'' ''u'' ''z'' (todo_db, []) = (Inl ValueError, (d, [])) \<and>
     row_id t \<in> busy d"
proof -
  obtain t d where c: "claim_next_any (\<lambda>_. []) (\<lambda>_. None) ''z'' (\<lambda>_ d. d) todo_db = (Inr (Some t), d)"
    using todo_claim by blast
  then show ?thesis
    using lock_error_strands [of "(todo_db, [])" "\<lambda>_. []" sample_runner "''z''" t d] todo_ok
    by (simp add: sample_runner_def)
qed

theorem no_ticket_stranded_witness:
  "\<exists>s'. process_one_ticket (\<lambda>_. []) sample_runner (Inr True) ''r'' ''u'' ''z'' (todo_db, []) = (Inr True, s') \<and>
     busy (fst s') \<subseteq> busy todo_db"
proof -
  obtain t d where c: "claim_next_any (\<lambda>_. []) (\<lambda>_. None) ''z'' (\<lambda>_ d. d) todo_db = (Inr (Some t), d)"
    using todo_claim by blast
  then obtain s' where s': "process_one_ticket (\<lambda>_. []) sample_runner (Inr True) ''r'' ''u'' ''z'' (todo_db, []) = (Inr True, s')"
    by (simp add: process_one_ticket_def sample_runner_def)
  have "uncancelled sample_runner" by (simp add: uncancelled_def sample_runner_def)
  then show ?thesis using s' no_ticket_stranded [OF _ _ s'] todo_ok by auto
qed

end
