(* ===== verification/Spec2Isabelle.thy ===== *)
theory Spec2Isabelle
  imports Escalate Loop_Budget Pipeline_Graph Rate_Limiter Sync_Manifest Sync_Role Retry_Policy Chat_Gate
    Ticket_Reaper Subtasks Ticket_Run
begin

text \<open>
  AIForgeCrew is a crew of coding agents: a chat and a ticket pipeline send a task to language models,
  run the tools the models ask for, and carry what was learned into a memory that machines share. This
  development models the parts that decide: when an agent is stuck and when it must stop, when a
  pipeline loops, re-plans and ends, how often a model may be called and how long one is waited for,
  which calls of a tool run without asking, who works on a ticket and when it is done, and what a machine
  accepts from another.

  Conventions. A Python \<^verbatim>\<open>int\<close> is an \<open>int\<close>; a \<^verbatim>\<open>float\<close> that carries a time, a rate or a ratio is an
  exact rational (rounding, \<^verbatim>\<open>inf\<close> and \<^verbatim>\<open>nan\<close> are not modelled); a text is its UTF-8 byte string
  (theory \<open>Py_Strings\<close>); a value of unknown type is a \<open>pyval\<close>, a dictionary an association list in
  insertion order (theories \<open>Py_Values\<close>, \<open>Ordered_Table\<close>). The environment is a function from names to
  optional texts. What the code reads from outside (clocks, files, \<^verbatim>\<open>git\<close>, digests, YAML, the network)
  is an argument: a value, a record, or a stream of records with one entry per pass of a loop. An
  expression that may raise has a result \<open>py_exc + 'a\<close> (theory \<open>Prelude\<close>). Log lines and the wording
  of messages nobody parses are left out.

  The guards of a run (\<^verbatim>\<open>aiforge_core/runtime/\<close>: \<^verbatim>\<open>stuck_policy\<close>, \<^verbatim>\<open>loop_guards\<close>, \<^verbatim>\<open>stuck_detect\<close>,
  \<^verbatim>\<open>progress\<close>, \<^verbatim>\<open>escalate\<close>, \<^verbatim>\<open>handoff\<close>, \<^verbatim>\<open>session_state\<close>).
  \<open>Stuck_Policy\<close> reads the knobs and proves that whatever the environment holds the ten knobs it clamps
  are in range (four it does not clamp; \<open>Gates\<close> shows what a negative one does). \<open>Trip_Guard\<close> states the contract the guards share (a locale: quiet, a nudge, then a
  stop), which \<open>Loop_Guards\<close> (same failure, no progress) and \<open>Stuck_Detect\<close> (idle replies) interpret;
  \<open>Stuck_Detect\<close> also has the repeat detectors and the text similarity. \<open>Progress\<close> keeps the counters of
  one loop, the workspace fingerprint they are bound to, the strikes of a repeated action and the
  recoveries; its lemmas show that strikes end a run and that recoveries are rationed. \<open>Escalate\<close> is the
  response ladder with \<open>Handoff\<close> and \<open>Session_State\<close>.

  The ticket pipeline (\<^verbatim>\<open>aiforge_core/runtime/pipeline/\<close> and \<^verbatim>\<open>doer_loop\<close>). \<open>Json\<close> and \<open>Verdicts\<close> parse
  what a model answered (JSON in prose, verdict words, complexity); \<open>Loop_Budget\<close> has the watchdogs of the
  doer loop, \<open>Quality_Gate\<close> the objective gate, \<open>Gates\<close> every gate of the graph as a function on the
  session, and \<open>Pipeline_Graph\<close> the graph as a step relation whose runs are proved finite, with a bound on
  the passes of the doer.

  The governor of model calls (\<^verbatim>\<open>aiforge_core/llm/\<close>: \<^verbatim>\<open>rate_limiter\<close>, \<^verbatim>\<open>_rate_*\<close>, \<^verbatim>\<open>_shared_window*\<close>,
  \<^verbatim>\<open>interactive_gate\<close>, \<^verbatim>\<open>slots\<close>). \<open>Rate_Window\<close> has the sliding windows of the process and of the machine
  (one locale, two interpretations: no window ever holds more than its ceiling), \<open>Shared_Store\<close> the
  store of the machine with its degradation and its holds, \<open>Rate_Buckets\<close> the buckets of a provider,
  \<open>Slots\<close> the slots of a local server, \<open>Interactive_Gate\<close> the priority of people over background work,
  and \<open>Rate_Limiter\<close> composes them into \<^verbatim>\<open>acquire_global\<close>. Loops that wait are instances of \<open>wait_run\<close>
  (theory \<open>Waiting\<close>): its fuel bounds the passes, and each \<open>patient\<close> interpretation gives a rank that
  falls with every pass, so a stated amount of fuel is enough. For a parked call the rank counts steps of the
  clocks: the only assumption is that the clocks of this and of other processes tick in steps of one
  fixed length, and that the monotonic one does not run back.

  The availability of a model (\<^verbatim>\<open>aiforge_core/llm/\<close>: \<^verbatim>\<open>model_outage\<close>, \<^verbatim>\<open>endpoint_breaker\<close>,
  \<^verbatim>\<open>request_health\<close>, \<^verbatim>\<open>_model_probe\<close>, \<^verbatim>\<open>_probe_states\<close>, \<^verbatim>\<open>model_wait\<close>, \<^verbatim>\<open>_wait_scope\<close>,
  \<^verbatim>\<open>_crash_watch\<close>, \<^verbatim>\<open>retry_policy\<close>). \<open>Failure_Chain\<close> has the exceptions of a failed call as a heap, so a
  chain may be a circle; \<open>Model_Outage\<close> classifies it; \<open>Endpoint_Breaker\<close> skips dead endpoints, exactly
  as a reference definition over the history of connects says; \<open>Request_Health\<close> counts stalls;
  \<open>Model_Probe\<close> reads a one-token completion; \<open>Model_Wait\<close> waits for the model, and counts a failure
  against a request only on clear evidence; \<open>Retry_Policy\<close> decides which layer tries again. The chain of
  causes is cut at 8 links as in the code.

  Memory sync (\<^verbatim>\<open>aiforge_core/memory/sync/\<close>). \<open>Sync_Merge\<close> has the merge rule (proved to fetch exactly what
  the join of both sides needs, so that peers converge), \<open>Sync_Paths\<close> names and layout over a tree of files, \<open>Sync_Apply\<close> what a record may write
  (nothing in the authored tree but tombstones; a node and a tombstone of one identity are not compared),
  \<open>Sync_Manifest\<close> what is advertised, \<open>Sync_Role\<close> the role of the machine.

  The approval of tool calls (\<^verbatim>\<open>aiforge_core/runtime/\<close>: \<^verbatim>\<open>chat_approve\<close>, \<^verbatim>\<open>tool_gate\<close>, \<^verbatim>\<open>chat_steer\<close>,
  \<^verbatim>\<open>chat_agent/_turn/_approval\<close>, \<^verbatim>\<open>tools/command_risk\<close>, \<^verbatim>\<open>tools/delete_guard\<close>, \<^verbatim>\<open>tools/tool_policy\<close>,
  \<^verbatim>\<open>tools/mutating\<close>, \<^verbatim>\<open>rule_capture/_gates\<close>; \<^verbatim>\<open>aiforge_core/config/approval_settings\<close>). \<open>Regex\<close> is a
  matcher with the meaning of Python's \<^verbatim>\<open>re\<close>, with the lemma that a match survives in a larger text;
  \<open>Delete_Guard\<close> and \<open>Command_Risk\<close> hold the patterns and the verdicts, \<open>Tool_Policy\<close> the decision
  allow, ask or deny, \<open>Gate_Flags\<close> the opt-ins, \<open>Approval_Settings\<close> the switches of the modes and chats.
  \<open>Approvals\<close> is the registry of requests: a heap of entries and threads whose critical sections
  interleave, with an invariant by rule induction from which it follows that no action runs without a
  yes that was accepted in its session, on the open card and in time. \<open>Tool_Gate\<close> and \<open>Chat_Gate\<close> are the two gates; both interpret \<open>call_gate\<close>, the contract a gate
  owes the policy. Matches look only at ASCII letters; the fuel of a search is the length of the text,
  which every round of a repetition shortens.

  Tickets and what a run ships (\<^verbatim>\<open>aiforge_core/tickets/\<close>, \<^verbatim>\<open>aiforge_core/runtime/git_pr/\<close>).
  \<open>Ticket_Db\<close> has the three tables as lists and every statement on them, \<open>Ticket_Store\<close> the operations
  of the store with the safety floor of a new ticket; their lemmas show that the tables stay consistent
  and which ticket a claim takes. \<open>Ticket_Claims\<close> puts several runs with their heartbeats, the reaper,
  deferrals, crashes and the operator over one store, as moves at instants; \<open>Ticket_Heartbeat\<close> shows
  that a run that beats in time keeps its ticket, that a ticket has one holder, and that an overtaken run never
  holds it again, \<open>Ticket_Reaper\<close> that
  requeues are rationed, and what goes wrong between the two statements of a reap. \<open>Subtasks\<close> replays
  the plan of a ticket from its events. \<open>Ship_Paths\<close> judges paths, \<open>Ship_Work\<close> runs
  \<^verbatim>\<open>git\<close> and \<^verbatim>\<open>gh\<close> as flows that keep the list of what they did; a calculus of what a flow adds
  to the list shows that only the ticket's own branch is ever pushed.

  One ticket from claim to status (\<^verbatim>\<open>aiforge_core/runtime/adk_runner/\<close>, \<^verbatim>\<open>runtime/clarify\<close>).
  \<open>Run_Verdict\<close> reads the session state a pipeline run left, \<open>Run_Outcome\<close> revises the verdict by what
  \<^verbatim>\<open>git\<close> and the live verifier say, ships, and forms the status, \<open>Ticket_Run\<close> composes claim,
  clarification, workflow, pipeline and the branch that handles a failure over the store and the list of
  commands. Their lemmas show exactly when a run of the pipeline marks its ticket done, what such a ticket has passed,
  up to the loop gate of the graph, that no ticket stays behind in progress, and what a failed set-up ships.

  Not modelled. Pure input and output: the HTTP servers and clients, the web and editor front ends, the
  command line, process control and the file system beyond the trees above.
  Failures of the database itself (a locked or full file): every statement of the ticket
  store answers, so the branch for a status that cannot be written has no counterpart. The YAML reader and
  what it raises. Prompts and their assembly, whose only specification is their text. What a model answers. The parts
  that decide but were not reached: the rest of the memory (the markdown store,
  consolidation, unified queries), the transport, snapshots, redaction and groups of memory sync, the
  failover of the chat's model, the orchestration of parallel subtasks, the chat turn itself with its
  context and compaction, jobs, egress and indexing.
\<close>

end
